(* ===== verification/Prelude.thy ===== *)
theory Prelude
  imports Main "HOL-Library.Sublist"
begin

text \<open>
  The vocabulary every component shares: the outcome type of a fallible Go
  function, PostgreSQL tables as lists of rows with the statement forms the code
  uses (SELECT of one row, EXISTS, UPDATE and DELETE with a WHERE clause), the
  functions of Go's \<^verbatim>\<open>strings\<close> package the code calls, and a locale for step
  relations with an invariant. The collections \<open>sql_simps\<close> and \<open>go_string_simps\<close>
  carry the proofs of the component theories.
\<close>

named_theorems sql_simps \<open>rewrite rules for the table operations\<close>
named_theorems go_string_simps \<open>unfolding rules for Go string functions\<close>

section \<open>Tables\<close>

text \<open>
  A table is the list of its rows. \<open>QueryRow\<close> on a statement without ORDER BY
  takes any matching row; the model takes the first. UPDATE and DELETE act on
  every row that satisfies the WHERE clause and leave the others in place.
\<close>

definition select_one :: "('r \<Rightarrow> bool) \<Rightarrow> 'r list \<Rightarrow> 'r option" where
  "select_one P rows = List.find P rows"

definition row_exists :: "('r \<Rightarrow> bool) \<Rightarrow> 'r list \<Rightarrow> bool" where
  "row_exists P rows = list_ex P rows"

definition update_where :: "('r \<Rightarrow> bool) \<Rightarrow> ('r \<Rightarrow> 'r) \<Rightarrow> 'r list \<Rightarrow> 'r list" where
  "update_where P f rows = map (\<lambda>r. if P r then f r else r) rows"

definition delete_where :: "('r \<Rightarrow> bool) \<Rightarrow> 'r list \<Rightarrow> 'r list" where
  "delete_where P rows = filter (\<lambda>r. \<not> P r) rows"

section \<open>Go strings\<close>

text \<open>
  A Go string is its bytes, a \<open>char list\<close>. \<open>strings.TrimSpace\<close> strips the
  code points with the Unicode property White\_Space; \<open>space_runes\<close> lists their
  UTF-8 encodings. The encodings are self-synchronising, so a leading (trailing)
  code point is white space exactly when the byte string starts (ends) with one
  of them.
\<close>

definition has_prefix :: "string \<Rightarrow> string \<Rightarrow> bool" where
  "has_prefix s p = (take (length p) s = p)"

definition has_suffix :: "string \<Rightarrow> string \<Rightarrow> bool" where
  "has_suffix s p = (length p \<le> length s \<and> drop (length s - length p) s = p)"

definition trim_prefix :: "string \<Rightarrow> string \<Rightarrow> string" where
  "trim_prefix s p = (if has_prefix s p then drop (length p) s else s)"

definition trim_suffix :: "string \<Rightarrow> string \<Rightarrow> string" where
  "trim_suffix s p = (if has_suffix s p then take (length s - length p) s else s)"

fun str_contains :: "string \<Rightarrow> string \<Rightarrow> bool" where
  "str_contains [] p = (p = [])"
| "str_contains (c # s) p = (has_prefix (c # s) p \<or> str_contains s p)"

definition space_runes :: "string list" where
  "space_runes =
     [[CHR 0x09], [CHR 0x0A], [CHR 0x0B], [CHR 0x0C], [CHR 0x0D], [CHR 0x20],
      [CHR 0xC2, CHR 0x85], [CHR 0xC2, CHR 0xA0], [CHR 0xE1, CHR 0x9A, CHR 0x80],
      [CHR 0xE2, CHR 0x80, CHR 0x80], [CHR 0xE2, CHR 0x80, CHR 0x81],
      [CHR 0xE2, CHR 0x80, CHR 0x82], [CHR 0xE2, CHR 0x80, CHR 0x83],
      [CHR 0xE2, CHR 0x80, CHR 0x84], [CHR 0xE2, CHR 0x80, CHR 0x85],
      [CHR 0xE2, CHR 0x80, CHR 0x86], [CHR 0xE2, CHR 0x80, CHR 0x87],
      [CHR 0xE2, CHR 0x80, CHR 0x88], [CHR 0xE2, CHR 0x80, CHR 0x89],
      [CHR 0xE2, CHR 0x80, CHR 0x8A], [CHR 0xE2, CHR 0x80, CHR 0xA8],
      [CHR 0xE2, CHR 0x80, CHR 0xA9], [CHR 0xE2, CHR 0x80, CHR 0xAF],
      [CHR 0xE2, CHR 0x81, CHR 0x9F], [CHR 0xE3, CHR 0x80, CHR 0x80]]"

definition strip_one :: "string list \<Rightarrow> string \<Rightarrow> string option" where
  "strip_one rs s =
     (case List.find (\<lambda>p. p \<noteq> [] \<and> has_prefix s p) rs of
        None \<Rightarrow> None
      | Some p \<Rightarrow> Some (drop (length p) s))"

lemma strip_one_shorter: "strip_one rs s = Some s' \<Longrightarrow> length s' < length s"
  by (auto simp: strip_one_def find_Some_iff has_prefix_def split: option.splits)
     (metis diff_less length_drop length_greater_0_conv list.size(3) take_eq_Nil2 length_0_conv)

function strip_all :: "string list \<Rightarrow> string \<Rightarrow> string" where
  "strip_all rs s = (case strip_one rs s of None \<Rightarrow> s | Some s' \<Rightarrow> strip_all rs s')"
  by pat_completeness auto
termination
  by (relation "measure (\<lambda>(rs, s). length s)") (auto dest: strip_one_shorter)

declare strip_all.simps [simp del]

definition trim_left :: "string \<Rightarrow> string" where
  "trim_left s = strip_all space_runes s"

definition trim_right :: "string \<Rightarrow> string" where
  "trim_right s = rev (strip_all (map rev space_runes) (rev s))"

definition trim_space :: "string \<Rightarrow> string" where
  "trim_space s = trim_right (trim_left s)"

section \<open>Step relations with an invariant\<close>

text \<open>
  A component whose operations run one transaction after another is a step
  relation; a safety property is an invariant of its reachable states. The
  locale is interpreted on the hub's transactions and on the passes of the drain scheduler.
\<close>

locale step_system =
  fixes init :: "'s \<Rightarrow> bool"
    and step :: "'s \<Rightarrow> 's \<Rightarrow> bool"
    and inv :: "'s \<Rightarrow> bool"
  assumes init_inv: "init s \<Longrightarrow> inv s"
    and step_inv: "step s t \<Longrightarrow> inv s \<Longrightarrow> inv t"
begin

lemma steps_inv: "step\<^sup>*\<^sup>* s t \<Longrightarrow> inv s \<Longrightarrow> inv t"
  by (induction rule: rtranclp_induct) (auto intro: step_inv)

lemma reachable_inv: "init s \<Longrightarrow> step\<^sup>*\<^sup>* s t \<Longrightarrow> inv t"
  by (blast intro: steps_inv init_inv)

lemma steps_relate:
  assumes run: "step\<^sup>*\<^sup>* s t" and "inv s"
    and refl: "\<And>x. R x x"
    and trans: "\<And>x y z. R x y \<Longrightarrow> R y z \<Longrightarrow> R x z"
    and one: "\<And>x y. step x y \<Longrightarrow> inv x \<Longrightarrow> R x y"
  shows "R s t"
  using run
proof (induction rule: rtranclp_induct)
  case base
  show ?case by (rule refl)
next
  case (step y z)
  then have "inv y" using steps_inv \<open>inv s\<close> by blast
  with step one trans show ?case by blast
qed

end

section \<open>Lemmas on tables\<close>

lemma select_one_Some [sql_simps]:
  "select_one P rows = Some r \<Longrightarrow> r \<in> set rows \<and> P r"
  by (auto simp: select_one_def find_Some_iff)

lemma select_one_None [sql_simps]:
  "select_one P rows = None \<longleftrightarrow> (\<forall>r \<in> set rows. \<not> P r)"
  by (auto simp: select_one_def find_None_iff)

lemma select_one_unique:
  assumes "r \<in> set rows" "P r" "\<And>r'. r' \<in> set rows \<Longrightarrow> P r' \<Longrightarrow> r' = r"
  shows "select_one P rows = Some r"
proof (cases "select_one P rows")
  case None
  with assms(1,2) show ?thesis by (auto simp: select_one_None)
next
  case (Some r')
  with assms(3) show ?thesis by (auto dest: select_one_Some)
qed

lemma row_exists_iff [sql_simps]: "row_exists P rows \<longleftrightarrow> (\<exists>r \<in> set rows. P r)"
  by (simp add: row_exists_def list_ex_iff)

lemma set_update_where [sql_simps]:
  "set (update_where P f rows) = (\<lambda>r. if P r then f r else r) ` set rows"
  by (simp add: update_where_def)

lemma set_delete_where [sql_simps]: "set (delete_where P rows) = {r \<in> set rows. \<not> P r}"
  by (auto simp: delete_where_def)

lemma map_update_where_frame:
  "(\<And>r. P r \<Longrightarrow> g (f r) = g r) \<Longrightarrow> map g (update_where P f rows) = map g rows"
  by (simp add: update_where_def)

lemma distinct_map_delete_where:
  "distinct (map g rows) \<Longrightarrow> distinct (map g (delete_where P rows))"
  by (auto simp: delete_where_def distinct_map_filter)

lemma key_eqD:
  assumes "distinct (map g rows)" "x \<in> set rows" "y \<in> set rows" "g x = g y"
  shows "x = y"
  using assms by (meson distinct_map inj_on_eq_iff)

lemma select_one_key:
  assumes "distinct (map g rows)" "r \<in> set rows"
  shows "select_one (\<lambda>x. g x = g r) rows = Some r"
  using assms by (intro select_one_unique) (auto dest: key_eqD)

section \<open>Lemmas on Go strings\<close>

lemma has_prefix_iff: "has_prefix s p \<longleftrightarrow> (\<exists>t. s = p @ t)"
proof
  assume "has_prefix s p"
  then have "s = p @ drop (length p) s"
    by (metis append_take_drop_id has_prefix_def)
  then show "\<exists>t. s = p @ t" ..
qed (auto simp: has_prefix_def)

lemma has_suffix_iff: "has_suffix s p \<longleftrightarrow> (\<exists>t. s = t @ p)"
proof
  assume "has_suffix s p"
  then have "s = take (length s - length p) s @ p"
    by (metis append_take_drop_id has_suffix_def)
  then show "\<exists>t. s = t @ p" ..
qed (auto simp: has_suffix_def)

lemma has_prefix_append [simp]: "has_prefix (p @ t) p"
  by (simp add: has_prefix_def)

lemma trim_prefix_append [simp]: "trim_prefix (p @ t) p = t"
  by (simp add: trim_prefix_def)

lemma strip_all_fixed: "strip_one rs (strip_all rs s) = None"
proof (induction rs s rule: strip_all.induct)
  case (1 rs s)
  then show ?case
    by (cases "strip_one rs s") (simp_all add: strip_all.simps [of rs s])
qed

lemma strip_all_id: "strip_one rs s = None \<Longrightarrow> strip_all rs s = s"
  by (simp add: strip_all.simps)

lemma strip_all_idem [simp]: "strip_all rs (strip_all rs s) = strip_all rs s"
  by (simp add: strip_all_fixed strip_all_id)

lemma strip_one_Nil [simp]: "strip_one rs [] = None"
  by (auto simp: strip_one_def find_None_iff has_prefix_def split: option.splits)

lemma trim_space_Nil [simp]: "trim_space [] = []"
  by (simp add: trim_space_def trim_left_def trim_right_def strip_all_id)

text \<open>
  No encoding of a white-space code point is a prefix (or a suffix) of another,
  so stripping white space is insensitive to what follows it.
\<close>

definition prefix_free :: "string list \<Rightarrow> bool" where
  "prefix_free rs = list_all (\<lambda>p. p \<noteq> [] \<and> list_all (\<lambda>q. has_prefix q p \<longrightarrow> q = p) rs) rs"

lemma prefix_free_space_runes: "prefix_free space_runes" "prefix_free (map rev space_runes)"
  by code_simp+

lemma has_prefix_mono: "has_prefix x p \<Longrightarrow> has_prefix (x @ y) p"
  by (auto simp: has_prefix_iff)

lemma prefix_free_find:
  assumes "prefix_free rs" "p \<in> set rs" "has_prefix s p"
  shows "List.find (\<lambda>q. q \<noteq> [] \<and> has_prefix s q) rs = Some p"
proof -
  have uniq: "q = p" if "q \<in> set rs" "has_prefix s q" for q
  proof -
    from that(2) obtain a where "s = q @ a" unfolding has_prefix_iff ..
    moreover from assms(3) obtain b where "s = p @ b" unfolding has_prefix_iff ..
    ultimately have "has_prefix q p \<or> has_prefix p q"
      by (metis append_eq_append_conv2 has_prefix_append)
    with assms(1,2) that(1) show "q = p" by (auto simp: prefix_free_def list_all_iff)
  qed
  have "p \<noteq> []" using assms(1,2) by (auto simp: prefix_free_def list_all_iff)
  then have "select_one (\<lambda>q. q \<noteq> [] \<and> has_prefix s q) rs = Some p"
    using assms(2,3) uniq by (intro select_one_unique) blast+
  then show ?thesis by (simp add: select_one_def)
qed

lemma strip_all_rune:
  assumes "prefix_free rs" "p \<in> set rs"
  shows "strip_all rs (p @ y) = strip_all rs y"
  using prefix_free_find [OF assms, of "p @ y"]
  by (simp add: strip_all.simps [of rs "p @ y"] strip_one_def)

lemma strip_all_runes:
  "prefix_free rs \<Longrightarrow> set ps \<subseteq> set rs \<Longrightarrow> strip_all rs (concat ps @ y) = strip_all rs y"
  by (induction ps) (simp_all add: strip_all_rune)

lemma strip_all_split: "\<exists>ps. set ps \<subseteq> set rs \<and> s = concat ps @ strip_all rs s"
proof (induction rs s rule: strip_all.induct)
  case (1 rs s)
  show ?case
  proof (cases "strip_one rs s")
    case None
    then have "set [] \<subseteq> set rs \<and> s = concat [] @ strip_all rs s" by (simp add: strip_all_id)
    then show ?thesis by blast
  next
    case (Some s')
    then obtain p where p: "p \<in> set rs" "s = p @ s'"
      by (auto simp: strip_one_def find_Some_iff has_prefix_iff split: option.splits)
         (metis append_eq_conv_conj nth_mem)
    from "1.IH" [OF Some] obtain ps where "set ps \<subseteq> set rs" "s' = concat ps @ strip_all rs s'"
      by blast
    moreover from Some have "strip_all rs s = strip_all rs s'" by (simp add: strip_all.simps [of rs s])
    ultimately have "set (p # ps) \<subseteq> set rs \<and> s = concat (p # ps) @ strip_all rs s"
      using p by simp
    then show ?thesis by blast
  qed
qed

lemma trim_right_blank:
  assumes "trim_space s = []"
  shows "trim_right (t @ s) = trim_right t"
proof -
  let ?R = "map rev space_runes"
  from strip_all_split obtain ps where
    ps: "set ps \<subseteq> set space_runes" "s = concat ps @ trim_left s"
    unfolding trim_left_def by blast
  from strip_all_split obtain qs where
    qs: "set qs \<subseteq> set ?R" "rev (trim_left s) = concat qs @ strip_all ?R (rev (trim_left s))"
    by blast
  have "strip_all ?R (rev (trim_left s)) = []"
    using assms by (simp add: trim_space_def trim_right_def)
  with qs have "rev (trim_left s) = concat qs" by simp
  moreover have "rev (concat ps) = concat (rev (map rev ps))" by (simp add: rev_concat rev_map)
  ultimately have "rev (t @ s) = concat qs @ concat (rev (map rev ps)) @ rev t"
    by (subst ps(2)) simp
  moreover have "set (rev (map rev ps)) \<subseteq> set ?R" using ps(1) by auto
  ultimately have "strip_all ?R (rev (t @ s)) = strip_all ?R (rev t)"
    using qs(1) by (simp add: strip_all_runes prefix_free_space_runes)
  then show ?thesis by (simp add: trim_right_def)
qed

end
