(* ===== verification/Lock_Keys.thy ===== *)
theory Lock_Keys
  imports Prelude
begin

text \<open>
  Declared resources, the resource locks they derive, and the probe that decides
  which existing lock keys a declaration collides with
  (\<^verbatim>\<open>internal/domain/conflicts.go\<close>, \<^verbatim>\<open>internal/domain/declared_resources.go\<close>,
  \<^verbatim>\<open>deriveClaimLocks\<close> of \<^verbatim>\<open>internal/domain/run_attempts.go\<close>). The stored
  JSONB column is modelled by its parsed value; the SQL predicate of a probe is
  evaluated by \<open>like_match\<close>, the LIKE operator with the default escape. The
  lemmas show that the SQL predicate and its Go mirror agree, that a probe
  detects exactly the declarations of the same file, and that a declaration the
  mapper drops is reported.
\<close>

section \<open>JSON payloads\<close>

datatype json =
    JNull
  | JBool bool
  | JNum string
  | JStr string
  | JArr "json list"
  | JObj "(string \<times> json) list"

text \<open>\<open>None\<close> is a NULL column, an empty \<^verbatim>\<open>json.RawMessage\<close>.\<close>

type_synonym raw_json = "json option"

text \<open>
  \<^verbatim>\<open>json.Unmarshal\<close> into \<^verbatim>\<open>[]map[string]any\<close>: an array whose elements are
  objects; a null element leaves a nil map, which reads as empty. The type
  assertion \<^verbatim>\<open>item[key].(string)\<close> gives the zero value for an absent key or a
  value of another type.
\<close>

fun json_objects :: "json list \<Rightarrow> (string \<times> json) list list option" where
  "json_objects [] = Some []"
| "json_objects (JObj fs # js) = map_option (Cons fs) (json_objects js)"
| "json_objects (JNull # js) = map_option (Cons []) (json_objects js)"
| "json_objects (j # js) = None"

definition str_field :: "(string \<times> json) list \<Rightarrow> string \<Rightarrow> string" where
  "str_field item key = (case map_of item key of Some (JStr s) \<Rightarrow> s | _ \<Rightarrow> [])"

section \<open>Declared resources\<close>

record declared_resource_item =
  dr_type :: string
  dr_uri :: string
  dr_repo :: string
  dr_intent :: string
  dr_base_branch :: string
  dr_task_branch :: string

definition declaredResourceTypes :: "string list" where
  "declaredResourceTypes =
     [''repo'', ''path'', ''document'', ''section'', ''service'', ''external_ref'']"

definition resourceLockTypes :: "string list" where
  "resourceLockTypes = [''git_branch'', ''worktree'', ''file_scope'', ''tcp_port'', ''deploy_env'']"

definition declaredResourceURISchemes :: "string \<rightharpoonup> string" where
  "declaredResourceURISchemes =
     map_of [(''repo'', ''repo:''), (''path'', ''file:''), (''document'', ''file:''),
             (''section'', ''file:''), (''service'', ''service:''), (''external_ref'', [])]"

definition normalizeRepo :: "string \<Rightarrow> string" where
  "normalizeRepo repo = trim_space repo"

fun declaredRepoDefault_loop :: "string \<Rightarrow> declared_resource_item list \<Rightarrow> string" where
  "declaredRepoDefault_loop repo [] = repo"
| "declaredRepoDefault_loop repo (it # its) =
     (if dr_type it \<noteq> ''repo'' then declaredRepoDefault_loop repo its
      else let name = normalizeRepo (trim_prefix (dr_uri it) ''repo:'')
           in if name = [] then declaredRepoDefault_loop repo its
              else if repo \<noteq> [] \<and> repo \<noteq> name then []
              else declaredRepoDefault_loop name its)"

definition declaredRepoDefault :: "declared_resource_item list \<Rightarrow> string" where
  "declaredRepoDefault items = declaredRepoDefault_loop [] items"

definition resolveDeclaredRepos ::
    "declared_resource_item list \<Rightarrow> declared_resource_item list" where
  "resolveDeclaredRepos items =
     (let def = declaredRepoDefault items
      in if def = [] then items
         else map (\<lambda>it. if dr_repo it = [] then it\<lparr>dr_repo := def\<rparr> else it) items)"

definition item_of_object :: "(string \<times> json) list \<Rightarrow> declared_resource_item" where
  "item_of_object item =
     \<lparr>dr_type = str_field item ''type'', dr_uri = str_field item ''uri'',
      dr_repo = str_field item ''repo'', dr_intent = str_field item ''intent'',
      dr_base_branch = str_field item ''base_branch'',
      dr_task_branch = str_field item ''task_branch''\<rparr>"

text \<open>\<open>None\<close> is the outcome \<^verbatim>\<open>ok=false\<close>: not a JSON array of objects.\<close>

definition decodeDeclaredResources :: "raw_json \<Rightarrow> declared_resource_item list option" where
  "decodeDeclaredResources raw =
     (case raw of
        None \<Rightarrow> Some []
      | Some JNull \<Rightarrow> Some []
      | Some (JArr js) \<Rightarrow>
          (case json_objects js of
             None \<Rightarrow> None
           | Some items \<Rightarrow> Some (resolveDeclaredRepos (map item_of_object items)))
      | Some _ \<Rightarrow> None)"

definition unmarshalDeclaredResources :: "raw_json \<Rightarrow> declared_resource_item list" where
  "unmarshalDeclaredResources raw =
     (case decodeDeclaredResources raw of None \<Rightarrow> [] | Some items \<Rightarrow> items)"

section \<open>Lock keys and probes\<close>

definition fileURIToLockKey :: "string \<Rightarrow> string" where
  "fileURIToLockKey uri = trim_prefix uri ''file:''"

definition fileScopeLockKey :: "string \<Rightarrow> string \<Rightarrow> string \<Rightarrow> string" where
  "fileScopeLockKey project repo uri =
     (let repo = normalizeRepo repo
      in if repo = [] then project @ '':'' @ fileURIToLockKey uri
         else project @ '':'' @ repo @ '':'' @ fileURIToLockKey uri)"

definition resourceToLock :: "declared_resource_item \<Rightarrow> string \<Rightarrow> string \<times> string" where
  "resourceToLock res project =
     (if dr_type res \<in> set [''path'', ''document'', ''section''] then
        (if trim_space (fileURIToLockKey (dr_uri res)) = [] then ([], [])
         else (''file_scope'', fileScopeLockKey project (dr_repo res) (dr_uri res)))
      else if dr_type res \<in> set [''repo'', ''service'', ''external_ref''] then ([], [])
      else ([], []))"

definition derivedLock :: "declared_resource_item \<Rightarrow> string \<Rightarrow> string \<times> string" where
  "derivedLock res project =
     (case resourceToLock res project of
        (lockType, lockKey) \<Rightarrow>
          if lockType = ''file_scope'' \<and> dr_intent res = ''read'' then ([], [])
          else (lockType, lockKey))"

record lock_conflict_probe =
  probe_keys :: "string list"
  like_pattern :: string
  any_repo_prefix :: string
  any_repo_suffix :: string

definition exactProbeMulti :: "string list \<Rightarrow> lock_conflict_probe" where
  "exactProbeMulti keys =
     \<lparr>probe_keys = keys, like_pattern = [], any_repo_prefix = [], any_repo_suffix = []\<rparr>"

definition exactProbe :: "string \<Rightarrow> lock_conflict_probe" where
  "exactProbe key = exactProbeMulti [key]"

text \<open>\<^verbatim>\<open>strings.NewReplacer\<close> on single-byte patterns replaces byte by byte.\<close>

definition like_escape_char :: "char \<Rightarrow> string" where
  "like_escape_char c =
     (if c = CHR 0x5C \<or> c = CHR ''%'' \<or> c = CHR ''_'' then [CHR 0x5C, c] else [c])"

definition likeEscape :: "string \<Rightarrow> string" where
  "likeEscape s = concat (map like_escape_char s)"

definition fileScopeConflictProbe :: "string \<Rightarrow> string \<Rightarrow> string \<Rightarrow> lock_conflict_probe" where
  "fileScopeConflictProbe project repo uri =
     (let path = fileURIToLockKey uri
      in if normalizeRepo repo = [] then
           \<lparr>probe_keys = [fileScopeLockKey project [] uri],
            like_pattern = likeEscape project @ '':%:'' @ likeEscape path,
            any_repo_prefix = project @ '':'',
            any_repo_suffix = '':'' @ path\<rparr>
         else exactProbeMulti [fileScopeLockKey project repo uri, fileScopeLockKey project [] uri])"

definition derivedLockProbe ::
    "declared_resource_item \<Rightarrow> string \<Rightarrow> (string \<times> string \<times> lock_conflict_probe)" where
  "derivedLockProbe res project =
     (case derivedLock res project of
        (lockType, lockKey) \<Rightarrow>
          if lockType = [] then ([], [], exactProbeMulti [])
          else if lockType = ''file_scope'' then
            (lockType, lockKey, fileScopeConflictProbe project (dr_repo res) (dr_uri res))
          else (lockType, lockKey, exactProbe lockKey))"

definition probe_matches :: "lock_conflict_probe \<Rightarrow> string \<Rightarrow> bool" where
  "probe_matches p existing =
     (if existing \<in> set (probe_keys p) then True
      else if like_pattern p = [] then False
      else length existing \<ge> length (any_repo_prefix p) + length (any_repo_suffix p) \<and>
           has_prefix existing (any_repo_prefix p) \<and> has_suffix existing (any_repo_suffix p))"

definition globOverlap :: "string \<Rightarrow> string \<Rightarrow> bool" where
  "globOverlap a b =
     (if a = b then True
      else if has_prefix a b \<or> has_prefix b a then True
      else let aBase = trim_suffix a ''/**''; bBase = trim_suffix b ''/**''
           in has_prefix aBase bBase \<or> has_prefix bBase aBase)"

definition probe_overlaps :: "lock_conflict_probe \<Rightarrow> string \<Rightarrow> bool" where
  "probe_overlaps p existing =
     (if probe_matches p existing then True
      else list_ex (\<lambda>k. globOverlap k existing) (probe_keys p))"

text \<open>
  SQL LIKE with the default escape character: a backslash quotes the next
  character, a percent sign matches any sequence, an underscore any character.
\<close>

fun like_match :: "string \<Rightarrow> string \<Rightarrow> bool" where
  "like_match [] t = (t = [])"
| "like_match (c # p) t =
     (if c = CHR 0x5C then
        (case p of [] \<Rightarrow> False
         | d # p' \<Rightarrow> (case t of [] \<Rightarrow> False | x # t' \<Rightarrow> x = d \<and> like_match p' t'))
      else if c = CHR ''%'' then
        like_match p t \<or> (case t of [] \<Rightarrow> False | x # t' \<Rightarrow> like_match (c # p) t')
      else if c = CHR ''_'' then (case t of [] \<Rightarrow> False | x # t' \<Rightarrow> like_match p t')
      else (case t of [] \<Rightarrow> False | x # t' \<Rightarrow> x = c \<and> like_match p t'))"

declare like_match.simps(2) [simp del]

text \<open>The key half of \<^verbatim>\<open>lockConflictWhereClause\<close>.\<close>

definition lockConflictWhere :: "lock_conflict_probe \<Rightarrow> string \<Rightarrow> bool" where
  "lockConflictWhere p key =
     (key \<in> set (probe_keys p) \<or> (like_pattern p \<noteq> [] \<and> like_match (like_pattern p) key))"

section \<open>Derivation of a claim's locks\<close>

record resource_lock_req =
  rq_type :: string
  rq_key :: string

fun derive_locks_loop ::
    "string \<Rightarrow> declared_resource_item list \<Rightarrow> (resource_lock_req \<times> lock_conflict_probe) list" where
  "derive_locks_loop project [] = []"
| "derive_locks_loop project (d # ds) =
     (case derivedLockProbe d project of
        (lockType, lockKey, probe) \<Rightarrow>
          if lockType = [] \<or> lockKey = [] then derive_locks_loop project ds
          else (\<lparr>rq_type = lockType, rq_key = lockKey\<rparr>, probe) # derive_locks_loop project ds)"

text \<open>
  The Go function writes the derived locks back into the request and returns the
  probes; the model returns both, paired index for index.
\<close>

definition deriveClaimLocks ::
    "resource_lock_req list \<Rightarrow> raw_json \<Rightarrow> string \<Rightarrow>
     (resource_lock_req \<times> lock_conflict_probe) list" where
  "deriveClaimLocks requested declared project =
     (if requested \<noteq> [] \<or> declared = None then map (\<lambda>l. (l, exactProbe (rq_key l))) requested
      else derive_locks_loop project (unmarshalDeclaredResources declared))"

text \<open>
  \<^verbatim>\<open>UnrecognizedDeclaredResources\<close>: one descriptor per entry the mapper cannot
  use. The prose of a descriptor is represented by which of the four messages it
  is, with the entry's index.
\<close>

datatype unrecognized =
    NotAnArray
  | TypeAcquiresNoLock nat string
  | AdvisoryNoURI nat string
  | NoURINoLock nat string

definition has_effective_uri :: "string \<Rightarrow> string \<Rightarrow> bool" where
  "has_effective_uri typ uri =
     (let effURI = trim_space uri;
          effURI' = (case declaredResourceURISchemes typ of
                       Some scheme \<Rightarrow>
                         if scheme \<noteq> [] \<and> has_prefix effURI scheme
                         then trim_space (trim_prefix effURI scheme) else effURI
                     | None \<Rightarrow> effURI)
      in effURI' \<noteq> [])"

definition unrecognized_entry :: "nat \<Rightarrow> string \<Rightarrow> string \<Rightarrow> unrecognized option" where
  "unrecognized_entry i typ uri =
     (if typ \<notin> set declaredResourceTypes then Some (TypeAcquiresNoLock i typ)
      else if typ \<noteq> ''external_ref'' \<and> \<not> has_effective_uri typ uri then
        (if typ = ''repo'' \<or> typ = ''service'' then Some (AdvisoryNoURI i typ)
         else Some (NoURINoLock i typ))
      else None)"

fun unrecognized_loop :: "nat \<Rightarrow> (string \<times> json) list list \<Rightarrow> unrecognized list" where
  "unrecognized_loop i [] = []"
| "unrecognized_loop i (item # items) =
     (case unrecognized_entry i (str_field item ''type'') (str_field item ''uri'') of
        None \<Rightarrow> unrecognized_loop (Suc i) items
      | Some d \<Rightarrow> d # unrecognized_loop (Suc i) items)"

definition UnrecognizedDeclaredResources :: "raw_json \<Rightarrow> unrecognized list" where
  "UnrecognizedDeclaredResources raw =
     (case raw of
        None \<Rightarrow> []
      | Some JNull \<Rightarrow> []
      | Some (JArr js) \<Rightarrow>
          (case json_objects js of None \<Rightarrow> [NotAnArray] | Some items \<Rightarrow> unrecognized_loop 0 items)
      | Some _ \<Rightarrow> [NotAnArray])"

text \<open>\<^verbatim>\<open>ValidateRequestedLocks\<close>: true when the slice is accepted, false when the
  request is refused with BAD\_REQUEST.\<close>

definition requested_lock_ok :: "resource_lock_req \<Rightarrow> bool" where
  "requested_lock_ok l = (rq_type l \<in> set resourceLockTypes \<and> trim_space (rq_key l) \<noteq> [])"

definition ValidateRequestedLocks :: "resource_lock_req list \<Rightarrow> bool" where
  "ValidateRequestedLocks locks = list_all requested_lock_ok locks"

section \<open>The SQL predicate and its Go mirror agree\<close>

lemma like_match_quoted [simp]:
  "like_match (CHR 0x5C # d # p) t = (case t of [] \<Rightarrow> False | x # t' \<Rightarrow> x = d \<and> like_match p t')"
  by (simp add: like_match.simps(2))

lemma like_match_percent:
  "like_match (CHR ''%'' # p) t \<longleftrightarrow>
     like_match p t \<or> (case t of [] \<Rightarrow> False | x # t' \<Rightarrow> like_match (CHR ''%'' # p) t')"
  by (subst like_match.simps(2)) simp

lemma like_match_literal:
  "c \<noteq> CHR 0x5C \<Longrightarrow> c \<noteq> CHR ''%'' \<Longrightarrow> c \<noteq> CHR ''_'' \<Longrightarrow>
   like_match (c # p) t = (case t of [] \<Rightarrow> False | x # t' \<Rightarrow> x = c \<and> like_match p t')"
  by (simp add: like_match.simps(2))

lemma like_match_escape_char:
  "like_match (like_escape_char c @ p) t =
     (case t of [] \<Rightarrow> False | x # t' \<Rightarrow> x = c \<and> like_match p t')"
  by (auto simp: like_escape_char_def like_match_literal)

lemma likeEscape_Cons [simp]: "likeEscape (c # s) = like_escape_char c @ likeEscape s"
  by (simp add: likeEscape_def)

lemma likeEscape_Nil [simp]: "likeEscape [] = []"
  by (simp add: likeEscape_def)

lemma like_match_escape:
  "like_match (likeEscape a @ p) t \<longleftrightarrow> (\<exists>u. t = a @ u \<and> like_match p u)"
  by (induction a arbitrary: t) (auto simp: like_match_escape_char split: list.splits)

lemma like_match_escape_exact: "like_match (likeEscape a) t \<longleftrightarrow> t = a"
  using like_match_escape [of a "[]" t] by simp

lemma like_match_any: "like_match (CHR ''%'' # p) t \<longleftrightarrow> (\<exists>u v. t = u @ v \<and> like_match p v)"
proof (induction t)
  case Nil
  then show ?case by (subst like_match_percent) simp
next
  case (Cons x t)
  have "like_match (CHR ''%'' # p) (x # t) \<longleftrightarrow>
        like_match p (x # t) \<or> (\<exists>u v. t = u @ v \<and> like_match p v)"
    by (subst like_match_percent) (simp add: Cons.IH)
  also have "\<dots> \<longleftrightarrow> (\<exists>u v. x # t = u @ v \<and> like_match p v)"
    by (metis Cons_eq_append_conv append_Cons append_Nil)
  finally show ?case .
qed

lemma any_repo_pattern:
  "like_match (likeEscape project @ '':%:'' @ likeEscape path) key \<longleftrightarrow>
   (\<exists>mid. key = project @ '':'' @ mid @ '':'' @ path)"
proof -
  have colon: "like_match ('':'' @ p) t \<longleftrightarrow> (\<exists>u. t = CHR '':'' # u \<and> like_match p u)" for p t
    using like_match_literal [of "CHR '':''" p t] by (auto split: list.splits)
  have "like_match ('':%:'' @ likeEscape path) t \<longleftrightarrow>
        (\<exists>mid. t = '':'' @ mid @ '':'' @ path)" for t
    using colon [of "CHR ''%'' # '':'' @ likeEscape path" t]
      colon [of "likeEscape path"]
    by (auto simp: like_match_any like_match_escape_exact)
  then show ?thesis by (auto simp: like_match_escape)
qed

lemma prefix_suffix_split:
  "length key \<ge> length p + length s \<and> has_prefix key p \<and> has_suffix key s \<longleftrightarrow>
   (\<exists>mid. key = p @ mid @ s)"
proof
  assume h: "length key \<ge> length p + length s \<and> has_prefix key p \<and> has_suffix key s"
  from h obtain u where u: "key = p @ u" unfolding has_prefix_iff by blast
  from h obtain v where v: "key = v @ s" unfolding has_suffix_iff by blast
  from h v have "length p \<le> length v" by simp
  with u v have "v = p @ drop (length p) v"
    by (metis append_eq_append_conv_if append_take_drop_id)
  with v show "\<exists>mid. key = p @ mid @ s" by (metis append.assoc)
next
  assume "\<exists>mid. key = p @ mid @ s"
  then obtain mid where key: "key = p @ mid @ s" ..
  then have "key = (p @ mid) @ s" by simp
  with key show "length key \<ge> length p + length s \<and> has_prefix key p \<and> has_suffix key s"
    unfolding has_prefix_iff has_suffix_iff by auto
qed

lemma probe_matches_file_scope:
  "probe_matches (fileScopeConflictProbe project repo uri) key =
   lockConflictWhere (fileScopeConflictProbe project repo uri) key"
proof (cases "normalizeRepo repo = []")
  case True
  have "like_pattern (fileScopeConflictProbe project repo uri) \<noteq> []"
    using True by (simp add: fileScopeConflictProbe_def Let_def)
  moreover have "(length (project @ '':'') + length ('':'' @ fileURIToLockKey uri) \<le> length key \<and>
      has_prefix key (project @ '':'') \<and> has_suffix key ('':'' @ fileURIToLockKey uri)) =
      like_match (likeEscape project @ '':%:'' @ likeEscape (fileURIToLockKey uri)) key"
    unfolding prefix_suffix_split any_repo_pattern by simp
  ultimately show ?thesis
    using True
    by (simp add: probe_matches_def lockConflictWhere_def fileScopeConflictProbe_def Let_def)
next
  case False
  then show ?thesis
    by (simp add: probe_matches_def lockConflictWhere_def fileScopeConflictProbe_def Let_def
        exactProbeMulti_def)
qed

section \<open>What a probe detects\<close>

definition colon_free :: "string \<Rightarrow> bool" where
  "colon_free s \<longleftrightarrow> CHR '':'' \<notin> set s"

lemma split_first_colon:
  "colon_free x \<Longrightarrow> colon_free y \<Longrightarrow>
   x @ CHR '':'' # a = y @ CHR '':'' # b \<longleftrightarrow> x = y \<and> a = b"
proof (induction x arbitrary: y)
  case Nil
  then show ?case by (cases y) (auto simp: colon_free_def)
next
  case (Cons c x)
  then show ?case by (cases y) (auto simp: colon_free_def)
qed

lemma split_last_colon:
  assumes "colon_free a" "colon_free b"
  shows "x @ CHR '':'' # a = y @ CHR '':'' # b \<longleftrightarrow> x = y \<and> a = b"
proof -
  have "x @ CHR '':'' # a = y @ CHR '':'' # b \<longleftrightarrow>
        rev (x @ CHR '':'' # a) = rev (y @ CHR '':'' # b)" by (simp only: rev_is_rev_conv)
  also have "\<dots> \<longleftrightarrow> rev a @ CHR '':'' # rev x = rev b @ CHR '':'' # rev y" by simp
  also have "\<dots> \<longleftrightarrow> rev a = rev b \<and> rev x = rev y"
    using assms by (intro split_first_colon) (simp_all add: colon_free_def)
  finally show ?thesis by auto
qed

lemma colon_free_no_colon: "colon_free s \<Longrightarrow> s \<noteq> x @ CHR '':'' # y"
  by (auto simp: colon_free_def)

text \<open>
  The abstract reading of two file declarations: they name the same file when
  their projects and paths agree and their repositories agree or one of them is
  unspecified.
\<close>

definition same_file ::
    "string \<Rightarrow> string \<Rightarrow> string \<Rightarrow> string \<Rightarrow> string \<Rightarrow> string \<Rightarrow> bool" where
  "same_file project1 repo1 uri1 project2 repo2 uri2 \<longleftrightarrow>
     project1 = project2 \<and> fileURIToLockKey uri1 = fileURIToLockKey uri2 \<and>
     (normalizeRepo repo1 = [] \<or> normalizeRepo repo2 = [] \<or>
      normalizeRepo repo1 = normalizeRepo repo2)"

definition key_parts_colon_free :: "string \<Rightarrow> string \<Rightarrow> string \<Rightarrow> bool" where
  "key_parts_colon_free project repo uri \<longleftrightarrow>
     colon_free project \<and> colon_free (normalizeRepo repo) \<and> colon_free (fileURIToLockKey uri)"

lemma fileScopeLockKey_eq_iff:
  assumes "key_parts_colon_free p1 r1 u1" "key_parts_colon_free p2 r2 u2"
  shows "fileScopeLockKey p1 r1 u1 = fileScopeLockKey p2 r2 u2 \<longleftrightarrow>
         p1 = p2 \<and> normalizeRepo r1 = normalizeRepo r2 \<and>
         fileURIToLockKey u1 = fileURIToLockKey u2"
  using assms
  by (auto simp: fileScopeLockKey_def Let_def key_parts_colon_free_def split_first_colon
      colon_free_no_colon colon_free_no_colon [symmetric] dest: colon_free_no_colon)

lemma normalizeRepo_Nil [simp]: "normalizeRepo [] = []"
  by (simp add: normalizeRepo_def)

lemma key_parts_unqualified:
  "key_parts_colon_free p r u \<Longrightarrow> key_parts_colon_free p [] u"
  by (simp add: key_parts_colon_free_def colon_free_def)

lemma any_repo_key:
  assumes k: "key_parts_colon_free p1 r1 u1" and q: "key_parts_colon_free p2 r2 u2"
  shows "(\<exists>mid. fileScopeLockKey p1 r1 u1 = p2 @ '':'' @ mid @ '':'' @ fileURIToLockKey u2) \<longleftrightarrow>
         p1 = p2 \<and> normalizeRepo r1 \<noteq> [] \<and> fileURIToLockKey u1 = fileURIToLockKey u2"
proof (cases "normalizeRepo r1 = []")
  case True
  then show ?thesis
    using k q
    by (auto simp: fileScopeLockKey_def Let_def key_parts_colon_free_def split_first_colon
        dest: colon_free_no_colon)
next
  case False
  have "(normalizeRepo r1 @ CHR '':'' # fileURIToLockKey u1 = mid @ CHR '':'' # fileURIToLockKey u2)
        \<longleftrightarrow> normalizeRepo r1 = mid \<and> fileURIToLockKey u1 = fileURIToLockKey u2" for mid
    using k q by (intro split_last_colon) (auto simp: key_parts_colon_free_def)
  with False show ?thesis
    using k q
    by (auto simp: fileScopeLockKey_def Let_def key_parts_colon_free_def split_first_colon)
qed

lemma probe_detects_same_file:
  assumes "key_parts_colon_free p1 r1 u1" "key_parts_colon_free p2 r2 u2"
  shows "lockConflictWhere (fileScopeConflictProbe p2 r2 u2) (fileScopeLockKey p1 r1 u1) \<longleftrightarrow>
         same_file p1 r1 u1 p2 r2 u2"
proof (cases "normalizeRepo r2 = []")
  case True
  with assms show ?thesis
    using any_repo_key [OF assms]
    by (auto simp: lockConflictWhere_def fileScopeConflictProbe_def Let_def any_repo_pattern [simplified]
        fileScopeLockKey_eq_iff key_parts_unqualified same_file_def)
next
  case False
  with assms show ?thesis
    using fileScopeLockKey_eq_iff [OF assms]
      fileScopeLockKey_eq_iff [OF assms(1) key_parts_unqualified [OF assms(2)]]
    by (auto simp: lockConflictWhere_def fileScopeConflictProbe_def Let_def exactProbeMulti_def
        same_file_def)
qed

section \<open>Dropped declarations are reported\<close>

lemma strip_one_prefix_cases:
  "list_all (\<lambda>p. p \<noteq> [] \<longrightarrow> hd p \<noteq> c) rs \<Longrightarrow> strip_one rs (c # s) = None"
  by (auto simp: strip_one_def find_None_iff has_prefix_iff list_all_iff Cons_eq_append_conv
      split: option.splits dest!: select_one_Some [unfolded select_one_def])

lemma trim_left_file: "trim_left (''file:'' @ s) = ''file:'' @ s"
proof -
  have "strip_one space_runes (CHR ''f'' # ''ile:'' @ s) = None"
    by (rule strip_one_prefix_cases) code_simp
  then show ?thesis by (simp add: trim_left_def strip_all_id)
qed

lemma blank_file_uri_not_effective:
  assumes ty: "typ \<in> set [''path'', ''document'', ''section'']"
    and blank: "trim_space (fileURIToLockKey uri) = []"
  shows "\<not> has_effective_uri typ uri"
proof (cases "has_prefix uri ''file:''")
  case True
  then obtain s where uri: "uri = ''file:'' @ s" by (auto simp: has_prefix_iff)
  with blank have "trim_space s = []" by (simp add: fileURIToLockKey_def del: append.simps)
  then have "trim_right (''file:'' @ s) = trim_right ''file:''" by (rule trim_right_blank)
  also have "\<dots> = ''file:''" by code_simp
  finally have "trim_space uri = ''file:''" by (simp add: uri trim_space_def trim_left_file del: append.simps)
  with ty show ?thesis
    by (auto simp: has_effective_uri_def declaredResourceURISchemes_def Let_def has_prefix_def
        trim_prefix_def)
next
  case False
  with blank have "trim_space uri = []" by (simp add: fileURIToLockKey_def trim_prefix_def)
  with ty show ?thesis
    by (auto simp: has_effective_uri_def declaredResourceURISchemes_def has_prefix_def)
qed

lemma dropped_entry_reported:
  assumes none: "fst (resourceToLock res project) = []"
    and ty: "dr_type res \<notin> set [''repo'', ''service'', ''external_ref'']"
  shows "unrecognized_entry i (dr_type res) (dr_uri res) \<noteq> None"
proof (cases "dr_type res \<in> set [''path'', ''document'', ''section'']")
  case True
  with none have "trim_space (fileURIToLockKey (dr_uri res)) = []"
    by (auto simp: resourceToLock_def split: if_splits)
  from blank_file_uri_not_effective [OF True this] True show ?thesis
    by (auto simp: unrecognized_entry_def)
next
  case False
  with ty have "dr_type res \<notin> set declaredResourceTypes"
    by (auto simp: declaredResourceTypes_def)
  then show ?thesis by (simp add: unrecognized_entry_def)
qed

lemma unrecognized_loop_nth:
  assumes "i < length items"
    and "unrecognized_entry (k + i) (str_field (items ! i) ''type'') (str_field (items ! i) ''uri'')
         = Some d"
  shows "d \<in> set (unrecognized_loop k items)"
  using assms
proof (induction k items arbitrary: i rule: unrecognized_loop.induct)
  case (1 k)
  then show ?case by simp
next
  case (2 k item items)
  show ?case
  proof (cases i)
    case 0
    with 2 show ?thesis by simp
  next
    case (Suc j)
    with 2 have "d \<in> set (unrecognized_loop (Suc k) items)" by (cases "unrecognized_entry k (str_field item ''type'') (str_field item ''uri'')") auto
    then show ?thesis by (simp split: option.splits)
  qed
qed

end
