(* ===== verification/Hub_Tables.thy ===== *)
theory Hub_Tables
  imports Lock_Keys
begin

text \<open>
  The hub's database: the error values of \<^verbatim>\<open>internal/domain/errors.go\<close>, one
  record per table the coordination code reads and writes, the record \<open>hub\<close> of
  all tables, and the uniqueness constraints the migrations put on them.

  A transaction is a function from a \<open>hub\<close> to an error or a new \<open>hub\<close>. An error
  rolls the transaction back, so the caller keeps the old \<open>hub\<close>. Columns no
  modelled statement reads (labels, milestone, sequence numbers, the random ids of
  event rows and of lock operations) are left out; clock readings and freshly drawn
  ids are arguments. Epochs and versions are BIGINT columns that only ever move by
  one, and are modelled by \<open>int\<close>.
\<close>

section \<open>Errors\<close>

datatype err_code =
    ErrBadRequest | ErrGoalMultiline | ErrGoalChangeNotAllowed | ErrInvalidPhaseYAML
  | ErrInvalidStepTransition | ErrProjectAmbiguous | ErrWITypeMismatch
  | ErrInvalidMemoryType | ErrComposeFailed | ErrUnauthorized | ErrStaleCredential
  | ErrForbidden | ErrAttemptMismatch | ErrWIReclassifyForbidden | ErrNotFound
  | ErrNotImplemented | ErrConflictEpochMismatch | ErrAttemptPaused
  | ErrConflictStepInProgress | ErrConflictStepAttemptMismatch | ErrConflictCASFailed
  | ErrConflictWIAlreadyClaimed | ErrConflictHardBlock | ErrConflictDuplicate
  | ErrConflictCandidates | ErrConflictSimilarMemory | ErrConflictDependencyCycle
  | ErrConflictLockTaken | ErrConflictDualWIAgent | ErrConflictNoStepsRecorded
  | ErrConflictComposePending | ErrRequiresHumanSessionMismatch
  | ErrConflictVersionMismatch | ErrConflictTerminalState
  | ErrConflictSerializationFailure | ErrIdempotencyKeyReused | ErrPreconditionFailed
  | ErrProjectMembersUndeclaredRemoval | ErrPayloadTooLarge | ErrInternalError
  | ErrServiceUnavailable | ErrAihubUnavailable | ErrProjectNotFound
  | ErrProjectAlreadyExists | ErrProjectNameInvalid | ErrProjectScenarioInvalid
  | ErrProjectAccessDenied | ErrProjectOwnerRequired | ErrProjectHasWorkItems
  | ErrRepoDuplicateName | ErrRepoDuplicateURL | ErrRepoIncompleteDescription
  | ErrInvalidProjectIdentifier

text \<open>The structured part of an error; the prose message is not modelled.\<close>

datatype err_details =
    NoDetails
  | ConflictWith string string string
  | CurrentAttempt string string int int
  | SupersededBy "string option" "int option"
  | WorkflowMode string
  | CyclePath "string list"
  | StepsVersions int int
  | ArtifactMismatch "string \<times> int \<times> string" "string \<times> int \<times> string"
  | ComposeReason string

record aihub_error =
  err_code :: err_code
  err_details :: err_details

definition NewErr :: "err_code \<Rightarrow> aihub_error" where
  "NewErr c = \<lparr>err_code = c, err_details = NoDetails\<rparr>"

definition NewErrDetails :: "err_code \<Rightarrow> err_details \<Rightarrow> aihub_error" where
  "NewErrDetails c d = \<lparr>err_code = c, err_details = d\<rparr>"

definition codeToHTTPStatus :: "err_code \<Rightarrow> nat" where
  "codeToHTTPStatus code =
     (if code \<in> {ErrBadRequest, ErrGoalMultiline, ErrInvalidPhaseYAML, ErrInvalidStepTransition,
                 ErrProjectAmbiguous, ErrInvalidMemoryType, ErrComposeFailed} then 400
      else if code \<in> {ErrUnauthorized, ErrStaleCredential} then 401
      else if code \<in> {ErrForbidden, ErrAttemptMismatch, ErrWIReclassifyForbidden} then 403
      else if code = ErrNotFound then 404
      else if code = ErrNotImplemented then 405
      else if code \<in> {ErrConflictEpochMismatch, ErrAttemptPaused, ErrConflictStepInProgress,
                 ErrConflictStepAttemptMismatch, ErrConflictCASFailed, ErrConflictWIAlreadyClaimed,
                 ErrConflictHardBlock, ErrConflictDuplicate, ErrConflictCandidates,
                 ErrConflictSimilarMemory, ErrConflictDependencyCycle, ErrConflictLockTaken,
                 ErrConflictDualWIAgent, ErrRequiresHumanSessionMismatch, ErrConflictVersionMismatch,
                 ErrConflictTerminalState, ErrConflictSerializationFailure,
                 ErrConflictNoStepsRecorded, ErrConflictComposePending, ErrIdempotencyKeyReused,
                 ErrWITypeMismatch, ErrGoalChangeNotAllowed} then 409
      else if code \<in> {ErrPreconditionFailed, ErrProjectMembersUndeclaredRemoval} then 412
      else if code = ErrPayloadTooLarge then 413
      else if code \<in> {ErrServiceUnavailable, ErrAihubUnavailable} then 503
      else if code = ErrProjectNotFound then 404
      else if code = ErrProjectAlreadyExists then 409
      else if code \<in> {ErrProjectNameInvalid, ErrProjectScenarioInvalid, ErrProjectHasWorkItems,
                 ErrRepoDuplicateName, ErrRepoDuplicateURL, ErrRepoIncompleteDescription,
                 ErrInvalidProjectIdentifier} then 400
      else if code \<in> {ErrProjectAccessDenied, ErrProjectOwnerRequired} then 403
      else 500)"

section \<open>Rows\<close>

datatype wi_status = Queued | Running | Paused | Blocked | Wrapped | Failed | Cancelled

datatype attempt_status =
  ARunning | APaused | AWrapped | AFailed | ASuperseded | ACancelled

datatype step_status = SIdle | SInProgress

record work_item =
  wi_id :: string
  wi_slug :: string
  wi_project :: string
  wi_goal :: string
  wi_type :: "string option"
  wi_priority :: string
  wi_rhs :: "bool option"
  wi_status :: wi_status
  wi_declared :: raw_json
  wi_reporter :: string
  wi_current :: "string option"
  wi_epoch :: int
  wi_workflow_mode :: string
  wi_created_at :: int

record run_attempt =
  ra_id :: string
  ra_wi :: string
  ra_status :: attempt_status
  ra_epoch :: int
  ra_idem :: string
  ra_actor :: string
  ra_api_key :: string
  ra_display :: string
  ra_machine :: string
  ra_secret_hash :: string
  ra_parent :: "string option"
  ra_last_active :: int
  ra_ended :: "int option"
  ra_pause_reason :: "string option"
  ra_derived :: "string list option"
  ra_no_steps :: "string option"
  ra_repo_pins :: "(string \<times> string) list option"

record resource_lock =
  rl_type :: string
  rl_key :: string
  rl_owner :: string
  rl_epoch :: int

record step_state =
  ss_wi :: string
  ss_wi_type :: "string option"
  ss_step :: "string option"
  ss_status :: step_status
  ss_attempt :: "string option"
  ss_started :: "int option"
  ss_version :: int
  ss_scenario_ref :: "string option"

record step_completion =
  sc_id :: string
  sc_wi :: string
  sc_step :: string
  sc_step_attempt :: string
  sc_run_attempt :: string
  sc_status :: string
  sc_summary :: "string option"
  sc_error_type :: "string option"
  sc_escalated :: bool

record dependency =
  dep_blocked :: string
  dep_blocking :: string
  dep_kind :: string
  dep_created_by :: string
  dep_note :: "string option"

record memory_row =
  mem_wi :: "string option"
  mem_type :: string
  mem_status :: string
  mem_expires :: "int option"

text \<open>
  Payloads are JSON objects. The payload of a lock event keeps its fixed fields
  apart from the cause-specific extra ones.
\<close>

record lock_payload =
  lp_type :: string
  lp_key :: string
  lp_attempt :: string
  lp_epoch :: int
  lp_cause :: string
  lp_actor_display :: string
  lp_actor_user :: string
  lp_extra :: "(string \<times> json) list"

datatype payload = LockPayload lock_payload | Fields "(string \<times> json) list"

record agent_event =
  ev_type :: string
  ev_wi :: string
  ev_attempt :: "string option"
  ev_actor :: "string option"
  ev_display :: "string option"
  ev_payload :: payload
  ev_project :: "string option"

record hub =
  h_items :: "work_item list"
  h_attempts :: "run_attempt list"
  h_locks :: "resource_lock list"
  h_steps :: "step_state list"
  h_completions :: "step_completion list"
  h_deps :: "dependency list"
  h_memories :: "memory_row list"
  h_events :: "agent_event list"

text \<open>A fallible transaction's result.\<close>

type_synonym 'a outcome = "aihub_error + 'a"

text \<open>A work item as it is filed, and a hub holding only work items.\<close>

definition filed_item :: "string \<Rightarrow> string \<Rightarrow> string \<Rightarrow> work_item" where
  "filed_item i slug project =
     \<lparr>wi_id = i, wi_slug = slug, wi_project = project, wi_goal = [], wi_type = Some ''feature'',
      wi_priority = ''normal'', wi_rhs = None, wi_status = Queued, wi_declared = Some (JArr []),
      wi_reporter = ''u_rep'', wi_current = None, wi_epoch = 0, wi_workflow_mode = [], wi_created_at = 0\<rparr>"

definition hub_of_items :: "work_item list \<Rightarrow> hub" where
  "hub_of_items items =
     \<lparr>h_items = items, h_attempts = [], h_locks = [], h_steps = [], h_completions = [], h_deps = [],
      h_memories = [], h_events = []\<rparr>"

section \<open>Row access\<close>

abbreviation is_terminal :: "wi_status \<Rightarrow> bool" where
  "is_terminal s \<equiv> s = Wrapped \<or> s = Failed \<or> s = Cancelled"

abbreviation is_live :: "attempt_status \<Rightarrow> bool" where
  "is_live s \<equiv> s = ARunning \<or> s = APaused"

text \<open>\<open>WHERE id = $1\<close> and \<open>WHERE (id = $1 OR slug = $1)\<close> on \<^verbatim>\<open>work_items\<close>.\<close>

definition item_by_id :: "hub \<Rightarrow> string \<Rightarrow> work_item option" where
  "item_by_id H i = select_one (\<lambda>w. wi_id w = i) (h_items H)"

definition item_by_ref :: "hub \<Rightarrow> string \<Rightarrow> work_item option" where
  "item_by_ref H r = select_one (\<lambda>w. wi_id w = r \<or> wi_slug w = r) (h_items H)"

definition attempt_by_id :: "hub \<Rightarrow> string \<Rightarrow> run_attempt option" where
  "attempt_by_id H i = select_one (\<lambda>a. ra_id a = i) (h_attempts H)"

definition step_of :: "hub \<Rightarrow> string \<Rightarrow> step_state option" where
  "step_of H i = select_one (\<lambda>s. ss_wi s = i) (h_steps H)"

definition update_item :: "string \<Rightarrow> (work_item \<Rightarrow> work_item) \<Rightarrow> hub \<Rightarrow> hub" where
  "update_item i f H = H\<lparr>h_items := update_where (\<lambda>w. wi_id w = i) f (h_items H)\<rparr>"

definition update_attempt :: "string \<Rightarrow> (run_attempt \<Rightarrow> run_attempt) \<Rightarrow> hub \<Rightarrow> hub" where
  "update_attempt i f H = H\<lparr>h_attempts := update_where (\<lambda>a. ra_id a = i) f (h_attempts H)\<rparr>"

definition emit_event :: "agent_event \<Rightarrow> hub \<Rightarrow> hub" where
  "emit_event ev H = H\<lparr>h_events := h_events H @ [ev]\<rparr>"

text \<open>
  Inserting an attempt: the primary key and the two UNIQUE constraints of
  migration 0004. A violation aborts the transaction, which the callers report as
  an internal error.
\<close>

definition insert_attempt :: "run_attempt \<Rightarrow> hub \<Rightarrow> hub outcome" where
  "insert_attempt a H =
     (if row_exists (\<lambda>b. ra_id b = ra_id a \<or>
                         ra_wi b = ra_wi a \<and> (ra_idem b = ra_idem a \<or> ra_epoch b = ra_epoch a))
           (h_attempts H)
      then Inl (NewErr ErrInternalError)
      else Inr (H\<lparr>h_attempts := h_attempts H @ [a]\<rparr>))"

section \<open>Constraints of the schema\<close>

definition keys_unique :: "hub \<Rightarrow> bool" where
  "keys_unique H \<longleftrightarrow>
     distinct (map wi_id (h_items H)) \<and>
     distinct (map wi_slug (h_items H)) \<and>
     (\<forall>v \<in> set (h_items H). \<forall>w \<in> set (h_items H). wi_id v \<noteq> wi_slug w) \<and>
     distinct (map ra_id (h_attempts H)) \<and>
     distinct (map (\<lambda>a. (ra_wi a, ra_idem a)) (h_attempts H)) \<and>
     distinct (map (\<lambda>a. (ra_wi a, ra_epoch a)) (h_attempts H)) \<and>
     distinct (map (\<lambda>l. (rl_type l, rl_key l)) (h_locks H)) \<and>
     distinct (map ss_wi (h_steps H)) \<and>
     distinct (map sc_step_attempt (h_completions H)) \<and>
     distinct (map (\<lambda>d. (dep_blocked d, dep_blocking d, dep_kind d)) (h_deps H))"

lemma codeToHTTPStatus_known:
  "codeToHTTPStatus c \<in> {400, 401, 403, 404, 405, 409, 412, 413, 500, 503}"
  by (cases c) (simp_all add: codeToHTTPStatus_def)

lemma item_by_id_Some:
  "item_by_id H i = Some w \<Longrightarrow> w \<in> set (h_items H) \<and> wi_id w = i"
  unfolding item_by_id_def by (rule select_one_Some)

lemma item_by_ref_Some:
  "item_by_ref H r = Some w \<Longrightarrow> w \<in> set (h_items H) \<and> (wi_id w = r \<or> wi_slug w = r)"
  unfolding item_by_ref_def by (rule select_one_Some)

lemma attempt_by_id_Some:
  "attempt_by_id H i = Some a \<Longrightarrow> a \<in> set (h_attempts H) \<and> ra_id a = i"
  unfolding attempt_by_id_def by (rule select_one_Some)

lemma step_of_Some: "step_of H i = Some s \<Longrightarrow> s \<in> set (h_steps H) \<and> ss_wi s = i"
  unfolding step_of_def by (rule select_one_Some)

end
