(* ===== verification/Lock_Table.thy ===== *)
theory Lock_Table
  imports Hub_Tables
begin

text \<open>
  The lock table of \<^verbatim>\<open>internal/domain/resource_events.go\<close>: the statements that
  mutate \<^verbatim>\<open>resource_locks\<close>, the helpers that run them (\<open>releaseLocks\<close>,
  \<open>acquireLockUpsert\<close>, \<open>acquireLockIfFree\<close>), the lock events they put on the
  timeline, and the conflict probes of \<^verbatim>\<open>run_attempts.go\<close>.

  The contract of the table is the locale \<open>lock_store\<close>, interpreted below on these
  definitions: an exclusive map from (type, key) to its owner, in which no operation
  takes a key from a live attempt of another work item. The contract of the timeline
  is the relation \<open>journalled\<close>: replaying the lock events a change appended turns the
  old holders into the new ones.
\<close>

named_theorems hub_frame \<open>tables an operation leaves alone\<close>

section \<open>Lock events\<close>

record lock_op =
  lo_cause :: string
  lo_user :: string
  lo_display :: string
  lo_api_key :: string
  lo_extra :: "(string \<times> json) list"

definition newLockOp :: "string \<Rightarrow> string \<Rightarrow> string \<Rightarrow> string \<Rightarrow> lock_op" where
  "newLockOp cause user display api =
     \<lparr>lo_cause = cause, lo_user = user, lo_display = display, lo_api_key = api, lo_extra = []\<rparr>"

definition withExtra :: "lock_op \<Rightarrow> (string \<times> json) list \<Rightarrow> lock_op" where
  "withExtra op kv =
     op\<lparr>lo_extra := filter (\<lambda>p. fst p \<notin> set (map fst kv)) (lo_extra op) @ kv\<rparr>"

record lock_row =
  lr_type :: string
  lr_key :: string
  lr_attempt :: string
  lr_epoch :: int
  lr_wi :: string
  lr_project :: string

definition nilIfEmpty :: "string \<Rightarrow> string option" where
  "nilIfEmpty s = (if s = [] then None else Some s)"

definition lockEventPayload :: "lock_row \<Rightarrow> lock_op \<Rightarrow> lock_payload" where
  "lockEventPayload row op =
     \<lparr>lp_type = lr_type row, lp_key = lr_key row, lp_attempt = lr_attempt row,
      lp_epoch = lr_epoch row, lp_cause = lo_cause op, lp_actor_display = lo_display op,
      lp_actor_user = lo_user op, lp_extra = lo_extra op\<rparr>"

definition lockEventFor :: "string \<Rightarrow> lock_row \<Rightarrow> lock_op \<Rightarrow> agent_event" where
  "lockEventFor eventType row op =
     \<lparr>ev_type = eventType, ev_wi = lr_wi row, ev_attempt = nilIfEmpty (lr_attempt row),
      ev_actor = nilIfEmpty (lo_user op), ev_display = Some (lo_display op),
      ev_payload = LockPayload (lockEventPayload row op), ev_project = nilIfEmpty (lr_project row)\<rparr>"

text \<open>
  One INSERT per batch; an event whose work item could not be resolved is dropped,
  because the table's CHECK would refuse it. The statement itself is taken to
  succeed.
\<close>

definition emitResourceEventBatch :: "agent_event list \<Rightarrow> hub \<Rightarrow> hub" where
  "emitResourceEventBatch evs H = H\<lparr>h_events := h_events H @ filter (\<lambda>ev. ev_wi ev \<noteq> []) evs\<rparr>"

definition resourceEventBatchMax :: nat where
  "resourceEventBatchMax = 2000"

function emitResourceEvents :: "agent_event list \<Rightarrow> hub \<Rightarrow> hub" where
  "emitResourceEvents evs H =
     (if evs = [] then H
      else let n = min (length evs) resourceEventBatchMax
           in emitResourceEvents (drop n evs) (emitResourceEventBatch (take n evs) H))"
  by pat_completeness auto
termination
  by (relation "measure (\<lambda>(evs, H). length evs)") (auto simp: resourceEventBatchMax_def)

declare emitResourceEvents.simps [simp del]

definition emitLockEvents :: "string \<Rightarrow> lock_row list \<Rightarrow> lock_op \<Rightarrow> hub \<Rightarrow> hub" where
  "emitLockEvents eventType rows op H =
     (if rows = [] then H
      else emitResourceEvents (map (\<lambda>r. lockEventFor eventType r op) rows) H)"

definition emitLockEvent :: "string \<Rightarrow> lock_row \<Rightarrow> lock_op \<Rightarrow> hub \<Rightarrow> hub" where
  "emitLockEvent eventType row op H = emitResourceEvents [lockEventFor eventType row op] H"

section \<open>Releases\<close>

text \<open>
  The WHERE clauses of the DELETE statements. \<open>lockDeleteReporting\<close> joins each
  deleted row with its owner's work item and project.
\<close>

definition lockDeleteByAttempt :: "string \<Rightarrow> resource_lock \<Rightarrow> bool" where
  "lockDeleteByAttempt att l = (rl_owner l = att)"

definition lockDeleteByKey :: "string \<Rightarrow> string \<Rightarrow> resource_lock \<Rightarrow> bool" where
  "lockDeleteByKey t k l = (rl_type l = t \<and> rl_key l = k)"

definition acquireLocksReleasePaused :: "string \<Rightarrow> resource_lock \<Rightarrow> bool" where
  "acquireLocksReleasePaused att l = (rl_owner l = att \<and> rl_type l = ''file_scope'')"

definition releaseCancelledWILocks :: "hub \<Rightarrow> string \<Rightarrow> resource_lock \<Rightarrow> bool" where
  "releaseCancelledWILocks H wi l =
     row_exists (\<lambda>a. ra_id a = rl_owner l \<and> ra_wi a = wi) (h_attempts H)"

definition orphanLock :: "hub \<Rightarrow> resource_lock \<Rightarrow> bool" where
  "orphanLock H l =
     (\<not> row_exists (\<lambda>a. ra_id a = rl_owner l \<and> is_live (ra_status a)) (h_attempts H))"

definition attempt_item :: "hub \<Rightarrow> string \<Rightarrow> work_item option" where
  "attempt_item H att =
     (case attempt_by_id H att of None \<Rightarrow> None | Some a \<Rightarrow> item_by_id H (ra_wi a))"

definition lockDeleteReporting :: "hub \<Rightarrow> resource_lock \<Rightarrow> lock_row" where
  "lockDeleteReporting H l =
     \<lparr>lr_type = rl_type l, lr_key = rl_key l, lr_attempt = rl_owner l, lr_epoch = rl_epoch l,
      lr_wi = (case attempt_by_id H (rl_owner l) of None \<Rightarrow> [] | Some a \<Rightarrow> ra_wi a),
      lr_project = (case attempt_item H (rl_owner l) of None \<Rightarrow> [] | Some w \<Rightarrow> wi_project w)\<rparr>"

definition releaseLocks :: "(resource_lock \<Rightarrow> bool) \<Rightarrow> lock_op \<Rightarrow> hub \<Rightarrow> hub \<times> lock_row list" where
  "releaseLocks stmt op H =
     (let released = map (lockDeleteReporting H) (filter stmt (h_locks H));
          H1 = H\<lparr>h_locks := delete_where stmt (h_locks H)\<rparr>
      in (emitLockEvents ''lock_released'' released op H1, released))"

section \<open>Acquisitions\<close>

record lock_refusal =
  lf_type :: string
  lf_key :: string
  lf_owner :: string
  lf_display :: string
  lf_slug :: string

definition live_foreign_owner :: "string \<Rightarrow> resource_lock \<Rightarrow> run_attempt \<Rightarrow> bool" where
  "live_foreign_owner wi l a = (ra_id a = rl_owner l \<and> is_live (ra_status a) \<and> ra_wi a \<noteq> wi)"

definition lockRefusalFor :: "hub \<Rightarrow> string \<Rightarrow> string \<Rightarrow> string \<Rightarrow> lock_refusal" where
  "lockRefusalFor H t k wi =
     (case select_one (\<lambda>l. rl_type l = t \<and> rl_key l = k \<and>
                           row_exists (live_foreign_owner wi l) (h_attempts H)) (h_locks H) of
        None \<Rightarrow> \<lparr>lf_type = t, lf_key = k, lf_owner = [], lf_display = [], lf_slug = []\<rparr>
      | Some l \<Rightarrow>
          (case select_one (live_foreign_owner wi l) (h_attempts H) of
             None \<Rightarrow> \<lparr>lf_type = t, lf_key = k, lf_owner = [], lf_display = [], lf_slug = []\<rparr>
           | Some a \<Rightarrow>
               \<lparr>lf_type = t, lf_key = k, lf_owner = rl_owner l, lf_display = ra_display a,
                lf_slug = (case item_by_id H (ra_wi a) of None \<Rightarrow> [] | Some w \<Rightarrow> wi_slug w)\<rparr>))"

text \<open>
  \<open>lockUpsertSQL\<close>: insert, or on conflict overwrite the owner unless the present
  owner is a live attempt of another work item. \<open>None\<close> is the empty result; otherwise
  the prior owner and epoch come back with COALESCE defaults.
\<close>

definition lockUpsertSQL ::
    "string \<Rightarrow> string \<Rightarrow> string \<Rightarrow> int \<Rightarrow> string \<Rightarrow> hub \<Rightarrow> (hub \<times> string \<times> int) option" where
  "lockUpsertSQL t k att epoch wi H =
     (case select_one (\<lambda>l. rl_type l = t \<and> rl_key l = k) (h_locks H) of
        None \<Rightarrow>
          Some (H\<lparr>h_locks := h_locks H @ [\<lparr>rl_type = t, rl_key = k, rl_owner = att, rl_epoch = epoch\<rparr>]\<rparr>, [], 0)
      | Some l \<Rightarrow>
          if row_exists (live_foreign_owner wi l) (h_attempts H) then None
          else Some (H\<lparr>h_locks := update_where (\<lambda>l. rl_type l = t \<and> rl_key l = k)
                       (\<lambda>l. l\<lparr>rl_owner := att, rl_epoch := epoch\<rparr>) (h_locks H)\<rparr>,
                     rl_owner l, rl_epoch l))"

definition acquireLockUpsert ::
    "string \<Rightarrow> string \<Rightarrow> string \<Rightarrow> int \<Rightarrow> string \<Rightarrow> string \<Rightarrow> lock_op \<Rightarrow> hub \<Rightarrow> lock_refusal + hub" where
  "acquireLockUpsert t k att epoch project wi op H =
     (case lockUpsertSQL t k att epoch wi H of
        None \<Rightarrow> Inl (lockRefusalFor H t k wi)
      | Some (H1, priorAttempt, priorEpoch) \<Rightarrow>
          (let got = \<lparr>lr_type = t, lr_key = k, lr_attempt = att, lr_epoch = epoch,
                      lr_wi = wi, lr_project = project\<rparr>
           in if priorAttempt \<noteq> [] \<and> priorAttempt \<noteq> att then
                (let prior = \<lparr>lr_type = t, lr_key = k, lr_attempt = priorAttempt, lr_epoch = priorEpoch,
                              lr_wi = (case attempt_by_id H1 priorAttempt of None \<Rightarrow> [] | Some a \<Rightarrow> ra_wi a),
                              lr_project = (case attempt_item H1 priorAttempt of None \<Rightarrow> [] | Some w \<Rightarrow> wi_project w)\<rparr>;
                     displaced = (withExtra op [(''replaced_by_attempt_id'', JStr att),
                                                (''replaced_cause'', JStr (lo_cause op))])
                                   \<lparr>lo_cause := ''owner_replaced''\<rparr>
                 in Inr (emitLockEvent ''lock_acquired'' got
                           (withExtra op [(''replaced_prior_owner'', JStr priorAttempt)])
                           (emitLockEvent ''lock_released'' prior displaced H1)))
              else Inr (emitLockEvent ''lock_acquired'' got op H1)))"

definition acquireLockIfFree ::
    "string \<Rightarrow> string \<Rightarrow> string \<Rightarrow> int \<Rightarrow> string \<Rightarrow> string \<Rightarrow> lock_op \<Rightarrow> hub \<Rightarrow> bool \<times> hub" where
  "acquireLockIfFree t k att epoch project wi op H =
     (if row_exists (\<lambda>l. rl_type l = t \<and> rl_key l = k) (h_locks H) then (False, H)
      else (True,
        emitLockEvent ''lock_acquired''
          \<lparr>lr_type = t, lr_key = k, lr_attempt = att, lr_epoch = epoch, lr_wi = wi, lr_project = project\<rparr> op
          (H\<lparr>h_locks := h_locks H @ [\<lparr>rl_type = t, rl_key = k, rl_owner = att, rl_epoch = epoch\<rparr>]\<rparr>)))"

definition lockTakenErrFor :: "lock_refusal \<Rightarrow> aihub_error" where
  "lockTakenErrFor r = NewErrDetails ErrConflictLockTaken (ConflictWith (lf_owner r) (lf_display r) (lf_slug r))"

section \<open>Conflict probes\<close>

text \<open>
  \<open>acquireLocksCollisionSQL\<close> and \<open>foreignLockHolderSQL\<close>: a lock row joined with its
  owner and the owner's work item. The last argument of \<open>lock_collision\<close> is the extra
  conjunct of the second statement.
\<close>

definition collision_rows ::
    "hub \<Rightarrow> string \<Rightarrow> lock_conflict_probe \<Rightarrow> (run_attempt \<Rightarrow> bool) \<Rightarrow> (string \<times> string \<times> string) list" where
  "collision_rows H t probe extra =
     [(rl_owner l, ra_display a, wi_slug w).
        l \<leftarrow> h_locks H, rl_type l = t \<and> lockConflictWhere probe (rl_key l),
        a \<leftarrow> h_attempts H, ra_id a = rl_owner l \<and> is_live (ra_status a) \<and> extra a,
        w \<leftarrow> h_items H, wi_id w = ra_wi a]"

definition lock_collision ::
    "hub \<Rightarrow> string \<Rightarrow> lock_conflict_probe \<Rightarrow> (run_attempt \<Rightarrow> bool) \<Rightarrow> (string \<times> string \<times> string) option" where
  "lock_collision H t probe extra =
     (case collision_rows H t probe extra of [] \<Rightarrow> None | r # _ \<Rightarrow> Some r)"

definition acquireLocksCollision ::
    "hub \<Rightarrow> string \<Rightarrow> lock_conflict_probe \<Rightarrow> (string \<times> string \<times> string) option" where
  "acquireLocksCollision H t probe = lock_collision H t probe (\<lambda>a. True)"

definition foreignLockHolder ::
    "hub \<Rightarrow> string \<Rightarrow> lock_conflict_probe \<Rightarrow> string \<Rightarrow> (string \<times> string \<times> string) option" where
  "foreignLockHolder H t probe wi = lock_collision H t probe (\<lambda>a. ra_wi a \<noteq> wi)"

fun probeForeignLockHolders ::
    "hub \<Rightarrow> string \<Rightarrow> resource_lock_req list \<Rightarrow> lock_conflict_probe list \<Rightarrow> aihub_error option" where
  "probeForeignLockHolders H wi [] probes = None"
| "probeForeignLockHolders H wi (l # ls) [] = Some (NewErr ErrInternalError)"
| "probeForeignLockHolders H wi (l # ls) (p # ps) =
     (case foreignLockHolder H (rq_type l) p wi of
        Some (owner, display, slug) \<Rightarrow>
          Some (NewErrDetails ErrConflictLockTaken (ConflictWith owner display slug))
      | None \<Rightarrow> probeForeignLockHolders H wi ls ps)"


text \<open>The acquisition loop of a claim and of a takeover; the first refusal ends it.\<close>

fun acquire_all ::
    "resource_lock_req list \<Rightarrow> string \<Rightarrow> int \<Rightarrow> string \<Rightarrow> string \<Rightarrow> lock_op \<Rightarrow> hub \<Rightarrow> hub outcome" where
  "acquire_all [] att epoch project wi op H = Inr H"
| "acquire_all (l # ls) att epoch project wi op H =
     (case acquireLockUpsert (rq_type l) (rq_key l) att epoch project wi op H of
        Inl refusal \<Rightarrow> Inl (lockTakenErrFor refusal)
      | Inr H1 \<Rightarrow> acquire_all ls att epoch project wi op H1)"

section \<open>Frame of the lock operations\<close>

lemma emitResourceEvents_eq:
  "emitResourceEvents evs H = H\<lparr>h_events := h_events H @ filter (\<lambda>ev. ev_wi ev \<noteq> []) evs\<rparr>"
proof (induction evs H rule: emitResourceEvents.induct)
  case (1 evs H)
  let ?n = "min (length evs) resourceEventBatchMax"
  show ?case
  proof (cases "evs = []")
    case True
    then show ?thesis by (simp add: emitResourceEvents.simps)
  next
    case False
    have "filter (\<lambda>ev. ev_wi ev \<noteq> []) evs =
          filter (\<lambda>ev. ev_wi ev \<noteq> []) (take ?n evs) @ filter (\<lambda>ev. ev_wi ev \<noteq> []) (drop ?n evs)"
      by (metis append_take_drop_id filter_append)
    then show ?thesis
      using False "1.IH" [OF False refl]
      by (simp add: emitResourceEvents.simps [of evs] Let_def emitResourceEventBatch_def)
  qed
qed

lemma emitLockEvents_eq:
  "emitLockEvents t rows op H =
     H\<lparr>h_events := h_events H @ map (\<lambda>r. lockEventFor t r op) (filter (\<lambda>r. lr_wi r \<noteq> []) rows)\<rparr>"
  by (simp add: emitLockEvents_def emitResourceEvents_eq filter_map o_def lockEventFor_def)

lemma emitLockEvent_eq:
  "emitLockEvent t row op H =
     H\<lparr>h_events := h_events H @ (if lr_wi row \<noteq> [] then [lockEventFor t row op] else [])\<rparr>"
  by (simp add: emitLockEvent_def emitResourceEvents_eq lockEventFor_def)

text \<open>Two hubs that agree on every table but the locks and the events.\<close>

definition same_but_locks :: "hub \<Rightarrow> hub \<Rightarrow> bool" where
  "same_but_locks H H' \<longleftrightarrow>
     h_items H' = h_items H \<and> h_attempts H' = h_attempts H \<and> h_steps H' = h_steps H \<and>
     h_completions H' = h_completions H \<and> h_deps H' = h_deps H \<and> h_memories H' = h_memories H"

lemma same_but_locks_refl [simp]: "same_but_locks H H"
  by (simp add: same_but_locks_def)

lemma same_but_locks_trans: "same_but_locks H H1 \<Longrightarrow> same_but_locks H1 H2 \<Longrightarrow> same_but_locks H H2"
  by (simp add: same_but_locks_def)

lemma same_but_locksD [hub_frame]:
  assumes "same_but_locks H H'"
  shows "h_items H' = h_items H" "h_attempts H' = h_attempts H" "h_steps H' = h_steps H"
    "h_completions H' = h_completions H" "h_deps H' = h_deps H" "h_memories H' = h_memories H"
  using assms by (simp_all add: same_but_locks_def)

lemma releaseLocks_frame: "same_but_locks H (fst (releaseLocks stmt op H))"
  by (simp add: releaseLocks_def Let_def emitLockEvents_eq same_but_locks_def)

lemma releaseLocks_locks: "h_locks (fst (releaseLocks stmt op H)) = delete_where stmt (h_locks H)"
  by (simp add: releaseLocks_def Let_def emitLockEvents_eq)

lemma acquireLockUpsert_frame:
  "acquireLockUpsert t k att e project wi op H = Inr H' \<Longrightarrow> same_but_locks H H'"
  by (auto simp: acquireLockUpsert_def lockUpsertSQL_def emitLockEvent_eq same_but_locks_def Let_def
      split: option.splits if_splits)

lemma acquireLockIfFree_frame: "same_but_locks H (snd (acquireLockIfFree t k att e project wi op H))"
  by (simp add: acquireLockIfFree_def emitLockEvent_eq same_but_locks_def)

lemma acquire_all_frame: "acquire_all ls att e project wi op H = Inr H' \<Longrightarrow> same_but_locks H H'"
proof (induction ls arbitrary: H)
  case (Cons l ls)
  then show ?case
    by (auto split: sum.splits dest!: acquireLockUpsert_frame intro: same_but_locks_trans)
qed simp

lemmas lock_op_frames =
  releaseLocks_frame acquireLockUpsert_frame acquireLockIfFree_frame acquire_all_frame

section \<open>The lock table as an exclusive map\<close>

definition lock_key :: "resource_lock \<Rightarrow> string \<times> string" where
  "lock_key l = (rl_type l, rl_key l)"

definition lock_holder :: "hub \<Rightarrow> string \<times> string \<Rightarrow> string option" where
  "lock_holder H k = map_option rl_owner (select_one (\<lambda>l. lock_key l = k) (h_locks H))"

definition live_foreign :: "hub \<Rightarrow> string \<Rightarrow> string \<Rightarrow> bool" where
  "live_foreign H wi owner =
     row_exists (\<lambda>a. ra_id a = owner \<and> is_live (ra_status a) \<and> ra_wi a \<noteq> wi) (h_attempts H)"

definition lock_keys_unique :: "hub \<Rightarrow> bool" where
  "lock_keys_unique H = distinct (map lock_key (h_locks H))"

lemma lock_holder_Some_iff:
  assumes "lock_keys_unique H"
  shows "lock_holder H k = Some owner \<longleftrightarrow> (\<exists>l \<in> set (h_locks H). lock_key l = k \<and> rl_owner l = owner)"
proof
  assume "lock_holder H k = Some owner"
  then show "\<exists>l \<in> set (h_locks H). lock_key l = k \<and> rl_owner l = owner"
    by (auto simp: lock_holder_def dest!: select_one_Some)
next
  assume "\<exists>l \<in> set (h_locks H). lock_key l = k \<and> rl_owner l = owner"
  then obtain l where "l \<in> set (h_locks H)" "lock_key l = k" "rl_owner l = owner" by blast
  with select_one_key [of lock_key "h_locks H" l] assms show "lock_holder H k = Some owner"
    by (simp add: lock_keys_unique_def lock_holder_def)
qed

lemma lock_holder_None_iff: "lock_holder H k = None \<longleftrightarrow> (\<forall>l \<in> set (h_locks H). lock_key l \<noteq> k)"
  by (simp add: lock_holder_def select_one_None)

locale lock_store =
  fixes holder :: "'s \<Rightarrow> 'k \<Rightarrow> 'o option"
    and foreign :: "'s \<Rightarrow> 'w \<Rightarrow> 'o \<Rightarrow> bool"
    and take_lock :: "'k \<Rightarrow> 'o \<Rightarrow> 'w \<Rightarrow> 's \<Rightarrow> 's option"
    and drop_locks :: "('k \<Rightarrow> 'o \<Rightarrow> bool) \<Rightarrow> 's \<Rightarrow> 's"
    and invar :: "'s \<Rightarrow> bool"
  assumes take_holder: "invar s \<Longrightarrow> take_lock k own w s = Some s' \<Longrightarrow> holder s' = (holder s)(k \<mapsto> own)"
    and take_refused: "invar s \<Longrightarrow>
      take_lock k own w s = None \<longleftrightarrow> (\<exists>p. holder s k = Some p \<and> foreign s w p)"
    and take_foreign: "take_lock k own w s = Some s' \<Longrightarrow> foreign s' = foreign s"
    and take_invar: "invar s \<Longrightarrow> take_lock k own w s = Some s' \<Longrightarrow> invar s'"
    and drop_holder: "invar s \<Longrightarrow>
      holder (drop_locks P s) k = (case holder s k of None \<Rightarrow> None | Some p \<Rightarrow> if P k p then None else Some p)"
    and drop_invar: "invar s \<Longrightarrow> invar (drop_locks P s)"
begin

fun take_all :: "'k list \<Rightarrow> 'o \<Rightarrow> 'w \<Rightarrow> 's \<Rightarrow> 's option" where
  "take_all [] own w s = Some s"
| "take_all (k # ks) own w s = (case take_lock k own w s of None \<Rightarrow> None | Some s' \<Rightarrow> take_all ks own w s')"

lemma take_all_invar: "invar s \<Longrightarrow> take_all ks own w s = Some s' \<Longrightarrow> invar s'"
  by (induction ks arbitrary: s) (auto split: option.splits intro: take_invar)

lemma take_all_holder:
  "invar s \<Longrightarrow> take_all ks own w s = Some s' \<Longrightarrow>
   holder s' k = (if k \<in> set ks then Some own else holder s k)"
proof (induction ks arbitrary: s)
  case (Cons a ks)
  then obtain s1 where s1: "take_lock a own w s = Some s1" "take_all ks own w s1 = Some s'"
    by (auto split: option.splits)
  with Cons.prems have "invar s1" "holder s1 = (holder s)(a \<mapsto> own)"
    using take_invar take_holder by blast+
  with Cons.IH [OF _ s1(2)] show ?case by simp
qed simp

lemma take_all_refused_iff:
  assumes "invar s" "\<not> foreign s w own"
  shows "take_all ks own w s = None \<longleftrightarrow> (\<exists>k \<in> set ks. \<exists>p. holder s k = Some p \<and> foreign s w p)"
  using assms
proof (induction ks arbitrary: s)
  case (Cons k ks)
  show ?case
  proof (cases "take_lock k own w s")
    case None
    with Cons.prems(1) take_refused [of s k own w] have "\<exists>p. holder s k = Some p \<and> foreign s w p" by simp
    with None show ?thesis by auto
  next
    case (Some s')
    then have s': "holder s' = (holder s)(k \<mapsto> own)" "foreign s' = foreign s" "invar s'"
      using Cons.prems take_holder take_foreign take_invar by auto
    with Cons.prems Some Cons.IH [of s'] take_refused [of s k own w] show ?thesis by auto
  qed
qed simp

lemma never_steals:
  assumes "invar s" "take_all ks own w s = Some s'" "holder s k = Some p" "foreign s w p"
    "\<not> foreign s w own"
  shows "holder s' k = Some p"
proof -
  have "k \<notin> set ks" using assms take_all_refused_iff [OF assms(1,5), of ks] by auto
  with take_all_holder [OF assms(1,2)] assms(3) show ?thesis by simp
qed

end


text \<open>The upsert and the release statements meet the contract.\<close>

lemma acquireLockUpsert_locks:
  assumes "acquireLockUpsert t k att e project wi op H = Inr H'"
  shows "set (h_locks H') = {l \<in> set (h_locks H). lock_key l \<noteq> (t, k)} \<union>
           {\<lparr>rl_type = t, rl_key = k, rl_owner = att, rl_epoch = e\<rparr>}"
    and "lock_keys_unique H \<Longrightarrow> lock_keys_unique H'"
proof -
  let ?P = "\<lambda>l. rl_type l = t \<and> rl_key l = k"
  let ?new = "\<lparr>rl_type = t, rl_key = k, rl_owner = att, rl_epoch = e\<rparr>"
  let ?f = "\<lambda>l::resource_lock. l\<lparr>rl_owner := att, rl_epoch := e\<rparr>"
  have P: "?P l \<longleftrightarrow> lock_key l = (t, k)" for l by (auto simp: lock_key_def)
  have f: "?f l = ?new" if "?P l" for l using that by (cases l) simp
  from assms have locks: "h_locks H' =
      (case select_one ?P (h_locks H) of None \<Rightarrow> h_locks H @ [?new]
       | Some l \<Rightarrow> update_where ?P ?f (h_locks H))"
    by (auto simp: acquireLockUpsert_def lockUpsertSQL_def emitLockEvent_eq Let_def
        split: option.splits if_splits)
  have "set (h_locks H') = {l \<in> set (h_locks H). lock_key l \<noteq> (t, k)} \<union> {?new} \<and>
        (lock_keys_unique H \<longrightarrow> lock_keys_unique H')"
  proof (cases "select_one ?P (h_locks H)")
    case None
    then have "\<forall>l \<in> set (h_locks H). lock_key l \<noteq> (t, k)" by (auto simp: select_one_None P)
    then show ?thesis by (auto simp: locks None lock_keys_unique_def lock_key_def)
  next
    case (Some l)
    note l = select_one_Some [OF Some]
    have "set (update_where ?P ?f (h_locks H)) = {l \<in> set (h_locks H). lock_key l \<noteq> (t, k)} \<union> {?new}"
    proof (rule set_eqI)
      fix x
      have "x \<in> set (update_where ?P ?f (h_locks H)) \<longleftrightarrow>
            (\<exists>y \<in> set (h_locks H). x = (if ?P y then ?new else y))"
        unfolding set_update_where by (auto simp: f)
      also have "\<dots> \<longleftrightarrow> x \<in> {l \<in> set (h_locks H). lock_key l \<noteq> (t, k)} \<union> {?new}"
        using l unfolding P by auto
      finally show "x \<in> set (update_where ?P ?f (h_locks H)) \<longleftrightarrow>
        x \<in> {l \<in> set (h_locks H). lock_key l \<noteq> (t, k)} \<union> {?new}" .
    qed
    then show ?thesis
      by (simp add: locks Some lock_keys_unique_def map_update_where_frame lock_key_def)
  qed
  then show "set (h_locks H') = {l \<in> set (h_locks H). lock_key l \<noteq> (t, k)} \<union> {?new}"
    and "lock_keys_unique H \<Longrightarrow> lock_keys_unique H'" by blast+
qed

lemma lock_holder_upsert:
  assumes "lock_keys_unique H" "acquireLockUpsert t k att e project wi op H = Inr H'"
  shows "lock_holder H' = (lock_holder H)((t, k) \<mapsto> att)"
proof -
  note uniq = acquireLockUpsert_locks(2) [OF assms(2,1)]
  have "(lock_holder H' x = Some y) = (((lock_holder H)((t, k) \<mapsto> att)) x = Some y)" for x y
    by (auto simp: lock_holder_Some_iff [OF uniq] lock_holder_Some_iff [OF assms(1)]
        acquireLockUpsert_locks(1) [OF assms(2)] lock_key_def)
  then show ?thesis by (intro ext) (metis not_None_eq)
qed

lemma acquireLockUpsert_refused_iff:
  assumes "lock_keys_unique H"
  shows "(\<exists>r. acquireLockUpsert t k att e project wi op H = Inl r) \<longleftrightarrow>
         (\<exists>p. lock_holder H (t, k) = Some p \<and> live_foreign H wi p)"
proof -
  have "(\<lambda>l. rl_type l = t \<and> rl_key l = k) = (\<lambda>l. lock_key l = (t, k))"
    by (auto simp: lock_key_def)
  then show ?thesis
    by (auto simp: acquireLockUpsert_def lockUpsertSQL_def lock_holder_def live_foreign_def
        row_exists_iff live_foreign_owner_def Let_def split: option.splits if_splits)
qed

lemma lock_holder_release:
  assumes "lock_keys_unique H"
  shows "lock_keys_unique (fst (releaseLocks stmt op H))"
    and "lock_holder (fst (releaseLocks stmt op H)) k =
         (case select_one (\<lambda>l. lock_key l = k) (h_locks H) of
            None \<Rightarrow> None | Some l \<Rightarrow> if stmt l then None else Some (rl_owner l))"
proof -
  show uniq: "lock_keys_unique (fst (releaseLocks stmt op H))"
    using assms by (simp add: lock_keys_unique_def releaseLocks_locks distinct_map_delete_where)
  have key: "l = l'" if "l \<in> set (h_locks H)" "l' \<in> set (h_locks H)" "lock_key l = lock_key l'" for l l'
    using that assms key_eqD unfolding lock_keys_unique_def by metis
  show "lock_holder (fst (releaseLocks stmt op H)) k =
         (case select_one (\<lambda>l. lock_key l = k) (h_locks H) of
            None \<Rightarrow> None | Some l \<Rightarrow> if stmt l then None else Some (rl_owner l))"
  proof (cases "select_one (\<lambda>l. lock_key l = k) (h_locks H)")
    case None
    then have "\<forall>l \<in> set (h_locks H). lock_key l \<noteq> k" by (simp add: select_one_None)
    then show ?thesis by (simp add: None lock_holder_None_iff releaseLocks_locks set_delete_where)
  next
    case (Some l)
    then have l: "l \<in> set (h_locks H)" "lock_key l = k" by (auto dest: select_one_Some)
    show ?thesis
    proof (cases "stmt l")
      case True
      with Some l key show ?thesis
        by (auto simp: lock_holder_None_iff releaseLocks_locks set_delete_where)
    next
      case False
      with Some l show ?thesis
        by (auto simp: lock_holder_Some_iff [OF uniq] releaseLocks_locks set_delete_where)
    qed
  qed
qed


definition upsert_key ::
    "int \<Rightarrow> string \<Rightarrow> lock_op \<Rightarrow> string \<times> string \<Rightarrow> string \<Rightarrow> string \<Rightarrow> hub \<Rightarrow> hub option" where
  "upsert_key e project op k att wi H =
     (case acquireLockUpsert (fst k) (snd k) att e project wi op H of Inl r \<Rightarrow> None | Inr H' \<Rightarrow> Some H')"

definition release_matching ::
    "lock_op \<Rightarrow> (string \<times> string \<Rightarrow> string \<Rightarrow> bool) \<Rightarrow> hub \<Rightarrow> hub" where
  "release_matching op P H = fst (releaseLocks (\<lambda>l. P (lock_key l) (rl_owner l)) op H)"

lemma live_foreign_frame: "same_but_locks H H' \<Longrightarrow> live_foreign H' = live_foreign H"
  by (intro ext) (simp add: live_foreign_def same_but_locks_def)

interpretation hub_locks: lock_store lock_holder live_foreign "upsert_key e project op"
    "release_matching op" lock_keys_unique for e project op
proof unfold_locales
  fix s s' :: hub and k own w
  assume upd: "upsert_key e project op k own w s = Some s'"
  then have eq: "acquireLockUpsert (fst k) (snd k) own e project w op s = Inr s'"
    by (auto simp: upsert_key_def split: sum.splits)
  show "live_foreign s' = live_foreign s"
    by (rule live_foreign_frame [OF acquireLockUpsert_frame [OF eq]])
  assume uniq: "lock_keys_unique s"
  show "lock_holder s' = (lock_holder s)(k \<mapsto> own)" using lock_holder_upsert [OF uniq eq] by simp
  show "lock_keys_unique s'" by (rule acquireLockUpsert_locks(2) [OF eq uniq])
next
  fix s k own w
  assume "lock_keys_unique s"
  from acquireLockUpsert_refused_iff [OF this, of "fst k" "snd k" own e project w op]
  show "(upsert_key e project op k own w s = None) = (\<exists>p. lock_holder s k = Some p \<and> live_foreign s w p)"
    by (auto simp: upsert_key_def split: sum.splits)
next
  fix s P k
  assume "lock_keys_unique s"
  from lock_holder_release(2) [OF this, of "\<lambda>l. P (lock_key l) (rl_owner l)" op k]
  show "lock_holder (release_matching op P s) k =
    (case lock_holder s k of None \<Rightarrow> None | Some p \<Rightarrow> if P k p then None else Some p)"
    unfolding release_matching_def
    by (cases "select_one (\<lambda>l. lock_key l = k) (h_locks s)")
       (auto simp: lock_holder_def dest: select_one_Some)
next
  fix s P
  assume "lock_keys_unique s"
  then show "lock_keys_unique (release_matching op P s)"
    by (simp add: release_matching_def lock_holder_release(1))
qed

definition req_key :: "resource_lock_req \<Rightarrow> string \<times> string" where
  "req_key l = (rq_type l, rq_key l)"

lemma acquire_all_take_all:
  "(case acquire_all ls att e project wi op H of Inl r \<Rightarrow> None | Inr H' \<Rightarrow> Some H') =
   hub_locks.take_all e project op (map req_key ls) att wi H"
proof (induction ls arbitrary: H)
  case (Cons l ls)
  have "upsert_key e project op (req_key l) att wi H =
      (case acquireLockUpsert (rq_type l) (rq_key l) att e project wi op H of Inl r \<Rightarrow> None | Inr H' \<Rightarrow> Some H')"
    by (simp add: upsert_key_def req_key_def)
  then show ?case
    by (cases "acquireLockUpsert (rq_type l) (rq_key l) att e project wi op H") (simp_all add: Cons.IH)
qed simp

lemma acquire_all_Inr:
  assumes "acquire_all ls att e project wi op H = Inr H'"
  shows "hub_locks.take_all e project op (map req_key ls) att wi H = Some H'"
  using acquire_all_take_all [of ls att e project wi op H] assms by simp

lemma acquire_all_holder:
  assumes "lock_keys_unique H" "acquire_all ls att e project wi op H = Inr H'"
  shows "lock_holder H' k = (if k \<in> req_key ` set ls then Some att else lock_holder H k)"
  using hub_locks.take_all_holder [OF assms(1) acquire_all_Inr [OF assms(2)], of k] by simp

lemma acquire_all_unique:
  "lock_keys_unique H \<Longrightarrow> acquire_all ls att e project wi op H = Inr H' \<Longrightarrow> lock_keys_unique H'"
  by (rule hub_locks.take_all_invar [OF _ acquire_all_Inr])

lemma acquire_all_error:
  assumes "acquire_all ls att e project wi op H = Inl err"
  shows "err_code err = ErrConflictLockTaken"
  using assms
  by (induction ls arbitrary: H) (auto simp: lockTakenErrFor_def NewErrDetails_def split: sum.splits)

lemma acquire_all_locks:
  assumes "acquire_all ls att e project wi op H = Inr H'"
  shows "set (h_locks H') =
    {l \<in> set (h_locks H). lock_key l \<notin> req_key ` set ls} \<union>
    (\<lambda>l. \<lparr>rl_type = rq_type l, rl_key = rq_key l, rl_owner = att, rl_epoch = e\<rparr>) ` set ls"
  using assms
proof (induction ls arbitrary: H)
  case (Cons l ls)
  let ?new = "\<lambda>l. \<lparr>rl_type = rq_type l, rl_key = rq_key l, rl_owner = att, rl_epoch = e\<rparr>"
  from Cons.prems obtain H1 where
    H1: "acquireLockUpsert (rq_type l) (rq_key l) att e project wi op H = Inr H1"
        "acquire_all ls att e project wi op H1 = Inr H'"
    by (auto split: sum.splits)
  have key: "lock_key (?new x) = req_key x" for x by (simp add: lock_key_def req_key_def)
  have dup: "?new l \<in> ?new ` set ls" if "req_key l \<in> req_key ` set ls"
    using that by (auto simp: req_key_def image_iff)
  show ?case
    unfolding Cons.IH [OF H1(2)] acquireLockUpsert_locks(1) [OF H1(1)]
    using dup by (auto simp: key req_key_def [symmetric])
qed simp


section \<open>The timeline of the lock table\<close>

text \<open>
  A reader who follows lock events: an acquisition makes the named attempt the
  holder of the key, a release frees the key if the named attempt holds it.
\<close>

definition replay_event :: "agent_event \<Rightarrow> (string \<times> string \<Rightarrow> string option) \<Rightarrow> string \<times> string \<Rightarrow> string option" where
  "replay_event ev m =
     (case ev_payload ev of
        Fields fs \<Rightarrow> m
      | LockPayload p \<Rightarrow>
          if ev_type ev = ''lock_acquired'' then m((lp_type p, lp_key p) \<mapsto> lp_attempt p)
          else if ev_type ev = ''lock_released'' \<and> m (lp_type p, lp_key p) = Some (lp_attempt p)
          then m((lp_type p, lp_key p) := None)
          else m)"

definition replay :: "agent_event list \<Rightarrow> (string \<times> string \<Rightarrow> string option) \<Rightarrow> string \<times> string \<Rightarrow> string option" where
  "replay evs m = fold replay_event evs m"

definition journalled :: "hub \<Rightarrow> hub \<Rightarrow> bool" where
  "journalled H H' \<longleftrightarrow>
     (\<exists>es. h_events H' = h_events H @ es \<and> replay es (lock_holder H) = lock_holder H')"

text \<open>Every lock's owner is an attempt of an identifiable work item.\<close>

definition owners_known :: "hub \<Rightarrow> bool" where
  "owners_known H \<longleftrightarrow>
     (\<forall>l \<in> set (h_locks H). \<exists>a. attempt_by_id H (rl_owner l) = Some a \<and> ra_wi a \<noteq> [])"

lemma replay_simps [simp]:
  "replay [] m = m"
  "replay (ev # evs) m = replay evs (replay_event ev m)"
  "replay (es1 @ es2) m = replay es2 (replay es1 m)"
  by (simp_all add: replay_def)

lemma replay_acquired [simp]:
  "replay_event (lockEventFor ''lock_acquired'' r op) m = m((lr_type r, lr_key r) \<mapsto> lr_attempt r)"
  by (simp add: replay_event_def lockEventFor_def lockEventPayload_def)

lemma replay_released [simp]:
  "replay_event (lockEventFor ''lock_released'' r op) m =
     (if m (lr_type r, lr_key r) = Some (lr_attempt r) then m((lr_type r, lr_key r) := None) else m)"
  by (simp add: replay_event_def lockEventFor_def lockEventPayload_def)

lemma journalled_refl [simp, intro]: "journalled H H"
  by (auto simp: journalled_def intro: exI [of _ "[]"])

lemma journalled_trans [trans]:
  assumes "journalled H H1" "journalled H1 H2"
  shows "journalled H H2"
proof -
  from assms obtain es1 es2 where
    "h_events H1 = h_events H @ es1" "replay es1 (lock_holder H) = lock_holder H1"
    "h_events H2 = h_events H1 @ es2" "replay es2 (lock_holder H1) = lock_holder H2"
    by (auto simp: journalled_def)
  then have "h_events H2 = h_events H @ (es1 @ es2) \<and> replay (es1 @ es2) (lock_holder H) = lock_holder H2"
    by simp
  then show ?thesis unfolding journalled_def by blast
qed

lemma lock_holder_events [simp]: "lock_holder (H\<lparr>h_events := x\<rparr>) = lock_holder H"
  by (intro ext) (simp add: lock_holder_def)

lemma journalled_same_locks:
  assumes "h_locks H' = h_locks H" "h_events H' = h_events H"
  shows "journalled H H'"
  using assms by (auto simp: journalled_def lock_holder_def intro: exI [of _ "[]"])

lemma journalled_other_event:
  assumes "h_locks H' = h_locks H" "h_events H' = h_events H @ [ev]" "ev_payload ev = Fields fs"
  shows "journalled H H'"
  using assms by (auto simp: journalled_def replay_event_def lock_holder_def intro!: exI [of _ "[ev]"])

lemma emit_event_journalled: "ev_payload ev = Fields fs \<Longrightarrow> journalled H (emit_event ev H)"
  by (rule journalled_other_event [of _ _ ev fs]) (simp_all add: emit_event_def)

lemma replay_releases:
  assumes "distinct (map lock_key ls)" "\<forall>l \<in> set ls. m (lock_key l) = Some (rl_owner l)"
  shows "replay (map (\<lambda>l. lockEventFor ''lock_released'' (lockDeleteReporting H l) op) ls) m =
         m |` (- lock_key ` set ls)"
  using assms
proof (induction ls arbitrary: m)
  case (Cons l ls)
  let ?m = "m(lock_key l := None)"
  let ?g = "\<lambda>l. lockEventFor ''lock_released'' (lockDeleteReporting H l) op"
  have "replay_event (?g l) m = ?m"
    using Cons.prems(2) by (simp add: lockDeleteReporting_def lock_key_def)
  then have "replay (map ?g (l # ls)) m = replay (map ?g ls) ?m"
    by (simp only: list.map replay_simps)
  also have "\<dots> = ?m |` (- lock_key ` set ls)"
    using Cons.prems by (intro Cons.IH) (auto simp: image_iff)
  also have "\<dots> = m |` (- lock_key ` set (l # ls))"
    by (intro ext) (simp add: restrict_map_def)
  finally show ?case .
qed (simp add: restrict_map_def)

lemma releaseLocks_journalled:
  assumes "lock_keys_unique H" "owners_known H"
  shows "journalled H (fst (releaseLocks stmt op H))"
proof -
  let ?ls = "filter stmt (h_locks H)"
  let ?es = "map (\<lambda>l. lockEventFor ''lock_released'' (lockDeleteReporting H l) op) ?ls"
  have "filter (\<lambda>r. lr_wi r \<noteq> []) (map (lockDeleteReporting H) ?ls) = map (lockDeleteReporting H) ?ls"
  proof (rule filter_True, rule ballI)
    fix r
    assume "r \<in> set (map (lockDeleteReporting H) ?ls)"
    with assms(2) show "lr_wi r \<noteq> []"
      by (fastforce simp: owners_known_def lockDeleteReporting_def)
  qed
  then have events: "h_events (fst (releaseLocks stmt op H)) = h_events H @ ?es"
    by (simp add: releaseLocks_def Let_def emitLockEvents_eq)
  have dist: "distinct (map lock_key ?ls)"
    using assms(1) by (simp add: lock_keys_unique_def distinct_map_filter)
  have held: "\<forall>l \<in> set ?ls. lock_holder H (lock_key l) = Some (rl_owner l)"
    using lock_holder_Some_iff [OF assms(1)] by auto
  have rel: "lock_holder (fst (releaseLocks stmt op H)) k = (lock_holder H |` (- lock_key ` set ?ls)) k" for k
  proof (cases "select_one (\<lambda>l. lock_key l = k) (h_locks H)")
    case None
    then have "lock_holder H k = None" by (simp add: lock_holder_def)
    then show ?thesis
      unfolding lock_holder_release(2) [OF assms(1)] None by (simp add: restrict_map_def)
  next
    case (Some l)
    then have l: "l \<in> set (h_locks H)" "lock_key l = k" by (auto dest: select_one_Some)
    have only: "l' = l" if "l' \<in> set (h_locks H)" "lock_key l' = k" for l'
      by (rule key_eqD [OF assms(1) [unfolded lock_keys_unique_def] that(1) l(1)]) (simp only: that(2) l(2))
    have "k \<in> lock_key ` set ?ls \<longleftrightarrow> stmt l"
    proof
      assume "k \<in> lock_key ` set ?ls"
      then obtain l' where "l' \<in> set (h_locks H)" "stmt l'" "lock_key l' = k" by auto
      with only [of l'] show "stmt l" by blast
    qed (use l in force)
    moreover have "lock_holder H k = Some (rl_owner l)" using Some by (simp add: lock_holder_def)
    ultimately show ?thesis
      unfolding lock_holder_release(2) [OF assms(1)] Some by (simp add: restrict_map_def)
  qed
  from rel have "lock_holder (fst (releaseLocks stmt op H)) = lock_holder H |` (- lock_key ` set ?ls)"
    by (rule ext)
  with events replay_releases [OF dist held, of H op] show ?thesis
    unfolding journalled_def by (intro exI [of _ ?es]) (simp only: simp_thms)
qed

lemma acquireLockUpsert_journalled:
  assumes "lock_keys_unique H" "owners_known H" "wi \<noteq> []"
    "acquireLockUpsert t k att e project wi op H = Inr H'"
  shows "journalled H H'"
proof -
  have P: "(\<lambda>l. rl_type l = t \<and> rl_key l = k) = (\<lambda>l. lock_key l = (t, k))"
    by (auto simp: lock_key_def)
  have owner: "attempt_by_id H (rl_owner l) \<noteq> None \<and>
      ra_wi (the (attempt_by_id H (rl_owner l))) \<noteq> []" if "l \<in> set (h_locks H)" for l
    using assms(2) that by (auto simp: owners_known_def)
  have frame: "attempt_by_id (H\<lparr>h_locks := x\<rparr>) = attempt_by_id H" for x
    by (intro ext) (simp add: attempt_by_id_def)
  have "\<exists>es. h_events H' = h_events H @ es \<and>
          replay es (lock_holder H) = (lock_holder H)((t, k) \<mapsto> att)"
  proof (cases "select_one (\<lambda>l. lock_key l = (t, k)) (h_locks H)")
    case None
    with assms(3,4) show ?thesis
      by (simp add: acquireLockUpsert_def lockUpsertSQL_def emitLockEvent_eq P)
         (auto split: option.splits)
  next
    case (Some l)
    then have "l \<in> set (h_locks H)" and held: "lock_holder H (t, k) = Some (rl_owner l)"
      by (auto simp: lock_holder_def dest: select_one_Some)
    from owner [OF this(1)] obtain a where a: "attempt_by_id H (rl_owner l) = Some a" "ra_wi a \<noteq> []"
      by auto
    with Some assms(3,4) held show ?thesis
      by (auto simp: acquireLockUpsert_def lockUpsertSQL_def emitLockEvent_eq P frame Let_def
          split: if_splits)
  qed
  with lock_holder_upsert [OF assms(1,4)] show ?thesis by (simp add: journalled_def)
qed


lemma attempt_by_id_frame: "same_but_locks H H' \<Longrightarrow> attempt_by_id H' = attempt_by_id H"
  by (intro ext) (simp add: attempt_by_id_def same_but_locks_def)

lemma owners_known_upsert:
  assumes "owners_known H" "acquireLockUpsert t k att e project wi op H = Inr H'"
    "attempt_by_id H att = Some a" "ra_wi a \<noteq> []"
  shows "owners_known H'"
  using assms(1,3,4)
  unfolding owners_known_def acquireLockUpsert_locks(1) [OF assms(2)]
    attempt_by_id_frame [OF acquireLockUpsert_frame [OF assms(2)]]
  by auto

lemma acquire_all_journalled:
  assumes "acquire_all ls att e project wi op H = Inr H'"
    "lock_keys_unique H" "owners_known H" "wi \<noteq> []" "attempt_by_id H att = Some a" "ra_wi a \<noteq> []"
  shows "journalled H H' \<and> owners_known H'"
  using assms
proof (induction ls arbitrary: H)
  case (Cons l ls)
  then obtain H1 where
    H1: "acquireLockUpsert (rq_type l) (rq_key l) att e project wi op H = Inr H1"
        "acquire_all ls att e project wi op H1 = Inr H'"
    by (auto split: sum.splits)
  have "journalled H H1" by (rule acquireLockUpsert_journalled [OF Cons.prems(2-4) H1(1)])
  moreover have "journalled H1 H' \<and> owners_known H'"
    using Cons.prems(2-) acquireLockUpsert_locks(2) [OF H1(1)]
      owners_known_upsert [OF _ H1(1)] attempt_by_id_frame [OF acquireLockUpsert_frame [OF H1(1)]]
    by (intro Cons.IH [OF H1(2)]) auto
  ultimately show ?case using journalled_trans by blast
qed simp

lemma acquireLockIfFree_locks:
  "acquireLockIfFree t k att e project wi op H = (True, H') \<Longrightarrow>
   (\<forall>l \<in> set (h_locks H). lock_key l \<noteq> (t, k)) \<and>
   h_locks H' = h_locks H @ [\<lparr>rl_type = t, rl_key = k, rl_owner = att, rl_epoch = e\<rparr>]"
  by (auto simp: acquireLockIfFree_def emitLockEvent_eq row_exists_iff lock_key_def split: if_splits)

lemma acquireLockIfFree_taken: "acquireLockIfFree t k att e project wi op H = (False, H') \<Longrightarrow> H' = H"
  by (auto simp: acquireLockIfFree_def split: if_splits)

lemma lock_holder_append:
  assumes "\<forall>l \<in> set ls. lock_key l \<noteq> lock_key l'"
  shows "select_one (\<lambda>l. lock_key l = k) (ls @ [l']) =
    (if k = lock_key l' then Some l' else select_one (\<lambda>l. lock_key l = k) ls)"
  using assms by (induction ls) (auto simp: select_one_def)

lemma acquireLockIfFree_journalled:
  assumes "wi \<noteq> []"
  shows "journalled H (snd (acquireLockIfFree t k att e project wi op H))"
proof (cases "row_exists (\<lambda>l. rl_type l = t \<and> rl_key l = k) (h_locks H)")
  case True
  then show ?thesis by (simp add: acquireLockIfFree_def)
next
  case False
  let ?l = "\<lparr>rl_type = t, rl_key = k, rl_owner = att, rl_epoch = e\<rparr>"
  let ?r = "\<lparr>lr_type = t, lr_key = k, lr_attempt = att, lr_epoch = e, lr_wi = wi, lr_project = project\<rparr>"
  from False have "\<forall>l \<in> set (h_locks H). lock_key l \<noteq> lock_key ?l"
    by (auto simp: row_exists_iff lock_key_def)
  then have "lock_holder (H\<lparr>h_locks := h_locks H @ [?l]\<rparr>) = (lock_holder H)((t, k) \<mapsto> att)"
    by (intro ext) (simp add: lock_holder_def lock_holder_append, simp add: lock_key_def)
  with False assms show ?thesis
    by (auto simp: acquireLockIfFree_def emitLockEvent_eq journalled_def
        intro!: exI [of _ "[lockEventFor ''lock_acquired'' ?r op]"])
qed

lemma releaseLocks_owners_known: "owners_known H \<Longrightarrow> owners_known (fst (releaseLocks stmt op H))"
  by (simp add: owners_known_def releaseLocks_locks set_delete_where
      attempt_by_id_frame [OF releaseLocks_frame])

section \<open>What a passed probe guarantees\<close>

definition attempts_have_items :: "hub \<Rightarrow> bool" where
  "attempts_have_items H \<longleftrightarrow> (\<forall>a \<in> set (h_attempts H). \<exists>w \<in> set (h_items H). wi_id w = ra_wi a)"

lemma collision_rows_iff:
  "(owner, display, slug) \<in> set (collision_rows H t probe extra) \<longleftrightarrow>
   (\<exists>l \<in> set (h_locks H). \<exists>a \<in> set (h_attempts H). \<exists>w \<in> set (h_items H).
      rl_type l = t \<and> lockConflictWhere probe (rl_key l) \<and> rl_owner l = owner \<and> ra_id a = owner \<and>
      is_live (ra_status a) \<and> extra a \<and> ra_display a = display \<and> wi_id w = ra_wi a \<and> wi_slug w = slug)"
  unfolding collision_rows_def set_concat set_map by (simp add: image_iff Bex_def) blast

lemma lock_collision_None:
  assumes "lock_collision H t probe extra = None" "attempts_have_items H"
    "l \<in> set (h_locks H)" "rl_type l = t" "lockConflictWhere probe (rl_key l)"
    "a \<in> set (h_attempts H)" "ra_id a = rl_owner l" "is_live (ra_status a)"
  shows "\<not> extra a"
proof
  assume "extra a"
  from assms(2,6) obtain w where "w \<in> set (h_items H)" "wi_id w = ra_wi a"
    unfolding attempts_have_items_def by blast
  with \<open>extra a\<close> assms have "(rl_owner l, ra_display a, wi_slug w) \<in> set (collision_rows H t probe extra)"
    unfolding collision_rows_iff by blast
  with assms(1) show False by (auto simp: lock_collision_def split: list.splits)
qed

lemma lock_collision_Some:
  assumes "lock_collision H t probe extra = Some (owner, display, slug)"
  shows "\<exists>l \<in> set (h_locks H). \<exists>a \<in> set (h_attempts H). \<exists>w \<in> set (h_items H).
    rl_type l = t \<and> lockConflictWhere probe (rl_key l) \<and> rl_owner l = owner \<and> ra_id a = owner \<and>
    is_live (ra_status a) \<and> extra a \<and> ra_display a = display \<and> wi_id w = ra_wi a \<and> wi_slug w = slug"
proof -
  from assms have "(owner, display, slug) \<in> set (collision_rows H t probe extra)"
    unfolding lock_collision_def by (cases "collision_rows H t probe extra") simp_all
  then show ?thesis unfolding collision_rows_iff .
qed

text \<open>A passed probe leaves no live attempt of another work item on a matching key.\<close>

lemma probeForeignLockHolders_None:
  assumes "attempts_have_items H" "probeForeignLockHolders H wi (map fst pairs) (map snd pairs) = None"
    "(req, probe) \<in> set pairs" "l \<in> set (h_locks H)" "rl_type l = rq_type req"
    "lockConflictWhere probe (rl_key l)" "a \<in> set (h_attempts H)" "ra_id a = rl_owner l"
    "is_live (ra_status a)"
  shows "ra_wi a = wi"
  using assms(2,3)
proof (induction pairs)
  case (Cons q qs)
  obtain r p where q: "q = (r, p)" by fastforce
  from Cons.prems(1) have none: "foreignLockHolder H (rq_type r) p wi = None"
    and rest: "probeForeignLockHolders H wi (map fst qs) (map snd qs) = None"
    by (auto simp: q split: option.splits)
  show ?case
  proof (cases "(req, probe) = q")
    case True
    with q have "r = req" "p = probe" by simp_all
    with lock_collision_None [OF none [unfolded foreignLockHolder_def] assms(1,4) _ _ assms(7-9)] assms(5,6)
    show ?thesis by blast
  next
    case False
    with Cons.prems(2) rest Cons.IH show ?thesis by auto
  qed
qed simp

end
