(* ===== verification/Dependencies.thy ===== *)
theory Dependencies
  imports Lock_Table
begin

text \<open>
  The dependency graph: \<^verbatim>\<open>internal/domain/dependencies.go\<close>, the unblocking half of
  \<^verbatim>\<open>run_attempts.go\<close> and the garbage collector's unblocking sweep. The recursive
  query of \<open>detectCycle\<close> is an executable closure, shown to compute reachability.

  \<open>CreateDependency\<close> reads (existence, permission, cycle) on the connection pool and
  writes in a transaction of its own; the two halves are separate definitions, because
  other transactions can commit between them.
\<close>

section \<open>Cycle detection\<close>

definition dependencyKinds :: "string list" where
  "dependencyKinds = [''blocks'', ''supersedes'', ''related'']"

definition validateDependencyKind :: "string \<Rightarrow> aihub_error option" where
  "validateDependencyKind kind =
     (if kind \<in> set dependencyKinds then None else Some (NewErr ErrBadRequest))"

text \<open>One round of the recursive CTE: the blockers of what has been reached so far.\<close>

definition cte_step :: "dependency list \<Rightarrow> string \<Rightarrow> string list \<Rightarrow> string list" where
  "cte_step deps kind reached =
     [dep_blocking d. d \<leftarrow> deps, dep_kind d = kind \<and> dep_blocked d \<in> set reached \<and> dep_blocking d \<notin> set reached]"

lemma set_cte_step:
  "set (cte_step deps kind reached) =
     {dep_blocking d | d. d \<in> set deps \<and> dep_kind d = kind \<and> dep_blocked d \<in> set reached} - set reached"
  by (auto simp: cte_step_def)

function cte_closure :: "dependency list \<Rightarrow> string \<Rightarrow> string list \<Rightarrow> string list" where
  "cte_closure deps kind reached =
     (let new = cte_step deps kind reached
      in if new = [] then reached else cte_closure deps kind (reached @ new))"
  by pat_completeness auto
termination
proof (relation "measure (\<lambda>(deps, kind, reached). card (dep_blocking ` set deps - set reached))")
  fix deps :: "dependency list" and kind reached new
  assume new: "new = cte_step deps kind reached" "new \<noteq> []"
  then obtain x where "x \<in> set new" by fastforce
  with new(1) have "x \<in> dep_blocking ` set deps - set reached" by (auto simp: set_cte_step)
  with \<open>x \<in> set new\<close> have "dep_blocking ` set deps - set (reached @ new) \<subset> dep_blocking ` set deps - set reached"
    by auto
  then show "((deps, kind, reached @ new), deps, kind, reached)
      \<in> measure (\<lambda>(deps, kind, reached). card (dep_blocking ` set deps - set reached))"
    by (simp add: psubset_card_mono)
qed simp

declare cte_closure.simps [simp del]

definition reachable_blockers :: "hub \<Rightarrow> string \<Rightarrow> string \<Rightarrow> string list" where
  "reachable_blockers H blockingWIID kind =
     cte_closure (h_deps H) kind
       [dep_blocking d. d \<leftarrow> h_deps H, dep_blocked d = blockingWIID \<and> dep_kind d = kind]"

definition detectCycle :: "hub \<Rightarrow> string \<Rightarrow> string \<Rightarrow> string \<Rightarrow> aihub_error option" where
  "detectCycle H blockedWIID blockingWIID kind =
     (if blockedWIID \<in> set (reachable_blockers H blockingWIID kind)
      then Some (NewErrDetails ErrConflictDependencyCycle (CyclePath [blockedWIID, blockingWIID]))
      else None)"

section \<open>Creating a dependency\<close>

record dependency_request =
  dq_blocked :: string
  dq_blocking :: string
  dq_kind :: string
  dq_note :: "string option"

definition default_kind :: "dependency_request \<Rightarrow> dependency_request" where
  "default_kind req = (if dq_kind req = [] then req\<lparr>dq_kind := ''blocks''\<rparr> else req)"

text \<open>
  The reads of \<open>CreateDependency\<close>. A success carries the blocked item's project,
  which the write half puts on the event.
\<close>

definition create_dependency_check ::
    "hub \<Rightarrow> dependency_request \<Rightarrow> (string \<Rightarrow> string) \<Rightarrow> string \<Rightarrow> string outcome" where
  "create_dependency_check H req0 projectRoles callerRole =
     (let req = default_kind req0 in
      if dq_blocked req = [] \<or> dq_blocking req = [] then Inl (NewErr ErrBadRequest)
      else if dq_blocked req = dq_blocking req then Inl (NewErr ErrBadRequest)
      else case validateDependencyKind (dq_kind req) of
        Some e \<Rightarrow> Inl e
      | None \<Rightarrow>
        (case item_by_id H (dq_blocked req) of
           None \<Rightarrow> Inl (NewErr ErrNotFound)
         | Some blocked \<Rightarrow>
           (case item_by_id H (dq_blocking req) of
              None \<Rightarrow> Inl (NewErr ErrNotFound)
            | Some blocking \<Rightarrow>
              if wi_project blocking \<noteq> wi_project blocked \<and> callerRole \<noteq> ''admin'' \<and>
                 projectRoles (wi_project blocking) = [] then Inl (NewErr ErrForbidden)
              else if dq_kind req = ''blocks'' \<or> dq_kind req = ''supersedes'' then
                (case detectCycle H (dq_blocked req) (dq_blocking req) (dq_kind req) of
                   Some e \<Rightarrow> Inl e | None \<Rightarrow> Inr (wi_project blocked))
              else Inr (wi_project blocked))))"

definition dependencyCreatedEvent :: "dependency_request \<Rightarrow> string \<Rightarrow> string \<Rightarrow> string \<Rightarrow> agent_event" where
  "dependencyCreatedEvent req project callerUserID via =
     \<lparr>ev_type = ''dependency_created'', ev_wi = dq_blocked req, ev_attempt = None,
      ev_actor = Some callerUserID, ev_display = None,
      ev_payload = Fields [(''blocking_wi_id'', JStr (dq_blocking req)),
                           (''kind'', JStr (dq_kind req)), (''via'', JStr via)],
      ev_project = Some project\<rparr>"

definition create_dependency_insert ::
    "dependency_request \<Rightarrow> string \<Rightarrow> string \<Rightarrow> hub \<Rightarrow> hub" where
  "create_dependency_insert req0 blockedProject callerUserID H =
     (let req = default_kind req0;
          same = (\<lambda>d. dep_blocked d = dq_blocked req \<and> dep_blocking d = dq_blocking req \<and> dep_kind d = dq_kind req);
          H1 = (if row_exists same (h_deps H) then H
                else emit_event (dependencyCreatedEvent req blockedProject callerUserID ''create_dependency'')
                       (H\<lparr>h_deps := h_deps H @
                          [\<lparr>dep_blocked = dq_blocked req, dep_blocking = dq_blocking req, dep_kind = dq_kind req,
                            dep_created_by = callerUserID, dep_note = dq_note req\<rparr>]\<rparr>))
      in if dq_kind req = ''blocks''
         then H1\<lparr>h_items := update_where (\<lambda>w. wi_id w = dq_blocked req \<and> wi_status w = Queued)
                             (\<lambda>w. w\<lparr>wi_status := Blocked\<rparr>) (h_items H1)\<rparr>
         else H1)"

definition CreateDependency ::
    "dependency_request \<Rightarrow> string \<Rightarrow> (string \<Rightarrow> string) \<Rightarrow> string \<Rightarrow> hub \<Rightarrow> hub outcome" where
  "CreateDependency req callerUserID projectRoles callerRole H =
     (case create_dependency_check H req projectRoles callerRole of
        Inl e \<Rightarrow> Inl e
      | Inr project \<Rightarrow> Inr (create_dependency_insert req project callerUserID H))"

section \<open>Unblocking\<close>

definition active_blocker :: "hub \<Rightarrow> string \<Rightarrow> string \<Rightarrow> bool" where
  "active_blocker H blocked exclude =
     row_exists (\<lambda>d. dep_blocked d = blocked \<and> dep_kind d = ''blocks'' \<and>
                     (exclude = [] \<or> dep_blocking d \<noteq> exclude) \<and>
                     row_exists (\<lambda>b. wi_id b = dep_blocking d \<and> \<not> is_terminal (wi_status b)) (h_items H))
       (h_deps H)"

definition requeueIfUnblocked :: "string \<Rightarrow> string \<Rightarrow> hub \<Rightarrow> hub \<times> bool" where
  "requeueIfUnblocked blocked exclude H =
     (if row_exists (\<lambda>w. wi_id w = blocked \<and> wi_status w = Blocked) (h_items H) \<and>
         \<not> active_blocker H blocked exclude
      then (H\<lparr>h_items := update_where (\<lambda>w. wi_id w = blocked \<and> wi_status w = Blocked)
                           (\<lambda>w. w\<lparr>wi_status := Queued\<rparr>) (h_items H)\<rparr>, True)
      else (H, False))"

definition wiUnblockedEvent :: "string \<Rightarrow> string \<Rightarrow> (string \<times> json) list \<Rightarrow> agent_event" where
  "wiUnblockedEvent wi project fs =
     \<lparr>ev_type = ''wi_unblocked'', ev_wi = wi, ev_attempt = None, ev_actor = None, ev_display = None,
      ev_payload = Fields fs, ev_project = Some project\<rparr>"

text \<open>
  \<open>unblockDependentWI\<close>: the ORDER BY of the candidate query fixes the order in which
  row locks are taken; the model takes table order.
\<close>

definition unblock_candidates :: "hub \<Rightarrow> string \<Rightarrow> string list" where
  "unblock_candidates H wi =
     [wi_id w. w \<leftarrow> h_items H, wi_status w = Blocked \<and>
        row_exists (\<lambda>d. dep_blocked d = wi_id w \<and> dep_blocking d = wi \<and> dep_kind d = ''blocks'') (h_deps H)]"

fun unblock_loop :: "string list \<Rightarrow> string \<Rightarrow> string \<Rightarrow> hub \<Rightarrow> hub" where
  "unblock_loop [] wi project H = H"
| "unblock_loop (b # bs) wi project H =
     (case requeueIfUnblocked b wi H of
        (H1, unblocked) \<Rightarrow>
          unblock_loop bs wi project
            (if unblocked then emit_event (wiUnblockedEvent b project [(''unblocked_by_wi'', JStr wi)]) H1 else H1))"

definition unblockDependentWI :: "string \<Rightarrow> string \<Rightarrow> hub \<Rightarrow> hub" where
  "unblockDependentWI wi project H = unblock_loop (unblock_candidates H wi) wi project H"

definition DeleteDependency :: "string \<Rightarrow> string \<Rightarrow> string \<Rightarrow> hub \<Rightarrow> hub outcome" where
  "DeleteDependency blocked blocking kind H =
     (let same = (\<lambda>d. dep_blocked d = blocked \<and> dep_blocking d = blocking \<and> dep_kind d = kind) in
      if \<not> row_exists same (h_deps H) then Inl (NewErr ErrNotFound)
      else let H1 = H\<lparr>h_deps := delete_where same (h_deps H)\<rparr> in
        if kind = ''blocks'' then
          (case requeueIfUnblocked blocked [] H1 of
             (H2, unblocked) \<Rightarrow>
               if unblocked then
                 (case item_by_id H2 blocked of
                    None \<Rightarrow> Inr H2
                  | Some w \<Rightarrow> Inr (emit_event (wiUnblockedEvent blocked (wi_project w)
                        [(''unblocked_by'', JStr ''dependency_removed''), (''removed_blocker_wi_id'', JStr blocking)]) H2))
               else Inr H2)
        else Inr H1)"

text \<open>The garbage collector's sweep is one UPDATE over the snapshot before it.\<close>

definition RunUnblockDependentWI :: "hub \<Rightarrow> hub" where
  "RunUnblockDependentWI H =
     H\<lparr>h_items := update_where
        (\<lambda>w. wi_status w = Blocked \<and>
             row_exists (\<lambda>d. dep_blocked d = wi_id w \<and> dep_kind d = ''blocks'') (h_deps H) \<and>
             \<not> active_blocker H (wi_id w) [])
        (\<lambda>w. w\<lparr>wi_status := Queued\<rparr>) (h_items H)\<rparr>"

section \<open>The closure computes reachability\<close>

definition edges_of :: "dependency list \<Rightarrow> string \<Rightarrow> (string \<times> string) set" where
  "edges_of deps kind = (\<lambda>d. (dep_blocked d, dep_blocking d)) ` {d \<in> set deps. dep_kind d = kind}"

abbreviation dep_edges :: "hub \<Rightarrow> string \<Rightarrow> (string \<times> string) set" where
  "dep_edges H kind \<equiv> edges_of (h_deps H) kind"

lemma set_cte_closure:
  "set (cte_closure deps kind reached) = (edges_of deps kind)\<^sup>* `` set reached"
proof (induction deps kind reached rule: cte_closure.induct)
  case (1 deps kind reached)
  let ?E = "edges_of deps kind"
  let ?new = "cte_step deps kind reached"
  have new: "set ?new = ?E `` set reached - set reached"
    by (auto simp: set_cte_step edges_of_def)
  show ?case
  proof (cases "?new = []")
    case True
    with new have "?E `` set reached \<subseteq> set reached" by simp
    then have "?E\<^sup>* `` set reached = set reached" by (rule Image_closed_trancl)
    with True show ?thesis by (simp add: cte_closure.simps [of deps])
  next
    case False
    have "?E\<^sup>* `` (set reached \<union> set ?new) = ?E\<^sup>* `` set reached"
      unfolding new by (auto intro: converse_rtrancl_into_rtrancl)
    with False 1 [OF refl False] show ?thesis
      by (simp add: cte_closure.simps [of deps kind reached])
  qed
qed

lemma reachable_blockers_iff: "x \<in> set (reachable_blockers H b kind) \<longleftrightarrow> (b, x) \<in> (dep_edges H kind)\<^sup>+"
proof -
  have "set [dep_blocking d. d \<leftarrow> h_deps H, dep_blocked d = b \<and> dep_kind d = kind] = dep_edges H kind `` {b}"
    by (auto simp: edges_of_def)
  then have "set (reachable_blockers H b kind) = (dep_edges H kind)\<^sup>* `` (dep_edges H kind `` {b})"
    unfolding reachable_blockers_def set_cte_closure by simp
  then show ?thesis by (auto simp: trancl_unfold_left Image_iff)
qed


lemma acyclic_empty [simp]: "acyclic {}"
  by (simp add: acyclic_def)

lemma detectCycle_None_iff:
  "detectCycle H blocked blocking kind = None \<longleftrightarrow> (blocking, blocked) \<notin> (dep_edges H kind)\<^sup>+"
  by (simp add: detectCycle_def reachable_blockers_iff)

lemma default_kind_ends [simp]:
  "dq_blocked (default_kind req) = dq_blocked req" "dq_blocking (default_kind req) = dq_blocking req"
  by (simp_all add: default_kind_def)

lemma dep_edges_insert:
  "dep_edges (create_dependency_insert req project user H) kind =
     (if dq_kind (default_kind req) = kind
      then insert (dq_blocked req, dq_blocking req) (dep_edges H kind) else dep_edges H kind)"
proof -
  let ?same = "\<lambda>d. dep_blocked d = dq_blocked req \<and> dep_blocking d = dq_blocking req \<and>
      dep_kind d = dq_kind (default_kind req)"
  let ?new = "\<lparr>dep_blocked = dq_blocked req, dep_blocking = dq_blocking req,
      dep_kind = dq_kind (default_kind req), dep_created_by = user, dep_note = dq_note (default_kind req)\<rparr>"
  have deps: "h_deps (create_dependency_insert req project user H) =
      (if row_exists ?same (h_deps H) then h_deps H else h_deps H @ [?new])"
    by (simp add: create_dependency_insert_def Let_def emit_event_def)
  show ?thesis
  proof (cases "row_exists ?same (h_deps H)")
    case True
    then obtain d where "d \<in> set (h_deps H)" "?same d" unfolding row_exists_iff by blast
    then have "dq_kind (default_kind req) = kind \<Longrightarrow> (dq_blocked req, dq_blocking req) \<in> dep_edges H kind"
      by (force simp: edges_of_def)
    moreover have "dep_edges (create_dependency_insert req project user H) kind = dep_edges H kind"
      using True by (simp add: deps)
    ultimately show ?thesis by (simp add: insert_absorb)
  next
    case False
    then have "set (h_deps (create_dependency_insert req project user H)) = insert ?new (set (h_deps H))"
      by (simp add: deps)
    then have "dep_edges (create_dependency_insert req project user H) kind =
        (\<lambda>d. (dep_blocked d, dep_blocking d)) ` {d \<in> insert ?new (set (h_deps H)). dep_kind d = kind}"
      by (simp add: edges_of_def)
    moreover have "{d \<in> insert ?new (set (h_deps H)). dep_kind d = kind} =
        (if dq_kind (default_kind req) = kind then insert ?new {d \<in> set (h_deps H). dep_kind d = kind}
         else {d \<in> set (h_deps H). dep_kind d = kind})"
      by auto
    ultimately show ?thesis by (simp add: edges_of_def)
  qed
qed

lemma create_dependency_check_Inr:
  assumes ok: "create_dependency_check H req roles role = Inr project"
  shows "dq_blocked req \<noteq> dq_blocking req"
    and "\<exists>w. item_by_id H (dq_blocked req) = Some w \<and> wi_project w = project"
    and "dq_kind (default_kind req) \<in> {''blocks'', ''supersedes''} \<Longrightarrow>
         detectCycle H (dq_blocked req) (dq_blocking req) (dq_kind (default_kind req)) = None"
    and "dq_kind (default_kind req) \<in> set dependencyKinds"
proof -
  let ?k = "dq_kind (default_kind req)"
  from ok show ne: "dq_blocked req \<noteq> dq_blocking req"
    by (simp add: create_dependency_check_def Let_def split: if_splits)
  from ok ne have kind: "validateDependencyKind ?k = None"
    by (simp add: create_dependency_check_def Let_def split: if_splits option.splits)
  then show "?k \<in> set dependencyKinds" by (simp add: validateDependencyKind_def split: if_splits)
  from ok ne kind obtain w v where w: "item_by_id H (dq_blocked req) = Some w"
      "item_by_id H (dq_blocking req) = Some v"
    by (simp add: create_dependency_check_def Let_def split: if_splits option.splits)
  with ok ne kind have rest: "(if ?k = ''blocks'' \<or> ?k = ''supersedes'' then
      (case detectCycle H (dq_blocked req) (dq_blocking req) ?k of
         Some e \<Rightarrow> Inl e | None \<Rightarrow> Inr (wi_project w)) else Inr (wi_project w)) = Inr project"
    by (auto simp: create_dependency_check_def Let_def split: if_split_asm)
  then show "\<exists>w. item_by_id H (dq_blocked req) = Some w \<and> wi_project w = project"
    using w(1) by (auto split: if_split_asm option.splits)
  show "?k \<in> {''blocks'', ''supersedes''} \<Longrightarrow> detectCycle H (dq_blocked req) (dq_blocking req) ?k = None"
    using rest by (auto split: option.splits)
qed

section \<open>The unblocking loop as one update\<close>

text \<open>
  The condition under which the completion of \<open>wi\<close> requeues an item. Requeueing moves
  items between two non-terminal statuses, so it never changes which blockers are
  active, and the loop does the work of a single UPDATE.
\<close>

definition unblocked_by :: "hub \<Rightarrow> string \<Rightarrow> work_item \<Rightarrow> bool" where
  "unblocked_by H wi w \<longleftrightarrow>
     wi_status w = Blocked \<and>
     row_exists (\<lambda>d. dep_blocked d = wi_id w \<and> dep_blocking d = wi \<and> dep_kind d = ''blocks'') (h_deps H) \<and>
     \<not> active_blocker H (wi_id w) wi"

lemma active_blocker_frame:
  assumes "h_deps H' = h_deps H"
    "map (\<lambda>w. (wi_id w, is_terminal (wi_status w))) (h_items H') =
     map (\<lambda>w. (wi_id w, is_terminal (wi_status w))) (h_items H)"
  shows "active_blocker H' b x = active_blocker H b x"
proof -
  let ?g = "\<lambda>w. (wi_id w, is_terminal (wi_status w))"
  have *: "row_exists (\<lambda>v. wi_id v = i \<and> \<not> is_terminal (wi_status v)) (h_items K) \<longleftrightarrow>
        (i, False) \<in> set (map ?g (h_items K))" for K i
    by (force simp: row_exists_iff)
  show ?thesis unfolding active_blocker_def * assms by simp
qed

lemma requeue_frame:
  "requeueIfUnblocked b x H = (H1, u) \<Longrightarrow>
   h_deps H1 = h_deps H \<and> h_events H1 = h_events H \<and>
   map (\<lambda>w. (wi_id w, is_terminal (wi_status w))) (h_items H1) =
   map (\<lambda>w. (wi_id w, is_terminal (wi_status w))) (h_items H)"
  by (auto simp: requeueIfUnblocked_def split: if_splits intro!: map_update_where_frame)

lemma requeue_items:
  "requeueIfUnblocked b x H = (H1, u) \<Longrightarrow>
   h_items H1 = update_where (\<lambda>w. wi_id w = b \<and> wi_status w = Blocked \<and> \<not> active_blocker H b x)
                  (\<lambda>w. w\<lparr>wi_status := Queued\<rparr>) (h_items H)"
  by (auto simp: requeueIfUnblocked_def update_where_def row_exists_iff map_idI split: if_splits
      intro!: map_idI [symmetric])

lemma unblock_loop_items:
  "h_items (unblock_loop bs wi project H) =
     update_where (\<lambda>w. wi_id w \<in> set bs \<and> wi_status w = Blocked \<and> \<not> active_blocker H (wi_id w) wi)
       (\<lambda>w. w\<lparr>wi_status := Queued\<rparr>) (h_items H)"
proof (induction bs arbitrary: H)
  case Nil
  then show ?case by (simp add: update_where_def)
next
  case (Cons b bs)
  obtain H1 u where r: "requeueIfUnblocked b wi H = (H1, u)" by fastforce
  let ?H1 = "if u then emit_event (wiUnblockedEvent b project [(''unblocked_by_wi'', JStr wi)]) H1 else H1"
  have items: "h_items ?H1 = h_items H1" "h_deps ?H1 = h_deps H1" by (simp_all add: emit_event_def)
  have act: "active_blocker ?H1 x wi = active_blocker H x wi" for x
    using requeue_frame [OF r] items by (intro active_blocker_frame) auto
  show ?case
    by (simp add: r Cons.IH act items requeue_items [OF r]) (auto simp: update_where_def)
qed

lemma unblockDependentWI_items:
  "h_items (unblockDependentWI wi project H) =
     update_where (unblocked_by H wi) (\<lambda>w. w\<lparr>wi_status := Queued\<rparr>) (h_items H)"
proof -
  have "wi_id w \<in> set (unblock_candidates H wi) \<and> wi_status w = Blocked \<and> \<not> active_blocker H (wi_id w) wi
        \<longleftrightarrow> unblocked_by H wi w" if "w \<in> set (h_items H)" for w
    using that by (auto simp: unblock_candidates_def unblocked_by_def)
  then show ?thesis
    by (auto simp: unblockDependentWI_def unblock_loop_items update_where_def)
qed

lemma unblock_loop_frame:
  "same = unblock_loop bs wi project H \<Longrightarrow>
   h_attempts same = h_attempts H \<and> h_locks same = h_locks H \<and> h_steps same = h_steps H \<and>
   h_completions same = h_completions H \<and> h_deps same = h_deps H \<and> h_memories same = h_memories H"
  by (induction bs arbitrary: H)
     (auto simp: requeueIfUnblocked_def emit_event_def split: if_splits prod.splits)

lemma unblockDependentWI_frame [simp]:
  "h_attempts (unblockDependentWI wi project H) = h_attempts H"
  "h_locks (unblockDependentWI wi project H) = h_locks H"
  "h_steps (unblockDependentWI wi project H) = h_steps H"
  "h_completions (unblockDependentWI wi project H) = h_completions H"
  "h_deps (unblockDependentWI wi project H) = h_deps H"
  "h_memories (unblockDependentWI wi project H) = h_memories H"
  using unblock_loop_frame [OF refl, of "unblock_candidates H wi" wi project H]
  by (simp_all add: unblockDependentWI_def)

lemma active_blocker_terminal:
  assumes "distinct (map wi_id (h_items H))" "w \<in> set (h_items H)" "wi_id w = wi" "is_terminal (wi_status w)"
  shows "active_blocker H b wi = active_blocker H b []"
proof -
  have "\<not> row_exists (\<lambda>v. wi_id v = wi \<and> \<not> is_terminal (wi_status v)) (h_items H)"
  proof
    assume "row_exists (\<lambda>v. wi_id v = wi \<and> \<not> is_terminal (wi_status v)) (h_items H)"
    then obtain v where v: "v \<in> set (h_items H)" "wi_id v = wi" "\<not> is_terminal (wi_status v)"
      unfolding row_exists_iff by blast
    have "v = w" by (rule key_eqD [OF assms(1) v(1) assms(2)]) (simp only: v(2) assms(3))
    with v(3) assms(4) show False by blast
  qed
  then show ?thesis unfolding active_blocker_def row_exists_iff by blast
qed


section \<open>Properties\<close>





text \<open>C27: the check and the insert of \<open>CreateDependency\<close> are separate transactions, and the
  acyclicity of the graph does not survive their interleaving: two requests for opposite
  edges can both pass the check on one state, and inserting both edges closes a cycle.\<close>

theorem concurrent_CreateDependency_cycle:
  "\<exists>H r1 r2 p1 p2.
     create_dependency_check H r1 (\<lambda>p. []) ''admin'' = Inr p1 \<and>
     create_dependency_check H r2 (\<lambda>p. []) ''admin'' = Inr p2 \<and>
     acyclic (dep_edges H ''blocks'') \<and>
     \<not> acyclic (dep_edges (create_dependency_insert r2 p2 u2 (create_dependency_insert r1 p1 u1 H)) ''blocks'')"
proof -
  let ?H = "hub_of_items [filed_item ''a'' ''p#1'' ''p'', filed_item ''b'' ''p#2'' ''p'']"
  let ?r1 = "\<lparr>dq_blocked = ''a'', dq_blocking = ''b'', dq_kind = ''blocks'', dq_note = None\<rparr>"
  let ?r2 = "\<lparr>dq_blocked = ''b'', dq_blocking = ''a'', dq_kind = ''blocks'', dq_note = None\<rparr>"
  have E: "dep_edges ?H k = {}" for k by (simp add: edges_of_def hub_of_items_def)
  have 1: "create_dependency_check ?H ?r1 (\<lambda>p. []) ''admin'' = Inr ''p''" by code_simp
  have 2: "create_dependency_check ?H ?r2 (\<lambda>p. []) ''admin'' = Inr ''p''" by code_simp
  have "dep_edges (create_dependency_insert ?r2 ''p'' u2 (create_dependency_insert ?r1 ''p'' u1 ?H)) ''blocks'' =
        {(''b'', ''a''), (''a'', ''b'')}"
    by (simp add: dep_edges_insert E default_kind_def)
  then have "\<not> acyclic (dep_edges (create_dependency_insert ?r2 ''p'' u2 (create_dependency_insert ?r1 ''p'' u1 ?H)) ''blocks'')"
    by (auto simp: acyclic_insert)
  with 1 2 show ?thesis
    by (intro exI [of _ ?H] exI [of _ ?r1] exI [of _ ?r2] exI [of _ "''p''"]) (simp add: E)
qed

text \<open>The completion path and the garbage collector agree. After the work item \<open>wi\<close> has
  become terminal, the loop that follows its completion requeues no item the collector's
  single UPDATE would not, and the collector run afterwards reaches the state it would have
  reached alone.\<close>

theorem unblock_agrees_with_gc:
  assumes "distinct (map wi_id (h_items H))" "w \<in> set (h_items H)" "is_terminal (wi_status w)"
  shows "h_items (RunUnblockDependentWI (unblockDependentWI (wi_id w) project H)) =
         h_items (RunUnblockDependentWI H)"
proof -
  let ?q = "\<lambda>v. v\<lparr>wi_status := Queued\<rparr>"
  let ?H1 = "unblockDependentWI (wi_id w) project H"
  let ?due = "\<lambda>v. row_exists (\<lambda>d. dep_blocked d = wi_id v \<and> dep_kind d = ''blocks'') (h_deps H) \<and>
             \<not> active_blocker H (wi_id v) []"
  have items: "h_items ?H1 = update_where (unblocked_by H (wi_id w)) ?q (h_items H)"
    by (rule unblockDependentWI_items)
  then have "active_blocker ?H1 b [] = active_blocker H b []" for b
    by (intro active_blocker_frame) (auto simp: unblocked_by_def intro!: map_update_where_frame)
  then have gc: "h_items (RunUnblockDependentWI ?H1) =
      update_where (\<lambda>v. wi_status v = Blocked \<and> ?due v) ?q (h_items ?H1)"
    by (simp add: RunUnblockDependentWI_def)
  have "unblocked_by H (wi_id w) v \<Longrightarrow> wi_status v = Blocked \<and> ?due v" for v
    using active_blocker_terminal [OF assms(1,2) refl assms(3)]
    by (auto simp: unblocked_by_def row_exists_iff)
  moreover have "h_items (RunUnblockDependentWI H) =
      update_where (\<lambda>v. wi_status v = Blocked \<and> ?due v) ?q (h_items H)"
    by (simp add: RunUnblockDependentWI_def)
  ultimately show ?thesis
    unfolding gc items by (auto simp: update_where_def)
qed

definition handover_hub :: hub where
  "handover_hub = (hub_of_items [(filed_item ''a'' ''p#1'' ''p'')\<lparr>wi_status := Wrapped\<rparr>,
                                 (filed_item ''b'' ''p#2'' ''p'')\<lparr>wi_status := Blocked\<rparr>])
     \<lparr>h_deps := [\<lparr>dep_blocked = ''b'', dep_blocking = ''a'', dep_kind = ''blocks'',
                  dep_created_by = ''u'', dep_note = None\<rparr>]\<rparr>"

theorem unblock_agrees_with_gc_witness:
  "h_items (RunUnblockDependentWI (unblockDependentWI ''a'' ''p'' handover_hub)) =
     h_items (RunUnblockDependentWI handover_hub) \<and>
   map wi_status (h_items (unblockDependentWI ''a'' ''p'' handover_hub)) = [Wrapped, Queued]"
proof -
  have "distinct (map wi_id (h_items handover_hub))" by code_simp
  moreover have "(filed_item ''a'' ''p#1'' ''p'')\<lparr>wi_status := Wrapped\<rparr> \<in> set (h_items handover_hub)"
    by (simp add: handover_hub_def hub_of_items_def)
  ultimately have "h_items (RunUnblockDependentWI (unblockDependentWI ''a'' ''p'' handover_hub)) =
     h_items (RunUnblockDependentWI handover_hub)"
    using unblock_agrees_with_gc [of handover_hub "(filed_item ''a'' ''p#1'' ''p'')\<lparr>wi_status := Wrapped\<rparr>" "''p''"]
    by (simp add: filed_item_def)
  moreover have "map wi_status (h_items (unblockDependentWI ''a'' ''p'' handover_hub)) = [Wrapped, Queued]"
    by code_simp
  ultimately show ?thesis ..
qed

end
