(* ===== verification/Attempts.thy ===== *)
theory Attempts
  imports Dependencies
begin

text \<open>
  The attempt lifecycle of \<^verbatim>\<open>internal/domain/run_attempts.go\<close> and the cancellation of
  \<^verbatim>\<open>work_items.go\<close>: claiming a work item (fresh, idempotent replay, implicit
  takeover), completing an attempt, forced takeover, acquiring locks in mid-attempt,
  recording repository pins, cancelling, and the orphan-lock sweep. SHA-256 is the
  parameter \<open>sha\<close>, from the bytes of a secret to the bytes of its digest; the clock and
  the freshly drawn ids are arguments. Times are nanoseconds.

  Each operation is one function from a \<open>hub\<close> to an error or the new \<open>hub\<close>, split where
  the code has phases. Forced takeover is split at its transaction boundary: it decides on
  a read outside the transaction that applies the decision.
\<close>

section \<open>Session secrets\<close>

definition hex_char :: "nat \<Rightarrow> char" where
  "hex_char n = (if n < 10 then char_of (48 + n) else char_of (87 + n))"

fun hex_encode :: "string \<Rightarrow> string" where
  "hex_encode [] = []"
| "hex_encode (c # cs) = hex_char (of_char c div 16) # hex_char (of_char c mod 16) # hex_encode cs"

definition hex_val :: "char \<Rightarrow> nat option" where
  "hex_val c =
     (let n = of_char c :: nat in
      if 48 \<le> n \<and> n \<le> 57 then Some (n - 48)
      else if 97 \<le> n \<and> n \<le> 102 then Some (n - 87)
      else if 65 \<le> n \<and> n \<le> 70 then Some (n - 55)
      else None)"

fun hex_decode :: "string \<Rightarrow> string option" where
  "hex_decode [] = Some []"
| "hex_decode [c] = None"
| "hex_decode (c # d # cs) =
     (case (hex_val c, hex_val d, hex_decode cs) of
        (Some hi, Some lo, Some bs) \<Rightarrow> Some (char_of (16 * hi + lo) # bs)
      | _ \<Rightarrow> None)"

definition hashSecretInternal :: "(string \<Rightarrow> string) \<Rightarrow> string \<Rightarrow> string" where
  "hashSecretInternal sha secret = hex_encode (sha secret)"

section \<open>Credentials\<close>

definition GetWorkItem :: "hub \<Rightarrow> string \<Rightarrow> work_item outcome" where
  "GetWorkItem H idOrSlug =
     (case item_by_ref H idOrSlug of None \<Rightarrow> Inl (NewErr ErrNotFound) | Some w \<Rightarrow> Inr w)"

definition supersededByDetails :: "hub \<Rightarrow> string \<Rightarrow> string option \<Rightarrow> err_details" where
  "supersededByDetails H callerAttempt current =
     (case attempt_by_id H callerAttempt of
        None \<Rightarrow> NoDetails
      | Some a \<Rightarrow>
          if ra_status a \<noteq> ASuperseded then NoDetails
          else SupersededBy
                 (case current of None \<Rightarrow> None
                  | Some c \<Rightarrow> map_option ra_display (attempt_by_id H c))
                 (ra_ended a))"

definition verifyAttemptCredential ::
    "(string \<Rightarrow> string) \<Rightarrow> int \<Rightarrow> work_item \<Rightarrow> string \<Rightarrow> int \<Rightarrow> string \<Rightarrow> hub \<Rightarrow> hub outcome" where
  "verifyAttemptCredential sha now wi attemptID claimEpoch sessionSecret H =
     (if wi_current wi \<noteq> Some attemptID then
        Inl (NewErrDetails ErrConflictEpochMismatch (supersededByDetails H attemptID (wi_current wi)))
      else case attempt_by_id H attemptID of
        None \<Rightarrow> Inl (NewErr ErrNotFound)
      | Some a \<Rightarrow>
        if ra_epoch a \<noteq> claimEpoch then Inl (NewErr ErrConflictEpochMismatch)
        else case hex_decode (ra_secret_hash a) of
          None \<Rightarrow> Inl (NewErr ErrStaleCredential)
        | Some stored \<Rightarrow>
          (case hex_decode (hashSecretInternal sha sessionSecret) of
             None \<Rightarrow> Inl (NewErr ErrInternalError)
           | Some computed \<Rightarrow>
             if stored \<noteq> computed then Inl (NewErr ErrAttemptMismatch)
             else if ra_status a \<noteq> ARunning then
               (if ra_status a = APaused then Inl (NewErr ErrAttemptPaused)
                else Inl (NewErr ErrAttemptMismatch))
             else Inr (update_attempt attemptID (\<lambda>a. a\<lparr>ra_last_active := now\<rparr>) H)))"

definition VerifyAttemptCredentialPool ::
    "(string \<Rightarrow> string) \<Rightarrow> int \<Rightarrow> string \<Rightarrow> string \<Rightarrow> int \<Rightarrow> string \<Rightarrow> hub \<Rightarrow> hub outcome" where
  "VerifyAttemptCredentialPool sha now wiID attemptID claimEpoch sessionSecret H =
     (case GetWorkItem H wiID of
        Inl e \<Rightarrow> Inl e
      | Inr wi \<Rightarrow> verifyAttemptCredential sha now wi attemptID claimEpoch sessionSecret H)"

section \<open>Claim\<close>

record caller =
  ca_user :: string
  ca_api_key :: string
  ca_display :: string

record claim_request =
  cr_idem :: string
  cr_machine :: string
  cr_secret :: string
  cr_locks :: "resource_lock_req list"
  cr_force_over :: bool
  cr_scenario_ref :: "string option"

record claim_response =
  cl_attempt :: string
  cl_epoch :: int
  cl_locks :: "resource_lock list"
  cl_hint :: string
  cl_unrecognized :: "unrecognized list"
  cl_rhs :: "bool option"
  cl_wi_type :: "string option"
  cl_slug :: string
  cl_project :: string
  cl_id :: string
  cl_goal :: string

text \<open>The hint from the step state a previous session left behind.\<close>

definition in_progress_hint :: "int \<Rightarrow> step_state option \<Rightarrow> string" where
  "in_progress_hint now st =
     (case st of
        None \<Rightarrow> ''clean''
      | Some s \<Rightarrow>
          if ss_status s \<noteq> SInProgress then ''clean''
          else case ss_started s of
            None \<Rightarrow> ''crashed_in_progress''
          | Some t \<Rightarrow> if now - t < 15 * 1000000000 then ''active_in_progress_conflict''
                       else ''crashed_in_progress'')"

definition fresh_claim_hint :: "int \<Rightarrow> bool \<Rightarrow> step_state option \<Rightarrow> string" where
  "fresh_claim_hint now isTakeover st =
     (if isTakeover then in_progress_hint now st
      else case st of
        None \<Rightarrow> ''clean''
      | Some s \<Rightarrow> if ss_status s = SInProgress then ''crashed_in_progress'' else ''clean'')"

definition claim_validate :: "claim_request \<Rightarrow> aihub_error option" where
  "claim_validate req =
     (if cr_idem req = [] \<or> cr_machine req = [] \<or> cr_secret req = []
      then Some (NewErr ErrBadRequest) else None)"

text \<open>The idempotent replay: the attempt already filed under the key, and its live locks.\<close>

definition claim_replay :: "hub \<Rightarrow> int \<Rightarrow> work_item \<Rightarrow> run_attempt \<Rightarrow> claim_response" where
  "claim_replay H now wi a =
     \<lparr>cl_attempt = ra_id a, cl_epoch = ra_epoch a,
      cl_locks = filter (\<lambda>l. rl_owner l = ra_id a) (h_locks H),
      cl_hint = in_progress_hint now (step_of H (wi_id wi)),
      cl_unrecognized = UnrecognizedDeclaredResources (wi_declared wi), cl_rhs = wi_rhs wi,
      cl_wi_type = wi_type wi, cl_slug = wi_slug wi, cl_project = wi_project wi, cl_id = wi_id wi,
      cl_goal = wi_goal wi\<rparr>"

text \<open>The status gate; a success says whether the claim is a takeover and of which attempt.\<close>

definition claim_gate :: "hub \<Rightarrow> work_item \<Rightarrow> claim_request \<Rightarrow> caller \<Rightarrow> (bool \<times> string) outcome" where
  "claim_gate H wi req ca =
     (case (wi_status wi, wi_current wi) of
        (Running, Some cur) \<Rightarrow>
          (case attempt_by_id H cur of
             None \<Rightarrow> Inr (False, [])
           | Some a \<Rightarrow>
               if ra_actor a = ca_user ca then Inr (True, cur)
               else if cr_force_over req then Inr (True, cur)
               else Inl (NewErrDetails ErrConflictWIAlreadyClaimed
                           (CurrentAttempt cur (ra_display a) (ra_epoch a) (ra_last_active a))))
      | (Blocked, _) \<Rightarrow> Inl (NewErr ErrConflictTerminalState)
      | (Wrapped, _) \<Rightarrow> Inl (NewErr ErrConflictTerminalState)
      | (Failed, _) \<Rightarrow> Inl (NewErr ErrConflictTerminalState)
      | (Cancelled, _) \<Rightarrow> Inl (NewErr ErrConflictTerminalState)
      | _ \<Rightarrow> Inr (False, []))"

definition claim_supersede :: "int \<Rightarrow> caller \<Rightarrow> string \<Rightarrow> hub \<Rightarrow> hub" where
  "claim_supersede now ca prior H =
     fst (releaseLocks (lockDeleteByAttempt prior)
       (withExtra (newLockOp ''claim_takeover'' (ca_user ca) (ca_display ca) (ca_api_key ca))
          [(''superseded_attempt_id'', JStr prior)])
       (update_attempt prior (\<lambda>a. a\<lparr>ra_status := ASuperseded, ra_ended := Some now\<rparr>) H))"

definition new_attempt ::
    "(string \<Rightarrow> string) \<Rightarrow> int \<Rightarrow> string \<Rightarrow> work_item \<Rightarrow> claim_request \<Rightarrow> caller \<Rightarrow> string \<Rightarrow> run_attempt" where
  "new_attempt sha now newID wi req ca prior =
     \<lparr>ra_id = newID, ra_wi = wi_id wi, ra_status = ARunning, ra_epoch = wi_epoch wi + 1,
      ra_idem = cr_idem req, ra_actor = ca_user ca, ra_api_key = ca_api_key ca, ra_display = ca_display ca,
      ra_machine = cr_machine req, ra_secret_hash = hashSecretInternal sha (cr_secret req),
      ra_parent = nilIfEmpty prior, ra_last_active = now, ra_ended = None, ra_pause_reason = None,
      ra_derived = None, ra_no_steps = None, ra_repo_pins = None\<rparr>"

definition attemptSupersededEvent :: "work_item \<Rightarrow> string \<Rightarrow> caller \<Rightarrow> agent_event" where
  "attemptSupersededEvent wi newID ca =
     \<lparr>ev_type = ''attempt_superseded'', ev_wi = wi_id wi, ev_attempt = None, ev_actor = Some (ca_user ca),
      ev_display = Some (ca_display ca),
      ev_payload = Fields [(''superseded_by_attempt_id'', JStr newID),
        (''reason'', JStr ''claim by same user or explicit takeover''), (''actor_user_id'', JStr (ca_user ca))],
      ev_project = Some (wi_project wi)\<rparr>"

text \<open>
  \<open>INSERT \<dots> ON CONFLICT (work_item_id) DO UPDATE\<close> on \<^verbatim>\<open>wi_step_state\<close>; the current
  step and the version of an existing row stay.
\<close>

definition claim_step_upsert :: "work_item \<Rightarrow> claim_request \<Rightarrow> hub \<Rightarrow> hub" where
  "claim_step_upsert wi req H =
     (if row_exists (\<lambda>s. ss_wi s = wi_id wi) (h_steps H)
      then H\<lparr>h_steps := update_where (\<lambda>s. ss_wi s = wi_id wi)
              (\<lambda>s. s\<lparr>ss_wi_type := wi_type wi,
                     ss_scenario_ref := (case cr_scenario_ref req of None \<Rightarrow> ss_scenario_ref s | Some r \<Rightarrow> Some r),
                     ss_status := SIdle, ss_attempt := None, ss_started := None\<rparr>) (h_steps H)\<rparr>
      else H\<lparr>h_steps := h_steps H @
              [\<lparr>ss_wi = wi_id wi, ss_wi_type = wi_type wi, ss_step = None, ss_status = SIdle, ss_attempt = None,
                ss_started = None, ss_version = 0, ss_scenario_ref = cr_scenario_ref req\<rparr>]\<rparr>)"

definition defaultRequiresHumanSession :: bool where
  "defaultRequiresHumanSession = True"

definition claim_classify :: "work_item \<Rightarrow> caller \<Rightarrow> hub \<Rightarrow> hub" where
  "claim_classify wi ca H =
     (if wi_rhs wi = None then
        emit_event \<lparr>ev_type = ''wi_classification_resolved'', ev_wi = wi_id wi, ev_attempt = None,
            ev_actor = Some (ca_user ca), ev_display = Some (ca_display ca),
            ev_payload = Fields [(''requires_human_session'', JBool defaultRequiresHumanSession),
                                 (''source'', JStr ''server_default'')],
            ev_project = Some (wi_project wi)\<rparr>
          (update_item (wi_id wi) (\<lambda>w. w\<lparr>wi_rhs := Some defaultRequiresHumanSession\<rparr>) H)
      else H)"

text \<open>A JSON number from an integer.\<close>

fun nat_digits :: "nat \<Rightarrow> string" where
  "nat_digits n = (if n < 10 then [char_of (48 + n)] else nat_digits (n div 10) @ [char_of (48 + n mod 10)])"

declare nat_digits.simps [simp del]

definition json_int :: "int \<Rightarrow> json" where
  "json_int i = JNum (if i < 0 then CHR ''-'' # nat_digits (nat (- i)) else nat_digits (nat i))"

definition attemptStartedEvent ::
    "work_item \<Rightarrow> string \<Rightarrow> claim_request \<Rightarrow> caller \<Rightarrow> bool \<Rightarrow> int \<Rightarrow> agent_event" where
  "attemptStartedEvent wi newID req ca isTakeover epoch =
     \<lparr>ev_type = ''attempt_started'', ev_wi = wi_id wi, ev_attempt = Some newID, ev_actor = Some (ca_user ca),
      ev_display = Some (ca_display ca),
      ev_payload = Fields [(''machine_id'', JStr (cr_machine req)), (''actor_display'', JStr (ca_display ca)),
        (''is_takeover'', JBool isTakeover), (''claim_epoch'', json_int epoch)],
      ev_project = Some (wi_project wi)\<rparr>"


text \<open>
  From a passed probe to the commit: supersede and release the prior attempt, insert the
  new one, take the locks, move the work item, reset the step state, classify, record.
\<close>

definition claim_grant ::
    "(string \<Rightarrow> string) \<Rightarrow> int \<Rightarrow> string \<Rightarrow> work_item \<Rightarrow> claim_request \<Rightarrow> caller \<Rightarrow> resource_lock_req list \<Rightarrow>
     bool \<Rightarrow> string \<Rightarrow> hub \<Rightarrow> (hub \<times> claim_response) outcome" where
  "claim_grant sha now newID wi req ca locks isTakeover prior H =
     (let takeover = isTakeover \<and> prior \<noteq> [];
          newEpoch = wi_epoch wi + 1;
          H1 = (if takeover then claim_supersede now ca prior H else H)
      in case insert_attempt (new_attempt sha now newID wi req ca prior) H1 of
        Inl e \<Rightarrow> Inl e
      | Inr H2 \<Rightarrow>
        (let H3 = (if takeover then emit_event (attemptSupersededEvent wi newID ca) H2 else H2);
             claimOp = withExtra (newLockOp ''claim'' (ca_user ca) (ca_display ca) (ca_api_key ca))
                         [(''is_takeover'', JBool isTakeover)]
         in case acquire_all locks newID newEpoch (wi_project wi) (wi_id wi) claimOp H3 of
           Inl e \<Rightarrow> Inl e
         | Inr H4 \<Rightarrow>
           (let H5 = update_item (wi_id wi)
                       (\<lambda>w. w\<lparr>wi_status := Running, wi_current := Some newID, wi_epoch := newEpoch\<rparr>) H4;
                priorStep = step_of H5 (wi_id wi);
                H6 = claim_step_upsert wi req H5;
                H7 = claim_classify wi ca H6;
                H8 = emit_event (attemptStartedEvent wi newID req ca isTakeover newEpoch) H7
            in Inr (H8,
                 \<lparr>cl_attempt = newID, cl_epoch = newEpoch,
                  cl_locks = map (\<lambda>l. \<lparr>rl_type = rq_type l, rl_key = rq_key l, rl_owner = newID,
                                       rl_epoch = newEpoch\<rparr>) locks,
                  cl_hint = fresh_claim_hint now isTakeover priorStep,
                  cl_unrecognized = UnrecognizedDeclaredResources (wi_declared wi),
                  cl_rhs = (case wi_rhs wi of None \<Rightarrow> Some defaultRequiresHumanSession | Some b \<Rightarrow> Some b),
                  cl_wi_type = wi_type wi, cl_slug = wi_slug wi, cl_project = wi_project wi,
                  cl_id = wi_id wi, cl_goal = wi_goal wi\<rparr>))))"

definition FnClaimWorkItem ::
    "(string \<Rightarrow> string) \<Rightarrow> int \<Rightarrow> string \<Rightarrow> string \<Rightarrow> claim_request \<Rightarrow> caller \<Rightarrow> hub \<Rightarrow>
     (hub \<times> claim_response) outcome" where
  "FnClaimWorkItem sha now newID wiRef req ca H =
     (case claim_validate req of
        Some e \<Rightarrow> Inl e
      | None \<Rightarrow>
     (case item_by_ref H wiRef of
        None \<Rightarrow> Inl (NewErr ErrNotFound)
      | Some wi \<Rightarrow>
        if wi_workflow_mode wi = ''pending''
        then Inl (NewErrDetails ErrConflictComposePending (WorkflowMode (wi_workflow_mode wi)))
        else case select_one (\<lambda>a. ra_wi a = wi_id wi \<and> ra_idem a = cr_idem req) (h_attempts H) of
          Some a \<Rightarrow> Inr (H, claim_replay H now wi a)
        | None \<Rightarrow>
          if wi_type wi = None \<or> wi_type wi = Some [] then Inl (NewErr ErrWITypeMismatch)
          else case claim_gate H wi req ca of
            Inl e \<Rightarrow> Inl e
          | Inr (isTakeover, prior) \<Rightarrow>
            if \<not> ValidateRequestedLocks (cr_locks req) then Inl (NewErr ErrBadRequest)
            else (let pairs = deriveClaimLocks (cr_locks req) (wi_declared wi) (wi_project wi)
                  in case probeForeignLockHolders H (wi_id wi) (map fst pairs) (map snd pairs) of
                    Some e \<Rightarrow> Inl e
                  | None \<Rightarrow> claim_grant sha now newID wi req ca (map fst pairs) isTakeover prior H)))"

section \<open>Completion\<close>

record complete_request =
  cq_attempt :: string
  cq_epoch :: int
  cq_secret :: string
  cq_status :: string
  cq_force_terminate :: bool
  cq_pause_reason :: "string option"
  cq_derived :: "string list option"
  cq_no_steps_reason :: "string option"

definition derived_entry_ok :: "string \<Rightarrow> bool" where
  "derived_entry_ok entry =
     (if entry = ''folded'' \<or> has_prefix entry ''folded:'' then True
      else if has_prefix entry ''filed:'' then trim_space (drop (length ''filed:'') entry) \<noteq> []
      else if has_prefix entry ''dropped:'' then trim_space (drop (length ''dropped:'') entry) \<noteq> []
      else False)"

definition ValidateDerived :: "string list \<Rightarrow> aihub_error option" where
  "ValidateDerived derived =
     (if list_all derived_entry_ok derived then None else Some (NewErr ErrBadRequest))"

definition derivedFiledRefs :: "string list \<Rightarrow> string list" where
  "derivedFiledRefs derived =
     map (\<lambda>e. trim_space (drop (length ''filed:'') e)) (filter (\<lambda>e. has_prefix e ''filed:'') derived)"

definition complete_validate :: "complete_request \<Rightarrow> aihub_error option" where
  "complete_validate req =
     (let status = cq_status req in
      if status \<noteq> ''wrapped'' \<and> status \<noteq> ''failed'' \<and> status \<noteq> ''paused'' then Some (NewErr ErrBadRequest)
      else if status \<noteq> ''paused'' \<and> cq_pause_reason req \<noteq> None \<and> cq_pause_reason req \<noteq> Some []
      then Some (NewErr ErrBadRequest)
      else if status \<noteq> ''wrapped'' \<and> cq_no_steps_reason req \<noteq> None \<and> cq_no_steps_reason req \<noteq> Some []
      then Some (NewErr ErrBadRequest)
      else if status = ''wrapped'' then
        (case cq_derived req of None \<Rightarrow> Some (NewErr ErrBadRequest) | Some ds \<Rightarrow> ValidateDerived ds)
      else if cq_derived req \<noteq> None \<and> cq_derived req \<noteq> Some [] then Some (NewErr ErrBadRequest)
      else None)"

definition resolveVisibleRefOnTx ::
    "hub \<Rightarrow> string \<Rightarrow> string \<Rightarrow> (string \<Rightarrow> string) \<Rightarrow> string \<Rightarrow> string outcome" where
  "resolveVisibleRefOnTx H ref ownProject projectRoles callerRole =
     (case select_one (\<lambda>w. (wi_id w = ref \<or> wi_slug w = ref) \<and>
             (wi_project w = ownProject \<or> callerRole = ''admin'' \<or> projectRoles (wi_project w) \<noteq> [])) (h_items H) of
        None \<Rightarrow> Inl (NewErr ErrNotFound)
      | Some w \<Rightarrow> Inr (wi_id w))"

fun resolve_filed_refs ::
    "hub \<Rightarrow> string list \<Rightarrow> string \<Rightarrow> (string \<Rightarrow> string) \<Rightarrow> string \<Rightarrow> aihub_error option" where
  "resolve_filed_refs H [] ownProject projectRoles callerRole = None"
| "resolve_filed_refs H (r # rs) ownProject projectRoles callerRole =
     (case resolveVisibleRefOnTx H r ownProject projectRoles callerRole of
        Inl e \<Rightarrow> Some e
      | Inr i \<Rightarrow> resolve_filed_refs H rs ownProject projectRoles callerRole)"

definition unknownStepAttemptID :: "string \<Rightarrow> string" where
  "unknownStepAttemptID completionID = ''unknown-'' @ completionID"

definition fnForceTerminateStep :: "string \<Rightarrow> string \<Rightarrow> string \<Rightarrow> string option \<Rightarrow> hub \<Rightarrow> hub" where
  "fnForceTerminateStep scID wiID attemptID stepAttemptID H =
     (case step_of H wiID of
        None \<Rightarrow> H
      | Some st \<Rightarrow>
        (case ss_step st of
           None \<Rightarrow> H
         | Some step \<Rightarrow>
           (let saID = (case stepAttemptID of
                          Some sa \<Rightarrow> if sa \<noteq> [] then sa else unknownStepAttemptID scID
                        | None \<Rightarrow> unknownStepAttemptID scID);
                H1 = (if row_exists (\<lambda>c. sc_step_attempt c = saID) (h_completions H) then H
                      else H\<lparr>h_completions := h_completions H @
                        [\<lparr>sc_id = scID, sc_wi = wiID, sc_step = step, sc_step_attempt = saID,
                          sc_run_attempt = attemptID, sc_status = ''failed'', sc_summary = None,
                          sc_error_type = Some ''force_terminate'', sc_escalated = False\<rparr>]\<rparr>);
                H2 = emit_event \<lparr>ev_type = ''step_failed'', ev_wi = wiID, ev_attempt = Some attemptID,
                        ev_actor = None, ev_display = None,
                        ev_payload = Fields [(''step_id'', JStr step), (''step_attempt_id'', JStr saID),
                          (''error_type'', JStr ''force_terminate_step''), (''escalated'', JBool False)],
                        ev_project = map_option wi_project (item_by_id H1 wiID)\<rparr> H1
            in H2\<lparr>h_steps := update_where (\<lambda>s. ss_wi s = wiID)
                   (\<lambda>s. s\<lparr>ss_status := SIdle, ss_attempt := None, ss_started := None,
                          ss_version := ss_version s + 1\<rparr>) (h_steps H2)\<rparr>)))"


text \<open>A step still in progress is terminated on pause or on request, and refused otherwise.\<close>

definition complete_step_phase :: "string \<Rightarrow> string \<Rightarrow> complete_request \<Rightarrow> hub \<Rightarrow> hub outcome" where
  "complete_step_phase scID wiID req H =
     (case step_of H wiID of
        None \<Rightarrow> Inr H
      | Some st \<Rightarrow>
        if ss_status st = SInProgress then
          (if cq_status req = ''paused'' \<or> cq_force_terminate req
           then Inr (fnForceTerminateStep scID wiID (cq_attempt req) (ss_attempt st) H)
           else Inl (NewErr ErrConflictStepInProgress))
        else Inr H)"

definition codeProducedEventTypes :: "string list" where
  "codeProducedEventTypes = [''commit'', ''push'', ''pr_opened'']"

definition blank_reason :: "string option \<Rightarrow> bool" where
  "blank_reason r = (case r of None \<Rightarrow> True | Some s \<Rightarrow> trim_space s = [])"

text \<open>The version is the one read before the step phase, 0 when there is no row.\<close>

definition no_steps_gate :: "int \<Rightarrow> string \<Rightarrow> complete_request \<Rightarrow> hub \<Rightarrow> aihub_error option" where
  "no_steps_gate stepVersion wiID req H =
     (if cq_status req = ''wrapped'' \<and> stepVersion = 0 \<and>
         row_exists (\<lambda>e. ev_wi e = wiID \<and> ev_type e \<in> set codeProducedEventTypes) (h_events H) \<and>
         blank_reason (cq_no_steps_reason req)
      then Some (NewErr ErrConflictNoStepsRecorded) else None)"

definition attempt_status_of :: "string \<Rightarrow> attempt_status" where
  "attempt_status_of s = (if s = ''wrapped'' then AWrapped else if s = ''failed'' then AFailed else APaused)"

definition wi_status_of :: "string \<Rightarrow> wi_status" where
  "wi_status_of s = (if s = ''wrapped'' then Wrapped else if s = ''failed'' then Failed else Paused)"

definition complete_update_attempt :: "int \<Rightarrow> complete_request \<Rightarrow> hub \<Rightarrow> hub" where
  "complete_update_attempt now req H =
     update_attempt (cq_attempt req)
       (\<lambda>a. a\<lparr>ra_status := attempt_status_of (cq_status req), ra_ended := Some now,
              ra_pause_reason := (if cq_status req = ''paused'' then cq_pause_reason req else None),
              ra_derived := (if cq_status req = ''wrapped'' then cq_derived req else None),
              ra_no_steps := (if cq_status req = ''wrapped'' \<and> \<not> blank_reason (cq_no_steps_reason req)
                              then cq_no_steps_reason req else None)\<rparr>) H"

definition complete_release :: "complete_request \<Rightarrow> hub \<Rightarrow> hub" where
  "complete_release req H =
     (if cq_status req \<noteq> ''paused''
      then fst (releaseLocks (lockDeleteByAttempt (cq_attempt req))
             (withExtra (newLockOp ''attempt_terminal'' [] [] []) [(''attempt_status'', JStr (cq_status req))]) H)
      else fst (releaseLocks (acquireLocksReleasePaused (cq_attempt req))
             (withExtra (newLockOp ''attempt_paused'' [] [] [])
                [(''retained_types'', JStr ''git_branch, deploy_env, worktree, tcp_port'')]) H))"

definition attemptCompletedEvent :: "work_item \<Rightarrow> complete_request \<Rightarrow> agent_event" where
  "attemptCompletedEvent wi req =
     \<lparr>ev_type = ''attempt_completed'', ev_wi = wi_id wi, ev_attempt = Some (cq_attempt req), ev_actor = None,
      ev_display = None,
      ev_payload = Fields ([(''status'', JStr (cq_status req))] @
        (if cq_status req = ''paused'' then
           (case cq_pause_reason req of None \<Rightarrow> [] | Some r \<Rightarrow> [(''pause_reason'', JStr r)]) else []) @
        (if cq_status req = ''wrapped'' then
           (case cq_derived req of None \<Rightarrow> [] | Some ds \<Rightarrow> [(''derived'', JArr (map JStr ds))]) else []) @
        (if cq_status req = ''wrapped'' \<and> \<not> blank_reason (cq_no_steps_reason req) then
           (case cq_no_steps_reason req of None \<Rightarrow> [] | Some r \<Rightarrow> [(''no_steps_reason'', JStr r)]) else [])),
      ev_project = Some (wi_project wi)\<rparr>"

definition expire_methodology :: "int \<Rightarrow> string \<Rightarrow> hub \<Rightarrow> hub" where
  "expire_methodology now wiID H =
     H\<lparr>h_memories := update_where
        (\<lambda>m. mem_wi m = Some wiID \<and> has_prefix (mem_type m) ''methodology.'' \<and> mem_expires m = None)
        (\<lambda>m. m\<lparr>mem_expires := Some (now + 90 * 24 * 3600 * 1000000000)\<rparr>) (h_memories H)\<rparr>"

definition complete_commit :: "int \<Rightarrow> work_item \<Rightarrow> complete_request \<Rightarrow> hub \<Rightarrow> hub" where
  "complete_commit now wi req H =
     (let H1 = complete_update_attempt now req H;
          H2 = complete_release req H1;
          H3 = update_item (wi_id wi) (\<lambda>w. w\<lparr>wi_status := wi_status_of (cq_status req)\<rparr>) H2;
          H4 = emit_event (attemptCompletedEvent wi req) H3
      in if cq_status req = ''wrapped'' \<or> cq_status req = ''failed''
         then expire_methodology now (wi_id wi) (unblockDependentWI (wi_id wi) (wi_project wi) H4)
         else H4)"

definition FnCompleteAttempt ::
    "(string \<Rightarrow> string) \<Rightarrow> int \<Rightarrow> string \<Rightarrow> string \<Rightarrow> complete_request \<Rightarrow> (string \<Rightarrow> string) \<Rightarrow> string \<Rightarrow>
     hub \<Rightarrow> hub outcome" where
  "FnCompleteAttempt sha now scID wiID req projectRoles callerRole H =
     (case complete_validate req of
        Some e \<Rightarrow> Inl e
      | None \<Rightarrow>
     (case item_by_id H wiID of
        None \<Rightarrow> Inl (NewErr ErrNotFound)
      | Some wi \<Rightarrow>
        if is_terminal (wi_status wi) then Inl (NewErr ErrConflictTerminalState)
        else case verifyAttemptCredential sha now wi (cq_attempt req) (cq_epoch req) (cq_secret req) H of
          Inl e \<Rightarrow> Inl e
        | Inr H1 \<Rightarrow>
        (case (if cq_status req = ''wrapped''
               then resolve_filed_refs H1 (derivedFiledRefs (case cq_derived req of None \<Rightarrow> [] | Some ds \<Rightarrow> ds))
                      (wi_project wi) projectRoles callerRole
               else None) of
           Some e \<Rightarrow> Inl e
         | None \<Rightarrow>
        (let stepVersion = (case step_of H1 wiID of None \<Rightarrow> 0 | Some s \<Rightarrow> ss_version s)
         in case complete_step_phase scID wiID req H1 of
           Inl e \<Rightarrow> Inl e
         | Inr H2 \<Rightarrow>
           (case no_steps_gate stepVersion wiID req H2 of
              Some e \<Rightarrow> Inl e
            | None \<Rightarrow> Inr (complete_commit now wi req H2))))))"

section \<open>Forced takeover\<close>

record takeover_request =
  tq_reason :: string
  tq_machine :: string
  tq_secret :: string

record takeover_ctx =
  tc_wi :: work_item
  tc_prior :: string
  tc_prior_display :: string

text \<open>
  The reads before the transaction: the row as it was, the current attempt's actor, the
  permission decision.
\<close>

definition takeover_read ::
    "hub \<Rightarrow> string \<Rightarrow> takeover_request \<Rightarrow> caller \<Rightarrow> string \<Rightarrow> (string \<Rightarrow> string) \<Rightarrow> takeover_ctx outcome" where
  "takeover_read H wiRef req ca callerRole projectRoles =
     (if tq_reason req = [] then Inl (NewErr ErrBadRequest)
      else case GetWorkItem H wiRef of
        Inl e \<Rightarrow> Inl e
      | Inr wi \<Rightarrow>
        if wi_status wi \<noteq> Running then Inl (NewErr ErrBadRequest)
        else case wi_current wi of
          None \<Rightarrow> Inl (NewErr ErrInternalError)
        | Some cur \<Rightarrow>
          (case attempt_by_id H cur of
             None \<Rightarrow> Inl (NewErr ErrInternalError)
           | Some a \<Rightarrow>
             if ra_actor a \<noteq> ca_user ca \<and> projectRoles (wi_project wi) \<noteq> ''maintainer'' \<and> callerRole \<noteq> ''admin''
             then Inl (NewErr ErrForbidden)
             else Inr \<lparr>tc_wi = wi, tc_prior = cur, tc_prior_display = ra_display a\<rparr>))"

text \<open>
  The locks a takeover re-derives; unlike a claim it skips only entries without a lock type.
\<close>

fun takeover_locks ::
    "string \<Rightarrow> declared_resource_item list \<Rightarrow> (resource_lock_req \<times> lock_conflict_probe) list" where
  "takeover_locks project [] = []"
| "takeover_locks project (d # ds) =
     (case derivedLockProbe d project of
        (lockType, lockKey, probe) \<Rightarrow>
          if lockType = [] then takeover_locks project ds
          else (\<lparr>rq_type = lockType, rq_key = lockKey\<rparr>, probe) # takeover_locks project ds)"

definition takeover_attempt ::
    "(string \<Rightarrow> string) \<Rightarrow> int \<Rightarrow> string \<Rightarrow> string \<Rightarrow> takeover_ctx \<Rightarrow> takeover_request \<Rightarrow> caller \<Rightarrow> run_attempt" where
  "takeover_attempt sha now newID genSecret tc req ca =
     \<lparr>ra_id = newID, ra_wi = wi_id (tc_wi tc), ra_status = ARunning, ra_epoch = wi_epoch (tc_wi tc) + 1,
      ra_idem = ''force-takeover-'' @ newID, ra_actor = ca_user ca, ra_api_key = [], ra_display = ca_display ca,
      ra_machine = (if tq_machine req = [] then ''force-takeover'' else tq_machine req),
      ra_secret_hash = hashSecretInternal sha (if tq_secret req = [] then genSecret else tq_secret req),
      ra_parent = Some (tc_prior tc), ra_last_active = now, ra_ended = None, ra_pause_reason = None,
      ra_derived = None, ra_no_steps = None, ra_repo_pins = None\<rparr>"

definition takeover_op :: "takeover_ctx \<Rightarrow> takeover_request \<Rightarrow> caller \<Rightarrow> lock_op" where
  "takeover_op tc req ca =
     withExtra (newLockOp ''force_takeover'' (ca_user ca) (ca_display ca) [])
       [(''prior_attempt_id'', JStr (tc_prior tc)), (''reason'', JStr (tq_reason req))]"

definition takeover_displace ::
    "int \<Rightarrow> string \<Rightarrow> takeover_ctx \<Rightarrow> takeover_request \<Rightarrow> caller \<Rightarrow> hub \<Rightarrow> hub" where
  "takeover_displace now scID tc req ca H =
     (let wiID = wi_id (tc_wi tc);
          H1 = (case step_of H wiID of
                  None \<Rightarrow> H
                | Some st \<Rightarrow> if ss_status st = SInProgress
                             then fnForceTerminateStep scID wiID (tc_prior tc) (ss_attempt st) H else H);
          H2 = update_attempt (tc_prior tc) (\<lambda>a. a\<lparr>ra_status := ASuperseded, ra_ended := Some now\<rparr>) H1;
          H3 = fst (releaseLocks (lockDeleteByAttempt (tc_prior tc)) (takeover_op tc req ca) H2)
      in emit_event \<lparr>ev_type = ''force_takeover'', ev_wi = wiID, ev_attempt = None, ev_actor = Some (ca_user ca),
           ev_display = Some [],
           ev_payload = Fields [(''prior_attempt_id'', JStr (tc_prior tc)),
             (''prior_actor'', JStr (tc_prior_display tc)), (''reason'', JStr (tq_reason req))],
           ev_project = Some (wi_project (tc_wi tc))\<rparr> H3)"

definition takeover_apply ::
    "(string \<Rightarrow> string) \<Rightarrow> int \<Rightarrow> string \<Rightarrow> string \<Rightarrow> string \<Rightarrow> takeover_ctx \<Rightarrow> takeover_request \<Rightarrow> caller \<Rightarrow>
     hub \<Rightarrow> hub outcome" where
  "takeover_apply sha now newID genSecret scID tc req ca H =
     (let wi = tc_wi tc;
          pairs = takeover_locks (wi_project wi) (unmarshalDeclaredResources (wi_declared wi))
      in case probeForeignLockHolders H (wi_id wi) (map fst pairs) (map snd pairs) of
        Some e \<Rightarrow> Inl e
      | None \<Rightarrow>
        (case insert_attempt (takeover_attempt sha now newID genSecret tc req ca)
                (takeover_displace now scID tc req ca H) of
           Inl e \<Rightarrow> Inl e
         | Inr H1 \<Rightarrow>
           (case acquire_all (map fst pairs) newID (wi_epoch wi + 1) (wi_project wi) (wi_id wi)
                   (takeover_op tc req ca) H1 of
              Inl e \<Rightarrow> Inl e
            | Inr H2 \<Rightarrow>
                Inr (update_item (wi_id wi)
                      (\<lambda>w. w\<lparr>wi_status := Running, wi_current := Some newID, wi_epoch := wi_epoch wi + 1\<rparr>) H2))))"

definition FnForceTakeover ::
    "(string \<Rightarrow> string) \<Rightarrow> int \<Rightarrow> string \<Rightarrow> string \<Rightarrow> string \<Rightarrow> string \<Rightarrow> takeover_request \<Rightarrow> caller \<Rightarrow>
     string \<Rightarrow> (string \<Rightarrow> string) \<Rightarrow> hub \<Rightarrow> hub outcome" where
  "FnForceTakeover sha now newID genSecret scID wiRef req ca callerRole projectRoles H =
     (case takeover_read H wiRef req ca callerRole projectRoles of
        Inl e \<Rightarrow> Inl e
      | Inr tc \<Rightarrow> takeover_apply sha now newID genSecret scID tc req ca H)"


section \<open>Locks in mid-attempt\<close>

record attempt_credential =
  ac_attempt :: string
  ac_epoch :: int
  ac_secret :: string

record acquire_response =
  al_acquired :: "resource_lock list"
  al_already_held :: "resource_lock list"
  al_unrecognized :: "unrecognized list"

fun acquire_targets :: "string \<Rightarrow> declared_resource_item list \<Rightarrow> (string \<times> lock_conflict_probe) list" where
  "acquire_targets project [] = []"
| "acquire_targets project (d # ds) =
     (case derivedLockProbe d project of
        (lType, lKey, probe) \<Rightarrow>
          if lType \<noteq> ''file_scope'' then acquire_targets project ds
          else if lKey = [] then acquire_targets project ds
          else (lKey, probe) # acquire_targets project ds)"

text \<open>
  One target: skip what this attempt holds, refuse what another live attempt holds, take a
  free key, and reclaim a key whose owner is no longer live. The list is what was taken.
\<close>

definition acquire_target ::
    "attempt_credential \<Rightarrow> work_item \<Rightarrow> string \<Rightarrow> lock_conflict_probe \<Rightarrow> hub \<Rightarrow> (hub \<times> resource_lock list) outcome" where
  "acquire_target ac wi key probe H =
     (let t = ''file_scope'';
          op = newLockOp ''acquire_locks'' [] [] [];
          mine = \<lparr>rl_type = t, rl_key = key, rl_owner = ac_attempt ac, rl_epoch = ac_epoch ac\<rparr>
      in case acquireLocksCollision H t probe of
        Some (owner, display, slug) \<Rightarrow>
          if owner \<noteq> ac_attempt ac
          then Inl (NewErrDetails ErrConflictLockTaken (ConflictWith owner display slug))
          else Inr (H, [])
      | None \<Rightarrow>
        (case acquireLockIfFree t key (ac_attempt ac) (ac_epoch ac) (wi_project wi) (wi_id wi) op H of
           (True, H1) \<Rightarrow> Inr (H1, [mine])
         | (False, H1) \<Rightarrow>
           (case acquireLocksCollision H1 t probe of
              Some (owner, display, slug) \<Rightarrow>
                if owner = ac_attempt ac then Inr (H1, [])
                else Inl (NewErrDetails ErrConflictLockTaken (ConflictWith owner display slug))
            | None \<Rightarrow>
              (let reclaimOp = withExtra (newLockOp ''orphan_reclaim'' [] [] [])
                                 [(''reclaimed_by_attempt_id'', JStr (ac_attempt ac))];
                   H2 = fst (releaseLocks (lockDeleteByKey t key) reclaimOp H1);
                   H3 = snd (acquireLockIfFree t key (ac_attempt ac) (ac_epoch ac) (wi_project wi) (wi_id wi) reclaimOp H2)
               in Inr (H3, [mine])))))"

fun acquire_loop ::
    "attempt_credential \<Rightarrow> work_item \<Rightarrow> (string \<times> lock_conflict_probe) list \<Rightarrow> hub \<Rightarrow> (hub \<times> resource_lock list) outcome" where
  "acquire_loop ac wi [] H = Inr (H, [])"
| "acquire_loop ac wi ((key, probe) # ts) H =
     (case acquire_target ac wi key probe H of
        Inl e \<Rightarrow> Inl e
      | Inr (H1, got) \<Rightarrow>
        (case acquire_loop ac wi ts H1 of
           Inl e \<Rightarrow> Inl e
         | Inr (H2, rest) \<Rightarrow> Inr (H2, got @ rest)))"

definition lock_label :: "resource_lock \<Rightarrow> string" where
  "lock_label l = rl_type l @ '':'' @ rl_key l"

definition FnAcquireLocks ::
    "(string \<Rightarrow> string) \<Rightarrow> int \<Rightarrow> string \<Rightarrow> attempt_credential \<Rightarrow> hub \<Rightarrow> (hub \<times> acquire_response) outcome" where
  "FnAcquireLocks sha now wiRef ac H =
     (case item_by_ref H wiRef of
        None \<Rightarrow> Inl (NewErr ErrNotFound)
      | Some wi \<Rightarrow>
        if wi_status wi \<noteq> Running then Inl (NewErr ErrAttemptMismatch)
        else case verifyAttemptCredential sha now wi (ac_attempt ac) (ac_epoch ac) (ac_secret ac) H of
          Inl e \<Rightarrow> Inl e
        | Inr H1 \<Rightarrow>
          (case decodeDeclaredResources (wi_declared wi) of
             None \<Rightarrow> Inl (NewErr ErrInternalError)
           | Some declared \<Rightarrow>
             (case acquire_loop ac wi (acquire_targets (wi_project wi) declared) H1 of
                Inl e \<Rightarrow> Inl e
              | Inr (H2, acquired) \<Rightarrow>
                Inr (H2,
                  \<lparr>al_acquired = acquired,
                   al_already_held = filter (\<lambda>l. rl_owner l = ac_attempt ac \<and>
                     lock_label l \<notin> set (map lock_label acquired)) (h_locks H2),
                   al_unrecognized = UnrecognizedDeclaredResources (wi_declared wi)\<rparr>))))"

definition repoPinsJSON :: "(string \<times> string) list \<Rightarrow> (string \<times> string) list option" where
  "repoPinsJSON pins = (if pins = [] then None else Some pins)"

definition FnRecordRepoPins ::
    "(string \<Rightarrow> string) \<Rightarrow> int \<Rightarrow> string \<Rightarrow> attempt_credential \<Rightarrow> (string \<times> string) list \<Rightarrow> hub \<Rightarrow> hub outcome" where
  "FnRecordRepoPins sha now wiID ac pins H =
     (case item_by_id H wiID of
        None \<Rightarrow> Inl (NewErr ErrNotFound)
      | Some wi \<Rightarrow>
        (case verifyAttemptCredential sha now wi (ac_attempt ac) (ac_epoch ac) (ac_secret ac) H of
           Inl e \<Rightarrow> Inl e
         | Inr H1 \<Rightarrow>
           Inr (if pins \<noteq> [] then update_attempt (ac_attempt ac) (\<lambda>a. a\<lparr>ra_repo_pins := repoPinsJSON pins\<rparr>) H1
                else H1)))"

section \<open>Cancellation and the orphan sweep\<close>

definition cancelGate :: "wi_status \<Rightarrow> bool \<Rightarrow> string \<Rightarrow> string \<Rightarrow> aihub_error option" where
  "cancelGate status isReporter callerRole projectRole =
     (if status = Running then Some (NewErr ErrConflictWIAlreadyClaimed)
      else if is_terminal status then Some (NewErr ErrConflictTerminalState)
      else if \<not> (callerRole = ''admin'' \<or> projectRole = ''maintainer'' \<or> isReporter) then Some (NewErr ErrForbidden)
      else None)"

definition wi_status_text :: "wi_status \<Rightarrow> string" where
  "wi_status_text s =
     (case s of Queued \<Rightarrow> ''queued'' | Running \<Rightarrow> ''running'' | Paused \<Rightarrow> ''paused'' | Blocked \<Rightarrow> ''blocked''
      | Wrapped \<Rightarrow> ''wrapped'' | Failed \<Rightarrow> ''failed'' | Cancelled \<Rightarrow> ''cancelled'')"

definition cancel_commit :: "int \<Rightarrow> string \<Rightarrow> wi_status \<Rightarrow> string \<Rightarrow> hub \<Rightarrow> hub" where
  "cancel_commit now wiID status callerUserID H =
     (let H1 = update_item wiID (\<lambda>w. w\<lparr>wi_status := Cancelled\<rparr>) H;
          H2 = H1\<lparr>h_attempts := update_where (\<lambda>a. ra_wi a = wiID \<and> is_live (ra_status a))
                    (\<lambda>a. a\<lparr>ra_status := ACancelled, ra_ended := Some now\<rparr>) (h_attempts H1)\<rparr>
      in fst (releaseLocks (releaseCancelledWILocks H2 wiID)
           (withExtra (newLockOp ''wi_cancelled'' callerUserID [] [])
              [(''prior_wi_status'', JStr (wi_status_text status))]) H2))"

text \<open>
  The gate runs on the row read before the transaction and again on the row locked in it.
  The first read only adds refusals, since the reporter and the project of a work item
  do not change.
\<close>

definition CancelWorkItem ::
    "int \<Rightarrow> string \<Rightarrow> string \<Rightarrow> string \<Rightarrow> (string \<Rightarrow> string) \<Rightarrow> hub \<Rightarrow> hub outcome" where
  "CancelWorkItem now idOrSlug callerUserID callerRole projectRoles H =
     (case GetWorkItem H idOrSlug of
        Inl e \<Rightarrow> Inl e
      | Inr wi \<Rightarrow>
        (let isReporter = (wi_reporter wi = callerUserID); projectRole = projectRoles (wi_project wi)
         in case cancelGate (wi_status wi) isReporter callerRole projectRole of
           Some e \<Rightarrow> Inl e
         | None \<Rightarrow>
           (case item_by_id H (wi_id wi) of
              None \<Rightarrow> Inl (NewErr ErrInternalError)
            | Some locked \<Rightarrow>
              (case cancelGate (wi_status locked) isReporter callerRole projectRole of
                 Some e \<Rightarrow> Inl e
               | None \<Rightarrow> Inr (cancel_commit now (wi_id wi) (wi_status locked) callerUserID H)))))"

definition RunOrphanLockSweep :: "hub \<Rightarrow> hub \<times> nat" where
  "RunOrphanLockSweep H =
     (case releaseLocks (orphanLock H) (newLockOp ''orphan_sweep'' [] [] []) H of
        (H1, released) \<Rightarrow> (H1, length released))"

end
