(* ===== verification/Hub_Api.thy ===== *)
theory Hub_Api
  imports Attempts
begin

text \<open>
  The request handlers of \<^verbatim>\<open>internal/server\<close> in front of the attempt lifecycle: the
  project access check, the handlers that claim, complete, pause, take over and cancel, and
  the step state machine of \<^verbatim>\<open>routes_step.go\<close>. Request strings are taken to be free of
  NUL bytes (a text column refuses them). A statement that no constraint rejects is taken
  to succeed.
\<close>

section \<open>Access\<close>

record user_ctx =
  us_id :: string
  us_display :: string
  us_role :: string
  us_project_roles :: "string \<Rightarrow> string"
  us_api_key :: string
  us_scope :: "string option"

definition RoleLevel :: "string \<Rightarrow> nat" where
  "RoleLevel r = (if r = ''viewer'' then 1 else if r = ''writer'' then 2 else if r = ''maintainer'' then 3 else 0)"

definition checkProjectAccess :: "user_ctx option \<Rightarrow> string \<Rightarrow> string \<Rightarrow> aihub_error option" where
  "checkProjectAccess u project minRole =
     (case u of
        None \<Rightarrow> Some (NewErr ErrUnauthorized)
      | Some u \<Rightarrow>
        if us_scope u \<noteq> None \<and> us_scope u \<noteq> Some project then Some (NewErr ErrNotFound)
        else if us_role u = ''admin'' then None
        else if project = [] then Some (NewErr ErrBadRequest)
        else let userRole = us_project_roles u project in
          if userRole = [] \<or> RoleLevel userRole < RoleLevel ''viewer'' then Some (NewErr ErrNotFound)
          else if RoleLevel userRole < RoleLevel minRole then Some (NewErr ErrForbidden)
          else None)"

definition caller_of :: "user_ctx \<Rightarrow> caller" where
  "caller_of u = \<lparr>ca_user = us_id u, ca_api_key = us_api_key u, ca_display = us_display u\<rparr>"

text \<open>Loading the addressed work item and checking the caller's role in its project.\<close>

definition load_for :: "hub \<Rightarrow> string \<Rightarrow> user_ctx \<Rightarrow> string \<Rightarrow> work_item outcome" where
  "load_for H wiRef u minRole =
     (case GetWorkItem H wiRef of
        Inl e \<Rightarrow> Inl e
      | Inr wi \<Rightarrow>
        (case checkProjectAccess (Some u) (wi_project wi) minRole of Some e \<Rightarrow> Inl e | None \<Rightarrow> Inr wi))"

section \<open>Attempt handlers\<close>

text \<open>
  The reads \<open>handleClaimWorkItem\<close> makes before the claim transaction, among them the only
  permission check for displacing another user's attempt through a claim.
\<close>

definition claim_authorize :: "hub \<Rightarrow> string \<Rightarrow> claim_request \<Rightarrow> user_ctx \<Rightarrow> aihub_error option" where
  "claim_authorize H wiRef req u =
     (case load_for H wiRef u ''writer'' of
        Inl e \<Rightarrow> Some e
      | Inr wi \<Rightarrow>
        (case wi_current wi of
           None \<Rightarrow> None
         | Some cur \<Rightarrow>
           if \<not> cr_force_over req then None
           else let currentActor = (case attempt_by_id H cur of None \<Rightarrow> [] | Some a \<Rightarrow> ra_actor a) in
             if currentActor \<noteq> [] \<and> currentActor \<noteq> us_id u \<and>
                us_role u \<noteq> ''admin'' \<and> us_project_roles u (wi_project wi) \<noteq> ''maintainer''
             then Some (NewErr ErrForbidden) else None))"

definition handleClaimWorkItem ::
    "(string \<Rightarrow> string) \<Rightarrow> int \<Rightarrow> string \<Rightarrow> string \<Rightarrow> claim_request \<Rightarrow> user_ctx \<Rightarrow> hub \<Rightarrow>
     (hub \<times> claim_response) outcome" where
  "handleClaimWorkItem sha now newID wiRef req u H =
     (case claim_authorize H wiRef req u of
        Some e \<Rightarrow> Inl e
      | None \<Rightarrow> FnClaimWorkItem sha now newID wiRef req (caller_of u) H)"

definition handleCompleteAttempt ::
    "(string \<Rightarrow> string) \<Rightarrow> int \<Rightarrow> string \<Rightarrow> string \<Rightarrow> complete_request \<Rightarrow> user_ctx \<Rightarrow> hub \<Rightarrow> hub outcome" where
  "handleCompleteAttempt sha now scID wiRef req u H =
     (case load_for H wiRef u ''writer'' of
        Inl e \<Rightarrow> Inl e
      | Inr wi \<Rightarrow> FnCompleteAttempt sha now scID (wi_id wi) req (us_project_roles u) (us_role u) H)"

definition handlePauseAttempt ::
    "(string \<Rightarrow> string) \<Rightarrow> int \<Rightarrow> string \<Rightarrow> string \<Rightarrow> complete_request \<Rightarrow> user_ctx \<Rightarrow> hub \<Rightarrow> hub outcome" where
  "handlePauseAttempt sha now scID wiRef req u H =
     (case load_for H wiRef u ''writer'' of
        Inl e \<Rightarrow> Inl e
      | Inr wi \<Rightarrow> FnCompleteAttempt sha now scID (wi_id wi) (req\<lparr>cq_status := ''paused''\<rparr>) (\<lambda>p. []) [] H)"

definition force_takeover_role :: "hub \<Rightarrow> work_item \<Rightarrow> user_ctx \<Rightarrow> string" where
  "force_takeover_role H wi u =
     (case wi_current wi of
        None \<Rightarrow> ''maintainer''
      | Some cur \<Rightarrow>
        (case attempt_by_id H cur of
           None \<Rightarrow> ''maintainer''
         | Some a \<Rightarrow> if ra_actor a = us_id u then ''writer'' else ''maintainer''))"

definition handleForceTakeover ::
    "(string \<Rightarrow> string) \<Rightarrow> int \<Rightarrow> string \<Rightarrow> string \<Rightarrow> string \<Rightarrow> string \<Rightarrow> takeover_request \<Rightarrow> user_ctx \<Rightarrow>
     hub \<Rightarrow> hub outcome" where
  "handleForceTakeover sha now newID genSecret scID wiRef req u H =
     (case GetWorkItem H wiRef of
        Inl e \<Rightarrow> Inl e
      | Inr wi \<Rightarrow>
        (case checkProjectAccess (Some u) (wi_project wi) (force_takeover_role H wi u) of
           Some e \<Rightarrow> Inl e
         | None \<Rightarrow> FnForceTakeover sha now newID genSecret scID wiRef req (caller_of u) (us_role u)
                     (us_project_roles u) H))"

definition handleCancelWorkItem :: "int \<Rightarrow> string \<Rightarrow> user_ctx \<Rightarrow> hub \<Rightarrow> hub outcome" where
  "handleCancelWorkItem now wiRef u H =
     (case GetWorkItem H wiRef of
        Inl e \<Rightarrow> Inl e
      | Inr wi \<Rightarrow>
        (case checkProjectAccess (Some u) (wi_project wi)
                (if wi_reporter wi \<noteq> us_id u then ''maintainer'' else ''writer'') of
           Some e \<Rightarrow> Inl e
         | None \<Rightarrow> CancelWorkItem now (wi_id wi) (us_id u) (us_role u) (us_project_roles u) H))"

definition handleAcquireLocks ::
    "(string \<Rightarrow> string) \<Rightarrow> int \<Rightarrow> string \<Rightarrow> attempt_credential \<Rightarrow> user_ctx \<Rightarrow> hub \<Rightarrow>
     (hub \<times> acquire_response) outcome" where
  "handleAcquireLocks sha now wiRef ac u H =
     (case load_for H wiRef u ''writer'' of
        Inl e \<Rightarrow> Inl e | Inr wi \<Rightarrow> FnAcquireLocks sha now (wi_id wi) ac H)"

definition handleRecordRepoPins ::
    "(string \<Rightarrow> string) \<Rightarrow> int \<Rightarrow> string \<Rightarrow> attempt_credential \<Rightarrow> (string \<times> string) list \<Rightarrow> user_ctx \<Rightarrow>
     hub \<Rightarrow> hub outcome" where
  "handleRecordRepoPins sha now wiRef ac pins u H =
     (case load_for H wiRef u ''writer'' of
        Inl e \<Rightarrow> Inl e | Inr wi \<Rightarrow> FnRecordRepoPins sha now (wi_id wi) ac pins H)"

section \<open>Steps\<close>

record step_request =
  sq_attempt :: string
  sq_epoch :: int
  sq_secret :: string
  sq_status :: string
  sq_step :: "string option"
  sq_step_attempt :: "string option"
  sq_heartbeat :: bool
  sq_summary :: "string option"
  sq_error_type :: "string option"
  sq_escalated :: bool
  sq_next_step :: "string option"
  sq_next_attempt :: "string option"

datatype step_reply =
    HeartbeatOk bool "(string \<times> string \<times> string option) list"
  | Transitioned string "string option"

definition derefStr :: "string option \<Rightarrow> string" where
  "derefStr s = (case s of None \<Rightarrow> [] | Some x \<Rightarrow> x)"

definition validateNextStepArgs :: "string \<Rightarrow> string \<Rightarrow> string \<Rightarrow> bool \<Rightarrow> aihub_error option" where
  "validateNextStepArgs nextStep nextStepAttemptID status heartbeat =
     (if nextStep \<noteq> [] then
        (if heartbeat then Some (NewErr ErrBadRequest)
         else if status \<noteq> ''completed'' then Some (NewErr ErrBadRequest)
         else None)
      else if nextStepAttemptID \<noteq> [] then Some (NewErr ErrBadRequest)
      else None)"

definition validateTerminalStepArgs :: "string \<Rightarrow> string option \<Rightarrow> bool \<Rightarrow> aihub_error option" where
  "validateTerminalStepArgs status stepAttemptID heartbeat =
     (if heartbeat \<or> (status \<noteq> ''completed'' \<and> status \<noteq> ''failed'') then None
      else case stepAttemptID of
        None \<Rightarrow> Some (NewErr ErrBadRequest)
      | Some sa \<Rightarrow> if trim_space sa = [] then Some (NewErr ErrBadRequest) else None)"

definition validateStepIdentity ::
    "string \<Rightarrow> bool \<Rightarrow> string option \<Rightarrow> string option \<Rightarrow> aihub_error option" where
  "validateStepIdentity status heartbeat reqStep storedStep =
     (if heartbeat \<or> (status \<noteq> ''completed'' \<and> status \<noteq> ''failed'') then None
      else case storedStep of
        None \<Rightarrow> None
      | Some stored \<Rightarrow> if derefStr reqStep = stored then None else Some (NewErr ErrConflictCASFailed))"

definition maxArtifactSummaryChars :: nat where
  "maxArtifactSummaryChars = 4096"

text \<open>Code points of valid UTF-8: the bytes that are not continuation bytes.\<close>

definition rune_count :: "string \<Rightarrow> nat" where
  "rune_count s = length (filter (\<lambda>c. (of_char c :: nat) div 64 \<noteq> 2) s)"

text \<open>\<open>startStep\<close>: the upsert whose DO UPDATE demands an idle row.\<close>

definition startStep :: "int \<Rightarrow> string \<Rightarrow> string option \<Rightarrow> string option \<Rightarrow> hub \<Rightarrow> hub \<times> bool" where
  "startStep now wiID step stepAttemptID H =
     (case step_of H wiID of
        None \<Rightarrow>
          (H\<lparr>h_steps := h_steps H @
             [\<lparr>ss_wi = wiID, ss_wi_type = None, ss_step = step, ss_status = SInProgress, ss_attempt = stepAttemptID,
               ss_started = Some now, ss_version = 1, ss_scenario_ref = None\<rparr>]\<rparr>, True)
      | Some st \<Rightarrow>
          if ss_status st \<noteq> SIdle then (H, False)
          else (H\<lparr>h_steps := update_where (\<lambda>s. ss_wi s = wiID)
                    (\<lambda>s. s\<lparr>ss_status := SInProgress, ss_step := step, ss_attempt := stepAttemptID,
                           ss_started := Some now, ss_version := ss_version s + 1\<rparr>) (h_steps H)\<rparr>, True))"

definition insertStepCompletion :: "step_completion \<Rightarrow> hub \<Rightarrow> hub outcome" where
  "insertStepCompletion c H =
     (if row_exists (\<lambda>d. sc_step_attempt d = sc_step_attempt c) (h_completions H)
      then Inl (NewErr ErrConflictDuplicate)
      else if \<not> row_exists (\<lambda>a. ra_id a = sc_run_attempt c) (h_attempts H) then Inl (NewErr ErrBadRequest)
      else Inr (H\<lparr>h_completions := h_completions H @ [c]\<rparr>))"

record step_event =
  se_type :: string
  se_step :: string
  se_summary :: "string option"

definition insertStepEvent :: "string \<Rightarrow> string \<Rightarrow> user_ctx \<Rightarrow> step_event \<Rightarrow> hub \<Rightarrow> hub outcome" where
  "insertStepEvent wiID runAttemptID u ev H =
     (if runAttemptID \<noteq> [] \<and> \<not> row_exists (\<lambda>a. ra_id a = runAttemptID) (h_attempts H)
      then Inl (NewErr ErrBadRequest)
      else Inr (emit_event \<lparr>ev_type = se_type ev, ev_wi = wiID, ev_attempt = nilIfEmpty runAttemptID,
             ev_actor = Some (us_id u), ev_display = None,
             ev_payload = Fields ([(''step'', JStr (se_step ev))] @
               (if se_type ev = ''step_completed'' then
                  (case se_summary ev of None \<Rightarrow> [] | Some s \<Rightarrow> [(''artifact_summary'', JStr s)]) else [])),
             ev_project = map_option wi_project (item_by_id H wiID)\<rparr> H))"

fun insert_step_events :: "string \<Rightarrow> string \<Rightarrow> user_ctx \<Rightarrow> step_event list \<Rightarrow> hub \<Rightarrow> hub outcome" where
  "insert_step_events wiID att u [] H = Inr H"
| "insert_step_events wiID att u (ev # evs) H =
     (case insertStepEvent wiID att u ev H of Inl e \<Rightarrow> Inl e | Inr H1 \<Rightarrow> insert_step_events wiID att u evs H1)"


text \<open>The heartbeat refreshes the start time and answers what it dropped of the request.\<close>

definition step_heartbeat :: "int \<Rightarrow> string \<Rightarrow> step_request \<Rightarrow> hub \<Rightarrow> hub \<times> step_reply" where
  "step_heartbeat now wiID req H =
     (let row = step_of H wiID;
          bumped = (case row of None \<Rightarrow> None | Some s \<Rightarrow> ss_step s);
          dropped = (if derefStr (sq_step req) \<noteq> [] then [(''step_id'', derefStr (sq_step req), bumped)] else []) @
                    (if sq_status req \<noteq> [] then [(''status'', sq_status req, None)] else [])
      in (H\<lparr>h_steps := update_where (\<lambda>s. ss_wi s = wiID) (\<lambda>s. s\<lparr>ss_started := Some now\<rparr>) (h_steps H)\<rparr>,
          HeartbeatOk (row \<noteq> None) dropped))"

definition step_in_progress :: "int \<Rightarrow> string \<Rightarrow> step_request \<Rightarrow> hub \<Rightarrow> (hub \<times> step_event list) outcome" where
  "step_in_progress now wiID req H =
     (case startStep now wiID (sq_step req) (sq_step_attempt req) H of
        (H1, started) \<Rightarrow>
          if \<not> started then Inl (NewErr ErrConflictCASFailed)
          else Inr (H1, [\<lparr>se_type = ''step_started'', se_step = derefStr (sq_step req), se_summary = None\<rparr>]))"

definition completion_row :: "string \<Rightarrow> string \<Rightarrow> step_request \<Rightarrow> string \<Rightarrow> string option \<Rightarrow> bool \<Rightarrow> step_completion" where
  "completion_row scID wiID req status errorType escalated =
     \<lparr>sc_id = scID, sc_wi = wiID, sc_step = derefStr (sq_step req),
      sc_step_attempt = derefStr (sq_step_attempt req), sc_run_attempt = sq_attempt req, sc_status = status,
      sc_summary = sq_summary req, sc_error_type = errorType, sc_escalated = escalated\<rparr>"

definition mandatory_record_missing :: "string \<Rightarrow> step_request \<Rightarrow> hub \<Rightarrow> bool" where
  "mandatory_record_missing wiID req H =
     (case sq_step req of
        None \<Rightarrow> False
      | Some step \<Rightarrow> (step = ''spec'' \<or> step = ''plan'') \<and>
          \<not> row_exists (\<lambda>m. mem_wi m = Some wiID \<and> mem_type m = ''methodology.'' @ step \<and>
                              mem_status m = ''active'') (h_memories H))"

definition step_completed ::
    "int \<Rightarrow> string \<Rightarrow> string \<Rightarrow> step_request \<Rightarrow> hub \<Rightarrow> (hub \<times> step_event list) outcome" where
  "step_completed now scID wiID req H =
     (if mandatory_record_missing wiID req H then Inl (NewErr ErrBadRequest)
      else let H1 = H\<lparr>h_steps := update_where (\<lambda>s. ss_wi s = wiID)
                  (\<lambda>s. s\<lparr>ss_step := sq_step req, ss_status := SIdle, ss_attempt := None, ss_started := None,
                         ss_version := ss_version s + 1\<rparr>) (h_steps H)\<rparr>
      in case insertStepCompletion (completion_row scID wiID req ''completed'' None False) H1 of
        Inl e \<Rightarrow> Inl e
      | Inr H2 \<Rightarrow>
        (let ev = \<lparr>se_type = ''step_completed'', se_step = derefStr (sq_step req), se_summary = sq_summary req\<rparr>
         in if derefStr (sq_next_step req) \<noteq> [] then
              (case startStep now wiID (sq_next_step req) (sq_next_attempt req) H2 of
                 (H3, started) \<Rightarrow>
                   if \<not> started then Inl (NewErr ErrConflictCASFailed)
                   else Inr (H3, [ev, \<lparr>se_type = ''step_started'', se_step = derefStr (sq_next_step req),
                                      se_summary = None\<rparr>]))
            else Inr (H2, [ev])))"

text \<open>
  The failed branch. An escalated failure sets the item to blocked and records the stall in
  one savepoint; the attempt exists by then, so neither write can fail.
\<close>

definition escalate_stall :: "string \<Rightarrow> step_request \<Rightarrow> user_ctx \<Rightarrow> hub \<Rightarrow> hub" where
  "escalate_stall wiID req u H =
     emit_event \<lparr>ev_type = ''wi_stalled'', ev_wi = wiID, ev_attempt = Some (sq_attempt req),
         ev_actor = Some (us_id u), ev_display = None,
         ev_payload = Fields [(''step'', JStr (derefStr (sq_step req))),
           (''error_type'', case sq_error_type req of None \<Rightarrow> JNull | Some e \<Rightarrow> JStr e),
           (''stall_reason'', JStr (derefStr (sq_error_type req)))],
         ev_project = map_option wi_project (item_by_id H wiID)\<rparr>
       (update_item wiID (\<lambda>w. w\<lparr>wi_status := Blocked\<rparr>) H)"

definition step_failed ::
    "string \<Rightarrow> string \<Rightarrow> step_request \<Rightarrow> user_ctx \<Rightarrow> hub \<Rightarrow> (hub \<times> step_event list) outcome" where
  "step_failed scID wiID req u H =
     (let H1 = H\<lparr>h_steps := update_where (\<lambda>s. ss_wi s = wiID)
                  (\<lambda>s. s\<lparr>ss_status := SIdle, ss_attempt := None, ss_started := None,
                         ss_version := ss_version s + 1\<rparr>) (h_steps H)\<rparr>
      in case insertStepCompletion (completion_row scID wiID req ''failed'' (sq_error_type req) (sq_escalated req)) H1 of
        Inl e \<Rightarrow> Inl e
      | Inr H2 \<Rightarrow>
          Inr (if sq_escalated req then escalate_stall wiID req u H2 else H2,
               [\<lparr>se_type = ''step_failed'', se_step = derefStr (sq_step req), se_summary = None\<rparr>]))"

definition step_transition ::
    "int \<Rightarrow> string \<Rightarrow> string \<Rightarrow> step_request \<Rightarrow> user_ctx \<Rightarrow> hub \<Rightarrow> hub outcome" where
  "step_transition now scID wiID req u H =
     (let currentStep = (case step_of H wiID of None \<Rightarrow> None | Some s \<Rightarrow> ss_step s)
      in case validateStepIdentity (sq_status req) (sq_heartbeat req) (sq_step req) currentStep of
        Some e \<Rightarrow> Inl e
      | None \<Rightarrow>
        (case (if sq_status req = ''in_progress'' then step_in_progress now wiID req H
               else if sq_status req = ''completed'' then step_completed now scID wiID req H
               else if sq_status req = ''failed'' then step_failed scID wiID req u H
               else Inl (NewErr ErrBadRequest)) of
           Inl e \<Rightarrow> Inl e
         | Inr (H1, evs) \<Rightarrow> insert_step_events wiID (sq_attempt req) u evs H1))"

definition step_summary_too_long :: "step_request \<Rightarrow> bool" where
  "step_summary_too_long req =
     ((sq_status req = ''completed'' \<or> sq_status req = ''failed'') \<and>
      rune_count (derefStr (sq_summary req)) > maxArtifactSummaryChars)"

text \<open>
  The handler. The credential is checked, in a transaction of its own, only when both an
  attempt id and a secret were sent.
\<close>

definition step_credential ::
    "(string \<Rightarrow> string) \<Rightarrow> int \<Rightarrow> string \<Rightarrow> step_request \<Rightarrow> hub \<Rightarrow> hub outcome" where
  "step_credential sha now wiID req H =
     (if sq_attempt req \<noteq> [] \<and> sq_secret req \<noteq> []
      then VerifyAttemptCredentialPool sha now wiID (sq_attempt req) (sq_epoch req) (sq_secret req) H
      else Inr H)"

definition handleUpdateStep ::
    "(string \<Rightarrow> string) \<Rightarrow> int \<Rightarrow> string \<Rightarrow> string \<Rightarrow> step_request \<Rightarrow> user_ctx \<Rightarrow> hub \<Rightarrow> (hub \<times> step_reply) outcome" where
  "handleUpdateStep sha now scID wiRef req u H =
     (case load_for H wiRef u ''writer'' of
        Inl e \<Rightarrow> Inl e
      | Inr wi \<Rightarrow>
        (case step_credential sha now (wi_id wi) req H of
           Inl e \<Rightarrow> Inl e
         | Inr H1 \<Rightarrow>
           (case validateNextStepArgs (derefStr (sq_next_step req)) (derefStr (sq_next_attempt req))
                   (sq_status req) (sq_heartbeat req) of
              Some e \<Rightarrow> Inl e
            | None \<Rightarrow>
              if sq_heartbeat req then Inr (step_heartbeat now (wi_id wi) req H1)
              else if step_summary_too_long req then Inl (NewErr ErrPayloadTooLarge)
              else case validateTerminalStepArgs (sq_status req) (sq_step_attempt req) (sq_heartbeat req) of
                Some e \<Rightarrow> Inl e
              | None \<Rightarrow>
                (case step_transition now scID (wi_id wi) req u H1 of
                   Inl e \<Rightarrow> Inl e
                 | Inr H2 \<Rightarrow>
                   Inr (H2, Transitioned (sq_status req)
                         (if derefStr (sq_next_step req) \<noteq> [] then sq_next_step req else None))))))"

end
