(* ===== verification/Hub_Invariant.thy ===== *)
theory Hub_Invariant
  imports Hub_Api
begin

text \<open>
  The structural invariant of the coordination tables and its preservation by every
  operation of the attempt lifecycle and of the step machine. The invariant says that keys
  are unique, references resolve, a lock carries its owner's epoch, the epochs of a work
  item's attempts are exactly 1 up to its current epoch, and the current attempt is the
  newest one. It survives the unlocked read of a forced takeover.

  An operation is judged by the columns the invariant reads: the cores of the items and
  attempts, and the lock table.
\<close>

section \<open>The invariant\<close>

abbreviation item_core :: "work_item \<Rightarrow> string \<times> int \<times> string option" where
  "item_core w \<equiv> (wi_id w, wi_epoch w, wi_current w)"

text \<open>What the filing of an item fixed for good.\<close>

abbreviation item_filed ::
    "work_item \<Rightarrow> string \<times> string \<times> raw_json \<times> string \<times> string option \<times> string" where
  "item_filed w \<equiv> (wi_slug w, wi_project w, wi_declared w, wi_reporter w, wi_type w, wi_workflow_mode w)"

abbreviation attempt_core :: "run_attempt \<Rightarrow> string \<times> string \<times> int" where
  "attempt_core a \<equiv> (ra_id a, ra_wi a, ra_epoch a)"

abbreviation attempt_filed :: "run_attempt \<Rightarrow> string \<times> string \<times> string" where
  "attempt_filed a \<equiv> (ra_idem a, ra_actor a, ra_secret_hash a)"

definition cores_ok :: "(string \<times> int \<times> string option) list \<Rightarrow> (string \<times> string \<times> int) list \<Rightarrow> bool" where
  "cores_ok items attempts \<longleftrightarrow>
     distinct (map fst items) \<and> distinct (map fst attempts) \<and>
     (\<forall>(i, e, c) \<in> set items. i \<noteq> [] \<and> 0 \<le> e) \<and>
     (\<forall>(a, i, e) \<in> set attempts. \<exists>ce c. (i, ce, c) \<in> set items \<and> 1 \<le> e \<and> e \<le> ce) \<and>
     inj_on snd (set attempts) \<and>
     (\<forall>(i, ce, c) \<in> set items. \<forall>e. 1 \<le> e \<and> e \<le> ce \<longrightarrow> (\<exists>a. (a, i, e) \<in> set attempts)) \<and>
     (\<forall>(i, ce, c) \<in> set items. case c of None \<Rightarrow> ce = 0 | Some a \<Rightarrow> (a, i, ce) \<in> set attempts)"

definition locks_ok :: "resource_lock list \<Rightarrow> (string \<times> string \<times> int) list \<Rightarrow> bool" where
  "locks_ok locks attempts \<longleftrightarrow>
     distinct (map lock_key locks) \<and>
     (\<forall>l \<in> set locks. \<exists>i. (rl_owner l, i, rl_epoch l) \<in> set attempts)"

definition hub_inv :: "hub \<Rightarrow> bool" where
  "hub_inv H \<longleftrightarrow>
     cores_ok (map item_core (h_items H)) (map attempt_core (h_attempts H)) \<and>
     locks_ok (h_locks H) (map attempt_core (h_attempts H))"

lemma hub_inv_cong:
  assumes "hub_inv H" "map item_core (h_items H') = map item_core (h_items H)"
    "map attempt_core (h_attempts H') = map attempt_core (h_attempts H)"
    "locks_ok (h_locks H') (map attempt_core (h_attempts H))"
  shows "hub_inv H'"
  using assms by (simp only: hub_inv_def)

lemma locks_ok_subset:
  assumes "locks_ok locks attempts" "distinct (map lock_key locks')" "set locks' \<subseteq> set locks"
  shows "locks_ok locks' attempts"
  using assms unfolding locks_ok_def by blast

section \<open>Reading the invariant\<close>

lemma hub_inv_distinct:
  assumes "hub_inv H"
  shows "distinct (map wi_id (h_items H))" "distinct (map ra_id (h_attempts H))" "lock_keys_unique H"
  using assms by (simp_all add: hub_inv_def cores_ok_def locks_ok_def o_def lock_keys_unique_def)

lemma item_unique:
  "hub_inv H \<Longrightarrow> v \<in> set (h_items H) \<Longrightarrow> w \<in> set (h_items H) \<Longrightarrow> wi_id v = wi_id w \<Longrightarrow> v = w"
  by (rule key_eqD [OF hub_inv_distinct(1)])

lemma attempt_unique:
  "hub_inv H \<Longrightarrow> a \<in> set (h_attempts H) \<Longrightarrow> b \<in> set (h_attempts H) \<Longrightarrow> ra_id a = ra_id b \<Longrightarrow> a = b"
  by (rule key_eqD [OF hub_inv_distinct(2)])

lemma attempt_by_id_known: "hub_inv H \<Longrightarrow> a \<in> set (h_attempts H) \<Longrightarrow> attempt_by_id H (ra_id a) = Some a"
  unfolding attempt_by_id_def by (rule select_one_key [OF hub_inv_distinct(2)])

lemma item_by_id_known: "hub_inv H \<Longrightarrow> w \<in> set (h_items H) \<Longrightarrow> item_by_id H (wi_id w) = Some w"
  unfolding item_by_id_def by (rule select_one_key [OF hub_inv_distinct(1)])

lemma attempt_item_known:
  assumes "hub_inv H" "a \<in> set (h_attempts H)"
  obtains w where "w \<in> set (h_items H)" "wi_id w = ra_wi a" "1 \<le> ra_epoch a" "ra_epoch a \<le> wi_epoch w" "ra_wi a \<noteq> []"
proof -
  have "\<forall>(a, i, e) \<in> set (map attempt_core (h_attempts H)).
          \<exists>ce c. (i, ce, c) \<in> set (map item_core (h_items H)) \<and> 1 \<le> e \<and> e \<le> ce"
    using assms(1) unfolding hub_inv_def cores_ok_def by (elim conjE)
  with assms(2) obtain w where "w \<in> set (h_items H)" "wi_id w = ra_wi a" "1 \<le> ra_epoch a" "ra_epoch a \<le> wi_epoch w"
    by fastforce
  moreover from this assms(1) have "ra_wi a \<noteq> []"
    by (fastforce simp: hub_inv_def cores_ok_def)
  ultimately show ?thesis by (rule that)
qed

lemma hub_inv_current:
  assumes "hub_inv H" "w \<in> set (h_items H)" "wi_current w = Some c"
  obtains a where "a \<in> set (h_attempts H)" "ra_id a = c" "ra_wi a = wi_id w" "ra_epoch a = wi_epoch w"
proof -
  have "\<forall>(i, ce, c) \<in> set (map item_core (h_items H)).
          case c of None \<Rightarrow> ce = 0 | Some a \<Rightarrow> (a, i, ce) \<in> set (map attempt_core (h_attempts H))"
    using assms(1) unfolding hub_inv_def cores_ok_def by (elim conjE)
  with assms(2,3) have "(c, wi_id w, wi_epoch w) \<in> set (map attempt_core (h_attempts H))" by fastforce
  with that show ?thesis by auto
qed

lemma hub_inv_epoch_unique:
  assumes "hub_inv H" "a \<in> set (h_attempts H)" "b \<in> set (h_attempts H)" "ra_wi a = ra_wi b" "ra_epoch a = ra_epoch b"
  shows "a = b"
proof -
  have "inj_on snd (set (map attempt_core (h_attempts H)))"
    using assms(1) unfolding hub_inv_def cores_ok_def by (elim conjE)
  moreover have "snd (attempt_core a) = snd (attempt_core b)" using assms(4,5) by simp
  moreover have "attempt_core a \<in> set (map attempt_core (h_attempts H))" using assms(2) by simp
  moreover have "attempt_core b \<in> set (map attempt_core (h_attempts H))" using assms(3) by simp
  ultimately have "attempt_core a = attempt_core b" by (rule inj_onD)
  then have "ra_id a = ra_id b" by simp
  then show ?thesis by (rule attempt_unique [OF assms(1-3)])
qed

lemma hub_inv_epoch_used:
  assumes "hub_inv H" "w \<in> set (h_items H)" "1 \<le> e" "e \<le> wi_epoch w"
  obtains a where "a \<in> set (h_attempts H)" "ra_wi a = wi_id w" "ra_epoch a = e"
proof -
  have "\<forall>(i, ce, c) \<in> set (map item_core (h_items H)). \<forall>e. 1 \<le> e \<and> e \<le> ce \<longrightarrow>
          (\<exists>a. (a, i, e) \<in> set (map attempt_core (h_attempts H)))"
    using assms(1) unfolding hub_inv_def cores_ok_def by (elim conjE)
  with assms(2-4) obtain a where "(a, wi_id w, e) \<in> set (map attempt_core (h_attempts H))" by fastforce
  with that show ?thesis by auto
qed

lemma hub_inv_lock_owner:
  assumes "hub_inv H" "l \<in> set (h_locks H)"
  obtains a where "a \<in> set (h_attempts H)" "ra_id a = rl_owner l" "ra_epoch a = rl_epoch l"
  using assms by (fastforce simp: hub_inv_def locks_ok_def)

lemma hub_inv_owners_known: "hub_inv H \<Longrightarrow> owners_known H"
  unfolding owners_known_def
  by (metis attempt_by_id_known attempt_item_known hub_inv_lock_owner)

lemma hub_inv_attempts_have_items: "hub_inv H \<Longrightarrow> attempts_have_items H"
  unfolding attempts_have_items_def by (metis attempt_item_known)


section \<open>Operations that keep the cores\<close>

lemma update_attempt_cores:
  "(\<And>a. attempt_core (f a) = attempt_core a) \<Longrightarrow>
   map attempt_core (h_attempts (update_attempt i f H)) = map attempt_core (h_attempts H)"
  unfolding update_attempt_def by (simp add: map_update_where_frame del: prod.inject)

lemma update_attempt_frame [simp]:
  "h_items (update_attempt i f H) = h_items H" "h_locks (update_attempt i f H) = h_locks H"
  "h_steps (update_attempt i f H) = h_steps H" "h_completions (update_attempt i f H) = h_completions H"
  "h_deps (update_attempt i f H) = h_deps H" "h_memories (update_attempt i f H) = h_memories H"
  "h_events (update_attempt i f H) = h_events H"
  by (simp_all add: update_attempt_def)

lemma update_item_frame [simp]:
  "h_attempts (update_item i f H) = h_attempts H" "h_locks (update_item i f H) = h_locks H"
  "h_steps (update_item i f H) = h_steps H" "h_completions (update_item i f H) = h_completions H"
  "h_deps (update_item i f H) = h_deps H" "h_memories (update_item i f H) = h_memories H"
  "h_events (update_item i f H) = h_events H"
  by (simp_all add: update_item_def)

lemma emit_event_frame [simp]:
  "h_items (emit_event ev H) = h_items H" "h_attempts (emit_event ev H) = h_attempts H"
  "h_locks (emit_event ev H) = h_locks H" "h_steps (emit_event ev H) = h_steps H"
  "h_completions (emit_event ev H) = h_completions H" "h_deps (emit_event ev H) = h_deps H"
  "h_memories (emit_event ev H) = h_memories H" "h_events (emit_event ev H) = h_events H @ [ev]"
  by (simp_all add: emit_event_def)

text \<open>The relation of operations that leave the invariant's columns alone, up to dropped locks.\<close>

definition keeps_cores :: "hub \<Rightarrow> hub \<Rightarrow> bool" where
  "keeps_cores H H' \<longleftrightarrow>
     map item_core (h_items H') = map item_core (h_items H) \<and>
     map attempt_core (h_attempts H') = map attempt_core (h_attempts H) \<and>
     (lock_keys_unique H \<longrightarrow> lock_keys_unique H') \<and> set (h_locks H') \<subseteq> set (h_locks H)"

lemma keeps_cores_refl [simp, intro]: "keeps_cores H H"
  by (simp add: keeps_cores_def)

lemma keeps_cores_trans [trans]: "keeps_cores H H1 \<Longrightarrow> keeps_cores H1 H2 \<Longrightarrow> keeps_cores H H2"
  unfolding keeps_cores_def by auto

lemma keeps_cores_inv:
  assumes "keeps_cores H H'" "hub_inv H"
  shows "hub_inv H'"
proof (rule hub_inv_cong [OF assms(2)])
  from assms(2) have "locks_ok (h_locks H) (map attempt_core (h_attempts H))" by (simp only: hub_inv_def)
  then show "locks_ok (h_locks H') (map attempt_core (h_attempts H))"
    by (rule locks_ok_subset)
       (use assms hub_inv_distinct(3) in \<open>auto simp: keeps_cores_def lock_keys_unique_def\<close>)
qed (use assms(1) in \<open>simp_all only: keeps_cores_def\<close>)

text \<open>Same tables means same cores.\<close>

lemma keeps_coresI:
  assumes "map item_core (h_items H') = map item_core (h_items H)"
    "map attempt_core (h_attempts H') = map attempt_core (h_attempts H)" "h_locks H' = h_locks H"
  shows "keeps_cores H H'"
  using assms by (simp add: keeps_cores_def lock_keys_unique_def)

lemma keeps_cores_update_attempt:
  "(\<And>a. attempt_core (f a) = attempt_core a) \<Longrightarrow> keeps_cores H (update_attempt i f H)"
  by (rule keeps_coresI) (simp_all only: update_attempt_frame update_attempt_cores)

lemma keeps_cores_update_item:
  "(\<And>w. item_core (f w) = item_core w) \<Longrightarrow> keeps_cores H (update_item i f H)"
  by (rule keeps_coresI)
     (simp_all add: update_item_def map_update_where_frame del: prod.inject)

lemma keeps_cores_emit: "keeps_cores H (emit_event ev H)"
  by (rule keeps_coresI) simp_all

lemma keeps_cores_release: "keeps_cores H (fst (releaseLocks stmt op H))"
  using releaseLocks_frame [of H stmt op]
  by (simp add: keeps_cores_def same_but_locks_def releaseLocks_locks set_delete_where
      lock_holder_release(1) subset_iff)

lemma keeps_cores_steps: "keeps_cores H (H\<lparr>h_steps := x\<rparr>)"
  by (rule keeps_coresI) simp_all

lemma keeps_cores_completions: "keeps_cores H (H\<lparr>h_completions := x\<rparr>)"
  by (rule keeps_coresI) simp_all

lemma keeps_cores_memories: "keeps_cores H (H\<lparr>h_memories := x\<rparr>)"
  by (rule keeps_coresI) simp_all

lemma keeps_cores_deps: "keeps_cores H (H\<lparr>h_deps := x\<rparr>)"
  by (rule keeps_coresI) simp_all

lemma keeps_cores_items_where:
  "(\<And>w. P w \<Longrightarrow> item_core (f w) = item_core w) \<Longrightarrow> h_items H' = update_where P f (h_items H) \<Longrightarrow>
   h_attempts H' = h_attempts H \<Longrightarrow> h_locks H' = h_locks H \<Longrightarrow> keeps_cores H H'"
  by (rule keeps_coresI) (simp_all add: map_update_where_frame del: prod.inject)

section \<open>Edits\<close>

text \<open>
  The edits that most transactions are made of: columns outside the cores and the statuses
  of attempts, statuses of items other than a move to running, other tables, events that
  are no lock events, releases. A property of every edit is one of every such transaction.
\<close>

inductive edit :: "hub \<Rightarrow> hub \<Rightarrow> bool" where
  edit_attempts: "(\<And>a. attempt_core (f a) = attempt_core a \<and> attempt_filed (f a) = attempt_filed a \<and> ra_status (f a) = ra_status a) \<Longrightarrow>
    edit H (H\<lparr>h_attempts := update_where P f (h_attempts H)\<rparr>)"
| edit_items: "(\<And>w. P w \<Longrightarrow> item_core (f w) = item_core w \<and> item_filed (f w) = item_filed w \<and>
      (wi_status (f w) = Running \<longrightarrow> wi_status w = Running)) \<Longrightarrow>
    edit H (H\<lparr>h_items := update_where P f (h_items H)\<rparr>)"
| edit_event: "ev_payload ev = Fields fs \<Longrightarrow> edit H (emit_event ev H)"
| edit_release: "edit H (fst (releaseLocks stmt op H))"
| edit_steps: "edit H (H\<lparr>h_steps := steps\<rparr>)"
| edit_completions: "edit H (H\<lparr>h_completions := completions\<rparr>)"
| edit_deps: "edit H (H\<lparr>h_deps := deps\<rparr>)"
| edit_memories: "edit H (H\<lparr>h_memories := memories\<rparr>)"

abbreviation edits :: "hub \<Rightarrow> hub \<Rightarrow> bool" where
  "edits \<equiv> edit\<^sup>*\<^sup>*"

lemma edits_refl [intro!]: "edits H H"
  by simp

lemma edits_trans [trans]: "edits H H1 \<Longrightarrow> edits H1 H2 \<Longrightarrow> edits H H2"
  by (rule rtranclp_trans)

lemma edits_update_attempt:
  "edits H K \<Longrightarrow> (\<And>a. attempt_core (f a) = attempt_core a \<and> attempt_filed (f a) = attempt_filed a \<and> ra_status (f a) = ra_status a) \<Longrightarrow>
   edits H (update_attempt i f K)"
  unfolding update_attempt_def by (rule rtranclp.rtrancl_into_rtrancl) (auto intro: edit_attempts)

lemma edits_update_item:
  "edits H K \<Longrightarrow> (\<And>w. item_core (f w) = item_core w \<and> item_filed (f w) = item_filed w \<and>
     (wi_status (f w) = Running \<longrightarrow> wi_status w = Running)) \<Longrightarrow>
   edits H (update_item i f K)"
  unfolding update_item_def by (rule rtranclp.rtrancl_into_rtrancl) (auto intro!: edit_items)

lemma edits_items_where:
  "edits H K \<Longrightarrow> h_items K = items \<Longrightarrow>
   (\<And>w. P w \<Longrightarrow> item_core (f w) = item_core w \<and> item_filed (f w) = item_filed w \<and>
     (wi_status (f w) = Running \<longrightarrow> wi_status w = Running)) \<Longrightarrow>
   edits H (K\<lparr>h_items := update_where P f items\<rparr>)"
  by (rule rtranclp.rtrancl_into_rtrancl) (auto intro!: edit_items)

lemma edits_emit: "edits H K \<Longrightarrow> ev_payload ev = Fields fs \<Longrightarrow> edits H (emit_event ev K)"
  by (rule rtranclp.rtrancl_into_rtrancl) (auto intro: edit_event)

lemma edits_release: "edits H K \<Longrightarrow> edits H (fst (releaseLocks stmt op K))"
  by (rule rtranclp.rtrancl_into_rtrancl) (auto intro: edit_release)

lemma edits_tables:
  "edits H K \<Longrightarrow> edits H (K\<lparr>h_steps := steps\<rparr>)" "edits H K \<Longrightarrow> edits H (K\<lparr>h_completions := completions\<rparr>)"
  "edits H K \<Longrightarrow> edits H (K\<lparr>h_deps := deps\<rparr>)" "edits H K \<Longrightarrow> edits H (K\<lparr>h_memories := memories\<rparr>)"
  by (auto intro: rtranclp.rtrancl_into_rtrancl edit.intros)

lemmas edits_intros =
  edits_update_attempt edits_update_item edits_items_where edits_emit edits_release edits_tables

lemma edit_keeps_cores: "edit H H' \<Longrightarrow> keeps_cores H H'"
proof (induction rule: edit.induct)
  case (edit_attempts f H P)
  then have "map attempt_core (update_where P f (h_attempts H)) = map attempt_core (h_attempts H)"
    by (intro map_update_where_frame) blast
  then show ?case by (intro keeps_coresI) (simp_all del: map_eq_conv)
next
  case (edit_items P f H)
  then show ?case by (intro keeps_cores_items_where [of P f]) simp_all
qed (rule keeps_cores_emit keeps_cores_release keeps_cores_steps keeps_cores_completions
      keeps_cores_deps keeps_cores_memories)+

lemma edits_keeps_cores: "edits H H' \<Longrightarrow> keeps_cores H H'"
  by (induction rule: rtranclp_induct) (auto intro: edit_keeps_cores keeps_cores_trans)

subsection \<open>Transactions made of edits\<close>

lemma requeue_edits: "requeueIfUnblocked b x H = (H', u) \<Longrightarrow> edits H0 H \<Longrightarrow> edits H0 H'"
  unfolding requeueIfUnblocked_def
  by (auto split: if_splits intro!: edits_items_where)

lemma unblock_loop_edits: "edits H0 H \<Longrightarrow> edits H0 (unblock_loop bs wi project H)"
proof (induction bs arbitrary: H)
  case (Cons b bs)
  obtain H1 u where "requeueIfUnblocked b wi H = (H1, u)" by fastforce
  moreover from requeue_edits [OF this Cons.prems] have "edits H0 H1" .
  ultimately show ?case
    by (simp add: Cons.IH edits_emit [OF \<open>edits H0 H1\<close>] wiUnblockedEvent_def)
qed simp

lemma unblockDependentWI_edits: "edits H0 H \<Longrightarrow> edits H0 (unblockDependentWI wi project H)"
  unfolding unblockDependentWI_def by (rule unblock_loop_edits)

lemma fnForceTerminateStep_edits: "edits H0 H \<Longrightarrow> edits H0 (fnForceTerminateStep sc wi att sa H)"
  unfolding fnForceTerminateStep_def Let_def
  by (auto split: option.split intro!: edits_tables edits_emit)

lemma complete_step_phase_edits: "complete_step_phase scID wiID req H = Inr H' \<Longrightarrow> edits H0 H \<Longrightarrow> edits H0 H'"
  unfolding complete_step_phase_def
  by (auto split: option.splits if_splits intro: fnForceTerminateStep_edits)

lemma verify_edits:
  assumes "verifyAttemptCredential sha now wi att e secret H = Inr H'" "edits H0 H"
  shows "edits H0 H'"
proof -
  have "H' = update_attempt att (\<lambda>a. a\<lparr>ra_last_active := now\<rparr>) H"
    using assms(1) by (auto simp: verifyAttemptCredential_def split: option.splits if_splits)
  with edits_update_attempt [OF assms(2), of "\<lambda>a. a\<lparr>ra_last_active := now\<rparr>"] show ?thesis by simp
qed

lemma FnRecordRepoPins_edits:
  assumes "FnRecordRepoPins sha now wiID ac pins H = Inr H'" "edits H0 H"
  shows "edits H0 H'"
proof -
  from assms(1) obtain wi H1 where
    v: "verifyAttemptCredential sha now wi (ac_attempt ac) (ac_epoch ac) (ac_secret ac) H = Inr H1"
    and H': "H' = (if pins \<noteq> [] then update_attempt (ac_attempt ac) (\<lambda>a. a\<lparr>ra_repo_pins := repoPinsJSON pins\<rparr>) H1
                else H1)"
    by (auto simp: FnRecordRepoPins_def split: option.splits sum.splits)
  from verify_edits [OF v assms(2)] show ?thesis unfolding H' by (auto intro: edits_update_attempt)
qed

lemma RunOrphanLockSweep_edits: "RunOrphanLockSweep H = (H', n) \<Longrightarrow> edits H0 H \<Longrightarrow> edits H0 H'"
  using edits_release [of H0 H "orphanLock H" "newLockOp ''orphan_sweep'' [] [] []"]
  by (auto simp: RunOrphanLockSweep_def split: prod.splits)

lemma create_dependency_insert_edits: "edits H (create_dependency_insert req project user H)"
  unfolding create_dependency_insert_def Let_def
  by (auto simp: dependencyCreatedEvent_def intro!: edits_items_where edits_emit edits_tables)

lemma DeleteDependency_edits: "DeleteDependency b c k H = Inr H' \<Longrightarrow> edits H H'"
  unfolding DeleteDependency_def Let_def
  by (auto simp: wiUnblockedEvent_def split: if_splits prod.splits option.splits
      intro: edits_tables edits_emit [OF requeue_edits [OF _ edits_tables(3)]] requeue_edits [OF _ edits_tables(3)])

lemma RunUnblockDependentWI_edits: "edits H (RunUnblockDependentWI H)"
  unfolding RunUnblockDependentWI_def by (rule edits_items_where) auto

lemma startStep_edits: "startStep now wi st sa H = (H', b) \<Longrightarrow> edits H0 H \<Longrightarrow> edits H0 H'"
  unfolding startStep_def by (auto split: option.splits if_splits intro: edits_tables)

lemma insertStepCompletion_edits: "insertStepCompletion c H = Inr H' \<Longrightarrow> edits H0 H \<Longrightarrow> edits H0 H'"
  unfolding insertStepCompletion_def by (auto split: if_splits intro: edits_tables)

lemma insert_step_events_edits:
  "insert_step_events wi att u evs H = Inr H' \<Longrightarrow> edits H0 H \<Longrightarrow> edits H0 H'"
proof (induction evs arbitrary: H)
  case (Cons ev evs)
  then obtain H1 where H1: "insertStepEvent wi att u ev H = Inr H1" "insert_step_events wi att u evs H1 = Inr H'"
    by (auto split: sum.splits)
  from H1(1) Cons.prems(2) have "edits H0 H1"
    by (auto simp: insertStepEvent_def split: if_splits intro: edits_emit)
  with H1(2) show ?case by (rule Cons.IH)
qed simp

lemma step_in_progress_edits: "step_in_progress now wi req H = Inr (H', evs) \<Longrightarrow> edits H0 H \<Longrightarrow> edits H0 H'"
  unfolding step_in_progress_def by (auto split: prod.splits if_splits dest: startStep_edits)

lemma step_completed_edits:
  assumes "step_completed now sc wi req H = Inr (H', evs)" "edits H0 H"
  shows "edits H0 H'"
proof -
  obtain x where x: "edits H0 (H\<lparr>h_steps := x\<rparr>)" and "x = update_where (\<lambda>s. ss_wi s = wi)
                  (\<lambda>s. s\<lparr>ss_step := sq_step req, ss_status := SIdle, ss_attempt := None, ss_started := None,
                         ss_version := ss_version s + 1\<rparr>) (h_steps H)"
    using edits_tables(1) [OF assms(2)] by blast
  with assms(1) obtain H2 where "insertStepCompletion (completion_row sc wi req ''completed'' None False) (H\<lparr>h_steps := x\<rparr>) = Inr H2"
    and H': "H' = H2 \<or> (\<exists>st sa. startStep now wi st sa H2 = (H', True))"
    by (auto simp: step_completed_def Let_def split: sum.splits prod.splits if_splits)
  from insertStepCompletion_edits [OF this(1) x] H' show ?thesis by (auto intro: startStep_edits)
qed

lemma step_failed_edits:
  assumes "step_failed sc wi req u H = Inr (H', evs)" "edits H0 H"
  shows "edits H0 H'"
proof -
  obtain x where x: "edits H0 (H\<lparr>h_steps := x\<rparr>)" and "x = update_where (\<lambda>s. ss_wi s = wi)
                  (\<lambda>s. s\<lparr>ss_status := SIdle, ss_attempt := None, ss_started := None,
                         ss_version := ss_version s + 1\<rparr>) (h_steps H)"
    using edits_tables(1) [OF assms(2)] by blast
  with assms(1) obtain H2 where
    H2: "insertStepCompletion (completion_row sc wi req ''failed'' (sq_error_type req) (sq_escalated req)) (H\<lparr>h_steps := x\<rparr>) = Inr H2"
    and H': "H' = (if sq_escalated req then escalate_stall wi req u H2 else H2)"
    by (auto simp: step_failed_def Let_def split: sum.splits)
  from insertStepCompletion_edits [OF H2 x] show ?thesis
    unfolding H' escalate_stall_def by (auto intro!: edits_emit edits_update_item)
qed

lemma step_transition_edits:
  assumes "step_transition now sc wi req u H = Inr H'" "edits H0 H"
  shows "edits H0 H'"
proof -
  from assms(1) obtain H1 evs where
    "step_in_progress now wi req H = Inr (H1, evs) \<or> step_completed now sc wi req H = Inr (H1, evs) \<or>
     step_failed sc wi req u H = Inr (H1, evs)"
    and evs: "insert_step_events wi (sq_attempt req) u evs H1 = Inr H'"
    by (auto simp: step_transition_def Let_def split: option.splits sum.splits if_splits)
  then have "edits H0 H1"
    using step_in_progress_edits [OF _ assms(2)] step_completed_edits [OF _ assms(2)] step_failed_edits [OF _ assms(2)]
    by blast
  with evs show ?thesis by (rule insert_step_events_edits)
qed

lemma VerifyAttemptCredentialPool_edits:
  "VerifyAttemptCredentialPool sha now wi att e secret H = Inr H' \<Longrightarrow> edits H0 H \<Longrightarrow> edits H0 H'"
  unfolding VerifyAttemptCredentialPool_def by (auto split: sum.splits intro: verify_edits)

lemma handleUpdateStep_edits:
  assumes "handleUpdateStep sha now sc ref req u H = Inr (H', r)"
  shows "edits H H'"
proof -
  from assms obtain wi H1 where c: "step_credential sha now wi req H = Inr H1"
    and H': "H' = fst (step_heartbeat now wi req H1) \<or> step_transition now sc wi req u H1 = Inr H'"
    by (auto simp: handleUpdateStep_def split: option.splits sum.splits if_splits)
  from c have "edits H H1"
    by (auto simp: step_credential_def split: if_splits intro: VerifyAttemptCredentialPool_edits)
  with H' show ?thesis
    by (auto simp: step_heartbeat_def Let_def intro: step_transition_edits edits_tables)
qed

lemma claim_tail_edits:
  "edits H (emit_event (attemptStartedEvent wi newID req ca tk e) (claim_classify wi ca (claim_step_upsert wi req H)))"
proof -
  have "edits H (claim_step_upsert wi req H)"
    unfolding claim_step_upsert_def by (auto intro: edits_tables)
  then have "edits H (claim_classify wi ca (claim_step_upsert wi req H))"
    unfolding claim_classify_def by (auto intro!: edits_emit edits_update_item)
  then show ?thesis by (rule edits_emit) (simp add: attemptStartedEvent_def)
qed

lemmas verify_keeps_cores = verify_edits [OF _ edits_refl, THEN edits_keeps_cores]
lemmas complete_step_phase_keeps_cores = complete_step_phase_edits [OF _ edits_refl, THEN edits_keeps_cores]
lemmas keeps_cores_unblock = unblockDependentWI_edits [OF edits_refl, THEN edits_keeps_cores]
lemmas keeps_cores_force_terminate = fnForceTerminateStep_edits [OF edits_refl, THEN edits_keeps_cores]

section \<open>A new attempt\<close>

lemma cores_ok_grant:
  assumes ok: "cores_ok items attempts" and it: "(i, e, c) \<in> set items" and new: "a \<notin> fst ` set attempts"
  shows "cores_ok (map (\<lambda>(j, f, d). if j = i then (j, e + 1, Some a) else (j, f, d)) items)
           (attempts @ [(a, i, e + 1)])"
proof -
  let ?g = "\<lambda>(j, f, d). if j = i then (j, e + 1, Some a) else (j, f, d)"
  note ok' = ok [unfolded cores_ok_def]
  have dist: "distinct (map fst items)" "distinct (map fst attempts)" using ok' by (simp_all only: simp_thms)
  have inj: "inj_on snd (set attempts)" using ok' by (elim conjE)
  have "\<forall>(i, e, c) \<in> set items. i \<noteq> [] \<and> 0 \<le> e" using ok' by (elim conjE)
  then have pos: "i \<noteq> [] \<and> 0 \<le> e" if "(i, e, c) \<in> set items" for i e c using that by fast
  have "\<forall>(a, i, e) \<in> set attempts. \<exists>ce c. (i, ce, c) \<in> set items \<and> 1 \<le> e \<and> e \<le> ce" using ok' by (elim conjE)
  then have ref: "\<exists>ce c. (i, ce, c) \<in> set items \<and> 1 \<le> e \<and> e \<le> ce" if "(a, i, e) \<in> set attempts" for a i e
    using that by fast
  have "\<forall>(i, ce, c) \<in> set items. \<forall>e. 1 \<le> e \<and> e \<le> ce \<longrightarrow> (\<exists>a. (a, i, e) \<in> set attempts)" using ok' by (elim conjE)
  then have used: "\<exists>a. (a, i, e) \<in> set attempts" if "(i, ce, c) \<in> set items" "1 \<le> e" "e \<le> ce" for i ce c e
    using that by fast
  have "\<forall>(i, ce, c) \<in> set items. case c of None \<Rightarrow> ce = 0 | Some a \<Rightarrow> (a, i, ce) \<in> set attempts"
    using ok' by (elim conjE)
  then have cur: "case c of None \<Rightarrow> ce = 0 | Some a \<Rightarrow> (a, i, ce) \<in> set attempts" if "(i, ce, c) \<in> set items" for i ce c
    using that by fast
  have only: "f = e \<and> d = c" if "(i, f, d) \<in> set items" for f d
    using key_eqD [OF dist(1) that it] by simp
  have mem_i: "f = e + 1 \<and> d = Some a" if "(i, f, d) \<in> set (map ?g items)" for f d
    using that by (auto split: if_splits)
  have mem_o: "(j, f, d) \<in> set items" if "(j, f, d) \<in> set (map ?g items)" "j \<noteq> i" for j f d
    using that by (auto split: if_splits)
  have in_i: "(i, e + 1, Some a) \<in> set (map ?g items)"
    using it by force
  have in_o: "(j, f, d) \<in> set (map ?g items)" if "(j, f, d) \<in> set items" "j \<noteq> i" for j f d
    using that by force
  have bound: "1 \<le> f \<and> f \<le> e" if "(b, i, f) \<in> set attempts" for b f
    using ref [OF that] only by blast
  let ?A = "attempts @ [(a, i, e + 1)]"
  have "map fst (map ?g items) = map fst items" by (auto split: prod.splits)
  then have 1: "distinct (map fst (map ?g items))" using dist(1) by (simp only:)
  have 2: "distinct (map fst ?A)" using dist(2) new by auto
  have 3: "j \<noteq> [] \<and> 0 \<le> f" if "(j, f, d) \<in> set (map ?g items)" for j f d
  proof (cases "j = i")
    case True
    with mem_i that have "f = e + 1" by blast
    with True pos [OF it] show ?thesis by simp
  qed (use mem_o [OF that] pos in blast)
  have 4: "\<exists>ce d. (j, ce, d) \<in> set (map ?g items) \<and> 1 \<le> f \<and> f \<le> ce" if "(b, j, f) \<in> set ?A" for b j f
  proof (cases "j = i")
    case True
    from that have "(b, j, f) \<in> set attempts \<or> f = e + 1" by auto
    then have "1 \<le> f \<and> f \<le> e + 1" using True bound pos [OF it] by fastforce
    with True in_i show ?thesis by blast
  next
    case False
    with that have "(b, j, f) \<in> set attempts" by simp
    from ref [OF this] in_o False show ?thesis by blast
  qed
  have 5: "inj_on snd (set ?A)"
  proof -
    have "(i, e + 1) \<notin> snd ` set attempts" using bound by fastforce
    with inj show ?thesis by (simp add: inj_on_def) force
  qed
  have 6: "\<exists>b. (b, j, f) \<in> set ?A" if "(j, ce, d) \<in> set (map ?g items)" "1 \<le> f" "f \<le> ce" for j ce d f
  proof (cases "j = i")
    case True
    with mem_i that have "f \<le> e + 1" by blast
    then consider "f = e + 1" | "f \<le> e" by linarith
    then show ?thesis
    proof cases
      case 2
      from used [OF it that(2) 2] True show ?thesis by auto
    qed (use True in auto)
  next
    case False
    from used [OF mem_o [OF that(1) False] that(2,3)] show ?thesis by auto
  qed
  have 7: "case d of None \<Rightarrow> ce = 0 | Some b \<Rightarrow> (b, j, ce) \<in> set ?A" if "(j, ce, d) \<in> set (map ?g items)" for j ce d
  proof (cases "j = i")
    case True
    with mem_i that have "ce = e + 1 \<and> d = Some a" by blast
    with True show ?thesis by simp
  next
    case False
    from cur [OF mem_o [OF that False]] show ?thesis by (auto split: option.splits)
  qed
  show ?thesis
    unfolding cores_ok_def
  proof (intro conjI 1 2 5)
    show "\<forall>(i, e, c) \<in> set (map ?g items). i \<noteq> [] \<and> 0 \<le> e" using 3 by fast
    show "\<forall>(a, i, e) \<in> set ?A. \<exists>ce c. (i, ce, c) \<in> set (map ?g items) \<and> 1 \<le> e \<and> e \<le> ce" using 4 by fast
    show "\<forall>(i, ce, c) \<in> set (map ?g items). \<forall>e. 1 \<le> e \<and> e \<le> ce \<longrightarrow> (\<exists>a. (a, i, e) \<in> set ?A)" using 6 by fast
    show "\<forall>(i, ce, c) \<in> set (map ?g items). case c of None \<Rightarrow> ce = 0 | Some a \<Rightarrow> (a, i, ce) \<in> set ?A"
      using 7 by fast
  qed
qed


lemma insert_attempt_Inr:
  assumes "insert_attempt a H = Inr H'"
  shows "H' = H\<lparr>h_attempts := h_attempts H @ [a]\<rparr>"
    and "\<forall>b \<in> set (h_attempts H). ra_id b \<noteq> ra_id a"
    and "\<forall>b \<in> set (h_attempts H). ra_wi b = ra_wi a \<longrightarrow> ra_idem b \<noteq> ra_idem a \<and> ra_epoch b \<noteq> ra_epoch a"
  using assms by (auto simp: insert_attempt_def row_exists_iff split: if_splits)

text \<open>
  UNIQUE (work\_item\_id, claim\_epoch) fences a stale epoch: an insert one above an epoch
  the item has already left behind is refused.
\<close>

lemma insert_attempt_epoch:
  assumes inv: "hub_inv H" and w: "w \<in> set (h_items H)"
    and ins: "insert_attempt a K = Inr K'" "map attempt_core (h_attempts K) = map attempt_core (h_attempts H)"
    and a: "ra_wi a = wi_id w" "ra_epoch a = e + 1" and e: "0 \<le> e" "e \<le> wi_epoch w"
  shows "e = wi_epoch w"
proof (rule ccontr)
  assume "e \<noteq> wi_epoch w"
  with e have "1 \<le> e + 1" "e + 1 \<le> wi_epoch w" by auto
  from hub_inv_epoch_used [OF inv w this] obtain b where
    b: "b \<in> set (h_attempts H)" "ra_wi b = wi_id w" "ra_epoch b = e + 1" by blast
  have "attempt_core b \<in> set (map attempt_core (h_attempts K))" unfolding ins(2) using b(1) by simp
  then obtain b' where "b' \<in> set (h_attempts K)" "attempt_core b' = attempt_core b" by auto
  with b have "b' \<in> set (h_attempts K)" "ra_wi b' = wi_id w" "ra_epoch b' = e + 1" by simp_all
  with insert_attempt_Inr(3) [OF ins(1)] a show False by auto
qed

lemma hub_inv_grant:
  assumes inv: "hub_inv H" and w: "w \<in> set (h_items H)"
    and ins: "insert_attempt a K = Inr K'" "map attempt_core (h_attempts K) = map attempt_core (h_attempts H)"
    and a: "ra_wi a = wi_id w" "ra_epoch a = e + 1" and e: "0 \<le> e" "e \<le> wi_epoch w"
    and items: "map item_core (h_items H') = map (\<lambda>(j, f, d). if j = wi_id w then (j, e + 1, Some (ra_id a)) else (j, f, d))
                  (map item_core (h_items H))"
    and atts: "map attempt_core (h_attempts H') = map attempt_core (h_attempts K')"
    and locks: "lock_keys_unique H'"
      "\<forall>l \<in> set (h_locks H'). l \<in> set (h_locks H) \<or> (rl_owner l = ra_id a \<and> rl_epoch l = e + 1)"
  shows "hub_inv H'"
proof -
  have eq: "e = wi_epoch w" by (rule insert_attempt_epoch [OF inv w ins a e])
  have atts': "map attempt_core (h_attempts H') = map attempt_core (h_attempts H) @ [(ra_id a, wi_id w, e + 1)]"
    unfolding atts insert_attempt_Inr(1) [OF ins(1)] by (simp add: ins(2) a)
  have "ra_id a \<notin> fst ` set (map attempt_core (h_attempts K))"
    using insert_attempt_Inr(2) [OF ins(1)] by auto
  then have "cores_ok (map item_core (h_items H')) (map attempt_core (h_attempts H'))"
    unfolding items atts' ins(2)
    using inv w by (intro cores_ok_grant [where c = "wi_current w"]) (auto simp: hub_inv_def eq)
  moreover have "locks_ok (h_locks H') (map attempt_core (h_attempts H'))"
    unfolding locks_ok_def
  proof (intro conjI ballI)
    show "distinct (map lock_key (h_locks H'))" using locks(1) by (simp add: lock_keys_unique_def)
    fix l
    assume "l \<in> set (h_locks H')"
    with locks(2) consider "l \<in> set (h_locks H)" | "rl_owner l = ra_id a" "rl_epoch l = e + 1" by blast
    then show "\<exists>i. (rl_owner l, i, rl_epoch l) \<in> set (map attempt_core (h_attempts H'))"
    proof cases
      case 1
      with inv obtain i where "(rl_owner l, i, rl_epoch l) \<in> set (map attempt_core (h_attempts H))"
        unfolding hub_inv_def locks_ok_def by blast
      then show ?thesis unfolding atts' by (intro exI [of _ i]) simp
    qed (auto simp: atts')
  qed
  ultimately show ?thesis by (simp add: hub_inv_def)
qed

section \<open>Every operation preserves the invariant\<close>

lemma verifyAttemptCredential_Inr:
  assumes "verifyAttemptCredential sha now wi att e secret H = Inr H'"
  shows "wi_current wi = Some att" and "H' = update_attempt att (\<lambda>a. a\<lparr>ra_last_active := now\<rparr>) H"
    and "\<exists>a. attempt_by_id H att = Some a \<and> ra_epoch a = e \<and> ra_status a = ARunning \<and>
           hex_decode (ra_secret_hash a) = hex_decode (hashSecretInternal sha secret) \<and>
           hex_decode (ra_secret_hash a) \<noteq> None"
  using assms by (auto simp: verifyAttemptCredential_def split: if_splits option.splits)

lemma claim_supersede_keeps_cores: "keeps_cores H (claim_supersede now ca prior H)"
  unfolding claim_supersede_def
  by (rule keeps_cores_trans [OF keeps_cores_update_attempt keeps_cores_release]) simp

lemma map_item_core_grant:
  "map item_core (h_items (update_item i (\<lambda>w. w\<lparr>wi_status := s, wi_current := Some a, wi_epoch := e\<rparr>) H)) =
   map (\<lambda>(j, f, d). if j = i then (j, e, Some a) else (j, f, d)) (map item_core (h_items H))"
  by (simp add: update_item_def update_where_def)

lemma acquire_all_new_locks:
  assumes "acquire_all ls att e project wi op H = Inr H'" "l \<in> set (h_locks H')"
  shows "l \<in> set (h_locks H) \<or> (rl_owner l = att \<and> rl_epoch l = e)"
  using assms(2) unfolding acquire_all_locks [OF assms(1)] by auto

lemma claim_step_upsert_frame [simp]:
  "h_items (claim_step_upsert wi req H) = h_items H" "h_attempts (claim_step_upsert wi req H) = h_attempts H"
  "h_locks (claim_step_upsert wi req H) = h_locks H" "h_events (claim_step_upsert wi req H) = h_events H"
  "h_deps (claim_step_upsert wi req H) = h_deps H" "h_completions (claim_step_upsert wi req H) = h_completions H"
  "h_memories (claim_step_upsert wi req H) = h_memories H"
  by (simp_all add: claim_step_upsert_def)

lemma claim_classify_keeps_cores: "keeps_cores H (claim_classify wi ca H)"
  unfolding claim_classify_def
  by (auto intro: keeps_cores_trans [OF keeps_cores_update_item keeps_cores_emit])

text \<open>What a granted claim is made of.\<close>

lemma claim_grant_Inr:
  assumes "claim_grant sha now newID wi req ca locks tk prior H = Inr (H', r)"
  obtains H1 H2 H3 H4 where
    "H1 = (if tk \<and> prior \<noteq> [] then claim_supersede now ca prior H else H)"
    "insert_attempt (new_attempt sha now newID wi req ca prior) H1 = Inr H2"
    "H3 = (if tk \<and> prior \<noteq> [] then emit_event (attemptSupersededEvent wi newID ca) H2 else H2)"
    "acquire_all locks newID (wi_epoch wi + 1) (wi_project wi) (wi_id wi)
       (withExtra (newLockOp ''claim'' (ca_user ca) (ca_display ca) (ca_api_key ca)) [(''is_takeover'', JBool tk)]) H3 = Inr H4"
    "H' = emit_event (attemptStartedEvent wi newID req ca tk (wi_epoch wi + 1)) (claim_classify wi ca
       (claim_step_upsert wi req (update_item (wi_id wi)
         (\<lambda>w. w\<lparr>wi_status := Running, wi_current := Some newID, wi_epoch := wi_epoch wi + 1\<rparr>) H4)))"
    "cl_attempt r = newID" "cl_epoch r = wi_epoch wi + 1"
    "cl_locks r = map (\<lambda>l. \<lparr>rl_type = rq_type l, rl_key = rq_key l, rl_owner = newID,
       rl_epoch = wi_epoch wi + 1\<rparr>) locks"
  using assms unfolding claim_grant_def Let_def
  by (auto split: sum.splits)


lemma claim_grant_inv:
  assumes inv: "hub_inv H" and w: "wi \<in> set (h_items H)"
    and grant: "claim_grant sha now newID wi req ca locks tk prior H = Inr (H', r)"
  shows "hub_inv H'"
  using grant
proof (cases rule: claim_grant_Inr)
  case (1 H1 H2 H3 H4)
  let ?H5 = "update_item (wi_id wi) (\<lambda>w. w\<lparr>wi_status := Running, wi_current := Some newID, wi_epoch := wi_epoch wi + 1\<rparr>) H4"
  have k1: "keeps_cores H H1" using 1(1) claim_supersede_keeps_cores by simp
  have H2: "h_items H2 = h_items H1" "h_locks H2 = h_locks H1" "h_attempts H2 = h_attempts H1 @ [new_attempt sha now newID wi req ca prior]"
    using insert_attempt_Inr(1) [OF 1(2)] by simp_all
  have H3: "h_items H3 = h_items H2" "h_locks H3 = h_locks H2" "h_attempts H3 = h_attempts H2"
    by (simp_all add: 1(3))
  note H4 = same_but_locksD(1,2) [OF acquire_all_frame [OF 1(4)]]
  have uniq: "lock_keys_unique H3"
    using k1 hub_inv_distinct(3) [OF inv] H2 H3 by (simp add: keeps_cores_def lock_keys_unique_def)
  have "hub_inv ?H5"
  proof (rule hub_inv_grant [OF inv w 1(2)])
    show "map attempt_core (h_attempts H1) = map attempt_core (h_attempts H)"
      using k1 by (simp only: keeps_cores_def)
    show "0 \<le> wi_epoch wi" using inv w by (force simp: hub_inv_def cores_ok_def)
    show "map item_core (h_items ?H5) = map (\<lambda>(j, f, d). if j = wi_id wi
        then (j, wi_epoch wi + 1, Some (ra_id (new_attempt sha now newID wi req ca prior))) else (j, f, d))
        (map item_core (h_items H))"
      using k1 unfolding map_item_core_grant keeps_cores_def H4 H3 H2 by (simp add: new_attempt_def)
    show "map attempt_core (h_attempts ?H5) = map attempt_core (h_attempts H2)"
      by (simp add: H4 H3)
    show "lock_keys_unique ?H5"
      using acquire_all_unique [OF uniq 1(4)] by (simp add: lock_keys_unique_def)
    show "\<forall>l \<in> set (h_locks ?H5). l \<in> set (h_locks H) \<or>
        (rl_owner l = ra_id (new_attempt sha now newID wi req ca prior) \<and> rl_epoch l = wi_epoch wi + 1)"
      using acquire_all_new_locks [OF 1(4)] k1 by (auto simp: keeps_cores_def H3 H2 new_attempt_def)
  qed (simp_all add: new_attempt_def)
  moreover have "keeps_cores ?H5 H'"
    unfolding 1(5)
    by (rule keeps_cores_trans [OF keeps_coresI keeps_cores_trans [OF claim_classify_keeps_cores keeps_cores_emit]])
       simp_all
  ultimately show ?thesis by (rule keeps_cores_inv [rotated])
qed

lemma FnClaimWorkItem_Inr:
  assumes "FnClaimWorkItem sha now newID wiRef req ca H = Inr (H', r)"
  obtains (replay) wi a where "item_by_ref H wiRef = Some wi" "a \<in> set (h_attempts H)"
      "ra_wi a = wi_id wi" "ra_idem a = cr_idem req" "H' = H" "r = claim_replay H now wi a"
  | (fresh) wi tk prior pairs where "item_by_ref H wiRef = Some wi"
      "\<forall>a \<in> set (h_attempts H). ra_wi a = wi_id wi \<longrightarrow> ra_idem a \<noteq> cr_idem req"
      "claim_gate H wi req ca = Inr (tk, prior)" "ValidateRequestedLocks (cr_locks req)"
      "pairs = deriveClaimLocks (cr_locks req) (wi_declared wi) (wi_project wi)"
      "probeForeignLockHolders H (wi_id wi) (map fst pairs) (map snd pairs) = None"
      "claim_grant sha now newID wi req ca (map fst pairs) tk prior H = Inr (H', r)"
proof -
  from assms obtain wi where wi: "claim_validate req = None" "item_by_ref H wiRef = Some wi" "wi_workflow_mode wi \<noteq> ''pending''"
    by (auto simp: FnClaimWorkItem_def split: option.splits if_splits)
  show thesis
  proof (cases "select_one (\<lambda>a. ra_wi a = wi_id wi \<and> ra_idem a = cr_idem req) (h_attempts H)")
    case (Some a)
    with assms wi have "H' = H" "r = claim_replay H now wi a" by (auto simp: FnClaimWorkItem_def)
    with replay wi(2) select_one_Some [OF Some] show ?thesis by blast
  next
    case None
    then have free: "\<forall>a \<in> set (h_attempts H). ra_wi a = wi_id wi \<longrightarrow> ra_idem a \<noteq> cr_idem req"
      by (auto simp: select_one_None)
    from assms wi None obtain tk prior where gate: "claim_gate H wi req ca = Inr (tk, prior)"
      and locks: "ValidateRequestedLocks (cr_locks req)"
      by (auto simp: FnClaimWorkItem_def split: sum.splits if_splits)
    let ?pairs = "deriveClaimLocks (cr_locks req) (wi_declared wi) (wi_project wi)"
    from assms wi None gate locks have
      "probeForeignLockHolders H (wi_id wi) (map fst ?pairs) (map snd ?pairs) = None"
      "claim_grant sha now newID wi req ca (map fst ?pairs) tk prior H = Inr (H', r)"
      by (auto simp: FnClaimWorkItem_def Let_def split: option.splits if_splits)
    with fresh wi(2) free gate locks show ?thesis by blast
  qed
qed

lemma FnClaimWorkItem_inv:
  assumes "hub_inv H" "FnClaimWorkItem sha now newID wiRef req ca H = Inr (H', r)"
  shows "hub_inv H'"
  using assms(2)
  by (cases rule: FnClaimWorkItem_Inr)
     (use assms(1) claim_grant_inv item_by_ref_Some in blast)+

lemma complete_commit_keeps_cores: "keeps_cores H (complete_commit now wi req H)"
proof -
  let ?H1 = "complete_update_attempt now req H"
  let ?H2 = "complete_release req ?H1"
  let ?H3 = "update_item (wi_id wi) (\<lambda>w. w\<lparr>wi_status := wi_status_of (cq_status req)\<rparr>) ?H2"
  let ?H4 = "emit_event (attemptCompletedEvent wi req) ?H3"
  have "keeps_cores H ?H1" unfolding complete_update_attempt_def by (rule keeps_cores_update_attempt) simp
  also have "keeps_cores ?H1 ?H2" unfolding complete_release_def by (auto intro: keeps_cores_release)
  also have "keeps_cores ?H2 ?H3" by (rule keeps_cores_update_item) simp
  also have "keeps_cores ?H3 ?H4" by (rule keeps_cores_emit)
  finally have 4: "keeps_cores H ?H4" .
  have "keeps_cores ?H4 (expire_methodology now (wi_id wi) (unblockDependentWI (wi_id wi) (wi_project wi) ?H4))"
    unfolding expire_methodology_def by (rule keeps_cores_trans [OF keeps_cores_unblock keeps_cores_memories])
  with 4 show ?thesis unfolding complete_commit_def Let_def by (auto intro: keeps_cores_trans)
qed

lemma FnCompleteAttempt_Inr:
  assumes "FnCompleteAttempt sha now scID wiID req roles role H = Inr H'"
  obtains wi H1 H2 where "complete_validate req = None" "item_by_id H wiID = Some wi" "\<not> is_terminal (wi_status wi)"
    "verifyAttemptCredential sha now wi (cq_attempt req) (cq_epoch req) (cq_secret req) H = Inr H1"
    "complete_step_phase scID wiID req H1 = Inr H2" "H' = complete_commit now wi req H2"
  using assms unfolding FnCompleteAttempt_def Let_def
  by (auto split: option.splits sum.splits if_splits)

lemma FnCompleteAttempt_keeps_cores:
  "FnCompleteAttempt sha now scID wiID req roles role H = Inr H' \<Longrightarrow> keeps_cores H H'"
  by (erule FnCompleteAttempt_Inr)
     (metis keeps_cores_trans verify_keeps_cores complete_step_phase_keeps_cores complete_commit_keeps_cores)

lemma cancel_commit_keeps_cores: "keeps_cores H (cancel_commit now wi st user H)"
proof -
  let ?H1 = "update_item wi (\<lambda>w. w\<lparr>wi_status := Cancelled\<rparr>) H"
  let ?H2 = "?H1\<lparr>h_attempts := update_where (\<lambda>a. ra_wi a = wi \<and> is_live (ra_status a))
                    (\<lambda>a. a\<lparr>ra_status := ACancelled, ra_ended := Some now\<rparr>) (h_attempts ?H1)\<rparr>"
  have "keeps_cores H ?H1" by (rule keeps_cores_update_item) simp
  also have "keeps_cores ?H1 ?H2"
    by (rule keeps_coresI) (simp_all add: map_update_where_frame del: prod.inject)
  also have "keeps_cores ?H2 (cancel_commit now wi st user H)"
    unfolding cancel_commit_def Let_def by (rule keeps_cores_release)
  finally show ?thesis .
qed

lemma CancelWorkItem_Inr:
  assumes "CancelWorkItem now ref user role roles H = Inr H'"
  obtains wi locked where "item_by_ref H ref = Some wi" "item_by_id H (wi_id wi) = Some locked"
    "wi_status locked \<noteq> Running" "\<not> is_terminal (wi_status locked)"
    "wi_reporter wi = user \<or> role = ''admin'' \<or> roles (wi_project wi) = ''maintainer''"
    "H' = cancel_commit now (wi_id wi) (wi_status locked) user H"
  using assms unfolding CancelWorkItem_def GetWorkItem_def Let_def
  by (auto simp: cancelGate_def split: option.splits sum.splits if_splits)

lemma CancelWorkItem_keeps_cores:
  "CancelWorkItem now ref user role roles H = Inr H' \<Longrightarrow> keeps_cores H H'"
  by (erule CancelWorkItem_Inr) (simp add: cancel_commit_keeps_cores)

subsection \<open>Acquiring locks in mid-attempt\<close>

text \<open>What one target may do: nothing but drop locks and add locks of this attempt.\<close>

definition adds_own :: "string \<Rightarrow> int \<Rightarrow> hub \<Rightarrow> hub \<Rightarrow> bool" where
  "adds_own att e H H' \<longleftrightarrow> same_but_locks H H' \<and> (lock_keys_unique H \<longrightarrow> lock_keys_unique H') \<and>
     (\<forall>l \<in> set (h_locks H'). l \<in> set (h_locks H) \<or> (rl_owner l = att \<and> rl_epoch l = e))"

lemma adds_own_refl [simp, intro]: "adds_own att e H H"
  by (simp add: adds_own_def)

lemma adds_own_trans: "adds_own att e H H1 \<Longrightarrow> adds_own att e H1 H2 \<Longrightarrow> adds_own att e H H2"
  unfolding adds_own_def using same_but_locks_trans by blast

lemma adds_own_if_free: "acquireLockIfFree t k att e project wi op H = (b, H') \<Longrightarrow> adds_own att e H H'"
  using acquireLockIfFree_frame [of H t k att e project wi op]
  by (cases b)
     (auto simp: adds_own_def lock_keys_unique_def lock_key_def dest!: acquireLockIfFree_locks acquireLockIfFree_taken)

lemma adds_own_release: "adds_own att e H (fst (releaseLocks stmt op H))"
  by (simp add: adds_own_def releaseLocks_frame releaseLocks_locks set_delete_where lock_holder_release(1))

lemma acquire_target_adds_own:
  "acquire_target ac wi key probe H = Inr (H', got) \<Longrightarrow> adds_own (ac_attempt ac) (ac_epoch ac) H H'"
  unfolding acquire_target_def Let_def
  by (auto split: option.splits if_splits prod.splits bool.splits
      intro: adds_own_if_free adds_own_trans [OF adds_own_release adds_own_if_free [OF prod.collapse [symmetric]]]
      dest!: acquireLockIfFree_taken)

lemma acquire_loop_adds_own:
  "acquire_loop ac wi ts H = Inr (H', got) \<Longrightarrow> adds_own (ac_attempt ac) (ac_epoch ac) H H'"
proof (induction ts arbitrary: H got)
  case (Cons t ts)
  then show ?case
    by (cases t) (auto split: sum.splits dest!: acquire_target_adds_own Cons.IH intro: adds_own_trans)
qed simp

lemma adds_own_inv:
  assumes "hub_inv H" "adds_own att e H H'" "a \<in> set (h_attempts H)" "ra_id a = att" "ra_epoch a = e"
  shows "hub_inv H'"
proof (rule hub_inv_cong [OF assms(1)])
  from assms(2) have frame: "same_but_locks H H'"
    and uniq: "lock_keys_unique H \<longrightarrow> lock_keys_unique H'"
    and new: "\<forall>l \<in> set (h_locks H'). l \<in> set (h_locks H) \<or> (rl_owner l = att \<and> rl_epoch l = e)"
    unfolding adds_own_def by blast+
  show "map item_core (h_items H') = map item_core (h_items H)"
    "map attempt_core (h_attempts H') = map attempt_core (h_attempts H)"
    using frame by (simp_all only: same_but_locks_def)
  show "locks_ok (h_locks H') (map attempt_core (h_attempts H))"
    unfolding locks_ok_def
  proof (intro conjI ballI)
    show "distinct (map lock_key (h_locks H'))"
      using uniq hub_inv_distinct(3) [OF assms(1)] by (simp add: lock_keys_unique_def)
    fix l
    assume "l \<in> set (h_locks H')"
    with new consider "l \<in> set (h_locks H)" | "rl_owner l = att" "rl_epoch l = e" by blast
    then show "\<exists>i. (rl_owner l, i, rl_epoch l) \<in> set (map attempt_core (h_attempts H))"
    proof cases
      case 1
      with assms(1) show ?thesis unfolding hub_inv_def locks_ok_def by blast
    next
      case 2
      with assms(4,5) have "(rl_owner l, ra_wi a, rl_epoch l) = attempt_core a" by simp
      then have "(rl_owner l, ra_wi a, rl_epoch l) \<in> set (map attempt_core (h_attempts H))"
        using assms(3) unfolding set_map by (rule image_eqI)
      then show ?thesis ..
    qed
  qed
qed

lemma FnAcquireLocks_Inr:
  assumes "FnAcquireLocks sha now wiRef ac H = Inr (H', r)"
  obtains wi declared H1 acquired where "item_by_ref H wiRef = Some wi" "wi_status wi = Running"
    "verifyAttemptCredential sha now wi (ac_attempt ac) (ac_epoch ac) (ac_secret ac) H = Inr H1"
    "decodeDeclaredResources (wi_declared wi) = Some declared"
    "acquire_loop ac wi (acquire_targets (wi_project wi) declared) H1 = Inr (H', acquired)"
    "al_acquired r = acquired"
    "al_already_held r = filter (\<lambda>l. rl_owner l = ac_attempt ac \<and>
                     lock_label l \<notin> set (map lock_label acquired)) (h_locks H')"
  using assms unfolding FnAcquireLocks_def
  by (auto split: option.splits sum.splits if_splits)

lemma FnAcquireLocks_inv:
  assumes inv: "hub_inv H" and ok: "FnAcquireLocks sha now wiRef ac H = Inr (H', r)"
  shows "hub_inv H'"
  using ok
proof (cases rule: FnAcquireLocks_Inr)
  case (1 wi declared H1 acquired)
  have inv1: "hub_inv H1" by (rule keeps_cores_inv [OF verify_keeps_cores [OF 1(3)] inv])
  from verifyAttemptCredential_Inr(3) [OF 1(3)] obtain a where
    a: "a \<in> set (h_attempts H)" "ra_id a = ac_attempt ac" "ra_epoch a = ac_epoch ac"
    by (auto dest: attempt_by_id_Some)
  have "map attempt_core (h_attempts H1) = map attempt_core (h_attempts H)"
    using verify_keeps_cores [OF 1(3)] by (simp only: keeps_cores_def)
  moreover have "attempt_core a \<in> set (map attempt_core (h_attempts H))" using a(1) by simp
  ultimately have "attempt_core a \<in> set (map attempt_core (h_attempts H1))" by (simp only:)
  then obtain a1 where a1: "a1 \<in> set (h_attempts H1)" "attempt_core a1 = attempt_core a" by auto
  from this show ?thesis
    using adds_own_inv [OF inv1 acquire_loop_adds_own [OF 1(5)] a1(1)] a by simp
qed

subsection \<open>Forced takeover\<close>

text \<open>
  A read of an earlier state still describes the work item: its identity is fixed and its
  epoch can only have grown.
\<close>

definition ctx_ok :: "hub \<Rightarrow> takeover_ctx \<Rightarrow> bool" where
  "ctx_ok H tc \<longleftrightarrow> 0 \<le> wi_epoch (tc_wi tc) \<and>
     (\<exists>w \<in> set (h_items H). wi_id w = wi_id (tc_wi tc) \<and> wi_epoch (tc_wi tc) \<le> wi_epoch w)"

lemma takeover_read_Inr:
  assumes "takeover_read H ref req ca role roles = Inr tc"
  shows "item_by_ref H ref = Some (tc_wi tc)" "wi_status (tc_wi tc) = Running"
    "wi_current (tc_wi tc) = Some (tc_prior tc)"
    "\<exists>a. attempt_by_id H (tc_prior tc) = Some a \<and>
       (ra_actor a = ca_user ca \<or> roles (wi_project (tc_wi tc)) = ''maintainer'' \<or> role = ''admin'')"
  using assms unfolding takeover_read_def GetWorkItem_def
  by (auto split: option.splits sum.splits if_splits)

lemma takeover_read_ctx_ok:
  assumes "hub_inv H" "takeover_read H ref req ca role roles = Inr tc"
  shows "ctx_ok H tc"
proof -
  from item_by_ref_Some [OF takeover_read_Inr(1) [OF assms(2)]] have w: "tc_wi tc \<in> set (h_items H)" by blast
  with assms(1) have "0 \<le> wi_epoch (tc_wi tc)" by (force simp: hub_inv_def cores_ok_def)
  with w show ?thesis by (auto simp: ctx_ok_def)
qed

lemma takeover_displace_keeps_cores: "keeps_cores H (takeover_displace now scID tc req ca H)"
proof -
  let ?H1 = "case step_of H (wi_id (tc_wi tc)) of None \<Rightarrow> H
     | Some st \<Rightarrow> if ss_status st = SInProgress
         then fnForceTerminateStep scID (wi_id (tc_wi tc)) (tc_prior tc) (ss_attempt st) H else H"
  have "keeps_cores H ?H1" by (auto split: option.splits intro: keeps_cores_force_terminate)
  also have "keeps_cores ?H1 (takeover_displace now scID tc req ca H)"
    unfolding takeover_displace_def Let_def
    by (rule keeps_cores_trans [OF keeps_cores_update_attempt keeps_cores_trans [OF keeps_cores_release keeps_cores_emit]])
       simp
  finally show ?thesis .
qed

lemma takeover_apply_Inr:
  assumes "takeover_apply sha now newID gen scID tc req ca H = Inr H'"
  obtains pairs H1 H2 where
    "pairs = takeover_locks (wi_project (tc_wi tc)) (unmarshalDeclaredResources (wi_declared (tc_wi tc)))"
    "probeForeignLockHolders H (wi_id (tc_wi tc)) (map fst pairs) (map snd pairs) = None"
    "insert_attempt (takeover_attempt sha now newID gen tc req ca) (takeover_displace now scID tc req ca H) = Inr H1"
    "acquire_all (map fst pairs) newID (wi_epoch (tc_wi tc) + 1) (wi_project (tc_wi tc)) (wi_id (tc_wi tc))
       (takeover_op tc req ca) H1 = Inr H2"
    "H' = update_item (wi_id (tc_wi tc))
       (\<lambda>w. w\<lparr>wi_status := Running, wi_current := Some newID, wi_epoch := wi_epoch (tc_wi tc) + 1\<rparr>) H2"
  using assms unfolding takeover_apply_def Let_def
  by (auto split: option.splits sum.splits)

lemma takeover_apply_inv:
  assumes inv: "hub_inv H" and ctx: "ctx_ok H tc"
    and ok: "takeover_apply sha now newID gen scID tc req ca H = Inr H'"
  shows "hub_inv H'" and "\<exists>w \<in> set (h_items H). wi_id w = wi_id (tc_wi tc) \<and> wi_epoch w = wi_epoch (tc_wi tc)"
proof -
  from ctx obtain w where w: "w \<in> set (h_items H)" "wi_id w = wi_id (tc_wi tc)"
    "wi_epoch (tc_wi tc) \<le> wi_epoch w" "0 \<le> wi_epoch (tc_wi tc)"
    unfolding ctx_ok_def by blast
  let ?a = "takeover_attempt sha now newID gen tc req ca"
  let ?K = "takeover_displace now scID tc req ca H"
  have k: "keeps_cores H ?K" by (rule takeover_displace_keeps_cores)
  have atts: "map attempt_core (h_attempts ?K) = map attempt_core (h_attempts H)"
    using k by (simp only: keeps_cores_def)
  have a: "ra_wi ?a = wi_id w" "ra_epoch ?a = wi_epoch (tc_wi tc) + 1" "ra_id ?a = newID"
    by (simp_all add: takeover_attempt_def w(2))
  have both: "hub_inv H' \<and> wi_epoch (tc_wi tc) = wi_epoch w"
    using ok
  proof (cases rule: takeover_apply_Inr)
    case (1 pairs H1 H2)
    have H1: "h_items H1 = h_items ?K" "h_locks H1 = h_locks ?K" "h_attempts H1 = h_attempts ?K @ [?a]"
      using insert_attempt_Inr(1) [OF 1(3)] by simp_all
    note H2 = same_but_locksD(1,2) [OF acquire_all_frame [OF 1(4)]]
    have uniq: "lock_keys_unique H1"
      using k hub_inv_distinct(3) [OF inv] H1(2) by (simp add: keeps_cores_def lock_keys_unique_def)
    have "hub_inv H'"
    proof (rule hub_inv_grant [OF inv w(1) 1(3) atts a(1,2) w(4,3)])
      show "map item_core (h_items H') = map (\<lambda>(j, f, d). if j = wi_id w
          then (j, wi_epoch (tc_wi tc) + 1, Some (ra_id ?a)) else (j, f, d)) (map item_core (h_items H))"
        using k unfolding 1(5) map_item_core_grant keeps_cores_def H2 H1 by (simp add: a w(2))
      show "map attempt_core (h_attempts H') = map attempt_core (h_attempts H1)"
        by (simp add: 1(5) H2)
      show "lock_keys_unique H'"
        using acquire_all_unique [OF uniq 1(4)] by (simp add: 1(5) lock_keys_unique_def)
      show "\<forall>l \<in> set (h_locks H'). l \<in> set (h_locks H) \<or>
          (rl_owner l = ra_id ?a \<and> rl_epoch l = wi_epoch (tc_wi tc) + 1)"
        using acquire_all_new_locks [OF 1(4)] k by (auto simp: keeps_cores_def 1(5) H1 a(3))
    qed
    with insert_attempt_epoch [OF inv w(1) 1(3) atts a(1,2) w(4,3)] show ?thesis by blast
  qed
  then show "hub_inv H'" ..
  from both w show "\<exists>w \<in> set (h_items H). wi_id w = wi_id (tc_wi tc) \<and> wi_epoch w = wi_epoch (tc_wi tc)" by auto
qed


subsection \<open>Dependencies and steps\<close>


end
