(* ===== verification/Hub_System.thy ===== *)
theory Hub_System
  imports Hub_Invariant
begin

text \<open>
  The hub as a transition system. A transaction runs to its commit against one state of the
  database, and transactions of different requests interleave. Two operations decide on
  reads made before the transaction that writes: forced takeover and the creation of a
  dependency; their reads are transitions of their own and what they read stays pending
  until it is applied.

  The system holds a fixed set of work items. The parameter \<open>ok\<close> selects the claims that
  occur, so that a property of claims without client-supplied locks can be stated.
\<close>

section \<open>Transitions\<close>

inductive hub_tx :: "(string \<Rightarrow> string) \<Rightarrow> (claim_request \<Rightarrow> bool) \<Rightarrow> hub \<Rightarrow> hub \<Rightarrow> bool"
  for sha :: "string \<Rightarrow> string" and ok :: "claim_request \<Rightarrow> bool"
where
  tx_claim: "FnClaimWorkItem sha now newID ref req ca H = Inr (H', r) \<Longrightarrow> ok req \<Longrightarrow> hub_tx sha ok H H'"
| tx_complete: "FnCompleteAttempt sha now scID wiID creq roles role H = Inr H' \<Longrightarrow> hub_tx sha ok H H'"
| tx_pins: "FnRecordRepoPins sha now wiID ac pins H = Inr H' \<Longrightarrow> hub_tx sha ok H H'"
| tx_locks: "FnAcquireLocks sha now ref ac H = Inr (H', lr) \<Longrightarrow> hub_tx sha ok H H'"
| tx_verify: "VerifyAttemptCredentialPool sha now ref att e secret H = Inr H' \<Longrightarrow> hub_tx sha ok H H'"
| tx_cancel: "CancelWorkItem now ref user role roles H = Inr H' \<Longrightarrow> hub_tx sha ok H H'"
| tx_sweep: "RunOrphanLockSweep H = (H', n) \<Longrightarrow> hub_tx sha ok H H'"
| tx_delete_dependency: "DeleteDependency b c kind H = Inr H' \<Longrightarrow> hub_tx sha ok H H'"
| tx_gc_unblock: "H' = RunUnblockDependentWI H \<Longrightarrow> hub_tx sha ok H H'"
| tx_step: "handleUpdateStep sha now scID ref sreq u H = Inr (H', sr) \<Longrightarrow> hub_tx sha ok H H'"

record hub_sys =
  hs_hub :: hub
  hs_takeovers :: "(takeover_ctx \<times> takeover_request \<times> caller) list"
  hs_edges :: "(dependency_request \<times> string) list"

inductive sys_step :: "(string \<Rightarrow> string) \<Rightarrow> (claim_request \<Rightarrow> bool) \<Rightarrow> hub_sys \<Rightarrow> hub_sys \<Rightarrow> bool"
  for sha :: "string \<Rightarrow> string" and ok :: "claim_request \<Rightarrow> bool"
where
  sys_tx: "hub_tx sha ok (hs_hub s) H' \<Longrightarrow> sys_step sha ok s (s\<lparr>hs_hub := H'\<rparr>)"
| sys_takeover_read: "takeover_read (hs_hub s) ref req ca role roles = Inr tc \<Longrightarrow>
    sys_step sha ok s (s\<lparr>hs_takeovers := (tc, req, ca) # hs_takeovers s\<rparr>)"
| sys_takeover_apply: "(tc, req, ca) \<in> set (hs_takeovers s) \<Longrightarrow>
    takeover_apply sha now newID gen scID tc req ca (hs_hub s) = Inr H' \<Longrightarrow>
    sys_step sha ok s (s\<lparr>hs_hub := H'\<rparr>)"
| sys_edge_check: "create_dependency_check (hs_hub s) dreq roles role = Inr project \<Longrightarrow>
    sys_step sha ok s (s\<lparr>hs_edges := (dreq, project) # hs_edges s\<rparr>)"
| sys_edge_insert: "(dreq, project) \<in> set (hs_edges s) \<Longrightarrow>
    sys_step sha ok s (s\<lparr>hs_hub := create_dependency_insert dreq project user (hs_hub s)\<rparr>)"

inductive_cases sys_stepE: "sys_step sha ok s t"

definition initial_hub :: "hub \<Rightarrow> bool" where
  "initial_hub H \<longleftrightarrow>
     distinct (map wi_id (h_items H)) \<and>
     (\<forall>w \<in> set (h_items H). wi_id w \<noteq> [] \<and> wi_epoch w = 0 \<and> wi_current w = None \<and> wi_status w = Queued) \<and>
     h_attempts H = [] \<and> h_locks H = [] \<and> h_deps H = [] \<and> h_events H = []"

definition sys_init :: "hub_sys \<Rightarrow> bool" where
  "sys_init s \<longleftrightarrow> initial_hub (hs_hub s) \<and> hs_takeovers s = [] \<and> hs_edges s = []"

section \<open>Growth\<close>

text \<open>Items stay, epochs do not fall, attempts are never forgotten or renumbered.\<close>

definition grows :: "hub \<Rightarrow> hub \<Rightarrow> bool" where
  "grows H H' \<longleftrightarrow>
     (\<forall>w \<in> set (h_items H). \<exists>w' \<in> set (h_items H'). wi_id w' = wi_id w \<and> wi_epoch w \<le> wi_epoch w') \<and>
     attempt_core ` set (h_attempts H) \<subseteq> attempt_core ` set (h_attempts H')"

lemma grows_refl [simp, intro]: "grows H H"
  by (auto simp: grows_def)

lemma grows_trans [trans]:
  assumes "grows H H1" "grows H1 H2"
  shows "grows H H2"
  unfolding grows_def
proof (intro conjI ballI)
  fix w
  assume "w \<in> set (h_items H)"
  with assms(1) obtain v where "v \<in> set (h_items H1)" "wi_id v = wi_id w" "wi_epoch w \<le> wi_epoch v"
    unfolding grows_def by blast
  moreover from this assms(2) obtain u where "u \<in> set (h_items H2)" "wi_id u = wi_id v" "wi_epoch v \<le> wi_epoch u"
    unfolding grows_def by blast
  ultimately show "\<exists>w' \<in> set (h_items H2). wi_id w' = wi_id w \<and> wi_epoch w \<le> wi_epoch w'"
    by (intro bexI [of _ u]) simp_all
next
  show "attempt_core ` set (h_attempts H) \<subseteq> attempt_core ` set (h_attempts H2)"
    using conjunct2 [OF assms(1) [unfolded grows_def]] conjunct2 [OF assms(2) [unfolded grows_def]]
    by (rule subset_trans)
qed

lemma keeps_cores_grows:
  assumes "keeps_cores H H'"
  shows "grows H H'"
  unfolding grows_def
proof (intro conjI ballI)
  fix w
  assume "w \<in> set (h_items H)"
  then have "item_core w \<in> set (map item_core (h_items H))" by simp
  also have "map item_core (h_items H) = map item_core (h_items H')"
    using assms by (simp only: keeps_cores_def)
  finally obtain v where "v \<in> set (h_items H')" "item_core v = item_core w" by auto
  then show "\<exists>w' \<in> set (h_items H'). wi_id w' = wi_id w \<and> wi_epoch w \<le> wi_epoch w'"
    by (intro bexI [of _ v]) simp_all
next
  have "set (map attempt_core (h_attempts H')) = set (map attempt_core (h_attempts H))"
    using assms by (simp only: keeps_cores_def)
  then show "attempt_core ` set (h_attempts H) \<subseteq> attempt_core ` set (h_attempts H')"
    by (simp only: set_map)
qed

lemma grant_grows:
  assumes "keeps_cores H K" "insert_attempt a K = Inr K'"
    "h_items H' = h_items (update_item i (\<lambda>w. w\<lparr>wi_status := s, wi_current := Some c, wi_epoch := e + 1\<rparr>) K')"
    "map attempt_core (h_attempts H') = map attempt_core (h_attempts K')"
    "\<And>w. w \<in> set (h_items H) \<Longrightarrow> wi_id w = i \<Longrightarrow> wi_epoch w = e"
  shows "grows H H'"
  unfolding grows_def
proof (intro conjI ballI)
  note K' = insert_attempt_Inr(1) [OF assms(2)]
  fix w
  assume w: "w \<in> set (h_items H)"
  then have "item_core w \<in> set (map item_core (h_items H))" by simp
  also have "map item_core (h_items H) = map item_core (h_items K')"
    using assms(1) by (simp add: K' keeps_cores_def)
  finally obtain v where v: "v \<in> set (h_items K')" "item_core v = item_core w" by auto
  let ?v = "if wi_id v = i then v\<lparr>wi_status := s, wi_current := Some c, wi_epoch := e + 1\<rparr> else v"
  have "?v \<in> set (h_items H')"
    unfolding assms(3) using v(1) by (auto simp: update_item_def set_update_where)
  moreover have "wi_id ?v = wi_id w \<and> wi_epoch w \<le> wi_epoch ?v" using v(2) assms(5) [OF w] by auto
  ultimately show "\<exists>w' \<in> set (h_items H'). wi_id w' = wi_id w \<and> wi_epoch w \<le> wi_epoch w'" ..
next
  have "map attempt_core (h_attempts K) = map attempt_core (h_attempts H)"
    using assms(1) by (simp only: keeps_cores_def)
  then have "map attempt_core (h_attempts H') = map attempt_core (h_attempts H) @ [attempt_core a]"
    unfolding assms(4) insert_attempt_Inr(1) [OF assms(2)] by simp
  then have "set (map attempt_core (h_attempts H')) = insert (attempt_core a) (set (map attempt_core (h_attempts H)))"
    by simp
  then show "attempt_core ` set (h_attempts H) \<subseteq> attempt_core ` set (h_attempts H')"
    by (simp only: set_map subset_insertI)
qed


lemma claim_grant_grows:
  assumes inv: "hub_inv H" and w: "wi \<in> set (h_items H)"
    and grant: "claim_grant sha now newID wi req ca locks tk prior H = Inr (H', r)"
  shows "grows H H'"
  using grant
proof (cases rule: claim_grant_Inr)
  case (1 H1 H2 H3 H4)
  let ?f = "\<lambda>w. w\<lparr>wi_status := Running, wi_current := Some newID, wi_epoch := wi_epoch wi + 1\<rparr>"
  let ?H5 = "update_item (wi_id wi) ?f H4"
  have k1: "keeps_cores H H1" using 1(1) claim_supersede_keeps_cores by simp
  have H3: "h_items H3 = h_items H2" "h_attempts H3 = h_attempts H2" by (simp_all add: 1(3))
  note H4 = same_but_locksD(1,2) [OF acquire_all_frame [OF 1(4)]]
  have "grows H ?H5"
  proof (rule grant_grows [OF k1 1(2)])
    show "h_items ?H5 = h_items (update_item (wi_id wi) ?f H2)"
      by (simp add: update_item_def H4 H3)
    show "map attempt_core (h_attempts ?H5) = map attempt_core (h_attempts H2)"
      by (simp add: H4 H3)
    show "wi_epoch v = wi_epoch wi" if "v \<in> set (h_items H)" "wi_id v = wi_id wi" for v
      using item_unique [OF inv that(1) w that(2)] by simp
  qed
  also have "keeps_cores ?H5 H'"
    unfolding 1(5)
    by (rule keeps_cores_trans [OF keeps_coresI keeps_cores_trans [OF claim_classify_keeps_cores keeps_cores_emit]])
       simp_all
  then have "grows ?H5 H'" by (rule keeps_cores_grows)
  finally show ?thesis .
qed

lemma takeover_apply_grows:
  assumes inv: "hub_inv H" and ctx: "ctx_ok H tc"
    and ok: "takeover_apply sha now newID gen scID tc req ca H = Inr H'"
  shows "grows H H'"
  using ok
proof (cases rule: takeover_apply_Inr)
  case (1 pairs H1 H2)
  let ?f = "\<lambda>w. w\<lparr>wi_status := Running, wi_current := Some newID, wi_epoch := wi_epoch (tc_wi tc) + 1\<rparr>"
  note H2 = same_but_locksD(1,2) [OF acquire_all_frame [OF 1(4)]]
  from takeover_apply_inv(2) [OF inv ctx ok] obtain w where
    w: "w \<in> set (h_items H)" "wi_id w = wi_id (tc_wi tc)" "wi_epoch w = wi_epoch (tc_wi tc)" by blast
  show ?thesis
  proof (rule grant_grows [OF takeover_displace_keeps_cores 1(3)])
    show "h_items H' = h_items (update_item (wi_id (tc_wi tc)) ?f H1)"
      by (simp add: update_item_def 1(5) H2)
    show "map attempt_core (h_attempts H') = map attempt_core (h_attempts H1)"
      by (simp add: 1(5) H2)
    show "wi_epoch v = wi_epoch (tc_wi tc)" if "v \<in> set (h_items H)" "wi_id v = wi_id (tc_wi tc)" for v
      using item_unique [OF inv that(1) w(1)] that(2) w(2,3) by simp
  qed
qed

lemma adds_own_grows: "adds_own att e H H' \<Longrightarrow> grows H H'"
  by (rule keeps_cores_grows [of H "H'\<lparr>h_locks := h_locks H\<rparr>", THEN grows_trans])
     (auto simp: adds_own_def keeps_cores_def same_but_locks_def lock_keys_unique_def grows_def)

text \<open>Most transactions are edits; four are more.\<close>

lemma hub_tx_Inr [consumes 1, case_names edits claim complete cancel locks]:
  assumes "hub_tx sha ok H H'"
  obtains "edits H H'"
  | now newID ref req ca r where "FnClaimWorkItem sha now newID ref req ca H = Inr (H', r)" "ok req"
  | now scID wiID creq roles role where "FnCompleteAttempt sha now scID wiID creq roles role H = Inr H'"
  | now ref user role roles where "CancelWorkItem now ref user role roles H = Inr H'"
  | now ref ac lr where "FnAcquireLocks sha now ref ac H = Inr (H', lr)"
  using assms
proof (cases rule: hub_tx.cases)
  case tx_claim
  then show thesis by (rule that(2))
next
  case tx_complete
  then show thesis by (rule that(3))
next
  case tx_cancel
  then show thesis by (rule that(4))
next
  case tx_locks
  then show thesis by (rule that(5))
next
  case tx_pins
  then show thesis by (rule that(1) [OF FnRecordRepoPins_edits [OF _ edits_refl]])
next
  case tx_verify
  then show thesis by (rule that(1) [OF VerifyAttemptCredentialPool_edits [OF _ edits_refl]])
next
  case tx_sweep
  then show thesis by (rule that(1) [OF RunOrphanLockSweep_edits [OF _ edits_refl]])
next
  case tx_delete_dependency
  then show thesis by (rule that(1) [OF DeleteDependency_edits])
next
  case tx_gc_unblock
  then show thesis using RunUnblockDependentWI_edits that(1) by simp
next
  case tx_step
  then show thesis by (rule that(1) [OF handleUpdateStep_edits])
qed

lemma hub_tx_inv:
  assumes "hub_tx sha ok H H'" "hub_inv H"
  shows "hub_inv H'"
  using assms(1)
proof (cases rule: hub_tx_Inr)
  case edits
  then show ?thesis using assms(2) edits_keeps_cores keeps_cores_inv by blast
next
  case claim
  then show ?thesis by (intro FnClaimWorkItem_inv [OF assms(2)])
next
  case complete
  show ?thesis by (rule keeps_cores_inv [OF FnCompleteAttempt_keeps_cores [OF complete] assms(2)])
next
  case cancel
  show ?thesis by (rule keeps_cores_inv [OF CancelWorkItem_keeps_cores [OF cancel] assms(2)])
next
  case locks
  show ?thesis by (rule FnAcquireLocks_inv [OF assms(2) locks])
qed

lemma hub_tx_grows:
  assumes "hub_tx sha ok H H'" "hub_inv H"
  shows "grows H H'"
  using assms(1)
proof (cases rule: hub_tx_Inr)
  case edits
  then show ?thesis using edits_keeps_cores keeps_cores_grows by blast
next
  case (claim now newID ref req ca r)
  from claim(1) show ?thesis
    by (cases rule: FnClaimWorkItem_Inr)
       (use assms(2) claim_grant_grows item_by_ref_Some in \<open>auto dest: item_by_ref_Some\<close>)
next
  case (locks now ref ac lr)
  from locks show ?thesis
    by (cases rule: FnAcquireLocks_Inr)
       (meson acquire_loop_adds_own adds_own_grows grows_trans keeps_cores_grows verify_keeps_cores)
next
  case complete
  show ?thesis by (rule keeps_cores_grows [OF FnCompleteAttempt_keeps_cores [OF complete]])
next
  case cancel
  show ?thesis by (rule keeps_cores_grows [OF CancelWorkItem_keeps_cores [OF cancel]])
qed

section \<open>What filing fixed stays fixed\<close>

text \<open>
  The filed columns of the items do not change, and the attempts are a log: rows keep their
  identity, owner, key and secret, and new ones come at the end.
\<close>

definition kept :: "hub \<Rightarrow> hub \<Rightarrow> bool" where
  "kept H H' \<longleftrightarrow>
     map (\<lambda>w. (wi_id w, item_filed w)) (h_items H') = map (\<lambda>w. (wi_id w, item_filed w)) (h_items H) \<and>
     (\<exists>new. map (\<lambda>a. (attempt_core a, attempt_filed a)) (h_attempts H') =
        map (\<lambda>a. (attempt_core a, attempt_filed a)) (h_attempts H) @ new)"

lemma kept_refl [simp, intro!]: "kept H H"
  by (simp add: kept_def)

lemma kept_trans [trans]: "kept H H1 \<Longrightarrow> kept H1 H2 \<Longrightarrow> kept H H2"
  unfolding kept_def by auto

lemma kept_same: "h_items H' = h_items H \<Longrightarrow> h_attempts H' = h_attempts H \<Longrightarrow> kept H H'"
  by (simp add: kept_def)

lemma kept_update_item:
  "(\<And>w. wi_id (f w) = wi_id w \<and> item_filed (f w) = item_filed w) \<Longrightarrow> kept H (update_item i f H)"
  unfolding kept_def update_item_def by (simp add: map_update_where_frame)

lemma kept_attempts_where:
  assumes "h_items H' = h_items H" "h_attempts H' = update_where P f (h_attempts H)"
    "\<And>a. attempt_core (f a) = attempt_core a \<and> attempt_filed (f a) = attempt_filed a"
  shows "kept H H'"
proof -
  have "map (\<lambda>a. (attempt_core a, attempt_filed a)) (update_where P f (h_attempts H)) =
      map (\<lambda>a. (attempt_core a, attempt_filed a)) (h_attempts H)"
    using assms(3) by (intro map_update_where_frame) simp
  then show ?thesis by (simp add: kept_def assms(1,2) del: map_eq_conv)
qed

lemma kept_update_attempt:
  "(\<And>a. attempt_core (f a) = attempt_core a \<and> attempt_filed (f a) = attempt_filed a) \<Longrightarrow>
   kept H (update_attempt i f H)"
  by (rule kept_attempts_where [of _ _ "\<lambda>a. ra_id a = i" f]) (simp_all add: update_attempt_def)

lemma release_rows [simp]:
  "h_items (fst (releaseLocks stmt op H)) = h_items H" "h_attempts (fst (releaseLocks stmt op H)) = h_attempts H"
  using releaseLocks_frame [of H stmt op] by (simp_all add: same_but_locks_def)

lemma kept_insert: "insert_attempt a H = Inr H' \<Longrightarrow> kept H H'"
  by (drule insert_attempt_Inr(1)) (simp add: kept_def)

lemma kept_locks: "same_but_locks H H' \<Longrightarrow> kept H H'"
  by (rule kept_same) (simp_all add: same_but_locks_def)

lemma edit_kept: "edit H H' \<Longrightarrow> kept H H'"
proof (induction rule: edit.induct)
  case (edit_attempts f H P)
  show ?case by (rule kept_attempts_where [of _ _ P f]) (use edit_attempts in simp_all)
next
  case (edit_items P f H)
  then show ?case by (simp add: kept_def map_update_where_frame)
qed (rule kept_same; simp)+

lemma edits_kept: "edits H H' \<Longrightarrow> kept H H'"
  by (induction rule: rtranclp_induct) (auto intro: edit_kept kept_trans)

lemma kept_item:
  assumes "kept H H'" "w' \<in> set (h_items H')"
  obtains w where "w \<in> set (h_items H)" "wi_id w = wi_id w'" "item_filed w = item_filed w'"
proof -
  have "(wi_id w', item_filed w') \<in> set (map (\<lambda>w. (wi_id w, item_filed w)) (h_items H'))"
    using assms(2) by simp
  also have "map (\<lambda>w. (wi_id w, item_filed w)) (h_items H') = map (\<lambda>w. (wi_id w, item_filed w)) (h_items H)"
    using assms(1) by (simp only: kept_def)
  finally show thesis using that by auto
qed

lemma claim_supersede_kept: "kept H (claim_supersede now ca prior H)"
  unfolding claim_supersede_def
  by (rule kept_trans [OF kept_update_attempt kept_same]) simp_all

lemma claim_grant_kept:
  assumes "claim_grant sha now newID wi req ca locks tk prior H = Inr (H', r)"
  shows "kept H H'"
  using assms
proof (cases rule: claim_grant_Inr)
  case (1 H1 H2 H3 H4)
  have "kept H H1" using 1(1) claim_supersede_kept by simp
  also have "kept H1 H2" by (rule kept_insert [OF 1(2)])
  also have "kept H2 H3" by (rule kept_same) (simp_all add: 1(3))
  also have "kept H3 H4" by (rule kept_locks [OF acquire_all_frame [OF 1(4)]])
  also have "kept H4 H'"
    unfolding 1(5)
    by (rule kept_trans [OF kept_update_item edits_kept [OF claim_tail_edits]]) simp
  finally show ?thesis .
qed

lemma takeover_displace_kept: "kept H (takeover_displace now scID tc req ca H)"
  unfolding takeover_displace_def Let_def
  by (rule kept_trans [OF _ kept_trans [OF kept_update_attempt kept_same]])
     (auto split: option.splits intro!: edits_kept fnForceTerminateStep_edits)

lemma takeover_apply_kept:
  assumes "takeover_apply sha now newID gen scID tc req ca H = Inr H'"
  shows "kept H H'"
  using assms
proof (cases rule: takeover_apply_Inr)
  case (1 pairs H1 H2)
  note takeover_displace_kept
  also have "kept (takeover_displace now scID tc req ca H) H1" by (rule kept_insert [OF 1(3)])
  also have "kept H1 H2" by (rule kept_locks [OF acquire_all_frame [OF 1(4)]])
  also have "kept H2 H'" unfolding 1(5) by (rule kept_update_item) simp
  finally show ?thesis .
qed

lemma complete_commit_kept: "kept H (complete_commit now wi req H)"
proof -
  let ?H1 = "complete_update_attempt now req H"
  let ?H4 = "emit_event (attemptCompletedEvent wi req)
      (update_item (wi_id wi) (\<lambda>w. w\<lparr>wi_status := wi_status_of (cq_status req)\<rparr>) (complete_release req ?H1))"
  have "kept H ?H1" unfolding complete_update_attempt_def by (rule kept_update_attempt) simp
  also have "kept ?H1 (complete_release req ?H1)" by (rule kept_same) (simp_all add: complete_release_def)
  also have "kept \<dots> ?H4" by (rule kept_trans [OF kept_update_item kept_same]) simp_all
  finally have 4: "kept H ?H4" .
  have "edits ?H4 (expire_methodology now (wi_id wi) (unblockDependentWI (wi_id wi) (wi_project wi) ?H4))"
    unfolding expire_methodology_def by (rule edits_tables(4) [OF unblockDependentWI_edits [OF edits_refl]])
  from kept_trans [OF 4 edits_kept [OF this]] 4 show ?thesis
    by (simp only: complete_commit_def Let_def split: if_split) blast
qed

lemma hub_tx_kept:
  assumes "hub_tx sha ok H H'"
  shows "kept H H'"
  using assms
proof (cases rule: hub_tx_Inr)
  case edits
  then show ?thesis by (rule edits_kept)
next
  case (claim now newID ref req ca r)
  from claim(1) show ?thesis by (cases rule: FnClaimWorkItem_Inr) (auto intro: claim_grant_kept)
next
  case (complete now scID wiID creq roles role)
  then show ?thesis
  proof (cases rule: FnCompleteAttempt_Inr)
    case (1 wi H1 H2)
    show ?thesis
      unfolding 1(6)
      by (rule kept_trans [OF edits_kept [OF complete_step_phase_edits [OF 1(5) verify_edits [OF 1(4) edits_refl]]]
            complete_commit_kept])
  qed
next
  case (cancel now ref user role roles)
  then show ?thesis
  proof (cases rule: CancelWorkItem_Inr)
    case (1 wi locked)
    let ?P = "\<lambda>a. ra_wi a = wi_id wi \<and> is_live (ra_status a)"
    let ?f = "\<lambda>a. a\<lparr>ra_status := ACancelled, ra_ended := Some now\<rparr>"
    let ?H1 = "update_item (wi_id wi) (\<lambda>w. w\<lparr>wi_status := Cancelled\<rparr>) H"
    let ?H2 = "?H1\<lparr>h_attempts := update_where ?P ?f (h_attempts ?H1)\<rparr>"
    have "kept H ?H1" by (rule kept_update_item) simp
    also have "kept ?H1 ?H2" by (rule kept_attempts_where [of _ _ ?P ?f]) simp_all
    also have "kept ?H2 H'" unfolding 1(6) cancel_commit_def Let_def by (rule kept_same) simp_all
    finally show ?thesis .
  qed
next
  case (locks now ref ac lr)
  then show ?thesis
  proof (cases rule: FnAcquireLocks_Inr)
    case (1 wi declared H1 acquired)
    show ?thesis
      by (rule kept_trans [OF edits_kept [OF verify_edits [OF 1(3) edits_refl]] kept_locks])
         (use acquire_loop_adds_own [OF 1(5)] in \<open>simp add: adds_own_def\<close>)
  qed
qed

lemma sys_step_kept: "sys_step sha ok s t \<Longrightarrow> kept (hs_hub s) (hs_hub t)"
  by (cases rule: sys_step.cases)
     (auto intro: hub_tx_kept takeover_apply_kept edits_kept [OF create_dependency_insert_edits])

lemma sys_steps_kept: "(sys_step sha ok)\<^sup>*\<^sup>* s t \<Longrightarrow> kept (hs_hub s) (hs_hub t)"
  by (induction rule: rtranclp_induct) (auto intro: sys_step_kept kept_trans)

section \<open>The invariant of the system\<close>

definition sys_inv :: "hub_sys \<Rightarrow> bool" where
  "sys_inv s \<longleftrightarrow> hub_inv (hs_hub s) \<and> (\<forall>(tc, req, ca) \<in> set (hs_takeovers s). ctx_ok (hs_hub s) tc)"

lemma ctx_ok_grows:
  assumes "ctx_ok H tc" "grows H H'"
  shows "ctx_ok H' tc"
proof -
  from assms(1) obtain w where w: "0 \<le> wi_epoch (tc_wi tc)" "w \<in> set (h_items H)"
    "wi_id w = wi_id (tc_wi tc)" "wi_epoch (tc_wi tc) \<le> wi_epoch w"
    unfolding ctx_ok_def by blast
  moreover from assms(2) w(2) obtain v where "v \<in> set (h_items H')" "wi_id v = wi_id w" "wi_epoch w \<le> wi_epoch v"
    unfolding grows_def by blast
  ultimately show ?thesis unfolding ctx_ok_def by (intro conjI bexI [of _ v]) simp_all
qed

lemma sys_inv_hub:
  assumes "sys_inv s" "hub_inv H'" "grows (hs_hub s) H'"
  shows "sys_inv (s\<lparr>hs_hub := H'\<rparr>)"
  using assms ctx_ok_grows by (auto simp: sys_inv_def)

lemma sys_step_hub:
  assumes "sys_step sha ok s t" "sys_inv s"
  shows "hub_inv (hs_hub t) \<and> grows (hs_hub s) (hs_hub t)"
  using assms
proof (cases rule: sys_step.cases)
  case (sys_tx H')
  with assms(2) hub_tx_inv hub_tx_grows show ?thesis by (fastforce simp: sys_inv_def)
next
  case (sys_takeover_apply tc req ca now newID gen scID H')
  with assms(2) have "hub_inv (hs_hub s)" "ctx_ok (hs_hub s) tc" by (auto simp: sys_inv_def)
  with sys_takeover_apply takeover_apply_inv(1) takeover_apply_grows show ?thesis by fastforce
next
  case (sys_edge_insert dreq project user)
  with assms(2) edits_keeps_cores [OF create_dependency_insert_edits [of "hs_hub s" dreq project user]]
  show ?thesis by (auto simp: sys_inv_def intro: keeps_cores_inv keeps_cores_grows)
qed (use assms(2) in \<open>auto simp: sys_inv_def\<close>)

lemma sys_step_inv:
  assumes "sys_step sha ok s t" "sys_inv s"
  shows "sys_inv t"
proof -
  note hub_next = sys_step_hub [OF assms]
  from assms(1) show ?thesis
  proof (cases rule: sys_step.cases)
    case (sys_takeover_read ref req ca role roles tc)
    with assms(2) takeover_read_ctx_ok show ?thesis by (auto simp: sys_inv_def)
  next
    case (sys_edge_check dreq roles role project)
    with assms(2) show ?thesis by (simp add: sys_inv_def)
  qed (use hub_next sys_inv_hub [OF assms(2)] in auto)
qed

lemma sys_init_inv:
  assumes "sys_init s"
  shows "sys_inv s"
proof -
  have "cores_ok (map item_core (h_items (hs_hub s))) []"
    using assms by (auto simp: cores_ok_def sys_init_def initial_hub_def o_def)
  with assms show ?thesis
    by (simp add: sys_inv_def hub_inv_def locks_ok_def sys_init_def initial_hub_def)
qed

interpretation hub_run: step_system sys_init "sys_step sha ok" sys_inv for sha ok
  by unfold_locales (fact sys_init_inv, fact sys_step_inv)

end
