(* ===== verification/Hub_Example.thy ===== *)
theory Hub_Example
  imports Hub_System
begin

text \<open>
  A small run of the hub, on which the properties of the later theories are applied: two
  work items of one project, claimed, taken over and completed. The digest function of the
  examples is the identity.
\<close>

section \<open>Requests\<close>

definition ann :: caller where
  "ann = \<lparr>ca_user = ''ann'', ca_api_key = ''k1'', ca_display = ''Ann''\<rparr>"

definition bob :: caller where
  "bob = \<lparr>ca_user = ''bob'', ca_api_key = ''k2'', ca_display = ''Bob''\<rparr>"

definition a_claim :: "string \<Rightarrow> claim_request" where
  "a_claim k = \<lparr>cr_idem = k, cr_machine = ''m'', cr_secret = ''pw'', cr_locks = [],
                cr_force_over = False, cr_scenario_ref = None\<rparr>"

definition a_finish :: "string \<Rightarrow> int \<Rightarrow> string \<Rightarrow> complete_request" where
  "a_finish att e st = \<lparr>cq_attempt = att, cq_epoch = e, cq_secret = ''pw'', cq_status = st,
     cq_force_terminate = False, cq_pause_reason = None,
     cq_derived = (if st = ''wrapped'' then Some [''folded''] else None), cq_no_steps_reason = None\<rparr>"

definition path_entry :: "string \<Rightarrow> string \<Rightarrow> raw_json" where
  "path_entry repo uri = Some (JArr [JObj [(''type'', JStr ''path''), (''uri'', JStr uri), (''repo'', JStr repo)]])"

section \<open>A run\<close>

definition ex_hub0 :: hub where
  "ex_hub0 = hub_of_items
     [(filed_item ''w1'' ''p-1'' ''p'')\<lparr>wi_declared := path_entry ''r'' ''file:a.go''\<rparr>,
      (filed_item ''w2'' ''p-2'' ''p'')\<lparr>wi_declared := path_entry [] ''file:b.go''\<rparr>,
      (filed_item ''w3'' ''p-3'' ''p'')\<lparr>wi_declared := path_entry [] ''file:a.go''\<rparr>]"

definition claimed :: "int \<Rightarrow> string \<Rightarrow> string \<Rightarrow> claim_request \<Rightarrow> caller \<Rightarrow> hub \<Rightarrow> hub" where
  "claimed now newID ref req ca H =
     (case FnClaimWorkItem (\<lambda>s. s) now newID ref req ca H of Inl e \<Rightarrow> H | Inr (H', r) \<Rightarrow> H')"

definition finished :: "int \<Rightarrow> string \<Rightarrow> string \<Rightarrow> complete_request \<Rightarrow> hub \<Rightarrow> hub" where
  "finished now scID wi req H =
     (case FnCompleteAttempt (\<lambda>s. s) now scID wi req (\<lambda>p. []) [] H of Inl e \<Rightarrow> H | Inr H' \<Rightarrow> H')"

text \<open>Ann claims the first item and claims it again; Bob claims the second.\<close>

definition ex_hub1 :: hub where
  "ex_hub1 = claimed 10 ''r1'' ''w1'' (a_claim ''c1'') ann ex_hub0"

definition ex_hub2 :: hub where
  "ex_hub2 = claimed 20 ''r2'' ''w1'' (a_claim ''c2'') ann ex_hub1"

definition ex_hub3 :: hub where
  "ex_hub3 = claimed 30 ''r3'' ''w2'' (a_claim ''c1'') bob ex_hub2"

text \<open>
  The states of the run, spelt out. The equations replace the definitions when the
  properties are evaluated on the run.
\<close>

definition anns_attempt :: "string \<Rightarrow> int \<Rightarrow> string \<Rightarrow> string option \<Rightarrow> int \<Rightarrow> run_attempt" where
  "anns_attempt i e k parent t =
     \<lparr>ra_id = i, ra_wi = ''w1'', ra_status = ARunning, ra_epoch = e, ra_idem = k, ra_actor = ''ann'',
      ra_api_key = ''k1'', ra_display = ''Ann'', ra_machine = ''m'', ra_secret_hash = ''7077'', ra_parent = parent,
      ra_last_active = t, ra_ended = None, ra_pause_reason = None, ra_derived = None, ra_no_steps = None,
      ra_repo_pins = None\<rparr>"

definition anns_event :: "string \<Rightarrow> string option \<Rightarrow> payload \<Rightarrow> agent_event" where
  "anns_event t att p = \<lparr>ev_type = t, ev_wi = ''w1'', ev_attempt = att, ev_actor = Some ''ann'', ev_display = Some ''Ann'',
     ev_payload = p, ev_project = Some ''p''\<rparr>"

definition anns_lock_event :: "string \<Rightarrow> string \<Rightarrow> int \<Rightarrow> string \<Rightarrow> string \<times> json \<Rightarrow> agent_event" where
  "anns_lock_event t att e cause extra = anns_event t (Some att)
     (LockPayload \<lparr>lp_type = ''file_scope'', lp_key = ''p:r:a.go'', lp_attempt = att, lp_epoch = e, lp_cause = cause,
        lp_actor_display = ''Ann'', lp_actor_user = ''ann'', lp_extra = [extra]\<rparr>)"

definition anns_start :: "string \<Rightarrow> bool \<Rightarrow> string \<Rightarrow> agent_event" where
  "anns_start att tk e = anns_event ''attempt_started'' (Some att)
     (Fields [(''machine_id'', JStr ''m''), (''actor_display'', JStr ''Ann''), (''is_takeover'', JBool tk),
              (''claim_epoch'', JNum e)])"

definition anns_hub :: "string \<Rightarrow> int \<Rightarrow> run_attempt list \<Rightarrow> agent_event list \<Rightarrow> hub" where
  "anns_hub att e attempts events =
     (hub_of_items
       [(filed_item ''w1'' ''p-1'' ''p'')\<lparr>wi_rhs := Some True, wi_status := Running,
           wi_declared := path_entry ''r'' ''file:a.go'', wi_current := Some att, wi_epoch := e\<rparr>,
        (filed_item ''w2'' ''p-2'' ''p'')\<lparr>wi_declared := path_entry [] ''file:b.go''\<rparr>,
        (filed_item ''w3'' ''p-3'' ''p'')\<lparr>wi_declared := path_entry [] ''file:a.go''\<rparr>])
     \<lparr>h_attempts := attempts,
      h_locks := [\<lparr>rl_type = ''file_scope'', rl_key = ''p:r:a.go'', rl_owner = att, rl_epoch = e\<rparr>],
      h_steps := [\<lparr>ss_wi = ''w1'', ss_wi_type = Some ''feature'', ss_step = None, ss_status = SIdle, ss_attempt = None,
                   ss_started = None, ss_version = 0, ss_scenario_ref = None\<rparr>],
      h_events := events\<rparr>"

lemma ex_hub1_value [code]:
  "ex_hub1 = anns_hub ''r1'' 1 [anns_attempt ''r1'' 1 ''c1'' None 10]
     [anns_lock_event ''lock_acquired'' ''r1'' 1 ''claim'' (''is_takeover'', JBool False),
      anns_event ''wi_classification_resolved'' None
        (Fields [(''requires_human_session'', JBool True), (''source'', JStr ''server_default'')]),
      anns_start ''r1'' False ''1'']"
  by code_simp

lemma ex_hub2_value [code]:
  "ex_hub2 = anns_hub ''r2'' 2
     [(anns_attempt ''r1'' 1 ''c1'' None 10)\<lparr>ra_status := ASuperseded, ra_ended := Some 20\<rparr>,
      anns_attempt ''r2'' 2 ''c2'' (Some ''r1'') 20]
     [anns_lock_event ''lock_acquired'' ''r1'' 1 ''claim'' (''is_takeover'', JBool False),
      anns_event ''wi_classification_resolved'' None
        (Fields [(''requires_human_session'', JBool True), (''source'', JStr ''server_default'')]),
      anns_start ''r1'' False ''1'',
      anns_lock_event ''lock_released'' ''r1'' 1 ''claim_takeover'' (''superseded_attempt_id'', JStr ''r1''),
      anns_event ''attempt_superseded'' None
        (Fields [(''superseded_by_attempt_id'', JStr ''r2''),
                 (''reason'', JStr ''claim by same user or explicit takeover''), (''actor_user_id'', JStr ''ann'')]),
      anns_lock_event ''lock_acquired'' ''r2'' 2 ''claim'' (''is_takeover'', JBool True),
      anns_start ''r2'' True ''2'']"
  by code_simp

definition ex_sys :: "hub \<Rightarrow> hub_sys" where
  "ex_sys H = \<lparr>hs_hub = H, hs_takeovers = [], hs_edges = []\<rparr>"

lemma ex_sys_init: "sys_init (ex_sys ex_hub0)"
  by (simp add: ex_sys_def sys_init_def initial_hub_def ex_hub0_def hub_of_items_def filed_item_def)

lemma claimed_step:
  assumes "\<not> isl (FnClaimWorkItem (\<lambda>s. s) now newID ref req ca H)" "ok req"
  shows "sys_step (\<lambda>s. s) ok (ex_sys H) (ex_sys (claimed now newID ref req ca H))"
proof -
  from assms(1) obtain H' r where "FnClaimWorkItem (\<lambda>s. s) now newID ref req ca H = Inr (H', r)"
    by (cases "FnClaimWorkItem (\<lambda>s. s) now newID ref req ca H") auto
  with assms(2) have "hub_tx (\<lambda>s. s) ok H (claimed now newID ref req ca H)"
    by (auto simp: claimed_def intro: tx_claim)
  then show ?thesis
    using sys_tx [of "\<lambda>s. s" ok "ex_sys H"] by (simp add: ex_sys_def)
qed

lemma finished_step:
  assumes "\<not> isl (FnCompleteAttempt (\<lambda>s. s) now scID wi req (\<lambda>p. []) [] H)"
  shows "sys_step (\<lambda>s. s) ok (ex_sys H) (ex_sys (finished now scID wi req H))"
proof -
  from assms obtain H' where "FnCompleteAttempt (\<lambda>s. s) now scID wi req (\<lambda>p. []) [] H = Inr H'"
    by (cases "FnCompleteAttempt (\<lambda>s. s) now scID wi req (\<lambda>p. []) [] H") auto
  then have "hub_tx (\<lambda>s. s) ok H (finished now scID wi req H)"
    by (auto simp: finished_def intro: tx_complete)
  then show ?thesis
    using sys_tx [of "\<lambda>s. s" ok "ex_sys H"] by (simp add: ex_sys_def)
qed

lemma ex_ok:
  "\<not> isl (FnClaimWorkItem (\<lambda>s. s) 10 ''r1'' ''w1'' (a_claim ''c1'') ann ex_hub0)"
  "\<not> isl (FnClaimWorkItem (\<lambda>s. s) 20 ''r2'' ''w1'' (a_claim ''c2'') ann ex_hub1)"
  "\<not> isl (FnClaimWorkItem (\<lambda>s. s) 30 ''r3'' ''w2'' (a_claim ''c1'') bob ex_hub2)"
  by code_simp+

lemma ex_run1: "ok (a_claim ''c1'') \<Longrightarrow> (sys_step (\<lambda>s. s) ok)\<^sup>*\<^sup>* (ex_sys ex_hub0) (ex_sys ex_hub1)"
  using claimed_step [OF ex_ok(1)] by (simp add: r_into_rtranclp ex_hub1_def)

lemma ex_run2:
  assumes "ok (a_claim ''c1'')" "ok (a_claim ''c2'')"
  shows "(sys_step (\<lambda>s. s) ok)\<^sup>*\<^sup>* (ex_sys ex_hub0) (ex_sys ex_hub2)"
  using ex_run1 [of ok, OF assms(1)] claimed_step [of _ _ _ _ _ _ ok, OF ex_ok(2) assms(2)]
  unfolding ex_hub2_def by (rule rtranclp.rtrancl_into_rtrancl)

lemma ex_run3:
  assumes "ok (a_claim ''c1'')" "ok (a_claim ''c2'')"
  shows "(sys_step (\<lambda>s. s) ok)\<^sup>*\<^sup>* (ex_sys ex_hub0) (ex_sys ex_hub3)"
  using ex_run2 [of ok, OF assms] claimed_step [of _ _ _ _ _ _ ok, OF ex_ok(3) assms(1)]
  unfolding ex_hub3_def by (rule rtranclp.rtrancl_into_rtrancl)

end
