(* ===== verification/Lock_Journal.thy ===== *)
theory Lock_Journal
  imports Hub_Example
begin

text \<open>
  The event stream as a journal of the lock table: whatever the hub does, a reader who
  replays the \<^verbatim>\<open>lock_acquired\<close> and \<^verbatim>\<open>lock_released\<close> events reconstructs who
  holds which key. This is what \<^verbatim>\<open>resource_events.go\<close> promises of the one door for
  changes of \<^verbatim>\<open>resource_locks\<close>.
\<close>

section \<open>Operations that keep the journal\<close>

definition keeps_journal :: "hub \<Rightarrow> hub \<Rightarrow> bool" where
  "keeps_journal H H' \<longleftrightarrow>
     (lock_keys_unique H \<and> owners_known H \<longrightarrow> journalled H H' \<and> lock_keys_unique H' \<and> owners_known H')"

lemma keeps_journal_refl [simp, intro!]: "keeps_journal H H"
  by (simp add: keeps_journal_def)

lemma keeps_journal_trans [trans]: "keeps_journal H H1 \<Longrightarrow> keeps_journal H1 H2 \<Longrightarrow> keeps_journal H H2"
  unfolding keeps_journal_def using journalled_trans by blast

lemma attempt_by_id_cores:
  assumes "map attempt_core (h_attempts H') = map attempt_core (h_attempts H)"
  shows "map_option attempt_core (attempt_by_id H' i) = map_option attempt_core (attempt_by_id H i)"
proof -
  have "map_option attempt_core (select_one (\<lambda>a. ra_id a = i) xs) = find (\<lambda>c. fst c = i) (map attempt_core xs)"
    for xs by (induction xs) (auto simp: select_one_def)
  with assms show ?thesis by (simp only: attempt_by_id_def)
qed

lemma owners_known_cores:
  assumes "map attempt_core (h_attempts H') = map attempt_core (h_attempts H)" "set (h_locks H') \<subseteq> set (h_locks H)"
    "owners_known H"
  shows "owners_known H'"
  unfolding owners_known_def
proof
  fix l
  assume "l \<in> set (h_locks H')"
  with assms(2,3) obtain a where "attempt_by_id H (rl_owner l) = Some a" "ra_wi a \<noteq> []"
    unfolding owners_known_def by blast
  with attempt_by_id_cores [OF assms(1), of "rl_owner l"]
  show "\<exists>a. attempt_by_id H' (rl_owner l) = Some a \<and> ra_wi a \<noteq> []" by auto
qed

lemma keeps_journal_same:
  assumes "map attempt_core (h_attempts H') = map attempt_core (h_attempts H)" "h_locks H' = h_locks H"
    "h_events H' = h_events H"
  shows "keeps_journal H H'"
  using assms owners_known_cores [OF assms(1)] journalled_same_locks [OF assms(2,3)]
  by (simp add: keeps_journal_def lock_keys_unique_def)

lemma keeps_journal_emit: "ev_payload ev = Fields fs \<Longrightarrow> keeps_journal H (emit_event ev H)"
  by (auto simp: keeps_journal_def lock_keys_unique_def owners_known_def attempt_by_id_def
      intro: emit_event_journalled)

lemma keeps_journal_release: "keeps_journal H (fst (releaseLocks stmt op H))"
  using releaseLocks_journalled releaseLocks_owners_known lock_holder_release(1)
  by (auto simp: keeps_journal_def)

lemma select_one_append: "select_one P xs = Some b \<Longrightarrow> select_one P (xs @ ys) = Some b"
  by (induction xs) (auto simp: select_one_def)

lemma select_one_last: "\<forall>x \<in> set xs. \<not> P x \<Longrightarrow> P y \<Longrightarrow> select_one P (xs @ [y]) = Some y"
  by (induction xs) (auto simp: select_one_def)

lemma keeps_journal_insert:
  assumes "insert_attempt a H = Inr H'"
  shows "keeps_journal H H'"
proof -
  note H' = insert_attempt_Inr(1) [OF assms]
  have "attempt_by_id H' i = Some b" if "attempt_by_id H i = Some b" for i b
    using that by (simp add: H' attempt_by_id_def select_one_append)
  then have "owners_known H \<Longrightarrow> owners_known H'"
    unfolding owners_known_def by (auto simp: H')
  then show ?thesis
    by (auto simp: keeps_journal_def lock_keys_unique_def H' intro: journalled_same_locks)
qed

lemma edit_keeps_journal: "edit H H' \<Longrightarrow> keeps_journal H H'"
proof (induction rule: edit.induct)
  case (edit_attempts f H P)
  then have "map attempt_core (update_where P f (h_attempts H)) = map attempt_core (h_attempts H)"
    by (intro map_update_where_frame) blast
  then show ?case by (intro keeps_journal_same) (simp_all del: map_eq_conv)
next
  case (edit_event ev fs H)
  then show ?case by (rule keeps_journal_emit)
next
  case edit_release
  show ?case by (rule keeps_journal_release)
qed (auto intro: keeps_journal_same)

lemma edits_keeps_journal: "edits H H' \<Longrightarrow> keeps_journal H H'"
  by (induction rule: rtranclp_induct) (auto intro: edit_keeps_journal keeps_journal_trans)

lemma acquire_all_keeps_journal:
  assumes "acquire_all ls att e project wi op H = Inr H'" "wi \<noteq> []"
    "attempt_by_id H att = Some a" "ra_wi a \<noteq> []"
  shows "keeps_journal H H'"
  using acquire_all_journalled [OF assms(1) _ _ assms(2-4)] acquire_all_unique [OF _ assms(1)]
  by (auto simp: keeps_journal_def)


section \<open>Every transaction is journalled\<close>

lemma claim_grant_keeps_journal:
  assumes inv: "hub_inv H" and w: "wi \<in> set (h_items H)"
    and grant: "claim_grant sha now newID wi req ca locks tk prior H = Inr (H', r)"
  shows "keeps_journal H H'"
  using grant
proof (cases rule: claim_grant_Inr)
  case (1 H1 H2 H3 H4)
  have wi: "wi_id wi \<noteq> []" using inv w by (force simp: hub_inv_def cores_ok_def)
  have "keeps_journal H H1"
    unfolding 1(1) claim_supersede_def
    by (auto intro!: keeps_journal_trans [OF keeps_journal_same keeps_journal_release] simp: update_attempt_cores)
  also have "keeps_journal H1 H2" by (rule keeps_journal_insert [OF 1(2)])
  also have "keeps_journal H2 H3"
    unfolding 1(3) attemptSupersededEvent_def by (auto intro: keeps_journal_emit)
  also have "keeps_journal H3 H4"
  proof (rule acquire_all_keeps_journal [OF 1(4) wi])
    have "attempt_by_id H2 newID = Some (new_attempt sha now newID wi req ca prior)"
      using insert_attempt_Inr(2) [OF 1(2)]
      by (auto simp: insert_attempt_Inr(1) [OF 1(2)] attempt_by_id_def select_one_last new_attempt_def)
    then show "attempt_by_id H3 newID = Some (new_attempt sha now newID wi req ca prior)"
      by (simp add: 1(3) attempt_by_id_def)
  qed (simp add: new_attempt_def wi)
  also have "keeps_journal H4 H'"
    unfolding 1(5) by (rule keeps_journal_trans [OF keeps_journal_same edits_keeps_journal [OF claim_tail_edits]]) simp_all
  finally show ?thesis .
qed

lemma complete_commit_keeps_journal: "keeps_journal H (complete_commit now wi req H)"
proof -
  let ?H1 = "complete_update_attempt now req H"
  let ?H2 = "complete_release req ?H1"
  let ?H3 = "update_item (wi_id wi) (\<lambda>w. w\<lparr>wi_status := wi_status_of (cq_status req)\<rparr>) ?H2"
  let ?H4 = "emit_event (attemptCompletedEvent wi req) ?H3"
  have "keeps_journal H ?H1"
    unfolding complete_update_attempt_def by (rule keeps_journal_same) (simp_all add: update_attempt_cores)
  also have "keeps_journal ?H1 ?H2" unfolding complete_release_def by (auto intro: keeps_journal_release)
  also have "keeps_journal ?H2 ?H3" by (rule keeps_journal_same) simp_all
  also have "keeps_journal ?H3 ?H4" unfolding attemptCompletedEvent_def by (rule keeps_journal_emit) simp
  finally have 4: "keeps_journal H ?H4" .
  have "edits ?H4 (expire_methodology now (wi_id wi) (unblockDependentWI (wi_id wi) (wi_project wi) ?H4))"
    unfolding expire_methodology_def by (rule edits_tables(4) [OF unblockDependentWI_edits [OF edits_refl]])
  from keeps_journal_trans [OF 4 edits_keeps_journal [OF this]] 4 show ?thesis
    by (auto simp only: complete_commit_def Let_def split: if_split)
qed

lemma FnCompleteAttempt_keeps_journal:
  assumes "FnCompleteAttempt sha now scID wiID req roles role H = Inr H'"
  shows "keeps_journal H H'"
  using assms
proof (cases rule: FnCompleteAttempt_Inr)
  case (1 wi H1 H2)
  have "edits H H2" by (rule complete_step_phase_edits [OF 1(5) verify_edits [OF 1(4) edits_refl]])
  then show ?thesis
    unfolding 1(6) by (intro keeps_journal_trans [OF edits_keeps_journal complete_commit_keeps_journal])
qed

lemma CancelWorkItem_keeps_journal:
  assumes "CancelWorkItem now ref user role roles H = Inr H'"
  shows "keeps_journal H H'"
  using assms
proof (cases rule: CancelWorkItem_Inr)
  case (1 wi locked)
  show ?thesis
    unfolding 1(6) cancel_commit_def Let_def
    by (rule keeps_journal_trans [OF keeps_journal_same keeps_journal_release])
       (simp_all add: map_update_where_frame del: prod.inject)
qed

lemma takeover_apply_keeps_journal:
  assumes inv: "hub_inv H" and ctx: "ctx_ok H tc"
    and ok: "takeover_apply sha now newID gen scID tc req ca H = Inr H'"
  shows "keeps_journal H H'"
  using ok
proof (cases rule: takeover_apply_Inr)
  case (1 pairs H1 H2)
  let ?K = "takeover_displace now scID tc req ca H"
  let ?a = "takeover_attempt sha now newID gen tc req ca"
  have wi: "wi_id (tc_wi tc) \<noteq> []" using inv ctx by (force simp: hub_inv_def cores_ok_def ctx_ok_def)
  have "keeps_journal H ?K"
    unfolding takeover_displace_def Let_def
    by (rule keeps_journal_trans [OF _ keeps_journal_trans [OF keeps_journal_same
            keeps_journal_trans [OF keeps_journal_release keeps_journal_emit]]])
       (auto simp: update_attempt_cores split: option.splits intro!: edits_keeps_journal fnForceTerminateStep_edits)
  also have "keeps_journal ?K H1" by (rule keeps_journal_insert [OF 1(3)])
  also have "keeps_journal H1 H2"
  proof (rule acquire_all_keeps_journal [OF 1(4) wi])
    show "attempt_by_id H1 newID = Some ?a"
      using insert_attempt_Inr(2) [OF 1(3)]
      by (auto simp: insert_attempt_Inr(1) [OF 1(3)] attempt_by_id_def select_one_last takeover_attempt_def)
  qed (simp add: takeover_attempt_def wi)
  also have "keeps_journal H2 H'" unfolding 1(5) by (rule keeps_journal_same) simp_all
  finally show ?thesis .
qed

lemma acquireLockIfFree_keeps_journal:
  assumes "acquireLockIfFree t k att e project wi op H = (b, H')" "wi \<noteq> []"
    "attempt_by_id H att = Some a" "ra_wi a \<noteq> []"
  shows "keeps_journal H H'"
proof -
  have own: "adds_own att e H H'" by (rule adds_own_if_free [OF assms(1)])
  have "owners_known H'" if "owners_known H"
    using own that assms(3,4) attempt_by_id_frame [of H H'] unfolding owners_known_def adds_own_def by auto
  with own acquireLockIfFree_journalled [OF assms(2), of H t k att e project op] assms(1) show ?thesis
    by (simp add: keeps_journal_def adds_own_def)
qed

lemma acquire_target_keeps_journal:
  assumes ok: "acquire_target ac wi key probe H = Inr (H', got)" and wi: "wi_id wi \<noteq> []"
    and a: "attempt_by_id H (ac_attempt ac) = Some a" "ra_wi a \<noteq> []"
  shows "keeps_journal H H'"
proof (cases "acquireLocksCollision H ''file_scope'' probe")
  case (Some c)
  with ok show ?thesis by (auto simp: acquire_target_def Let_def split: prod.splits if_splits)
next
  case None
  obtain b H1 where free: "acquireLockIfFree ''file_scope'' key (ac_attempt ac) (ac_epoch ac) (wi_project wi) (wi_id wi)
      (newLockOp ''acquire_locks'' [] [] []) H = (b, H1)" by fastforce
  note j1 = acquireLockIfFree_keeps_journal [OF free wi a]
  from ok None free consider "H' = H1"
    | op op' where "H' = snd (acquireLockIfFree ''file_scope'' key (ac_attempt ac) (ac_epoch ac) (wi_project wi) (wi_id wi) op
        (fst (releaseLocks (lockDeleteByKey ''file_scope'' key) op' H1)))"
    by (auto simp: acquire_target_def Let_def split: prod.splits if_splits option.splits bool.splits)
  then show ?thesis
  proof cases
    case 1
    with j1 show ?thesis by simp
  next
    case 2
    let ?H2 = "fst (releaseLocks (lockDeleteByKey ''file_scope'' key) op' H1)"
    have "same_but_locks H ?H2"
      by (rule same_but_locks_trans [OF _ releaseLocks_frame])
         (use adds_own_if_free [OF free] in \<open>simp add: adds_own_def\<close>)
    then have "attempt_by_id ?H2 (ac_attempt ac) = Some a" by (simp add: attempt_by_id_frame a(1))
    from acquireLockIfFree_keeps_journal [OF prod.collapse [symmetric] wi this a(2)] show ?thesis
      unfolding 2 by (intro keeps_journal_trans [OF j1 keeps_journal_trans [OF keeps_journal_release]])
  qed
qed

lemma acquire_loop_keeps_journal:
  assumes "acquire_loop ac wi ts H = Inr (H', got)" "wi_id wi \<noteq> []"
    "attempt_by_id H (ac_attempt ac) = Some a" "ra_wi a \<noteq> []"
  shows "keeps_journal H H'"
  using assms
proof (induction ts arbitrary: H got)
  case (Cons t ts)
  obtain key probe where "t = (key, probe)" by fastforce
  with Cons.prems(1) obtain H1 got1 got2 where
    H1: "acquire_target ac wi key probe H = Inr (H1, got1)" "acquire_loop ac wi ts H1 = Inr (H', got2)"
    by (auto split: sum.splits prod.splits)
  have "attempt_by_id H1 = attempt_by_id H"
    using acquire_target_adds_own [OF H1(1)] by (simp add: adds_own_def attempt_by_id_frame)
  with Cons.IH [OF H1(2)] Cons.prems(2-4) acquire_target_keeps_journal [OF H1(1)] show ?case
    by (auto intro: keeps_journal_trans)
qed auto

lemma FnAcquireLocks_keeps_journal:
  assumes inv: "hub_inv H" and ok: "FnAcquireLocks sha now ref ac H = Inr (H', r)"
  shows "keeps_journal H H'"
  using ok
proof (cases rule: FnAcquireLocks_Inr)
  case (1 wi declared H1 acquired)
  have e: "edits H H1" by (rule verify_edits [OF 1(3) edits_refl])
  then have inv1: "hub_inv H1" using inv edits_keeps_cores keeps_cores_inv by blast
  from 1(1) inv have wi: "wi_id wi \<noteq> []"
    by (force simp: hub_inv_def cores_ok_def dest: item_by_ref_Some)
  from verifyAttemptCredential_Inr(3) [OF 1(3)] obtain b where "attempt_by_id H (ac_attempt ac) = Some b" by blast
  with attempt_by_id_cores [of H1 H "ac_attempt ac"] edits_keeps_cores [OF e] obtain a where
    a: "attempt_by_id H1 (ac_attempt ac) = Some a"
    by (force simp: keeps_cores_def)
  then have "a \<in> set (h_attempts H1)" by (auto dest: attempt_by_id_Some)
  with attempt_item_known [OF inv1] have "ra_wi a \<noteq> []" by blast
  from keeps_journal_trans [OF edits_keeps_journal [OF e] acquire_loop_keeps_journal [OF 1(5) wi a this]]
  show ?thesis .
qed

lemma sys_step_journal:
  assumes st: "sys_step sha ok s t" and inv: "sys_inv s"
  shows "journalled (hs_hub s) (hs_hub t)"
proof -
  have hub: "hub_inv (hs_hub s)" using inv by (simp add: sys_inv_def)
  have "keeps_journal (hs_hub s) (hs_hub t)"
    using st
  proof (cases rule: sys_step.cases)
    case (sys_tx H')
    from sys_tx(2) have "keeps_journal (hs_hub s) H'"
    proof (cases rule: hub_tx_Inr)
      case edits
      then show ?thesis by (rule edits_keeps_journal)
    next
      case (claim now newID ref req ca r)
      from claim(1) show ?thesis
        by (cases rule: FnClaimWorkItem_Inr)
           (use hub claim_grant_keeps_journal item_by_ref_Some in \<open>auto dest: item_by_ref_Some\<close>)
    next
      case complete
      then show ?thesis by (rule FnCompleteAttempt_keeps_journal)
    next
      case cancel
      then show ?thesis by (rule CancelWorkItem_keeps_journal)
    next
      case locks
      then show ?thesis by (rule FnAcquireLocks_keeps_journal [OF hub])
    qed
    with sys_tx(1) show ?thesis by simp
  next
    case (sys_takeover_apply tc req ca now newID gen scID H')
    with inv have "ctx_ok (hs_hub s) tc" by (auto simp: sys_inv_def)
    from takeover_apply_keeps_journal [OF hub this sys_takeover_apply(3)] sys_takeover_apply(1) show ?thesis by simp
  next
    case sys_edge_insert
    then show ?thesis by (simp add: edits_keeps_journal [OF create_dependency_insert_edits])
  qed simp_all
  then show ?thesis using hub hub_inv_distinct(3) hub_inv_owners_known by (simp add: keeps_journal_def)
qed



end
