(* ===== verification/Lock_Exclusion.thy ===== *)
theory Lock_Exclusion
  imports Lock_Journal
begin

text \<open>
  Mutual exclusion on files. Locks on files come in two spellings, with and without a
  repository, and exclusion between the spellings rests on the conflict probes of
  \<^verbatim>\<open>conflicts.go\<close>. With keys derived by the server from declarations free of colons, no
  two live attempts of different work items ever hold locks on the same file. Then the exact
  effect of a claim on the lock table.

  A claim and an acquisition are SERIALIZABLE in the code, so probing and taking are one
  transition. A forced takeover is READ COMMITTED and its probe could be overtaken by a
  claim of the other spelling; the model applies it in one transition.
\<close>

section \<open>Exclusion as an invariant\<close>

definition live_owner :: "hub \<Rightarrow> resource_lock \<Rightarrow> string \<Rightarrow> bool" where
  "live_owner H l i \<longleftrightarrow> (\<exists>a \<in> set (h_attempts H). ra_id a = rl_owner l \<and> is_live (ra_status a) \<and> ra_wi a = i)"

definition file_lock :: "resource_lock \<Rightarrow> string \<Rightarrow> string \<Rightarrow> string \<Rightarrow> bool" where
  "file_lock l p r u \<longleftrightarrow>
     rl_type l = ''file_scope'' \<and> rl_key l = fileScopeLockKey p r u \<and> key_parts_colon_free p r u"

definition exclusive :: "hub \<Rightarrow> bool" where
  "exclusive H \<longleftrightarrow>
     (\<forall>l \<in> set (h_locks H). rl_type l = ''file_scope'' \<longrightarrow> (\<exists>p r u. file_lock l p r u)) \<and>
     (\<forall>l1 \<in> set (h_locks H). \<forall>l2 \<in> set (h_locks H). \<forall>i1 i2 p1 r1 u1 p2 r2 u2.
        live_owner H l1 i1 \<and> live_owner H l2 i2 \<and> i1 \<noteq> i2 \<and>
        file_lock l1 p1 r1 u1 \<and> file_lock l2 p2 r2 u2 \<longrightarrow> \<not> same_file p1 r1 u1 p2 r2 u2)"

text \<open>A lock granted after a passed probe.\<close>

definition probed :: "hub \<Rightarrow> string \<Rightarrow> string \<Rightarrow> resource_lock \<Rightarrow> bool" where
  "probed H wi att l \<longleftrightarrow> rl_owner l = att \<and>
     (\<exists>p r u. file_lock l p r u \<and>
        (\<forall>l2 \<in> set (h_locks H). \<forall>i. rl_type l2 = ''file_scope'' \<and>
           lockConflictWhere (fileScopeConflictProbe p r u) (rl_key l2) \<and> live_owner H l2 i \<longrightarrow> i = wi))"

lemma same_file_sym: "same_file p1 r1 u1 p2 r2 u2 \<Longrightarrow> same_file p2 r2 u2 p1 r1 u1"
  by (auto simp: same_file_def)

lemma file_lock_unique:
  "file_lock l p r u \<Longrightarrow> file_lock l p' r' u' \<Longrightarrow> same_file p r u p2 r2 u2 = same_file p' r' u' p2 r2 u2"
  using fileScopeLockKey_eq_iff [of p r u p' r' u'] by (auto simp: file_lock_def same_file_def)

lemma probed_same_file:
  assumes "probed H wi att l" "file_lock l p r u" "l2 \<in> set (h_locks H)" "file_lock l2 p2 r2 u2"
    "live_owner H l2 i" "same_file p r u p2 r2 u2"
  shows "i = wi"
proof -
  from assms(1) obtain p' r' u' where new: "file_lock l p' r' u'"
    and free: "\<And>l2 i. l2 \<in> set (h_locks H) \<Longrightarrow> rl_type l2 = ''file_scope'' \<Longrightarrow>
           lockConflictWhere (fileScopeConflictProbe p' r' u') (rl_key l2) \<Longrightarrow> live_owner H l2 i \<Longrightarrow> i = wi"
    unfolding probed_def by blast
  have "same_file p2 r2 u2 p' r' u'"
    using file_lock_unique [OF assms(2) new] assms(6) same_file_sym by blast
  then have "lockConflictWhere (fileScopeConflictProbe p' r' u') (rl_key l2)"
    using probe_detects_same_file [of p2 r2 u2 p' r' u'] new assms(4) by (simp add: file_lock_def)
  with free [OF assms(3)] assms(4,5) show ?thesis by (simp add: file_lock_def)
qed

lemma exclusive_grow:
  assumes ex: "exclusive H"
    and locks: "\<And>l. l \<in> set (h_locks H') \<Longrightarrow> l \<in> set (h_locks H) \<or> probed H wi att l"
    and old: "\<And>l i. l \<in> set (h_locks H) \<Longrightarrow> live_owner H' l i \<Longrightarrow> live_owner H l i"
    and new: "\<And>l i. rl_owner l = att \<Longrightarrow> live_owner H' l i \<Longrightarrow> i = wi"
  shows "exclusive H'"
proof -
  have typed: "\<exists>p r u. file_lock l p r u" if "l \<in> set (h_locks H')" "rl_type l = ''file_scope''" for l
    using locks [OF that(1)] that(2) ex unfolding exclusive_def probed_def by blast
  have half: False
    if "l1 \<in> set (h_locks H')" "l2 \<in> set (h_locks H)" "live_owner H' l1 i1" "live_owner H' l2 i2" "i1 \<noteq> i2"
      "file_lock l1 p1 r1 u1" "file_lock l2 p2 r2 u2" "same_file p1 r1 u1 p2 r2 u2"
    for l1 l2 i1 i2 p1 r1 u1 p2 r2 u2
  proof -
    have l2: "live_owner H l2 i2" by (rule old [OF that(2,4)])
    from locks [OF that(1)] show False
    proof
      assume "l1 \<in> set (h_locks H)"
      with old that(3) have "live_owner H l1 i1" by blast
      with ex that l2 \<open>l1 \<in> set (h_locks H)\<close> show False unfolding exclusive_def by blast
    next
      assume pr: "probed H wi att l1"
      then have "rl_owner l1 = att" by (simp add: probed_def)
      from new [OF this that(3)] have "i1 = wi" .
      with probed_same_file [OF pr that(6,2,7) l2 that(8)] that(5) show False by simp
    qed
  qed
  show ?thesis
    unfolding exclusive_def
  proof (intro conjI ballI allI impI notI)
    fix l1 l2 i1 i2 p1 r1 u1 p2 r2 u2
    assume l: "l1 \<in> set (h_locks H')" "l2 \<in> set (h_locks H')"
      and *: "live_owner H' l1 i1 \<and> live_owner H' l2 i2 \<and> i1 \<noteq> i2 \<and> file_lock l1 p1 r1 u1 \<and> file_lock l2 p2 r2 u2"
      and sf: "same_file p1 r1 u1 p2 r2 u2"
    from locks [OF l(2)] show False
    proof
      assume "l2 \<in> set (h_locks H)"
      then show False using half [OF l(1) _ _ _ _ _ _ sf] * by blast
    next
      assume pr2: "probed H wi att l2"
      from locks [OF l(1)] show False
      proof
        assume "l1 \<in> set (h_locks H)"
        then show False using half [OF l(2) _ _ _ _ _ _ same_file_sym [OF sf]] * by blast
      next
        assume "probed H wi att l1"
        with pr2 new [of l1 i1] new [of l2 i2] * show False by (simp add: probed_def)
      qed
    qed
  qed (use typed in blast)
qed


lemma exclusive_shrink:
  assumes "exclusive H" "set (h_locks H') \<subseteq> set (h_locks H)"
    and "\<And>l i. live_owner H' l i \<Longrightarrow> live_owner H l i"
  shows "exclusive H'"
  using assms(1) unfolding exclusive_def
  by (elim conjE) (intro conjI ballI allI impI, use assms(2,3) in blast, use assms(2,3) in blast)

lemma exclusive_update_attempts:
  assumes "exclusive H" "h_locks H' = h_locks H" "h_attempts H' = update_where P f (h_attempts H)"
    "\<And>a. P a \<Longrightarrow> a \<in> set (h_attempts H) \<Longrightarrow> attempt_core (f a) = attempt_core a \<and> (is_live (ra_status (f a)) \<longrightarrow> is_live (ra_status a))"
  shows "exclusive H'"
  using assms(1)
proof (rule exclusive_shrink)
  fix l i
  assume "live_owner H' l i"
  then obtain b where "b \<in> set (update_where P f (h_attempts H))" "ra_id b = rl_owner l" "is_live (ra_status b)" "ra_wi b = i"
    unfolding live_owner_def assms(3) by blast
  then obtain a where "a \<in> set (h_attempts H)" "b = (if P a then f a else a)"
    by (auto simp: set_update_where)
  with assms(4) [of a] \<open>ra_id b = rl_owner l\<close> \<open>is_live (ra_status b)\<close> \<open>ra_wi b = i\<close> show "live_owner H l i"
    unfolding live_owner_def by (intro bexI [of _ a]) (auto split: if_splits)
qed (simp add: assms(2))

lemma exclusive_update_attempt:
  assumes "exclusive H" "\<And>a. a \<in> set (h_attempts H) \<Longrightarrow> ra_id a = i \<Longrightarrow>
      attempt_core (f a) = attempt_core a \<and> (is_live (ra_status (f a)) \<longrightarrow> is_live (ra_status a))"
  shows "exclusive (update_attempt i f H)"
  by (rule exclusive_update_attempts [OF assms(1), of _ "\<lambda>a. ra_id a = i" f])
     (use assms(2) in \<open>simp_all add: update_attempt_def\<close>)

lemma exclusive_same: "exclusive H \<Longrightarrow> h_locks H' = h_locks H \<Longrightarrow> h_attempts H' = h_attempts H \<Longrightarrow> exclusive H'"
  by (rule exclusive_shrink) (simp_all add: live_owner_def)

lemma exclusive_release: "exclusive H \<Longrightarrow> exclusive (fst (releaseLocks stmt op H))"
  by (rule exclusive_shrink) (auto simp: live_owner_def releaseLocks_locks set_delete_where)

lemma edit_exclusive: "edit H H' \<Longrightarrow> exclusive H \<Longrightarrow> exclusive H'"
proof (induction rule: edit.induct)
  case (edit_attempts f H P)
  show ?case
  proof (rule exclusive_update_attempts [OF edit_attempts(2), of _ P f])
    fix a
    show "attempt_core (f a) = attempt_core a \<and> (is_live (ra_status (f a)) \<longrightarrow> is_live (ra_status a))"
      using edit_attempts(1) [of a] by simp
  qed simp_all
next
  case (edit_release H stmt op)
  then show ?case by (rule exclusive_release)
qed (erule exclusive_same; simp)+

lemma edits_exclusive: "edits H H' \<Longrightarrow> exclusive H \<Longrightarrow> exclusive H'"
  by (induction rule: rtranclp_induct) (auto intro: edit_exclusive)


section \<open>Claims and takeovers\<close>

definition clean_item :: "work_item \<Rightarrow> bool" where
  "clean_item w \<longleftrightarrow>
     (\<forall>d \<in> set (unmarshalDeclaredResources (wi_declared w)). key_parts_colon_free (wi_project w) (dr_repo d) (dr_uri d))"

definition file_pair :: "string \<Rightarrow> declared_resource_item list \<Rightarrow> resource_lock_req \<times> lock_conflict_probe \<Rightarrow> bool" where
  "file_pair project ds q \<longleftrightarrow>
     (\<exists>d \<in> set ds. fst q = \<lparr>rq_type = ''file_scope'', rq_key = fileScopeLockKey project (dr_repo d) (dr_uri d)\<rparr> \<and>
        snd q = fileScopeConflictProbe project (dr_repo d) (dr_uri d))"

lemma derivedLockProbe_cases:
  assumes "derivedLockProbe d project = (t, k, probe)"
  shows "t = [] \<and> k = [] \<or> t = ''file_scope'' \<and> k = fileScopeLockKey project (dr_repo d) (dr_uri d) \<and>
    probe = fileScopeConflictProbe project (dr_repo d) (dr_uri d)"
  using assms
  by (auto simp: derivedLockProbe_def derivedLock_def resourceToLock_def Let_def split: if_splits prod.splits)

lemma derive_locks_loop_pairs: "q \<in> set (derive_locks_loop project ds) \<Longrightarrow> file_pair project ds q"
proof (induction ds)
  case (Cons d ds)
  obtain t k probe where d: "derivedLockProbe d project = (t, k, probe)" by (cases "derivedLockProbe d project")
  with Cons.prems have "q = (\<lparr>rq_type = t, rq_key = k\<rparr>, probe) \<and> t \<noteq> [] \<or> q \<in> set (derive_locks_loop project ds)"
    by (auto split: if_splits)
  with derivedLockProbe_cases [OF d] Cons.IH show ?case by (auto simp: file_pair_def)
qed simp

lemma takeover_locks_pairs: "q \<in> set (takeover_locks project ds) \<Longrightarrow> file_pair project ds q"
proof (induction ds)
  case (Cons d ds)
  obtain t k probe where d: "derivedLockProbe d project = (t, k, probe)" by (cases "derivedLockProbe d project")
  with Cons.prems have "q = (\<lparr>rq_type = t, rq_key = k\<rparr>, probe) \<and> t \<noteq> [] \<or> q \<in> set (takeover_locks project ds)"
    by (auto split: if_splits)
  with derivedLockProbe_cases [OF d] Cons.IH show ?case by (auto simp: file_pair_def)
qed simp

lemma acquire_targets_pairs:
  "(k, probe) \<in> set (acquire_targets project ds) \<Longrightarrow> file_pair project ds (\<lparr>rq_type = ''file_scope'', rq_key = k\<rparr>, probe)"
proof (induction ds)
  case (Cons d ds)
  obtain t k' probe' where d: "derivedLockProbe d project = (t, k', probe')" by (cases "derivedLockProbe d project")
  with Cons.prems have "(k, probe) = (k', probe') \<and> t = ''file_scope'' \<or> (k, probe) \<in> set (acquire_targets project ds)"
    by (auto split: if_splits)
  with derivedLockProbe_cases [OF d] Cons.IH show ?case by (auto simp: file_pair_def)
qed simp

lemma deriveClaimLocks_pairs:
  "q \<in> set (deriveClaimLocks [] declared project) \<Longrightarrow> file_pair project (unmarshalDeclaredResources declared) q"
  by (auto simp: deriveClaimLocks_def intro: derive_locks_loop_pairs split: if_splits)

text \<open>A new attempt with freshly probed locks on files keeps exclusion.\<close>

lemma grant_exclusive:
  assumes inv: "hub_inv H" and K: "keeps_cores H K" "exclusive K" "\<And>l i. live_owner K l i \<Longrightarrow> live_owner H l i"
    and ins: "insert_attempt a K = Inr K'"
    and probe: "probeForeignLockHolders H (ra_wi a) (map fst pairs) (map snd pairs) = None"
    and pairs: "\<And>q. q \<in> set pairs \<Longrightarrow> file_pair project ds q"
    and clean: "\<And>d. d \<in> set ds \<Longrightarrow> key_parts_colon_free project (dr_repo d) (dr_uri d)"
    and locks: "set (h_locks H') = {l \<in> set (h_locks K). lock_key l \<notin> req_key ` set (map fst pairs)} \<union>
      (\<lambda>l. \<lparr>rl_type = rq_type l, rl_key = rq_key l, rl_owner = ra_id a, rl_epoch = e\<rparr>) ` set (map fst pairs)"
    and atts: "h_attempts H' = h_attempts K'"
  shows "exclusive H'"
  using K(2)
proof (rule exclusive_grow [where att = "ra_id a" and wi = "ra_wi a"])
  note K' = insert_attempt_Inr [OF ins]
  have sub: "set (h_locks K) \<subseteq> set (h_locks H)" using K(1) by (simp add: keeps_cores_def)
  have invK: "hub_inv K" by (rule keeps_cores_inv [OF K(1) inv])
  show "l \<in> set (h_locks K) \<or> probed K (ra_wi a) (ra_id a) l" if "l \<in> set (h_locks H')" for l
  proof (cases "l \<in> set (h_locks K)")
    case False
    with that locks obtain req pr where q: "(req, pr) \<in> set pairs"
      "l = \<lparr>rl_type = rq_type req, rl_key = rq_key req, rl_owner = ra_id a, rl_epoch = e\<rparr>" by auto
    from pairs [OF q(1)] obtain d where d: "d \<in> set ds"
      "req = \<lparr>rq_type = ''file_scope'', rq_key = fileScopeLockKey project (dr_repo d) (dr_uri d)\<rparr>"
      "pr = fileScopeConflictProbe project (dr_repo d) (dr_uri d)" by (auto simp: file_pair_def)
    have "i = ra_wi a"
      if "l2 \<in> set (h_locks K)" "rl_type l2 = ''file_scope''" "lockConflictWhere pr (rl_key l2)" "live_owner K l2 i" for l2 i
    proof -
      from K(3) [OF that(4)] obtain b where b: "b \<in> set (h_attempts H)" "ra_id b = rl_owner l2" "is_live (ra_status b)" "ra_wi b = i"
        unfolding live_owner_def by blast
      from probeForeignLockHolders_None [OF hub_inv_attempts_have_items [OF inv] probe q(1) _ _ that(3) b(1,2,3)]
        sub that(1,2) d(2) b(4) show ?thesis by auto
    qed
    with q(2) d clean [OF d(1)] have "probed K (ra_wi a) (ra_id a) l"
      unfolding probed_def file_lock_def
      by (intro conjI exI [of _ project] exI [of _ "dr_repo d"] exI [of _ "dr_uri d"]) auto
    then show ?thesis ..
  qed simp
  show "live_owner K l i" if "l \<in> set (h_locks K)" "live_owner H' l i" for l i
  proof -
    from hub_inv_lock_owner [OF invK that(1)] K'(2) have "rl_owner l \<noteq> ra_id a" by metis
    with that(2) show ?thesis by (auto simp: live_owner_def atts K'(1))
  qed
  show "i = ra_wi a" if "rl_owner l = ra_id a" "live_owner H' l i" for l i
    using that K'(2) by (auto simp: live_owner_def atts K'(1))
qed

lemma claim_grant_exclusive:
  assumes inv: "hub_inv H" and ex: "exclusive H" and w: "wi \<in> set (h_items H)" "clean_item wi"
    and grant: "claim_grant sha now newID wi req ca (map fst pairs) tk prior H = Inr (H', r)"
    and pairs: "pairs = deriveClaimLocks [] (wi_declared wi) (wi_project wi)"
    and probe: "probeForeignLockHolders H (wi_id wi) (map fst pairs) (map snd pairs) = None"
  shows "exclusive H'"
  using grant
proof (cases rule: claim_grant_Inr)
  case (1 H1 H2 H3 H4)
  let ?f = "\<lambda>a. a\<lparr>ra_status := ASuperseded, ra_ended := Some now\<rparr>"
  let ?U = "update_attempt prior ?f H"
  have exU: "exclusive ?U"
    by (rule exclusive_update_attempt [OF ex]) simp
  have liveU: "live_owner H l i" if "live_owner ?U l i" for l i
    using that by (auto simp: live_owner_def update_attempt_def set_update_where split: if_splits)
  have live1: "live_owner H l i" if "live_owner H1 l i" for l i
    using that liveU by (auto simp: 1(1) claim_supersede_def live_owner_def split: if_splits)
  have H3: "h_locks H3 = h_locks H1" "h_attempts H3 = h_attempts H2"
    by (simp_all add: 1(3) insert_attempt_Inr(1) [OF 1(2)])
  show ?thesis
  proof (rule grant_exclusive [OF inv _ _ live1 1(2), where pairs = pairs and project = "wi_project wi"
        and ds = "unmarshalDeclaredResources (wi_declared wi)"])
    show "keeps_cores H H1" using 1(1) claim_supersede_keeps_cores by simp
    show "exclusive H1" using ex exU by (simp add: 1(1) claim_supersede_def exclusive_release)
    show "set (h_locks H') = {l \<in> set (h_locks H1). lock_key l \<notin> req_key ` set (map fst pairs)} \<union>
      (\<lambda>l. \<lparr>rl_type = rq_type l, rl_key = rq_key l, rl_owner = ra_id (new_attempt sha now newID wi req ca prior),
             rl_epoch = wi_epoch wi + 1\<rparr>) ` set (map fst pairs)"
      using acquire_all_locks [OF 1(4)] unfolding H3(1) by (simp add: 1(5) claim_classify_def new_attempt_def)
    show "h_attempts H' = h_attempts H2"
      using same_but_locksD(2) [OF acquire_all_frame [OF 1(4)]] by (simp add: 1(5) claim_classify_def H3(2))
  qed (use probe w(2) pairs in \<open>auto simp: new_attempt_def clean_item_def intro: deriveClaimLocks_pairs\<close>)
qed

lemma takeover_displace_live:
  assumes "live_owner (takeover_displace now scID tc req ca H) l i"
  shows "live_owner H l i"
  using assms
  by (auto simp: live_owner_def takeover_displace_def Let_def fnForceTerminateStep_def update_attempt_def
      set_update_where split: option.splits if_splits)

lemma takeover_apply_exclusive:
  assumes inv: "hub_inv H" and ex: "exclusive H" and clean: "clean_item (tc_wi tc)"
    and ok: "takeover_apply sha now newID gen scID tc req ca H = Inr H'"
  shows "exclusive H'"
  using ok
proof (cases rule: takeover_apply_Inr)
  case (1 pairs H1 H2)
  let ?K = "takeover_displace now scID tc req ca H"
  show ?thesis
  proof (rule grant_exclusive [OF inv takeover_displace_keeps_cores _ takeover_displace_live 1(3), where pairs = pairs
        and project = "wi_project (tc_wi tc)" and ds = "unmarshalDeclaredResources (wi_declared (tc_wi tc))"])
    show "exclusive ?K"
      by (rule exclusive_shrink [OF ex _ takeover_displace_live])
         (use takeover_displace_keeps_cores [of H now scID tc req ca] in \<open>simp add: keeps_cores_def\<close>)
    show "set (h_locks H') = {l \<in> set (h_locks ?K). lock_key l \<notin> req_key ` set (map fst pairs)} \<union>
      (\<lambda>l. \<lparr>rl_type = rq_type l, rl_key = rq_key l, rl_owner = ra_id (takeover_attempt sha now newID gen tc req ca),
             rl_epoch = wi_epoch (tc_wi tc) + 1\<rparr>) ` set (map fst pairs)"
      using acquire_all_locks [OF 1(4)] by (simp add: 1(5) insert_attempt_Inr(1) [OF 1(3)] takeover_attempt_def)
    show "h_attempts H' = h_attempts H1"
      using same_but_locksD(2) [OF acquire_all_frame [OF 1(4)]] by (simp add: 1(5))
  qed (use 1(1,2) clean in \<open>auto simp: takeover_attempt_def clean_item_def intro: takeover_locks_pairs\<close>)
qed

lemma complete_commit_exclusive:
  assumes ex: "exclusive H" and run: "\<And>a. a \<in> set (h_attempts H) \<Longrightarrow> ra_id a = cq_attempt req \<Longrightarrow> is_live (ra_status a)"
  shows "exclusive (complete_commit now wi req H)"
proof -
  have "exclusive (complete_update_attempt now req H)"
    unfolding complete_update_attempt_def
    by (rule exclusive_update_attempt [OF ex]) (simp add: run)
  then have "exclusive (complete_release req (complete_update_attempt now req H))"
    by (simp add: complete_release_def exclusive_release)
  then have "exclusive (emit_event (attemptCompletedEvent wi req)
      (update_item (wi_id wi) (\<lambda>w. w\<lparr>wi_status := wi_status_of (cq_status req)\<rparr>)
        (complete_release req (complete_update_attempt now req H))))" (is "exclusive ?H4")
    by (rule exclusive_same) simp_all
  moreover have "edits ?H4 (expire_methodology now (wi_id wi) (unblockDependentWI (wi_id wi) (wi_project wi) ?H4))"
    unfolding expire_methodology_def by (rule edits_tables(4) [OF unblockDependentWI_edits [OF edits_refl]])
  ultimately show ?thesis
    using edits_exclusive by (simp only: complete_commit_def Let_def split: if_split) blast
qed

lemma edits_running:
  assumes "edits H H'" "\<And>a. a \<in> set (h_attempts H) \<Longrightarrow> ra_id a = i \<Longrightarrow> P (ra_status a)"
  shows "a \<in> set (h_attempts H') \<Longrightarrow> ra_id a = i \<Longrightarrow> P (ra_status a)"
  using assms(1)
proof (induction arbitrary: a rule: rtranclp_induct)
  case (step K H')
  from step(2) show ?case
  proof (cases rule: edit.cases)
    case (edit_attempts f Q)
    with step.prems obtain b where b: "b \<in> set (h_attempts K)" "a = (if Q b then f b else b)"
      by (auto simp: set_update_where)
    with edit_attempts(2) [of b] step.prems(2) step.IH [OF b(1)] show ?thesis by (auto split: if_splits)
  qed (use step.IH step.prems in \<open>auto simp: release_rows\<close>)
qed (rule assms(2))

lemma FnCompleteAttempt_exclusive:
  assumes inv: "hub_inv H" and ex: "exclusive H"
    and ok: "FnCompleteAttempt sha now scID wiID req roles role H = Inr H'"
  shows "exclusive H'"
  using ok
proof (cases rule: FnCompleteAttempt_Inr)
  case (1 wi H1 H2)
  have e: "edits H H2" by (rule complete_step_phase_edits [OF 1(5) verify_edits [OF 1(4) edits_refl]])
  from verifyAttemptCredential_Inr(3) [OF 1(4)] obtain b where
    "attempt_by_id H (cq_attempt req) = Some b" "ra_status b = ARunning" by blast
  then have "ra_status a = ARunning" if "a \<in> set (h_attempts H)" "ra_id a = cq_attempt req" for a
    using attempt_by_id_known [OF inv that(1)] that(2) by simp
  then have "is_live (ra_status a)" if "a \<in> set (h_attempts H2)" "ra_id a = cq_attempt req" for a
    using edits_running [OF e, of "cq_attempt req" "\<lambda>s. is_live s"] that by blast
  then show ?thesis unfolding 1(6) by (rule complete_commit_exclusive [OF edits_exclusive [OF e ex]])
qed

lemma CancelWorkItem_exclusive:
  assumes ex: "exclusive H" and ok: "CancelWorkItem now ref user role roles H = Inr H'"
  shows "exclusive H'"
  using ok
proof (cases rule: CancelWorkItem_Inr)
  case (1 wi locked)
  show ?thesis
    unfolding 1(6) cancel_commit_def Let_def
    by (rule exclusive_release [OF exclusive_update_attempts [OF ex, of _ "\<lambda>a. ra_wi a = wi_id wi \<and> is_live (ra_status a)"
            "\<lambda>a. a\<lparr>ra_status := ACancelled, ra_ended := Some now\<rparr>"]]) simp_all
qed


subsection \<open>Locks in mid-attempt\<close>

lemma acquireLockIfFree_subset:
  "set (h_locks (snd (acquireLockIfFree t k att e project wi op H))) \<subseteq>
     insert \<lparr>rl_type = t, rl_key = k, rl_owner = att, rl_epoch = e\<rparr> (set (h_locks H))"
  by (auto simp: acquireLockIfFree_def emitLockEvent_eq)

lemma acquire_target_locks:
  assumes "acquire_target ac wi key probe H = Inr (H', got)"
  shows "H' = H \<or> acquireLocksCollision H ''file_scope'' probe = None \<and>
    set (h_locks H') \<subseteq> insert \<lparr>rl_type = ''file_scope'', rl_key = key, rl_owner = ac_attempt ac, rl_epoch = ac_epoch ac\<rparr>
      (set (h_locks H))"
proof (cases "acquireLocksCollision H ''file_scope'' probe")
  case None
  let ?tk = "acquireLockIfFree ''file_scope'' key (ac_attempt ac) (ac_epoch ac) (wi_project wi) (wi_id wi)"
  from assms None consider "H' = snd (?tk (newLockOp ''acquire_locks'' [] [] []) H)"
    | op op' where "H' = snd (?tk op (fst (releaseLocks (lockDeleteByKey ''file_scope'' key) op'
        (snd (?tk (newLockOp ''acquire_locks'' [] [] []) H)))))"
    by (auto simp: acquire_target_def Let_def split: prod.splits if_splits option.splits bool.splits)
  then show ?thesis
  proof cases
    case 1
    then show ?thesis using None acquireLockIfFree_subset by simp
  next
    case 2
    let ?mine = "\<lparr>rl_type = ''file_scope'', rl_key = key, rl_owner = ac_attempt ac, rl_epoch = ac_epoch ac\<rparr>"
    let ?H1 = "snd (?tk (newLockOp ''acquire_locks'' [] [] []) H)"
    let ?H2 = "fst (releaseLocks (lockDeleteByKey ''file_scope'' key) op' ?H1)"
    have "set (h_locks H') \<subseteq> insert ?mine (set (h_locks ?H2))" unfolding 2 by (rule acquireLockIfFree_subset)
    moreover have "set (h_locks ?H2) \<subseteq> set (h_locks ?H1)" by (auto simp: releaseLocks_locks set_delete_where)
    moreover have "set (h_locks ?H1) \<subseteq> insert ?mine (set (h_locks H))" by (rule acquireLockIfFree_subset)
    ultimately show ?thesis using None by blast
  qed
qed (use assms in \<open>auto simp: acquire_target_def Let_def split: prod.splits if_splits\<close>)

lemma acquire_target_exclusive:
  assumes inv: "hub_inv H" and ex: "exclusive H"
    and ok: "acquire_target ac wi key probe H = Inr (H', got)"
    and a: "a \<in> set (h_attempts H)" "ra_id a = ac_attempt ac"
    and pair: "file_pair project ds (\<lparr>rq_type = ''file_scope'', rq_key = key\<rparr>, probe)"
    and clean: "\<And>d. d \<in> set ds \<Longrightarrow> key_parts_colon_free project (dr_repo d) (dr_uri d)"
  shows "exclusive H'"
proof (cases "H' = H")
  case False
  with acquire_target_locks [OF ok] have none: "lock_collision H ''file_scope'' probe (\<lambda>a. True) = None"
    and sub: "set (h_locks H') \<subseteq> insert \<lparr>rl_type = ''file_scope'', rl_key = key, rl_owner = ac_attempt ac, rl_epoch = ac_epoch ac\<rparr>
      (set (h_locks H))" by (simp_all add: acquireLocksCollision_def)
  have atts: "h_attempts H' = h_attempts H"
    using acquire_target_adds_own [OF ok] by (simp add: adds_own_def same_but_locks_def)
  from pair obtain d where d: "d \<in> set ds" "key = fileScopeLockKey project (dr_repo d) (dr_uri d)"
      "probe = fileScopeConflictProbe project (dr_repo d) (dr_uri d)" by (auto simp: file_pair_def)
  show ?thesis
    using ex
  proof (rule exclusive_grow [where att = "ac_attempt ac" and wi = "ra_wi a"])
    fix l
    assume "l \<in> set (h_locks H')"
    with sub consider "l \<in> set (h_locks H)"
      | "l = \<lparr>rl_type = ''file_scope'', rl_key = key, rl_owner = ac_attempt ac, rl_epoch = ac_epoch ac\<rparr>" by blast
    then show "l \<in> set (h_locks H) \<or> probed H (ra_wi a) (ac_attempt ac) l"
    proof cases
      case 2
      have "\<not> live_owner H l2 i"
        if "l2 \<in> set (h_locks H)" "rl_type l2 = ''file_scope''" "lockConflictWhere probe (rl_key l2)" for l2 i
        using lock_collision_None [OF none hub_inv_attempts_have_items [OF inv] that] by (auto simp: live_owner_def)
      with 2 d clean [OF d(1)] have "probed H (ra_wi a) (ac_attempt ac) l"
        unfolding probed_def file_lock_def
        by (intro conjI exI [of _ project] exI [of _ "dr_repo d"] exI [of _ "dr_uri d"]) auto
      then show ?thesis ..
    qed simp
  next
    fix l i
    assume "rl_owner l = ac_attempt ac" "live_owner H' l i"
    then obtain b where "b \<in> set (h_attempts H)" "ra_id b = ra_id a" "ra_wi b = i"
      using a(2) by (auto simp: live_owner_def atts)
    with attempt_unique [OF inv _ a(1)] show "i = ra_wi a" by blast
  qed (simp add: live_owner_def atts)
qed (use ex in simp)

lemma acquire_loop_exclusive:
  assumes "acquire_loop ac wi ts H = Inr (H', got)" "hub_inv H" "exclusive H"
    "a \<in> set (h_attempts H)" "ra_id a = ac_attempt ac" "ra_epoch a = ac_epoch ac"
    "\<And>key probe. (key, probe) \<in> set ts \<Longrightarrow> file_pair project ds (\<lparr>rq_type = ''file_scope'', rq_key = key\<rparr>, probe)"
    "\<And>d. d \<in> set ds \<Longrightarrow> key_parts_colon_free project (dr_repo d) (dr_uri d)"
  shows "exclusive H'"
  using assms(1-7)
proof (induction ts arbitrary: H got)
  case (Cons t ts)
  obtain key probe where t: "t = (key, probe)" by fastforce
  with Cons.prems(1) obtain H1 got1 got2 where
    H1: "acquire_target ac wi key probe H = Inr (H1, got1)" "acquire_loop ac wi ts H1 = Inr (H', got2)"
    by (auto split: sum.splits prod.splits)
  note own = acquire_target_adds_own [OF H1(1)]
  have "a \<in> set (h_attempts H1)" using own Cons.prems(4) by (simp add: adds_own_def same_but_locks_def)
  moreover have "exclusive H1"
    by (rule acquire_target_exclusive [OF Cons.prems(2,3) H1(1) Cons.prems(4,5,7) assms(8)]) (simp_all add: t)
  ultimately show ?case
    using Cons.IH [OF H1(2) adds_own_inv [OF Cons.prems(2) own Cons.prems(4-6)]] Cons.prems(5-7) by simp
qed simp

lemma FnAcquireLocks_exclusive:
  assumes inv: "hub_inv H" and ex: "exclusive H" and clean: "\<forall>w \<in> set (h_items H). clean_item w"
    and ok: "FnAcquireLocks sha now ref ac H = Inr (H', r)"
  shows "exclusive H'"
  using ok
proof (cases rule: FnAcquireLocks_Inr)
  case (1 wi declared H1 acquired)
  have e: "edits H H1" by (rule verify_edits [OF 1(3) edits_refl])
  have inv1: "hub_inv H1" by (rule keeps_cores_inv [OF edits_keeps_cores [OF e] inv])
  from verifyAttemptCredential_Inr(2,3) [OF 1(3)] obtain b where
    "H1 = update_attempt (ac_attempt ac) (\<lambda>a. a\<lparr>ra_last_active := now\<rparr>) H" "b \<in> set (h_attempts H)"
    "ra_id b = ac_attempt ac" "ra_epoch b = ac_epoch ac" by (auto dest: attempt_by_id_Some)
  then obtain a where a: "a \<in> set (h_attempts H1)" "ra_id a = ac_attempt ac" "ra_epoch a = ac_epoch ac"
    by (force simp: update_attempt_def set_update_where)
  have "clean_item wi" using clean 1(1) by (auto dest: item_by_ref_Some)
  then have "key_parts_colon_free (wi_project wi) (dr_repo d) (dr_uri d)" if "d \<in> set declared" for d
    using that 1(4) by (simp add: clean_item_def unmarshalDeclaredResources_def)
  from acquire_loop_exclusive [OF 1(5) inv1 edits_exclusive [OF e ex] a acquire_targets_pairs this] show ?thesis
    by blast
qed


section \<open>Exclusion in every reachable state\<close>

abbreviation no_client_locks :: "claim_request \<Rightarrow> bool" where
  "no_client_locks req \<equiv> cr_locks req = []"

definition excl_inv :: "hub_sys \<Rightarrow> bool" where
  "excl_inv s \<longleftrightarrow> sys_inv s \<and> exclusive (hs_hub s) \<and> (\<forall>w \<in> set (h_items (hs_hub s)). clean_item w) \<and>
     (\<forall>(tc, req, ca) \<in> set (hs_takeovers s). clean_item (tc_wi tc))"

lemma clean_kept:
  assumes "kept H H'" "\<forall>w \<in> set (h_items H). clean_item w"
  shows "\<forall>w \<in> set (h_items H'). clean_item w"
proof
  fix w'
  assume "w' \<in> set (h_items H')"
  with assms(1) obtain w where "w \<in> set (h_items H)" "item_filed w = item_filed w'" by (rule kept_item)
  with assms(2) show "clean_item w'" by (auto simp: clean_item_def)
qed

lemma hub_tx_excl:
  assumes tx: "hub_tx sha no_client_locks H H'" and inv: "hub_inv H" and ex: "exclusive H"
    and clean: "\<forall>w \<in> set (h_items H). clean_item w"
  shows "exclusive H'"
  using tx
proof (cases rule: hub_tx_Inr)
  case edits
  then show ?thesis using ex by (rule edits_exclusive)
next
  case (claim now newID ref req ca r)
  from claim(1) show ?thesis
  proof (cases rule: FnClaimWorkItem_Inr)
    case (fresh wi tk prior pairs)
    have wi: "wi \<in> set (h_items H)" using fresh(1) by (auto dest: item_by_ref_Some)
    have pairs: "pairs = deriveClaimLocks [] (wi_declared wi) (wi_project wi)" using fresh(5) claim(2) by simp
    show ?thesis using claim_grant_exclusive [OF inv ex wi _ fresh(7) pairs fresh(6)] clean wi by blast
  qed (use ex in simp)
next
  case complete
  then show ?thesis by (rule FnCompleteAttempt_exclusive [OF inv ex])
next
  case cancel
  then show ?thesis by (rule CancelWorkItem_exclusive [OF ex])
next
  case locks
  then show ?thesis by (rule FnAcquireLocks_exclusive [OF inv ex clean])
qed

lemma sys_step_excl:
  assumes st: "sys_step sha no_client_locks s t" and inv: "excl_inv s"
  shows "excl_inv t"
proof -
  have sys: "sys_inv t" using sys_step_inv [OF st] inv by (simp add: excl_inv_def)
  have hub: "hub_inv (hs_hub s)" using inv by (simp add: excl_inv_def sys_inv_def)
  have ex: "exclusive (hs_hub s)" and clean: "\<forall>w \<in> set (h_items (hs_hub s)). clean_item w"
    and ctx: "\<And>tc req ca. (tc, req, ca) \<in> set (hs_takeovers s) \<Longrightarrow> clean_item (tc_wi tc)"
    using inv by (auto simp: excl_inv_def)
  from st have "exclusive (hs_hub t) \<and> (\<forall>(tc, req, ca) \<in> set (hs_takeovers t). clean_item (tc_wi tc))"
  proof (cases rule: sys_step.cases)
    case (sys_tx H')
    with hub_tx_excl [OF sys_tx(2) hub ex clean] ctx show ?thesis by auto
  next
    case (sys_takeover_read ref req ca role roles tc)
    from takeover_read_Inr(1) [OF sys_takeover_read(2)] clean have "clean_item (tc_wi tc)"
      by (auto dest: item_by_ref_Some)
    with sys_takeover_read(1) ex ctx show ?thesis by auto
  next
    case (sys_takeover_apply tc req ca now newID gen scID H')
    with takeover_apply_exclusive [OF hub ex ctx [OF sys_takeover_apply(2)] sys_takeover_apply(3)] ctx
    show ?thesis by auto
  next
    case sys_edge_insert
    with edits_exclusive [OF create_dependency_insert_edits ex] ctx show ?thesis by auto
  qed (use ex ctx in auto)
  moreover from this have "\<forall>w \<in> set (h_items (hs_hub t)). clean_item w"
    by (intro clean_kept [OF sys_step_kept [OF st] clean])
  ultimately show ?thesis using sys unfolding excl_inv_def by blast
qed

definition excl_init :: "hub_sys \<Rightarrow> bool" where
  "excl_init s \<longleftrightarrow> sys_init s \<and> (\<forall>w \<in> set (h_items (hs_hub s)). clean_item w)"

interpretation hub_exclusion: step_system excl_init "sys_step sha no_client_locks" excl_inv for sha
proof unfold_locales
  fix s
  assume "excl_init s"
  then show "excl_inv s"
    using sys_init_inv by (auto simp: excl_init_def excl_inv_def sys_init_def initial_hub_def exclusive_def)
qed (fact sys_step_excl)



end
