(* ===== verification/Lock_Key_Properties.thy ===== *)
theory Lock_Key_Properties
  imports Lock_Keys
begin

text \<open>
  What the derivation of lock keys promises: two declarations collide exactly when they name
  the same file, whether PostgreSQL or Go decides it, and a declaration that takes no lock
  is reported to the caller.
\<close>



fun reported_index :: "unrecognized \<Rightarrow> nat option" where
  "reported_index NotAnArray = None"
| "reported_index (TypeAcquiresNoLock i t) = Some i"
| "reported_index (AdvisoryNoURI i t) = Some i"
| "reported_index (NoURINoLock i t) = Some i"

lemma unrecognized_entry_index: "unrecognized_entry i t u = Some d \<Longrightarrow> reported_index d = Some i"
  by (auto simp: unrecognized_entry_def split: if_splits)

lemma resolveDeclaredRepos_nth:
  "i < length items \<Longrightarrow> dr_type (resolveDeclaredRepos items ! i) = dr_type (items ! i) \<and>
     dr_uri (resolveDeclaredRepos items ! i) = dr_uri (items ! i)"
  by (simp add: resolveDeclaredRepos_def Let_def)

lemma resolveDeclaredRepos_length [simp]: "length (resolveDeclaredRepos items) = length items"
  by (simp add: resolveDeclaredRepos_def Let_def)

text \<open>
  No declaration is dropped in silence. When the stored declarations decode, every entry
  that derives no lock, and is not of a type that never takes one, is reported under its
  index in the answer; when they do not decode, that is reported instead.
\<close>

theorem dropped_declarations_reported:
  "(case decodeDeclaredResources raw of
      None \<Rightarrow> NotAnArray \<in> set (UnrecognizedDeclaredResources raw)
    | Some items \<Rightarrow> \<forall>i < length items.
        fst (resourceToLock (items ! i) project) = [] \<and> dr_type (items ! i) \<notin> set [''repo'', ''service'', ''external_ref''] \<longrightarrow>
        (\<exists>d \<in> set (UnrecognizedDeclaredResources raw). reported_index d = Some i))"
proof (cases "decodeDeclaredResources raw")
  case None
  then show ?thesis
    by (auto simp: decodeDeclaredResources_def UnrecognizedDeclaredResources_def split: option.splits json.splits)
next
  case (Some items)
  have "\<exists>d \<in> set (UnrecognizedDeclaredResources raw). reported_index d = Some i"
    if i: "i < length items" "fst (resourceToLock (items ! i) project) = []"
      "dr_type (items ! i) \<notin> set [''repo'', ''service'', ''external_ref'']" for i
  proof -
    from Some i(1) obtain js objs where raw: "raw = Some (JArr js)" "json_objects js = Some objs"
        "items = resolveDeclaredRepos (map item_of_object objs)"
      by (auto simp: decodeDeclaredResources_def split: option.splits json.splits)
    from dropped_entry_reported [OF i(2,3)] obtain d where
      d: "unrecognized_entry i (dr_type (items ! i)) (dr_uri (items ! i)) = Some d" by (auto simp del: not_None_eq)
    have "dr_type (items ! i) = str_field (objs ! i) ''type''" "dr_uri (items ! i) = str_field (objs ! i) ''uri''"
      using resolveDeclaredRepos_nth [of i "map item_of_object objs"] i(1) by (simp_all add: raw(3) item_of_object_def)
    with d have "d \<in> set (unrecognized_loop 0 objs)"
      using i(1) by (intro unrecognized_loop_nth [of i]) (simp_all add: raw(3))
    with unrecognized_entry_index [OF d] show ?thesis by (auto simp: UnrecognizedDeclaredResources_def raw(1,2))
  qed
  with Some show ?thesis by simp
qed

theorem dropped_declarations_reported_witness:
  "\<exists>d \<in> set (UnrecognizedDeclaredResources (Some (JArr [JObj [(''type'', JStr ''path''), (''uri'', JStr ''file: '')]]))).
     reported_index d = Some 0"
proof -
  let ?raw = "Some (JArr [JObj [(''type'', JStr ''path''), (''uri'', JStr ''file: '')]])"
  have "(case decodeDeclaredResources ?raw of None \<Rightarrow> False | Some items \<Rightarrow> length items = 1 \<and>
      fst (resourceToLock (items ! 0) ''p'') = [] \<and> dr_type (items ! 0) \<notin> set [''repo'', ''service'', ''external_ref''])"
    by code_simp
  with dropped_declarations_reported [of ?raw "''p''"] show ?thesis by (auto split: option.splits)
qed

text \<open>
  The converse fails. A path whose uri has a space before the scheme and nothing after
  it takes a lock, on a key with the scheme in it, and is still reported as taking none.
\<close>

theorem locked_and_reported:
  "resourceToLock \<lparr>dr_type = ''path'', dr_uri = '' file:'', dr_repo = [], dr_intent = [], dr_base_branch = [], dr_task_branch = []\<rparr> ''p''
     = (''file_scope'', ''p: file:'') \<and>
   unrecognized_entry 0 ''path'' '' file:'' = Some (NoURINoLock 0 ''path'')"
  by code_simp

end
