(* ===== verification/Fencing.thy ===== *)
theory Fencing
  imports Hub_Example
begin

text \<open>
  Fencing of work items by epochs: the contract of a system that hands out numbered
  credentials and honours only the newest, its interpretation on the hub, and what follows
  for the credential check of \<^verbatim>\<open>run_attempts.go\<close> in every reachable state.
\<close>

section \<open>The contract\<close>

locale fencing = step_system init step inv
  for init :: "'s \<Rightarrow> bool" and step :: "'s \<Rightarrow> 's \<Rightarrow> bool" and inv :: "'s \<Rightarrow> bool" +
  fixes epoch :: "'s \<Rightarrow> 'i \<Rightarrow> int"
    and issued :: "'s \<Rightarrow> 'a \<Rightarrow> 'i \<Rightarrow> int \<Rightarrow> bool"
    and admits :: "'s \<Rightarrow> 'a \<Rightarrow> 'i \<Rightarrow> bool"
  assumes epoch_mono: "step s t \<Longrightarrow> inv s \<Longrightarrow> epoch s i \<le> epoch t i"
    and issued_mono: "step s t \<Longrightarrow> inv s \<Longrightarrow> issued s a i e \<Longrightarrow> issued t a i e"
    and issued_once: "inv s \<Longrightarrow> issued s a i e \<Longrightarrow> issued s a i f \<Longrightarrow> e = f"
    and admits_newest: "inv s \<Longrightarrow> admits s a i \<Longrightarrow> issued s a i (epoch s i)"
begin

lemma epoch_steps: "step\<^sup>*\<^sup>* s t \<Longrightarrow> inv s \<Longrightarrow> epoch s i \<le> epoch t i"
  by (rule steps_relate [where R = "\<lambda>s t. epoch s i \<le> epoch t i"]) (auto intro: epoch_mono)

lemma issued_steps: "step\<^sup>*\<^sup>* s t \<Longrightarrow> inv s \<Longrightarrow> issued s a i e \<Longrightarrow> issued t a i e"
  using steps_relate [where R = "\<lambda>s t. issued s a i e \<longrightarrow> issued t a i e"] issued_mono by blast

lemma fenced_forever:
  assumes "inv s" "issued s a i e" "e < epoch s i" "step\<^sup>*\<^sup>* s t"
  shows "\<not> admits t a i"
proof
  assume "admits t a i"
  with assms(1,4) steps_inv have "issued t a i (epoch t i)" by (blast intro: admits_newest)
  with assms(1,2,4) steps_inv issued_steps have "e = epoch t i" by (blast intro: issued_once)
  with epoch_steps [OF assms(4,1), of i] assms(3) show False by simp
qed

end

section \<open>The hub meets it\<close>

definition epoch_of :: "hub_sys \<Rightarrow> string \<Rightarrow> int" where
  "epoch_of s i = (case item_by_id (hs_hub s) i of None \<Rightarrow> 0 | Some w \<Rightarrow> wi_epoch w)"

definition attempt_issued :: "hub_sys \<Rightarrow> string \<Rightarrow> string \<Rightarrow> int \<Rightarrow> bool" where
  "attempt_issued s a i e = ((a, i, e) \<in> set (map attempt_core (h_attempts (hs_hub s))))"

definition is_current :: "hub_sys \<Rightarrow> string \<Rightarrow> string \<Rightarrow> bool" where
  "is_current s a i =
     (case item_by_id (hs_hub s) i of None \<Rightarrow> False | Some w \<Rightarrow> wi_current w = Some a)"

lemma hub_inv_epoch_nonneg: "hub_inv H \<Longrightarrow> w \<in> set (h_items H) \<Longrightarrow> 0 \<le> wi_epoch w"
  by (auto simp: hub_inv_def cores_ok_def)

lemma grows_epoch_of:
  assumes "grows H H'" "hub_inv H" "hub_inv H'"
  shows "(case item_by_id H i of None \<Rightarrow> 0 | Some w \<Rightarrow> wi_epoch w) \<le>
         (case item_by_id H' i of None \<Rightarrow> 0 | Some w \<Rightarrow> wi_epoch w)"
proof (cases "item_by_id H i")
  case None
  then show ?thesis
    by (auto split: option.splits dest: item_by_id_Some intro: hub_inv_epoch_nonneg [OF assms(3)])
next
  case (Some w)
  then have "w \<in> set (h_items H)" "wi_id w = i" by (auto dest: item_by_id_Some)
  with assms(1) obtain v where v: "v \<in> set (h_items H')" "wi_id v = i" "wi_epoch w \<le> wi_epoch v"
    unfolding grows_def by blast
  with item_by_id_known [OF assms(3) v(1)] Some show ?thesis by simp
qed

interpretation hub_fence: fencing sys_init "sys_step sha ok" sys_inv epoch_of attempt_issued is_current for sha ok
proof unfold_locales
  fix s t i a e
  assume st: "sys_step sha ok s t" "sys_inv s"
  note next_hub = sys_step_hub [OF st]
  have "hub_inv (hs_hub s)" using st(2) by (simp add: sys_inv_def)
  with next_hub show "epoch_of s i \<le> epoch_of t i"
    unfolding epoch_of_def by (intro grows_epoch_of) simp_all
  show "attempt_issued t a i e" if "attempt_issued s a i e"
    using that conjunct2 [OF next_hub, unfolded grows_def] by (auto simp: attempt_issued_def)
next
  fix s a i e f
  assume "sys_inv s" "attempt_issued s a i e" "attempt_issued s a i f"
  then show "e = f"
    by (auto simp: sys_inv_def attempt_issued_def dest: attempt_unique)
next
  fix s a i
  assume inv: "sys_inv s" and cur: "is_current s a i"
  then obtain w where w: "w \<in> set (h_items (hs_hub s))" "wi_id w = i" "wi_current w = Some a"
      "item_by_id (hs_hub s) i = Some w"
    by (auto simp: is_current_def split: option.splits dest: item_by_id_Some)
  from inv w obtain b where "b \<in> set (h_attempts (hs_hub s))" "ra_id b = a" "ra_wi b = i" "ra_epoch b = wi_epoch w"
    by (auto simp: sys_inv_def elim: hub_inv_current)
  with w(4) show "attempt_issued s a i (epoch_of s i)"
    by (force simp: attempt_issued_def epoch_of_def)
qed


lemma reachable_hub_inv:
  assumes "sys_init s0" "(sys_step sha ok)\<^sup>*\<^sup>* s0 s"
  shows "hub_inv (hs_hub s)"
  using hub_run.reachable_inv [OF assms] by (simp add: sys_inv_def)

lemma hub_inv_current_find:
  assumes inv: "hub_inv H" and w: "w \<in> set (h_items H)"
  shows "wi_current w = map_option ra_id (find (\<lambda>a. ra_wi a = wi_id w \<and> ra_epoch a = wi_epoch w) (h_attempts H))"
proof (cases "wi_current w")
  case None
  with inv w have "wi_epoch w = 0" by (force simp: hub_inv_def cores_ok_def)
  then have "find (\<lambda>a. ra_wi a = wi_id w \<and> ra_epoch a = wi_epoch w) (h_attempts H) = None"
    by (auto simp: find_None_iff elim: attempt_item_known [OF inv])
  with None show ?thesis by simp
next
  case (Some c)
  from hub_inv_current [OF inv w Some] obtain a where
    a: "a \<in> set (h_attempts H)" "ra_id a = c" "ra_wi a = wi_id w" "ra_epoch a = wi_epoch w" .
  then obtain b where b: "find (\<lambda>a. ra_wi a = wi_id w \<and> ra_epoch a = wi_epoch w) (h_attempts H) = Some b"
    by (cases "find (\<lambda>a. ra_wi a = wi_id w \<and> ra_epoch a = wi_epoch w) (h_attempts H)") (auto simp: find_None_iff)
  then have "b \<in> set (h_attempts H)" "ra_wi b = wi_id w" "ra_epoch b = wi_epoch w"
    by (auto simp: find_Some_iff)
  with hub_inv_epoch_unique [OF inv a(1), of b] a(2-4) b Some show ?thesis by simp
qed

section \<open>Credentials\<close>

lemma hex_val_hex_char: "n < 16 \<Longrightarrow> hex_val (hex_char n) = Some n"
  by (auto simp: hex_val_def hex_char_def Let_def)

lemma hex_decode_encode [simp]: "hex_decode (hex_encode s) = Some s"
proof (induction s)
  case (Cons c s)
  have "(of_char c :: nat) < 256" by simp
  then have "(of_char c :: nat) div 16 < 16" by (intro less_mult_imp_div_less) simp
  then show ?case using Cons by (simp add: hex_val_hex_char)
qed simp

text \<open>
  C1: In every reachable state an attempt of an earlier epoch is shut out for good: from
  the moment its work item has moved past its epoch, the credential check answers
  CONFLICT\_EPOCH\_MISMATCH to its id, whatever secret and epoch come with it and however
  the hub has moved on.
\<close>

theorem superseded_attempt_locked_out:
  assumes "sys_init s0" "(sys_step sha ok)\<^sup>*\<^sup>* s0 s"
    and "a \<in> set (h_attempts (hs_hub s))" "w \<in> set (h_items (hs_hub s))" "ra_wi a = wi_id w"
    and "ra_epoch a < wi_epoch w"
    and "(sys_step sha ok)\<^sup>*\<^sup>* s t" "v \<in> set (h_items (hs_hub t))" "wi_id v = wi_id w"
  shows "verifyAttemptCredential sha now v (ra_id a) e secret (hs_hub t) =
    Inl (NewErrDetails ErrConflictEpochMismatch (supersededByDetails (hs_hub t) (ra_id a) (wi_current v)))"
proof -
  have inv: "sys_inv s" using hub_run.reachable_inv [OF assms(1,2)] .
  have t: "hub_inv (hs_hub t)" by (rule reachable_hub_inv [OF assms(1) rtranclp_trans [OF assms(2,7)]])
  have "attempt_issued s (ra_id a) (wi_id w) (ra_epoch a)" using assms(3,5) by (force simp: attempt_issued_def)
  moreover have "epoch_of s (wi_id w) = wi_epoch w"
    using item_by_id_known [OF reachable_hub_inv [OF assms(1,2)] assms(4)] by (simp add: epoch_of_def)
  ultimately have "\<not> is_current t (ra_id a) (wi_id w)"
    using hub_fence.fenced_forever [OF inv _ _ assms(7)] assms(6) by simp
  then have "wi_current v \<noteq> Some (ra_id a)"
    using item_by_id_known [OF t assms(8)] assms(9) by (simp add: is_current_def)
  then show ?thesis by (simp add: verifyAttemptCredential_def)
qed

theorem superseded_attempt_locked_out_witness:
  "verifyAttemptCredential (\<lambda>s. s) 40 (hd (h_items ex_hub2)) ''r1'' 1 ''pw'' ex_hub2 =
     Inl (NewErrDetails ErrConflictEpochMismatch (SupersededBy (Some ''Ann'') (Some 20)))"
proof -
  let ?a = "hd (h_attempts ex_hub2)" and ?w = "hd (h_items ex_hub2)"
  have "?a \<in> set (h_attempts ex_hub2) \<and> ?w \<in> set (h_items ex_hub2) \<and> ra_wi ?a = wi_id ?w \<and>
        ra_epoch ?a < wi_epoch ?w \<and> ra_id ?a = ''r1'' \<and>
        supersededByDetails ex_hub2 ''r1'' (wi_current ?w) = SupersededBy (Some ''Ann'') (Some 20)"
    by code_simp
  then show ?thesis
    using superseded_attempt_locked_out [OF ex_sys_init ex_run2 [of "\<lambda>r. True"], of ?a ?w "ex_sys ex_hub2" ?w 40 1 "''pw''"]
    by (simp add: ex_sys_def)
qed

text \<open>
  C8: In every reachable state the credential check accepts exactly the current attempt of
  the work item, while it is running, with its own epoch and a secret of the recorded
  digest; the accepted attempt is the newest the item has ever had. A paused attempt with
  the right epoch and secret gets ATTEMPT\_PAUSED.
\<close>

theorem credential_accepted_iff:
  assumes "sys_init s0" "(sys_step sha ok)\<^sup>*\<^sup>* s0 s" "w \<in> set (h_items (hs_hub s))"
  shows "(\<exists>H'. verifyAttemptCredential sha now w att e secret (hs_hub s) = Inr H') \<longleftrightarrow>
     (\<exists>a \<in> set (h_attempts (hs_hub s)). ra_id a = att \<and> ra_wi a = wi_id w \<and> wi_current w = Some att \<and>
        ra_status a = ARunning \<and> ra_epoch a = e \<and> e = wi_epoch w \<and>
        hex_decode (ra_secret_hash a) = Some (sha secret) \<and>
        (\<forall>b \<in> set (h_attempts (hs_hub s)). ra_wi b = wi_id w \<and> b \<noteq> a \<longrightarrow> ra_epoch b < e))"
    (is "?ok \<longleftrightarrow> ?cond")
proof
  note inv = reachable_hub_inv [OF assms(1,2)]
  assume ?ok
  then obtain H' where ver: "verifyAttemptCredential sha now w att e secret (hs_hub s) = Inr H'" ..
  note V = verifyAttemptCredential_Inr [OF ver]
  from V(3) obtain a where a: "a \<in> set (h_attempts (hs_hub s))" "ra_id a = att" "ra_epoch a = e"
      "ra_status a = ARunning" "hex_decode (ra_secret_hash a) = Some (sha secret)"
    by (auto simp: hashSecretInternal_def dest: attempt_by_id_Some)
  from hub_inv_current [OF inv assms(3) V(1)] obtain b where
    b: "b \<in> set (h_attempts (hs_hub s))" "ra_id b = att" "ra_wi b = wi_id w" "ra_epoch b = wi_epoch w" .
  have ab: "a = b" using attempt_unique [OF inv a(1) b(1)] a(2) b(2) by simp
  have "ra_epoch c < e" if c: "c \<in> set (h_attempts (hs_hub s))" "ra_wi c = wi_id w" "c \<noteq> a" for c
  proof -
    from attempt_item_known [OF inv c(1)] obtain v where
      v: "v \<in> set (h_items (hs_hub s))" "wi_id v = ra_wi c" "ra_epoch c \<le> wi_epoch v" .
    with item_unique [OF inv v(1) assms(3)] c(2) have "ra_epoch c \<le> wi_epoch w" by simp
    moreover have "ra_epoch c \<noteq> wi_epoch w"
      using hub_inv_epoch_unique [OF inv c(1) b(1)] c(2,3) b(3,4) ab by auto
    ultimately show ?thesis using a(3) b(4) ab by simp
  qed
  with a b ab V(1) show ?cond by auto
next
  note inv = reachable_hub_inv [OF assms(1,2)]
  assume ?cond
  then obtain a where "a \<in> set (h_attempts (hs_hub s))" "ra_id a = att" "wi_current w = Some att"
    "ra_status a = ARunning" "ra_epoch a = e" "hex_decode (ra_secret_hash a) = Some (sha secret)" by blast
  with attempt_by_id_known [OF inv, of a] show ?ok
    by (simp add: verifyAttemptCredential_def hashSecretInternal_def)
qed

theorem credential_accepted_iff_witness:
  "\<exists>H'. verifyAttemptCredential (\<lambda>s. s) 40 (hd (h_items ex_hub2)) ''r2'' 2 ''pw'' ex_hub2 = Inr H'"
proof -
  let ?a = "hd (tl (h_attempts ex_hub2))" and ?w = "hd (h_items ex_hub2)"
  have "?w \<in> set (h_items ex_hub2)" by code_simp
  moreover have "list_ex (\<lambda>a. ra_id a = ''r2'' \<and> ra_wi a = wi_id ?w \<and> wi_current ?w = Some ''r2'' \<and>
      ra_status a = ARunning \<and> ra_epoch a = 2 \<and> 2 = wi_epoch ?w \<and> hex_decode (ra_secret_hash a) = Some ''pw'' \<and>
      list_all (\<lambda>b. ra_wi b = wi_id ?w \<and> b \<noteq> a \<longrightarrow> ra_epoch b < 2) (h_attempts ex_hub2)) (h_attempts ex_hub2)"
    by code_simp
  ultimately show ?thesis
    using credential_accepted_iff [OF ex_sys_init ex_run2 [of "\<lambda>r. True"], of ?w 40 "''r2''" 2 "''pw''"]
    by (simp add: ex_sys_def list_ex_iff list_all_iff)
qed

text \<open>
  C9: In every reachable state the attempts of a work item are numbered without gaps or
  repeats from 1 to the item's epoch, and the item points at the attempt of that epoch.
\<close>

theorem epochs_contiguous:
  assumes "sys_init s0" "(sys_step sha ok)\<^sup>*\<^sup>* s0 s" "w \<in> set (h_items (hs_hub s))"
  shows "bij_betw ra_epoch {a \<in> set (h_attempts (hs_hub s)). ra_wi a = wi_id w} {1..wi_epoch w} \<and>
    wi_current w = map_option ra_id
      (find (\<lambda>a. ra_wi a = wi_id w \<and> ra_epoch a = wi_epoch w) (h_attempts (hs_hub s)))"
proof
  note inv = reachable_hub_inv [OF assms(1,2)]
  let ?A = "{a \<in> set (h_attempts (hs_hub s)). ra_wi a = wi_id w}"
  have "inj_on ra_epoch ?A" using hub_inv_epoch_unique [OF inv] by (auto intro!: inj_onI)
  moreover have "ra_epoch ` ?A = {1..wi_epoch w}"
  proof (intro equalityI subsetI)
    fix e assume "e \<in> ra_epoch ` ?A"
    then obtain a where a: "a \<in> set (h_attempts (hs_hub s))" "ra_wi a = wi_id w" "e = ra_epoch a" by blast
    from attempt_item_known [OF inv a(1)] obtain v where
      v: "v \<in> set (h_items (hs_hub s))" "wi_id v = ra_wi a" "1 \<le> ra_epoch a" "ra_epoch a \<le> wi_epoch v" .
    have "v = w" using item_unique [OF inv v(1) assms(3)] v(2) a(2) by simp
    with v(3,4) a(3) show "e \<in> {1..wi_epoch w}" by simp
  next
    fix e assume "e \<in> {1..wi_epoch w}"
    with hub_inv_epoch_used [OF inv assms(3), of e] obtain a where
      "a \<in> set (h_attempts (hs_hub s))" "ra_wi a = wi_id w" "ra_epoch a = e" by auto
    then show "e \<in> ra_epoch ` ?A" by blast
  qed
  ultimately show "bij_betw ra_epoch ?A {1..wi_epoch w}" by (simp add: bij_betw_def)
  show "wi_current w = map_option ra_id
      (find (\<lambda>a. ra_wi a = wi_id w \<and> ra_epoch a = wi_epoch w) (h_attempts (hs_hub s)))"
    by (rule hub_inv_current_find [OF inv assms(3)])
qed

theorem epochs_contiguous_witness:
  "bij_betw ra_epoch {a \<in> set (h_attempts ex_hub2). ra_wi a = ''w1''} {1..2}"
proof -
  let ?w = "hd (h_items ex_hub2)"
  have "?w \<in> set (h_items ex_hub2) \<and> wi_id ?w = ''w1'' \<and> wi_epoch ?w = 2" by code_simp
  then show ?thesis
    using epochs_contiguous [OF ex_sys_init ex_run2 [of "\<lambda>r. True"], of ?w] by (simp add: ex_sys_def)
qed

end
