(* ===== verification/Attempt_Status.thy ===== *)
theory Attempt_Status
  imports Lock_Exclusion Fencing
begin

text \<open>
  The life of an attempt and of its work item: an attempt that has stopped running never runs
  again, one that has ended stays ended, and a running work item always has a running
  current attempt, whose holder can always finish it. The two invariants are a third
  interpretation of the step-system contract on the hub.
\<close>

section \<open>One item at a time\<close>

text \<open>A transaction that touches item \<open>i\<close> leaves the running of the others alone.\<close>

definition touches :: "string \<Rightarrow> hub \<Rightarrow> hub \<Rightarrow> bool" where
  "touches i H H' \<longleftrightarrow>
     (\<forall>w' \<in> set (h_items H'). wi_id w' \<noteq> i \<and> wi_status w' = Running \<longrightarrow>
        (\<exists>w \<in> set (h_items H). wi_id w = wi_id w' \<and> wi_current w = wi_current w' \<and> wi_status w = Running)) \<and>
     (\<forall>a \<in> set (h_attempts H). ra_wi a \<noteq> i \<longrightarrow>
        (\<exists>a' \<in> set (h_attempts H'). ra_id a' = ra_id a \<and> ra_wi a' = ra_wi a \<and> ra_status a' = ra_status a))"

lemma touches_refl [simp, intro!]: "touches i H H"
  by (auto simp: touches_def)

lemma touches_trans [trans]: "touches i H H1 \<Longrightarrow> touches i H1 H2 \<Longrightarrow> touches i H H2"
  unfolding touches_def by (rule conjI; metis)

lemma touches_same: "h_items H' = h_items H \<Longrightarrow> h_attempts H' = h_attempts H \<Longrightarrow> touches i H H'"
  by (auto simp: touches_def)

lemma touches_items:
  assumes "h_attempts H' = h_attempts H" "h_items H' = update_where P f (h_items H)"
    and "\<And>w. P w \<Longrightarrow> wi_id (f w) = wi_id w \<and>
      (wi_id w \<noteq> i \<longrightarrow> wi_current (f w) = wi_current w \<and> (wi_status (f w) = Running \<longrightarrow> wi_status w = Running))"
  shows "touches i H H'"
  using assms unfolding touches_def by (auto simp: set_update_where)

lemma touches_attempts:
  assumes "h_items H' = h_items H" "h_attempts H' = update_where P f (h_attempts H)"
    and "\<And>a. a \<in> set (h_attempts H) \<Longrightarrow> P a \<Longrightarrow> ra_wi a \<noteq> i \<Longrightarrow> ra_id (f a) = ra_id a \<and> ra_wi (f a) = ra_wi a \<and> ra_status (f a) = ra_status a"
  shows "touches i H H'"
  unfolding touches_def
proof (intro conjI ballI impI)
  fix a assume a: "a \<in> set (h_attempts H)" "ra_wi a \<noteq> i"
  then have "(if P a then f a else a) \<in> set (h_attempts H')" by (auto simp: assms(2) set_update_where)
  with a assms(3) show "\<exists>a' \<in> set (h_attempts H'). ra_id a' = ra_id a \<and> ra_wi a' = ra_wi a \<and> ra_status a' = ra_status a"
    by (intro bexI [of _ "if P a then f a else a"]) auto
qed (auto simp: assms(1))

lemma touches_update_item: "(\<And>w. wi_id (f w) = wi_id w) \<Longrightarrow> touches i H (update_item i f H)"
  by (rule touches_items [where P = "\<lambda>w. wi_id w = i" and f = f]) (simp_all add: update_item_def)

lemma touches_update_attempt:
  "(\<And>a. a \<in> set (h_attempts H) \<Longrightarrow> ra_id a = att \<Longrightarrow> ra_wi a = i) \<Longrightarrow> touches i H (update_attempt att f H)"
  by (rule touches_attempts [where P = "\<lambda>a. ra_id a = att" and f = f]) (auto simp: update_attempt_def)

lemma touches_insert: "insert_attempt a H = Inr H' \<Longrightarrow> touches i H H'"
  by (auto dest!: insert_attempt_Inr(1) simp: touches_def)

lemma touches_locks: "same_but_locks H H' \<Longrightarrow> touches i H H'"
  by (rule touches_same) (simp_all add: same_but_locks_def)

lemma edit_touches: "edit H H' \<Longrightarrow> touches i H H'"
proof (induction rule: edit.induct)
  case (edit_attempts f H P)
  then show ?case by (intro touches_attempts [where P = P and f = f]) auto
next
  case (edit_items P f H)
  then show ?case by (intro touches_items [where P = P and f = f]) auto
qed (auto intro: touches_same)

lemma edits_touches: "edits H H' \<Longrightarrow> touches i H H'"
  by (induction rule: rtranclp_induct) (auto intro: edit_touches touches_trans)

definition running_ok :: "hub \<Rightarrow> bool" where
  "running_ok H \<longleftrightarrow>
     (\<forall>w \<in> set (h_items H). wi_status w = Running \<longrightarrow>
        (\<exists>a \<in> set (h_attempts H). wi_current w = Some (ra_id a) \<and> ra_status a = ARunning \<and> ra_wi a = wi_id w))"

lemma running_ok_touches:
  assumes "running_ok H" "touches i H H'"
    and "\<And>w. w \<in> set (h_items H') \<Longrightarrow> wi_id w = i \<Longrightarrow> wi_status w = Running \<Longrightarrow>
      \<exists>a \<in> set (h_attempts H'). wi_current w = Some (ra_id a) \<and> ra_status a = ARunning \<and> ra_wi a = i"
  shows "running_ok H'"
  unfolding running_ok_def
proof (intro ballI impI)
  fix w' assume w': "w' \<in> set (h_items H')" "wi_status w' = Running"
  show "\<exists>a \<in> set (h_attempts H'). wi_current w' = Some (ra_id a) \<and> ra_status a = ARunning \<and> ra_wi a = wi_id w'"
  proof (cases "wi_id w' = i")
    case True
    with assms(3) [OF w'(1)] w'(2) show ?thesis by simp
  next
    case False
    with assms(2) w' obtain w where w: "w \<in> set (h_items H)" "wi_id w = wi_id w'" "wi_current w = wi_current w'"
        "wi_status w = Running"
      unfolding touches_def by blast
    with assms(1) obtain a where a: "a \<in> set (h_attempts H)" "wi_current w = Some (ra_id a)" "ra_status a = ARunning"
        "ra_wi a = wi_id w"
      unfolding running_ok_def by blast
    with False w(2) assms(2) obtain a' where "a' \<in> set (h_attempts H')" "ra_id a' = ra_id a" "ra_wi a' = ra_wi a"
        "ra_status a' = ra_status a"
      unfolding touches_def by metis
    with a w show ?thesis by (intro bexI [of _ a']) simp_all
  qed
qed

text \<open>An edit touches no item at all: choose one that does not exist.\<close>

lemma edits_running_ok:
  assumes "edits H H'" "running_ok H" "hub_inv H"
  shows "running_ok H'"
proof (rule running_ok_touches [OF assms(2) edits_touches [OF assms(1)], of "[]"])
  fix w assume w: "w \<in> set (h_items H')" "wi_id w = []"
  have "hub_inv H'" by (rule keeps_cores_inv [OF edits_keeps_cores [OF assms(1)] assms(3)])
  with w show "\<exists>a \<in> set (h_attempts H'). wi_current w = Some (ra_id a) \<and> ra_status a = ARunning \<and> ra_wi a = []"
    by (force simp: hub_inv_def cores_ok_def)
qed


section \<open>The operations that move an item\<close>

lemma claim_gate_prior:
  assumes "claim_gate H wi req ca = Inr (tk, prior)" "tk \<and> prior \<noteq> []"
  shows "wi_status wi = Running" "wi_current wi = Some prior"
  using assms by (auto simp: claim_gate_def split: wi_status.splits option.splits if_splits)

lemma current_of_item:
  assumes inv: "hub_inv H" and w: "w \<in> set (h_items H)" "wi_current w = Some c"
    and a: "a \<in> set (h_attempts H)" "ra_id a = c"
  shows "ra_wi a = wi_id w"
proof -
  from hub_inv_current [OF inv w] obtain b where "b \<in> set (h_attempts H)" "ra_id b = c" "ra_wi b = wi_id w" .
  with attempt_unique [OF inv a(1)] a(2) show ?thesis by simp
qed

lemma claim_supersede_touches:
  assumes "\<And>a. a \<in> set (h_attempts H) \<Longrightarrow> ra_id a = prior \<Longrightarrow> ra_wi a = i"
  shows "touches i H (claim_supersede now ca prior H)"
  unfolding claim_supersede_def
  by (rule touches_trans [OF touches_update_attempt touches_locks [OF releaseLocks_frame]]) (rule assms)

lemma claim_grant_running:
  assumes inv: "hub_inv H" "running_ok H" and w: "wi \<in> set (h_items H)"
    and prior: "tk \<and> prior \<noteq> [] \<Longrightarrow> wi_current wi = Some prior"
    and grant: "claim_grant sha now newID wi req ca locks tk prior H = Inr (H', r)"
  shows "running_ok H'"
  using grant
proof (cases rule: claim_grant_Inr)
  case (1 H1 H2 H3 H4)
  let ?i = "wi_id wi" and ?new = "new_attempt sha now newID wi req ca prior"
  let ?H5 = "update_item ?i (\<lambda>w. w\<lparr>wi_status := Running, wi_current := Some newID, wi_epoch := wi_epoch wi + 1\<rparr>) H4"
  have "touches ?i H H1"
    unfolding 1(1) using current_of_item [OF inv(1) w prior] by (auto intro: claim_supersede_touches)
  also have "touches ?i H1 H2" by (rule touches_insert [OF 1(2)])
  also have "touches ?i H2 H3" by (rule touches_same) (simp_all add: 1(3))
  also have "touches ?i H3 H4" by (rule touches_locks [OF acquire_all_frame [OF 1(4)]])
  also have "touches ?i H4 ?H5" by (rule touches_update_item) simp
  finally have 5: "touches ?i H ?H5" .
  have H': "h_attempts H' = h_attempts ?H5"
    "h_items H' = h_items ?H5 \<or>
     h_items H' = update_where (\<lambda>w. wi_id w = ?i) (\<lambda>w. w\<lparr>wi_rhs := Some defaultRequiresHumanSession\<rparr>) (h_items ?H5)"
    unfolding 1(5) claim_classify_def by (simp_all add: update_item_def)
  have "touches ?i ?H5 H'"
    using H'(2) touches_same [OF _ H'(1)] touches_items [OF H'(1)] by fastforce
  with 5 have t: "touches ?i H H'" by (rule touches_trans)
  have new: "?new \<in> set (h_attempts H')"
    using insert_attempt_Inr(1) [OF 1(2)] same_but_locksD(2) [OF acquire_all_frame [OF 1(4)]]
    by (simp add: H'(1) 1(3))
  show ?thesis
  proof (rule running_ok_touches [OF inv(2) t])
    fix w' assume w': "w' \<in> set (h_items H')" "wi_id w' = ?i"
    then have "wi_current w' = Some newID"
      using H'(2) by (auto simp: set_update_where update_item_def split: if_splits)
    with new show "\<exists>a \<in> set (h_attempts H'). wi_current w' = Some (ra_id a) \<and> ra_status a = ARunning \<and> ra_wi a = ?i"
      by (intro bexI [of _ ?new]) (simp_all add: new_attempt_def)
  qed
qed

lemma takeover_displace_touches:
  assumes "\<And>a. a \<in> set (h_attempts H) \<Longrightarrow> ra_id a = tc_prior tc \<Longrightarrow> ra_wi a = i"
  shows "touches i H (takeover_displace now scID tc req ca H)"
proof -
  let ?H1 = "case step_of H (wi_id (tc_wi tc)) of None \<Rightarrow> H
     | Some st \<Rightarrow> if ss_status st = SInProgress
         then fnForceTerminateStep scID (wi_id (tc_wi tc)) (tc_prior tc) (ss_attempt st) H else H"
  have atts: "h_attempts ?H1 = h_attempts H"
    by (auto simp: fnForceTerminateStep_def Let_def split: option.splits)
  have "touches i H ?H1" by (rule edits_touches) (auto split: option.splits intro: fnForceTerminateStep_edits)
  also have "touches i ?H1 (update_attempt (tc_prior tc) (\<lambda>a. a\<lparr>ra_status := ASuperseded, ra_ended := Some now\<rparr>) ?H1)"
    by (rule touches_update_attempt) (simp add: atts assms)
  also have "touches i \<dots> (takeover_displace now scID tc req ca H)"
    unfolding takeover_displace_def Let_def by (rule touches_same) simp_all
  finally show ?thesis .
qed

lemma takeover_apply_running:
  assumes inv: "running_ok H"
    and prior: "\<And>a. a \<in> set (h_attempts H) \<Longrightarrow> ra_id a = tc_prior tc \<Longrightarrow> ra_wi a = wi_id (tc_wi tc)"
    and ok: "takeover_apply sha now newID gen scID tc req ca H = Inr H'"
  shows "running_ok H'"
  using ok
proof (cases rule: takeover_apply_Inr)
  case (1 pairs H1 H2)
  let ?i = "wi_id (tc_wi tc)" and ?new = "takeover_attempt sha now newID gen tc req ca"
  have "touches ?i H (takeover_displace now scID tc req ca H)"
    by (rule takeover_displace_touches [OF prior])
  also have "touches ?i (takeover_displace now scID tc req ca H) H1" by (rule touches_insert [OF 1(3)])
  also have "touches ?i H1 H2" by (rule touches_locks [OF acquire_all_frame [OF 1(4)]])
  also have "touches ?i H2 H'" unfolding 1(5) by (rule touches_update_item) simp
  finally have t: "touches ?i H H'" .
  have new: "?new \<in> set (h_attempts H')"
    using insert_attempt_Inr(1) [OF 1(3)] same_but_locksD(2) [OF acquire_all_frame [OF 1(4)]] by (simp add: 1(5))
  show ?thesis
  proof (rule running_ok_touches [OF inv t])
    fix w' assume w': "w' \<in> set (h_items H')" "wi_id w' = ?i"
    then have "wi_current w' = Some newID" by (auto simp: 1(5) set_update_where update_item_def split: if_splits)
    with new show "\<exists>a \<in> set (h_attempts H'). wi_current w' = Some (ra_id a) \<and> ra_status a = ARunning \<and> ra_wi a = ?i"
      by (intro bexI [of _ ?new]) (simp_all add: takeover_attempt_def)
  qed
qed

lemma edits_not_running:
  assumes "edits H H'" "\<And>w. w \<in> set (h_items H) \<Longrightarrow> wi_id w = i \<Longrightarrow> wi_status w \<noteq> Running"
  shows "w \<in> set (h_items H') \<Longrightarrow> wi_id w = i \<Longrightarrow> wi_status w \<noteq> Running"
  using assms(1)
proof (induction arbitrary: w rule: rtranclp_induct)
  case (step K K')
  from step.hyps(2) show ?case
  proof (cases rule: edit.cases)
    case (edit_items P f)
    from step.prems(1) obtain x where x: "x \<in> set (h_items K)" "w = (if P x then f x else x)"
      by (auto simp: edit_items(1) set_update_where)
    with edit_items(2) [of x] step.prems(2) have "wi_id x = i" "wi_status w = Running \<Longrightarrow> wi_status x = Running"
      by (auto split: if_splits)
    with step.IH [OF x(1)] show ?thesis by blast
  qed (use step in simp_all)
qed (use assms(2) in blast)

lemma update_item_status:
  assumes "w \<in> set (h_items (update_item i (\<lambda>w. w\<lparr>wi_status := st\<rparr>) K))" "wi_id w = i"
  shows "wi_status w = st"
proof -
  have "w \<in> (\<lambda>w. if wi_id w = i then w\<lparr>wi_status := st\<rparr> else w) ` set (h_items K)"
    using assms(1) by (simp add: update_item_def set_update_where)
  then obtain x where "w = (if wi_id x = i then x\<lparr>wi_status := st\<rparr> else x)" by (rule imageE)
  with assms(2) show ?thesis by (cases "wi_id x = i") simp_all
qed

lemma complete_commit_running:
  assumes inv: "hub_inv H" "running_ok H" and w: "wi_id wi = i"
    and att: "\<And>a. a \<in> set (h_attempts H) \<Longrightarrow> ra_id a = cq_attempt req \<Longrightarrow> ra_wi a = i"
  shows "running_ok (complete_commit now wi req H)"
proof -
  let ?H1 = "complete_update_attempt now req H"
  let ?H2 = "complete_release req ?H1"
  let ?H3 = "update_item i (\<lambda>w. w\<lparr>wi_status := wi_status_of (cq_status req)\<rparr>) ?H2"
  have "touches i H ?H1" unfolding complete_update_attempt_def by (rule touches_update_attempt [OF att])
  also have "touches i ?H1 ?H2" unfolding complete_release_def by (auto intro: touches_locks releaseLocks_frame)
  also have "touches i ?H2 ?H3" by (rule touches_update_item) simp
  finally have 3: "touches i H ?H3" .
  have "edits ?H3 (emit_event (attemptCompletedEvent wi req) ?H3)"
    by (rule edits_emit [OF edits_refl]) (simp add: attemptCompletedEvent_def)
  then have e: "edits ?H3 (complete_commit now wi req H)"
    unfolding complete_commit_def Let_def w expire_methodology_def
    by (simp add: edits_tables(4) unblockDependentWI_edits)
  have no: "wi_status w' \<noteq> Running" if "w' \<in> set (h_items ?H3)" "wi_id w' = i" for w'
    using update_item_status [OF that] by (simp add: wi_status_of_def)
  show ?thesis
    by (rule running_ok_touches [OF inv(2) touches_trans [OF 3 edits_touches [OF e]]])
       (use edits_not_running [OF e no] in blast)
qed

lemma FnCompleteAttempt_running:
  assumes inv: "hub_inv H" "running_ok H" and ok: "FnCompleteAttempt sha now scID wiID req roles role H = Inr H'"
  shows "running_ok H'"
  using ok
proof (cases rule: FnCompleteAttempt_Inr)
  case (1 wi H1 H2)
  have e: "edits H H2" by (rule complete_step_phase_edits [OF 1(5) verify_edits [OF 1(4) edits_refl]])
  have inv2: "hub_inv H2" by (rule keeps_cores_inv [OF edits_keeps_cores [OF e] inv(1)])
  have core: "map attempt_core (h_attempts H2) = map attempt_core (h_attempts H)"
    using edits_keeps_cores [OF e] by (simp only: keeps_cores_def)
  have att: "ra_wi a = wi_id wi" if a: "a \<in> set (h_attempts H2)" "ra_id a = cq_attempt req" for a
  proof -
    have "attempt_core a \<in> set (map attempt_core (h_attempts H))" unfolding core [symmetric] using a(1) by simp
    then obtain b where "b \<in> set (h_attempts H)" "attempt_core b = attempt_core a" by auto
    with current_of_item [OF inv(1) _ verifyAttemptCredential_Inr(1) [OF 1(4)], of b] item_by_id_Some [OF 1(2)] a(2)
    show ?thesis by simp
  qed
  show ?thesis unfolding 1(6)
    by (rule complete_commit_running [OF inv2 edits_running_ok [OF e inv(2,1)] refl att])
qed

lemma CancelWorkItem_running:
  assumes inv: "running_ok H" and ok: "CancelWorkItem now ref user role roles H = Inr H'"
  shows "running_ok H'"
  using ok
proof (cases rule: CancelWorkItem_Inr)
  case (1 wi locked)
  let ?i = "wi_id wi" and ?f = "\<lambda>a. a\<lparr>ra_status := ACancelled, ra_ended := Some now\<rparr>"
  let ?P = "\<lambda>a. ra_wi a = ?i \<and> is_live (ra_status a)"
  let ?H1 = "update_item ?i (\<lambda>w. w\<lparr>wi_status := Cancelled\<rparr>) H"
  let ?H2 = "?H1\<lparr>h_attempts := update_where ?P ?f (h_attempts ?H1)\<rparr>"
  have "touches ?i H ?H1" by (rule touches_update_item) simp
  also have "touches ?i ?H1 ?H2" by (rule touches_attempts [where P = ?P and f = ?f]) simp_all
  also have "touches ?i ?H2 H'"
    unfolding 1(6) cancel_commit_def Let_def by (rule touches_locks [OF releaseLocks_frame])
  finally have t: "touches ?i H H'" .
  have items: "h_items H' = h_items ?H1" by (simp add: 1(6) cancel_commit_def Let_def)
  show ?thesis
    by (rule running_ok_touches [OF inv t]) (auto simp: items dest: update_item_status)
qed

lemma hub_tx_running:
  assumes "hub_tx sha ok H H'" "hub_inv H" "running_ok H"
  shows "running_ok H'"
  using assms(1)
proof (cases rule: hub_tx_Inr)
  case edits
  then show ?thesis using edits_running_ok assms(2,3) by blast
next
  case (claim now newID ref req ca r)
  from claim(1) show ?thesis
  proof (cases rule: FnClaimWorkItem_Inr)
    case (fresh wi tk prior pairs)
    show ?thesis
      by (rule claim_grant_running [OF assms(2,3) _ _ fresh(7)])
         (use item_by_ref_Some [OF fresh(1)] claim_gate_prior(2) [OF fresh(3)] in simp_all)
  qed (use assms(3) in simp)
next
  case complete
  then show ?thesis by (rule FnCompleteAttempt_running [OF assms(2,3)])
next
  case cancel
  then show ?thesis by (rule CancelWorkItem_running [OF assms(3)])
next
  case (locks now ref ac lr)
  then show ?thesis
  proof (cases rule: FnAcquireLocks_Inr)
    case (1 wi declared H1 acquired)
    have "running_ok H1" by (rule edits_running_ok [OF verify_edits [OF 1(3) edits_refl] assms(3,2)])
    then show ?thesis
      using acquire_loop_adds_own [OF 1(5)] by (simp add: adds_own_def same_but_locks_def running_ok_def)
  qed
qed

section \<open>The invariant of the running system\<close>

definition status_inv :: "hub_sys \<Rightarrow> bool" where
  "status_inv s \<longleftrightarrow> sys_inv s \<and> running_ok (hs_hub s) \<and>
     (\<forall>(tc, req, ca) \<in> set (hs_takeovers s). \<exists>e. attempt_issued s (tc_prior tc) (wi_id (tc_wi tc)) e)"

lemma issued_item:
  assumes "hub_inv (hs_hub s)" "attempt_issued s att i e" "a \<in> set (h_attempts (hs_hub s))" "ra_id a = att"
  shows "ra_wi a = i"
proof -
  from assms(2) obtain b where "b \<in> set (h_attempts (hs_hub s))" "ra_id b = att" "ra_wi b = i"
    by (auto simp: attempt_issued_def)
  with attempt_unique [OF assms(1,3)] assms(4) show ?thesis by simp
qed

lemma takeover_read_prior_issued:
  assumes "hub_inv (hs_hub s)" "takeover_read (hs_hub s) ref req ca role roles = Inr tc"
  shows "\<exists>e. attempt_issued s (tc_prior tc) (wi_id (tc_wi tc)) e"
proof -
  note R = takeover_read_Inr [OF assms(2)]
  from hub_inv_current [OF assms(1) conjunct1 [OF item_by_ref_Some [OF R(1)]] R(3)] obtain a where
    "a \<in> set (h_attempts (hs_hub s))" "ra_id a = tc_prior tc" "ra_wi a = wi_id (tc_wi tc)" .
  then have "attempt_issued s (tc_prior tc) (wi_id (tc_wi tc)) (ra_epoch a)"
    unfolding attempt_issued_def set_map by (intro image_eqI [of _ _ a]) simp_all
  then show ?thesis ..
qed

lemma sys_step_running:
  assumes st: "sys_step sha ok s t" and inv: "status_inv s"
  shows "running_ok (hs_hub t)"
  using st
proof (cases rule: sys_step.cases)
  case (sys_tx H')
  with inv hub_tx_running show ?thesis by (fastforce simp: status_inv_def sys_inv_def)
next
  case (sys_takeover_apply tc req ca now newID gen scID H')
  with inv obtain e where "attempt_issued s (tc_prior tc) (wi_id (tc_wi tc)) e" by (auto simp: status_inv_def)
  with inv have "ra_wi a = wi_id (tc_wi tc)" if "a \<in> set (h_attempts (hs_hub s))" "ra_id a = tc_prior tc" for a
    using issued_item that by (auto simp: status_inv_def sys_inv_def)
  with takeover_apply_running [OF _ _ sys_takeover_apply(3)] inv sys_takeover_apply(1) show ?thesis
    by (auto simp: status_inv_def)
next
  case (sys_edge_insert dreq project user)
  with edits_running_ok [OF create_dependency_insert_edits] inv show ?thesis
    by (auto simp: status_inv_def sys_inv_def)
qed (use inv in \<open>auto simp: status_inv_def\<close>)

lemma sys_step_status:
  assumes st: "sys_step sha ok s t" and inv: "status_inv s"
  shows "status_inv t"
proof -
  have s: "sys_inv s" using inv by (simp add: status_inv_def)
  have "\<exists>e. attempt_issued t (tc_prior tc) (wi_id (tc_wi tc)) e"
    if tc: "(tc, req, ca) \<in> set (hs_takeovers t)" for tc req ca
  proof -
    have old: ?thesis if "(tc, req, ca) \<in> set (hs_takeovers s)"
      using that inv hub_fence.issued_mono [OF st s] by (fastforce simp: status_inv_def)
    from st show ?thesis
    proof (cases rule: sys_step.cases)
      case (sys_takeover_read ref req' ca' role roles tc')
      with tc consider "tc = tc'" | "(tc, req, ca) \<in> set (hs_takeovers s)" by auto
      then show ?thesis
      proof cases
        case 1
        with sys_takeover_read takeover_read_prior_issued [of s] s
        show ?thesis by (fastforce simp: sys_inv_def attempt_issued_def)
      qed (rule old)
    qed (use tc old in auto)
  qed
  with sys_step_running [OF assms] sys_step_inv [OF st s] show ?thesis by (auto simp: status_inv_def)
qed

lemma sys_init_status: "sys_init s \<Longrightarrow> status_inv s"
  using sys_init_inv [of s] by (auto simp: status_inv_def sys_init_def initial_hub_def running_ok_def)

interpretation hub_status: step_system sys_init "sys_step sha ok" status_inv for sha ok
  by unfold_locales (fact sys_init_status, fact sys_step_status)

section \<open>An attempt ends once\<close>

definition aged :: "attempt_status \<Rightarrow> attempt_status \<Rightarrow> bool" where
  "aged st st' \<longleftrightarrow> (st' = ARunning \<longrightarrow> st = ARunning) \<and> (is_live st' \<longrightarrow> is_live st)"

definition ages :: "hub \<Rightarrow> hub \<Rightarrow> bool" where
  "ages H H' \<longleftrightarrow> ra_id ` set (h_attempts H) \<subseteq> ra_id ` set (h_attempts H') \<and>
     (\<forall>a' \<in> set (h_attempts H'). ra_id a' \<in> ra_id ` set (h_attempts H) \<longrightarrow>
        (\<exists>a \<in> set (h_attempts H). ra_id a = ra_id a' \<and> aged (ra_status a) (ra_status a')))"

lemma ages_refl [simp, intro!]: "ages H H"
  by (auto simp: ages_def aged_def)

lemma ages_trans [trans]:
  assumes "ages H H1" "ages H1 H2"
  shows "ages H H2"
  unfolding ages_def
proof (intro conjI ballI impI)
  show "ra_id ` set (h_attempts H) \<subseteq> ra_id ` set (h_attempts H2)"
    using assms unfolding ages_def by (meson order_trans)
  fix c assume c: "c \<in> set (h_attempts H2)" "ra_id c \<in> ra_id ` set (h_attempts H)"
  then have "ra_id c \<in> ra_id ` set (h_attempts H1)" using assms(1) unfolding ages_def by blast
  with c assms(2) obtain b where b: "b \<in> set (h_attempts H1)" "ra_id b = ra_id c" "aged (ra_status b) (ra_status c)"
    unfolding ages_def by blast
  with c assms(1) obtain a where "a \<in> set (h_attempts H)" "ra_id a = ra_id b" "aged (ra_status a) (ra_status b)"
    unfolding ages_def by metis
  with b show "\<exists>a \<in> set (h_attempts H). ra_id a = ra_id c \<and> aged (ra_status a) (ra_status c)"
    by (intro bexI [of _ a]) (auto simp: aged_def)
qed

lemma ages_same: "h_attempts H' = h_attempts H \<Longrightarrow> ages H H'"
  by (auto simp: ages_def aged_def)

lemma ages_locks: "same_but_locks H H' \<Longrightarrow> ages H H'"
  by (rule ages_same) (simp add: same_but_locks_def)

lemma ages_update:
  assumes "h_attempts H' = update_where P f (h_attempts H)"
    and f: "\<And>a. a \<in> set (h_attempts H) \<Longrightarrow> P a \<Longrightarrow> ra_id (f a) = ra_id a \<and> aged (ra_status a) (ra_status (f a))"
  shows "ages H H'"
proof -
  let ?g = "\<lambda>a. if P a then f a else a"
  have g: "ra_id (?g a) = ra_id a \<and> aged (ra_status a) (ra_status (?g a))" if "a \<in> set (h_attempts H)" for a
    using that f by (simp add: aged_def)
  have H': "set (h_attempts H') = ?g ` set (h_attempts H)" by (simp add: assms(1) set_update_where)
  show ?thesis
    unfolding ages_def H'
  proof (intro conjI subsetI ballI impI)
    fix i assume "i \<in> ra_id ` set (h_attempts H)"
    then obtain a where a: "a \<in> set (h_attempts H)" "i = ra_id a" by blast
    show "i \<in> ra_id ` ?g ` set (h_attempts H)"
      by (rule image_eqI [OF _ imageI [OF a(1)]]) (simp only: conjunct1 [OF g [OF a(1)]] a(2))
  next
    fix a' assume "a' \<in> ?g ` set (h_attempts H)"
    then obtain a where a: "a \<in> set (h_attempts H)" "a' = ?g a" by blast
    show "\<exists>a \<in> set (h_attempts H). ra_id a = ra_id a' \<and> aged (ra_status a) (ra_status a')"
      by (rule bexI [OF _ a(1)]) (simp only: a(2) g [OF a(1)] simp_thms)
  qed
qed

lemma ages_update_attempt:
  assumes "\<And>a. a \<in> set (h_attempts H) \<Longrightarrow> ra_id a = i \<Longrightarrow> ra_id (f a) = ra_id a \<and> aged (ra_status a) (ra_status (f a))"
  shows "ages H (update_attempt i f H)"
  by (rule ages_update [where P = "\<lambda>a. ra_id a = i" and f = f]) (simp_all add: update_attempt_def assms)

lemma ages_insert:
  assumes "insert_attempt a H = Inr H'"
  shows "ages H H'"
  unfolding ages_def insert_attempt_Inr(1) [OF assms]
  using insert_attempt_Inr(2) [OF assms] by (auto simp: aged_def)

lemma edit_ages: "edit H H' \<Longrightarrow> ages H H'"
proof (induction rule: edit.induct)
  case (edit_attempts f H P)
  then show ?case by (intro ages_update [where P = P and f = f]) (auto simp: aged_def)
qed (auto intro: ages_same)

lemma edits_ages: "edits H H' \<Longrightarrow> ages H H'"
  by (induction rule: rtranclp_induct) (auto intro: edit_ages ages_trans)

lemma claim_grant_ages:
  assumes "claim_grant sha now newID wi req ca locks tk prior H = Inr (H', r)"
  shows "ages H H'"
  using assms
proof (cases rule: claim_grant_Inr)
  case (1 H1 H2 H3 H4)
  have "ages H (claim_supersede now ca prior H)"
    unfolding claim_supersede_def
    by (rule ages_trans [OF ages_update_attempt ages_locks [OF releaseLocks_frame]]) (simp add: aged_def)
  then have "ages H H1" unfolding 1(1) by simp
  also have "ages H1 H2" by (rule ages_insert [OF 1(2)])
  also have "ages H2 H3" by (rule ages_same) (simp add: 1(3))
  also have "ages H3 H4" by (rule ages_locks [OF acquire_all_frame [OF 1(4)]])
  also have "ages H4 H'" unfolding 1(5) claim_classify_def by (rule ages_same) simp
  finally show ?thesis .
qed

lemma takeover_apply_ages:
  assumes "takeover_apply sha now newID gen scID tc req ca H = Inr H'"
  shows "ages H H'"
  using assms
proof (cases rule: takeover_apply_Inr)
  case (1 pairs H1 H2)
  let ?K = "case step_of H (wi_id (tc_wi tc)) of None \<Rightarrow> H
     | Some st \<Rightarrow> if ss_status st = SInProgress
         then fnForceTerminateStep scID (wi_id (tc_wi tc)) (tc_prior tc) (ss_attempt st) H else H"
  let ?L = "update_attempt (tc_prior tc) (\<lambda>a. a\<lparr>ra_status := ASuperseded, ra_ended := Some now\<rparr>) ?K"
  have "ages H ?K" by (rule edits_ages) (auto split: option.splits intro: fnForceTerminateStep_edits)
  also have "ages ?K ?L" by (rule ages_update_attempt) (simp add: aged_def)
  also have "ages ?L (takeover_displace now scID tc req ca H)"
    unfolding takeover_displace_def Let_def by (rule ages_same) simp
  also have "ages \<dots> H1" by (rule ages_insert [OF 1(3)])
  also have "ages H1 H2" by (rule ages_locks [OF acquire_all_frame [OF 1(4)]])
  also have "ages H2 H'" unfolding 1(5) by (rule ages_same) simp
  finally show ?thesis .
qed

lemma FnCompleteAttempt_ages:
  assumes inv: "hub_inv H" and ok: "FnCompleteAttempt sha now scID wiID req roles role H = Inr H'"
  shows "ages H H'"
  using ok
proof (cases rule: FnCompleteAttempt_Inr)
  case (1 wi H1 H2)
  have e: "edits H H2" by (rule complete_step_phase_edits [OF 1(5) verify_edits [OF 1(4) edits_refl]])
  from verifyAttemptCredential_Inr(3) [OF 1(4)] obtain a where
    a: "a \<in> set (h_attempts H)" "ra_id a = cq_attempt req" "ra_status a = ARunning"
    by (auto dest: attempt_by_id_Some)
  have run: "ra_status b = ARunning" if "b \<in> set (h_attempts H)" "ra_id b = cq_attempt req" for b
    using attempt_unique [OF inv that(1) a(1)] a that by simp
  have "ra_status b = ARunning" if "b \<in> set (h_attempts H2)" "ra_id b = cq_attempt req" for b
    by (rule edits_running [of H H2 "cq_attempt req" "\<lambda>st. st = ARunning"]) (use e run that in simp_all)
  then have "ages H2 (complete_update_attempt now req H2)"
    unfolding complete_update_attempt_def by (intro ages_update_attempt) (simp add: aged_def)
  also have "ages \<dots> H'"
    unfolding 1(6) complete_commit_def complete_release_def expire_methodology_def Let_def
    by (rule ages_same) simp
  finally show ?thesis using ages_trans [OF edits_ages [OF e]] by blast
qed

lemma hub_tx_ages:
  assumes "hub_tx sha ok H H'" "hub_inv H"
  shows "ages H H'"
  using assms(1)
proof (cases rule: hub_tx_Inr)
  case edits
  then show ?thesis by (rule edits_ages)
next
  case (claim now newID ref req ca r)
  from claim(1) show ?thesis by (cases rule: FnClaimWorkItem_Inr) (auto intro: claim_grant_ages)
next
  case complete
  then show ?thesis by (rule FnCompleteAttempt_ages [OF assms(2)])
next
  case (cancel now ref user role roles)
  then show ?thesis
  proof (cases rule: CancelWorkItem_Inr)
    case (1 wi locked)
    show ?thesis unfolding 1(6) cancel_commit_def Let_def
      by (rule ages_update [where P = "\<lambda>a. ra_wi a = wi_id wi \<and> is_live (ra_status a)"
          and f = "\<lambda>a. a\<lparr>ra_status := ACancelled, ra_ended := Some now\<rparr>"]) (simp_all add: aged_def)
  qed
next
  case (locks now ref ac lr)
  then show ?thesis
  proof (cases rule: FnAcquireLocks_Inr)
    case (1 wi declared H1 acquired)
    show ?thesis
      by (rule ages_trans [OF edits_ages [OF verify_edits [OF 1(3) edits_refl]] ages_locks])
         (use acquire_loop_adds_own [OF 1(5)] in \<open>simp add: adds_own_def\<close>)
  qed
qed

lemma sys_step_ages: "sys_step sha ok s t \<Longrightarrow> sys_inv s \<Longrightarrow> ages (hs_hub s) (hs_hub t)"
  by (cases rule: sys_step.cases)
     (auto simp: sys_inv_def intro: hub_tx_ages takeover_apply_ages edits_ages [OF create_dependency_insert_edits])

lemma sys_steps_ages: "(sys_step sha ok)\<^sup>*\<^sup>* s t \<Longrightarrow> sys_inv s \<Longrightarrow> ages (hs_hub s) (hs_hub t)"
  by (rule hub_run.steps_relate [where R = "\<lambda>s t. ages (hs_hub s) (hs_hub t)"])
     (auto intro: sys_step_ages ages_trans)

end
