(* ===== verification/Attempt_Effects.thy ===== *)
theory Attempt_Effects
  imports Attempt_Status
begin

text \<open>
  What each operation of the attempt lifecycle does, in full, to the lock table, the work
  items and the attempts, in every reachable state: completion, claim, forced takeover,
  cancellation, mid-attempt locks and the orphan sweep. The lemmas give each operation's
  effect as one equation per table; the properties read them in the reachable states.
\<close>

section \<open>Completion\<close>

definition released_by :: "complete_request \<Rightarrow> resource_lock \<Rightarrow> bool" where
  "released_by req l \<longleftrightarrow>
     rl_owner l = cq_attempt req \<and> (cq_status req = ''paused'' \<longrightarrow> rl_type l = ''file_scope'')"

lemma complete_commit_locks:
  "h_locks (complete_commit now wi req H) = filter (\<lambda>l. \<not> released_by req l) (h_locks H)"
  by (simp add: complete_commit_def complete_release_def complete_update_attempt_def expire_methodology_def
      Let_def releaseLocks_locks delete_where_def released_by_def lockDeleteByAttempt_def
      acquireLocksReleasePaused_def cong: filter_cong)

lemma complete_commit_attempts:
  "map (\<lambda>a. (ra_id a, ra_status a)) (h_attempts (complete_commit now wi req H)) =
   map (\<lambda>a. (ra_id a, if ra_id a = cq_attempt req then attempt_status_of (cq_status req) else ra_status a))
     (h_attempts H)"
  by (simp add: complete_commit_def complete_release_def complete_update_attempt_def expire_methodology_def
      Let_def update_attempt_def update_where_def)

lemma active_blocker_exclude:
  assumes "wi \<noteq> []" "h_deps H' = h_deps H"
    and "h_items H' = update_where (\<lambda>w. wi_id w = wi) (\<lambda>w. w\<lparr>wi_status := st\<rparr>) (h_items H)"
  shows "active_blocker H' b wi = active_blocker H b wi"
proof -
  have "row_exists (\<lambda>v. wi_id v = i \<and> \<not> is_terminal (wi_status v)) (h_items H') \<longleftrightarrow>
        row_exists (\<lambda>v. wi_id v = i \<and> \<not> is_terminal (wi_status v)) (h_items H)" if "i \<noteq> wi" for i
    using that by (auto simp: assms(3) row_exists_iff set_update_where)
  with assms(1) show ?thesis
    unfolding active_blocker_def assms(2) row_exists_iff [of _ "h_deps H"] by blast
qed

definition completed_status :: "hub \<Rightarrow> string \<Rightarrow> complete_request \<Rightarrow> work_item \<Rightarrow> wi_status" where
  "completed_status H wiID req w =
     (if wi_id w = wiID then wi_status_of (cq_status req)
      else if cq_status req \<noteq> ''paused'' \<and> unblocked_by H wiID w then Queued
      else wi_status w)"

lemma expire_items: "h_items (expire_methodology now i H) = h_items H"
  by (simp add: expire_methodology_def)

lemma complete_commit_items:
  assumes "wi_id wi \<noteq> []" "complete_validate req = None"
  shows "map (\<lambda>w. (wi_id w, wi_status w)) (h_items (complete_commit now wi req H)) =
    map (\<lambda>w. (wi_id w, completed_status H (wi_id wi) req w)) (h_items H)"
proof -
  let ?f = "\<lambda>w. w\<lparr>wi_status := wi_status_of (cq_status req)\<rparr>"
  let ?H3 = "update_item (wi_id wi) ?f (complete_release req (complete_update_attempt now req H))"
  let ?H4 = "emit_event (attemptCompletedEvent wi req) ?H3"
  have items: "h_items ?H4 = update_where (\<lambda>w. wi_id w = wi_id wi) ?f (h_items H)" "h_deps ?H4 = h_deps H"
    by (simp_all add: update_item_def emit_event_def complete_release_def complete_update_attempt_def
        update_attempt_def same_but_locksD(5) [OF releaseLocks_frame])
  have st: "cq_status req \<in> {''wrapped'', ''failed'', ''paused''}"
    using assms(2) by (auto simp: complete_validate_def Let_def split: if_splits)
  have unb: "unblocked_by ?H4 (wi_id wi) = unblocked_by H (wi_id wi)"
    by (intro ext) (unfold unblocked_by_def items(2) active_blocker_exclude [OF assms(1) items(2,1)], rule refl)
  let ?unblocked = "update_where (unblocked_by H (wi_id wi)) (\<lambda>w. w\<lparr>wi_status := Queued\<rparr>) (h_items ?H4)"
  have "complete_commit now wi req H = (if cq_status req = ''wrapped'' \<or> cq_status req = ''failed''
    then expire_methodology now (wi_id wi) (unblockDependentWI (wi_id wi) (wi_project wi) ?H4) else ?H4)"
    by (simp only: complete_commit_def Let_def)
  moreover have "h_items (expire_methodology now (wi_id wi) (unblockDependentWI (wi_id wi) (wi_project wi) ?H4)) = ?unblocked"
    unfolding unb [symmetric] by (simp only: expire_items unblockDependentWI_items)
  ultimately have all: "h_items (complete_commit now wi req H) =
      (if cq_status req \<noteq> ''paused'' then ?unblocked else h_items ?H4)"
    using st by (cases "cq_status req = ''paused''") (simp_all only: insert_iff empty_iff simp_thms if_True if_False, auto)
  have not_blocked: "\<not> unblocked_by H (wi_id wi) (?f w)" for w
    by (simp add: unblocked_by_def wi_status_of_def)
  show ?thesis
    unfolding all items(1) using not_blocked by (simp add: update_where_def completed_status_def)
qed

lemma edits_attempt_status:
  "edits H H' \<Longrightarrow> map (\<lambda>a. (ra_id a, ra_status a)) (h_attempts H') = map (\<lambda>a. (ra_id a, ra_status a)) (h_attempts H)"
proof (induction rule: rtranclp_induct)
  case (step K K')
  from step.hyps(2) have "map (\<lambda>a. (ra_id a, ra_status a)) (h_attempts K') = map (\<lambda>a. (ra_id a, ra_status a)) (h_attempts K)"
    by (cases rule: edit.cases) (simp_all add: map_update_where_frame del: map_eq_conv)
  with step.IH show ?case by simp
qed simp

text \<open>The credential check and the step phase leave items, locks and dependencies alone.\<close>

lemma complete_prelude:
  assumes "verifyAttemptCredential sha now wi att e secret H = Inr H1" "complete_step_phase scID i req H1 = Inr H2"
  shows "h_items H2 = h_items H" "h_locks H2 = h_locks H" "h_deps H2 = h_deps H"
    "map (\<lambda>a. (ra_id a, ra_status a)) (h_attempts H2) = map (\<lambda>a. (ra_id a, ra_status a)) (h_attempts H)"
proof -
  note V = verifyAttemptCredential_Inr(2) [OF assms(1)]
  show "h_items H2 = h_items H" "h_locks H2 = h_locks H" "h_deps H2 = h_deps H"
    using assms(2) unfolding V
    by (auto simp: complete_step_phase_def fnForceTerminateStep_def Let_def split: option.splits if_splits)
  show "map (\<lambda>a. (ra_id a, ra_status a)) (h_attempts H2) = map (\<lambda>a. (ra_id a, ra_status a)) (h_attempts H)"
    by (rule edits_attempt_status [OF complete_step_phase_edits [OF assms(2) verify_edits [OF assms(1) edits_refl]]])
qed

lemma unblocked_by_cong: "h_items H' = h_items H \<Longrightarrow> h_deps H' = h_deps H \<Longrightarrow> unblocked_by H' = unblocked_by H"
  by (intro ext) (simp add: unblocked_by_def active_blocker_def)

lemma FnCompleteAttempt_effect:
  assumes inv: "hub_inv H" and ok: "FnCompleteAttempt sha now scID wiID req roles role H = Inr H'"
  shows "h_locks H' = filter (\<lambda>l. \<not> released_by req l) (h_locks H)"
    "map (\<lambda>a. (ra_id a, ra_status a)) (h_attempts H') =
     map (\<lambda>a. (ra_id a, if ra_id a = cq_attempt req then attempt_status_of (cq_status req) else ra_status a)) (h_attempts H)"
    "map (\<lambda>w. (wi_id w, wi_status w)) (h_items H') = map (\<lambda>w. (wi_id w, completed_status H wiID req w)) (h_items H)"
proof -
  have "h_locks H' = filter (\<lambda>l. \<not> released_by req l) (h_locks H) \<and>
    map (\<lambda>a. (ra_id a, ra_status a)) (h_attempts H') =
     map (\<lambda>a. (ra_id a, if ra_id a = cq_attempt req then attempt_status_of (cq_status req) else ra_status a)) (h_attempts H) \<and>
    map (\<lambda>w. (wi_id w, wi_status w)) (h_items H') = map (\<lambda>w. (wi_id w, completed_status H wiID req w)) (h_items H)"
    using ok
  proof (cases rule: FnCompleteAttempt_Inr)
    case (1 wi H1 H2)
    note P = complete_prelude [OF 1(4,5)]
    have wi: "wi_id wi = wiID" "wi_id wi \<noteq> []"
      using item_by_id_Some [OF 1(2)] inv by (auto simp: hub_inv_def cores_ok_def)
    let ?g = "\<lambda>(i, st). (i, if i = cq_attempt req then attempt_status_of (cq_status req) else st)"
    have "map (\<lambda>a. (ra_id a, ra_status a)) (h_attempts H') = map ?g (map (\<lambda>a. (ra_id a, ra_status a)) (h_attempts H2))"
      unfolding 1(6) complete_commit_attempts by simp
    also have "\<dots> = map ?g (map (\<lambda>a. (ra_id a, ra_status a)) (h_attempts H))" by (simp only: P(4))
    finally have atts: "map (\<lambda>a. (ra_id a, ra_status a)) (h_attempts H') = map ?g (map (\<lambda>a. (ra_id a, ra_status a)) (h_attempts H))" .
    have "completed_status H2 wiID req = completed_status H wiID req"
      by (intro ext) (simp add: completed_status_def unblocked_by_cong [OF P(1,3)])
    with complete_commit_items [OF wi(2) 1(1), of now H2] have
      "map (\<lambda>w. (wi_id w, wi_status w)) (h_items H') = map (\<lambda>w. (wi_id w, completed_status H wiID req w)) (h_items H)"
      unfolding 1(6) wi(1) by (simp add: P(1))
    with atts show ?thesis by (simp add: 1(6) complete_commit_locks P(2))
  qed
  then show "h_locks H' = filter (\<lambda>l. \<not> released_by req l) (h_locks H)"
    "map (\<lambda>a. (ra_id a, ra_status a)) (h_attempts H') =
     map (\<lambda>a. (ra_id a, if ra_id a = cq_attempt req then attempt_status_of (cq_status req) else ra_status a)) (h_attempts H)"
    "map (\<lambda>w. (wi_id w, wi_status w)) (h_items H') = map (\<lambda>w. (wi_id w, completed_status H wiID req w)) (h_items H)"
    by blast+
qed

section \<open>Claim and takeover\<close>

lemma release_by_attempt_holder:
  assumes "lock_keys_unique H"
  shows "lock_holder (fst (releaseLocks (lockDeleteByAttempt att) op H)) k =
    (if lock_holder H k = Some att then None else lock_holder H k)"
  using hub_locks.drop_holder [OF assms, of op "\<lambda>k p. p = att" k]
  by (simp add: release_matching_def lockDeleteByAttempt_def [abs_def] split: option.splits)

definition claim_displaces :: "work_item \<Rightarrow> string \<Rightarrow> bool" where
  "claim_displaces wi att \<longleftrightarrow> wi_status wi = Running \<and> wi_current wi = Some att \<and> att \<noteq> []"

lemma claim_gate_displaces:
  assumes inv: "hub_inv H" and w: "wi \<in> set (h_items H)" and gate: "claim_gate H wi req ca = Inr (tk, prior)"
  shows "tk \<and> prior \<noteq> [] \<longleftrightarrow> (\<exists>p. claim_displaces wi p)" "tk \<and> prior \<noteq> [] \<Longrightarrow> claim_displaces wi p \<longleftrightarrow> p = prior"
proof -
  show one: "tk \<and> prior \<noteq> [] \<Longrightarrow> claim_displaces wi p \<longleftrightarrow> p = prior" for p
    using claim_gate_prior [OF gate] by (auto simp: claim_displaces_def)
  show "tk \<and> prior \<noteq> [] \<longleftrightarrow> (\<exists>p. claim_displaces wi p)"
  proof
    assume "\<exists>p. claim_displaces wi p"
    then obtain p where p: "wi_status wi = Running" "wi_current wi = Some p" "p \<noteq> []" by (auto simp: claim_displaces_def)
    from hub_inv_current [OF inv w p(2)] obtain a where "a \<in> set (h_attempts H)" "ra_id a = p" .
    with attempt_by_id_known [OF inv] have "attempt_by_id H p = Some a" by blast
    with gate p show "tk \<and> prior \<noteq> []" by (auto simp: claim_gate_def split: if_splits)
  qed (use one in blast)
qed

lemma claim_supersede_holder:
  assumes "lock_keys_unique H"
  shows "lock_keys_unique (claim_supersede now ca prior H)"
    "lock_holder (claim_supersede now ca prior H) k = (if lock_holder H k = Some prior then None else lock_holder H k)"
proof -
  let ?K = "update_attempt prior (\<lambda>a. a\<lparr>ra_status := ASuperseded, ra_ended := Some now\<rparr>) H"
  have K: "lock_keys_unique ?K" "lock_holder ?K = lock_holder H"
    using assms by (simp_all add: lock_keys_unique_def lock_holder_def fun_eq_iff)
  show "lock_keys_unique (claim_supersede now ca prior H)"
    unfolding claim_supersede_def by (rule lock_holder_release(1) [OF K(1)])
  show "lock_holder (claim_supersede now ca prior H) k = (if lock_holder H k = Some prior then None else lock_holder H k)"
    unfolding claim_supersede_def release_by_attempt_holder [OF K(1)] K(2) ..
qed

lemma lock_holder_cong: "h_locks H' = h_locks H \<Longrightarrow> lock_holder H' = lock_holder H \<and> lock_keys_unique H' = lock_keys_unique H"
  by (simp add: lock_holder_def lock_keys_unique_def fun_eq_iff)

abbreviation attempt_statuses :: "hub \<Rightarrow> (string \<times> attempt_status) list" where
  "attempt_statuses H \<equiv> map (\<lambda>a. (ra_id a, ra_status a)) (h_attempts H)"

abbreviation item_states :: "hub \<Rightarrow> (string \<times> wi_status \<times> string option \<times> int) list" where
  "item_states H \<equiv> map (\<lambda>w. (wi_id w, wi_status w, wi_current w, wi_epoch w)) (h_items H)"

lemma claim_grant_effect:
  assumes uniq: "lock_keys_unique H"
    and grant: "claim_grant sha now newID wi req ca locks tk prior H = Inr (H', r)"
  shows "lock_holder H' k = (if k \<in> req_key ` set locks then Some newID
      else if (tk \<and> prior \<noteq> []) \<and> lock_holder H k = Some prior then None else lock_holder H k)"
    "attempt_statuses H' = map (\<lambda>(i, st). (i, if (tk \<and> prior \<noteq> []) \<and> i = prior then ASuperseded else st)) (attempt_statuses H) @
      [(newID, ARunning)]"
    "item_states H' = map (\<lambda>(i, st, c, e). if i = wi_id wi then (i, Running, Some newID, wi_epoch wi + 1) else (i, st, c, e))
      (item_states H)"
proof -
  obtain H1 H2 H3 H4 where 1: "H1 = (if tk \<and> prior \<noteq> [] then claim_supersede now ca prior H else H)"
    "insert_attempt (new_attempt sha now newID wi req ca prior) H1 = Inr H2"
    "H3 = (if tk \<and> prior \<noteq> [] then emit_event (attemptSupersededEvent wi newID ca) H2 else H2)"
    "acquire_all locks newID (wi_epoch wi + 1) (wi_project wi) (wi_id wi)
       (withExtra (newLockOp ''claim'' (ca_user ca) (ca_display ca) (ca_api_key ca)) [(''is_takeover'', JBool tk)]) H3 = Inr H4"
    "H' = emit_event (attemptStartedEvent wi newID req ca tk (wi_epoch wi + 1)) (claim_classify wi ca
       (claim_step_upsert wi req (update_item (wi_id wi)
         (\<lambda>w. w\<lparr>wi_status := Running, wi_current := Some newID, wi_epoch := wi_epoch wi + 1\<rparr>) H4)))"
    using grant by (rule claim_grant_Inr)
  have H2: "h_locks H2 = h_locks H1" "h_items H2 = h_items H1"
    "h_attempts H2 = h_attempts H1 @ [new_attempt sha now newID wi req ca prior]"
    unfolding insert_attempt_Inr(1) [OF 1(2)] by simp_all
  have H3: "h_locks H3 = h_locks H1" "h_items H3 = h_items H1" "h_attempts H3 = h_attempts H2"
    by (simp_all add: 1(3) H2)
  note H4 = same_but_locksD(1,2) [OF acquire_all_frame [OF 1(4)]]
  have cl: "h_locks (claim_classify wi ca K) = h_locks K" "h_attempts (claim_classify wi ca K) = h_attempts K"
    "item_states (claim_classify wi ca K) = item_states K" for K
    by (simp_all add: claim_classify_def update_item_def map_update_where_frame)
  have uniq3: "lock_keys_unique H3"
    using uniq claim_supersede_holder(1) lock_holder_cong [OF H3(1)] by (simp add: 1(1))
  have "lock_holder H' k = lock_holder H4 k"
    using lock_holder_cong [of H' H4] by (simp add: 1(5) cl)
  also have "\<dots> = (if k \<in> req_key ` set locks then Some newID else lock_holder H1 k)"
    using acquire_all_holder [OF uniq3 1(4), of k] lock_holder_cong [OF H3(1)] by simp
  finally show "lock_holder H' k = (if k \<in> req_key ` set locks then Some newID
      else if (tk \<and> prior \<noteq> []) \<and> lock_holder H k = Some prior then None else lock_holder H k)"
    using claim_supersede_holder(2) [OF uniq] by (simp add: 1(1))
  have sup: "attempt_statuses (claim_supersede now ca prior H) =
      map (\<lambda>(i, st). (i, if i = prior then ASuperseded else st)) (attempt_statuses H)"
    by (simp add: claim_supersede_def update_attempt_def update_where_def)
  have "attempt_statuses H1 =
      map (\<lambda>(i, st). (i, if (tk \<and> prior \<noteq> []) \<and> i = prior then ASuperseded else st)) (attempt_statuses H)"
    using sup by (cases "tk \<and> prior \<noteq> []") (auto simp: 1(1))
  moreover have "attempt_statuses H' = attempt_statuses H1 @ [(newID, ARunning)]"
    by (simp add: 1(5) cl H4 H3 H2 new_attempt_def)
  ultimately show "attempt_statuses H' = map (\<lambda>(i, st). (i, if (tk \<and> prior \<noteq> []) \<and> i = prior then ASuperseded else st)) (attempt_statuses H) @
      [(newID, ARunning)]" by simp
  have "h_items H1 = h_items H" by (simp add: 1(1) claim_supersede_def)
  moreover have "item_states H' = item_states (update_item (wi_id wi)
      (\<lambda>w. w\<lparr>wi_status := Running, wi_current := Some newID, wi_epoch := wi_epoch wi + 1\<rparr>) H4)"
    unfolding 1(5) by (simp add: cl del: map_eq_conv)
  ultimately show "item_states H' = map (\<lambda>(i, st, c, e). if i = wi_id wi then (i, Running, Some newID, wi_epoch wi + 1) else (i, st, c, e))
      (item_states H)"
    by (simp add: update_item_def update_where_def H4 H3)
qed

lemma fnForceTerminateStep_rows [simp]:
  "h_items (fnForceTerminateStep sc i att sa H) = h_items H"
  "h_attempts (fnForceTerminateStep sc i att sa H) = h_attempts H"
  "h_locks (fnForceTerminateStep sc i att sa H) = h_locks H"
  by (simp_all add: fnForceTerminateStep_def Let_def split: option.splits)

lemma takeover_displace_effect:
  assumes uniq: "lock_keys_unique H"
  shows "lock_keys_unique (takeover_displace now scID tc req ca H)"
    "lock_holder (takeover_displace now scID tc req ca H) k =
      (if lock_holder H k = Some (tc_prior tc) then None else lock_holder H k)"
    "attempt_statuses (takeover_displace now scID tc req ca H) =
      map (\<lambda>(i, st). (i, if i = tc_prior tc then ASuperseded else st)) (attempt_statuses H)"
    "h_items (takeover_displace now scID tc req ca H) = h_items H"
proof -
  let ?H1 = "case step_of H (wi_id (tc_wi tc)) of None \<Rightarrow> H
     | Some st \<Rightarrow> if ss_status st = SInProgress
         then fnForceTerminateStep scID (wi_id (tc_wi tc)) (tc_prior tc) (ss_attempt st) H else H"
  let ?H2 = "update_attempt (tc_prior tc) (\<lambda>a. a\<lparr>ra_status := ASuperseded, ra_ended := Some now\<rparr>) ?H1"
  let ?H3 = "fst (releaseLocks (lockDeleteByAttempt (tc_prior tc)) (takeover_op tc req ca) ?H2)"
  have H1: "h_items ?H1 = h_items H" "h_attempts ?H1 = h_attempts H" "h_locks ?H1 = h_locks H"
    by (simp_all split: option.splits)
  have H2: "lock_holder ?H2 = lock_holder H" "lock_keys_unique ?H2"
    using lock_holder_cong [of ?H2 H] uniq by (simp_all add: H1(3))
  have D: "h_locks (takeover_displace now scID tc req ca H) = h_locks ?H3"
    "h_attempts (takeover_displace now scID tc req ca H) = h_attempts ?H2"
    "h_items (takeover_displace now scID tc req ca H) = h_items H"
    unfolding takeover_displace_def Let_def by (simp_all add: H1)
  show "lock_keys_unique (takeover_displace now scID tc req ca H)"
    using lock_holder_cong [OF D(1)] lock_holder_release(1) [OF H2(2)] by simp
  show "lock_holder (takeover_displace now scID tc req ca H) k =
      (if lock_holder H k = Some (tc_prior tc) then None else lock_holder H k)"
    unfolding conjunct1 [OF lock_holder_cong [OF D(1)]] release_by_attempt_holder [OF H2(2)] H2(1) ..
  show "attempt_statuses (takeover_displace now scID tc req ca H) =
      map (\<lambda>(i, st). (i, if i = tc_prior tc then ASuperseded else st)) (attempt_statuses H)"
    unfolding D(2) by (simp add: update_attempt_def update_where_def H1(2))
  show "h_items (takeover_displace now scID tc req ca H) = h_items H" by (rule D(3))
qed

lemma takeover_apply_effect:
  assumes uniq: "lock_keys_unique H"
    and ok: "takeover_apply sha now newID gen scID tc req ca H = Inr H'"
  defines "keys \<equiv> (\<lambda>q. req_key (fst q)) ` set (takeover_locks (wi_project (tc_wi tc)) (unmarshalDeclaredResources (wi_declared (tc_wi tc))))"
  shows "lock_holder H' k = (if k \<in> keys then Some newID
      else if lock_holder H k = Some (tc_prior tc) then None else lock_holder H k)"
    "attempt_statuses H' = map (\<lambda>(i, st). (i, if i = tc_prior tc then ASuperseded else st)) (attempt_statuses H) @
      [(newID, ARunning)]"
    "item_states H' = map (\<lambda>(i, st, c, e). if i = wi_id (tc_wi tc) then (i, Running, Some newID, wi_epoch (tc_wi tc) + 1)
      else (i, st, c, e)) (item_states H)"
proof -
  let ?K = "takeover_displace now scID tc req ca H"
  note K = takeover_displace_effect [OF uniq, of now scID tc req ca]
  obtain pairs H1 H2 where
    1: "pairs = takeover_locks (wi_project (tc_wi tc)) (unmarshalDeclaredResources (wi_declared (tc_wi tc)))"
    "insert_attempt (takeover_attempt sha now newID gen tc req ca) ?K = Inr H1"
    "acquire_all (map fst pairs) newID (wi_epoch (tc_wi tc) + 1) (wi_project (tc_wi tc)) (wi_id (tc_wi tc))
       (takeover_op tc req ca) H1 = Inr H2"
    "H' = update_item (wi_id (tc_wi tc))
       (\<lambda>w. w\<lparr>wi_status := Running, wi_current := Some newID, wi_epoch := wi_epoch (tc_wi tc) + 1\<rparr>) H2"
    using ok by (rule takeover_apply_Inr)
  have H1: "h_locks H1 = h_locks ?K" "h_items H1 = h_items H"
    "h_attempts H1 = h_attempts ?K @ [takeover_attempt sha now newID gen tc req ca]"
    unfolding insert_attempt_Inr(1) [OF 1(2)] by (simp_all add: K(4))
  note H2 = same_but_locksD(1,2) [OF acquire_all_frame [OF 1(3)]]
  have keys: "keys = req_key ` set (map fst pairs)" by (simp add: keys_def 1(1) image_image)
  have uniq1: "lock_keys_unique H1" using K(1) lock_holder_cong [OF H1(1)] by simp
  have "lock_holder H' k = lock_holder H2 k" using lock_holder_cong [of H' H2] by (simp add: 1(4))
  also have "\<dots> = (if k \<in> keys then Some newID else lock_holder ?K k)"
    using acquire_all_holder [OF uniq1 1(3), of k] lock_holder_cong [OF H1(1)] by (simp add: keys)
  finally show "lock_holder H' k = (if k \<in> keys then Some newID
      else if lock_holder H k = Some (tc_prior tc) then None else lock_holder H k)"
    by (simp add: K(2))
  show "attempt_statuses H' = map (\<lambda>(i, st). (i, if i = tc_prior tc then ASuperseded else st)) (attempt_statuses H) @
      [(newID, ARunning)]"
    by (simp add: 1(4) H2 H1 K(3) takeover_attempt_def del: map_map)
  show "item_states H' = map (\<lambda>(i, st, c, e). if i = wi_id (tc_wi tc) then (i, Running, Some newID, wi_epoch (tc_wi tc) + 1)
      else (i, st, c, e)) (item_states H)"
    by (simp add: 1(4) update_item_def update_where_def H2 H1)
qed

section \<open>Cancellation and the sweep\<close>

lemma CancelWorkItem_effect:
  assumes inv: "hub_inv H" and ok: "CancelWorkItem now ref user role roles H = Inr H'"
  obtains wi where "item_by_ref H ref = Some wi" "wi_status wi \<noteq> Running" "\<not> is_terminal (wi_status wi)"
    "wi_reporter wi = user \<or> role = ''admin'' \<or> roles (wi_project wi) = ''maintainer''"
    "h_locks H' = filter (\<lambda>l. \<not> (\<exists>a \<in> set (h_attempts H). ra_id a = rl_owner l \<and> ra_wi a = wi_id wi)) (h_locks H)"
    "map (\<lambda>a. (ra_id a, ra_wi a, ra_status a)) (h_attempts H') =
       map (\<lambda>a. (ra_id a, ra_wi a, if ra_wi a = wi_id wi \<and> is_live (ra_status a) then ACancelled else ra_status a)) (h_attempts H)"
    "item_states H' = map (\<lambda>(i, st, c, e). (i, if i = wi_id wi then Cancelled else st, c, e)) (item_states H)"
proof -
  obtain wi locked where 1: "item_by_ref H ref = Some wi" "item_by_id H (wi_id wi) = Some locked"
    "wi_status locked \<noteq> Running" "\<not> is_terminal (wi_status locked)"
    "wi_reporter wi = user \<or> role = ''admin'' \<or> roles (wi_project wi) = ''maintainer''"
    "H' = cancel_commit now (wi_id wi) (wi_status locked) user H"
    using ok by (rule CancelWorkItem_Inr)
  have "locked = wi" using item_by_id_known [OF inv conjunct1 [OF item_by_ref_Some [OF 1(1)]]] 1(2) by simp
  note 1 = 1 [unfolded this]
  let ?P = "\<lambda>a. ra_wi a = wi_id wi \<and> is_live (ra_status a)" and ?f = "\<lambda>a. a\<lparr>ra_status := ACancelled, ra_ended := Some now\<rparr>"
  let ?H1 = "update_item (wi_id wi) (\<lambda>w. w\<lparr>wi_status := Cancelled\<rparr>) H"
  let ?H2 = "?H1\<lparr>h_attempts := update_where ?P ?f (h_attempts ?H1)\<rparr>"
  have H': "h_locks H' = delete_where (releaseCancelledWILocks ?H2 (wi_id wi)) (h_locks H)"
    "h_attempts H' = update_where ?P ?f (h_attempts H)" "h_items H' = h_items ?H1"
    by (simp_all add: 1(6) cancel_commit_def Let_def releaseLocks_locks)
  have ids: "map (\<lambda>a. (ra_id a, ra_wi a)) (h_attempts ?H2) = map (\<lambda>a. (ra_id a, ra_wi a)) (h_attempts H)"
    by (simp add: map_update_where_frame)
  have "releaseCancelledWILocks ?H2 (wi_id wi) l \<longleftrightarrow> (rl_owner l, wi_id wi) \<in> set (map (\<lambda>a. (ra_id a, ra_wi a)) (h_attempts ?H2))" for l
    unfolding releaseCancelledWILocks_def row_exists_iff by force
  then have rel: "releaseCancelledWILocks ?H2 (wi_id wi) l \<longleftrightarrow> (\<exists>a \<in> set (h_attempts H). ra_id a = rl_owner l \<and> ra_wi a = wi_id wi)" for l
    unfolding ids by force
  show thesis
  proof (rule that [OF 1(1,3,4,5)])
    show "h_locks H' = filter (\<lambda>l. \<not> (\<exists>a \<in> set (h_attempts H). ra_id a = rl_owner l \<and> ra_wi a = wi_id wi)) (h_locks H)"
      by (simp only: H'(1) rel delete_where_def)
  qed (auto simp: H'(2,3) update_where_def update_item_def)
qed

lemma RunOrphanLockSweep_effect:
  assumes "RunOrphanLockSweep H = (H', n)"
  shows "h_locks H' = filter (\<lambda>l. \<exists>a \<in> set (h_attempts H). ra_id a = rl_owner l \<and> is_live (ra_status a)) (h_locks H)"
    "same_but_locks H H'" "n + length (h_locks H') = length (h_locks H)"
proof -
  have eq: "H' = fst (releaseLocks (orphanLock H) (newLockOp ''orphan_sweep'' [] [] []) H)"
    "n = length (filter (orphanLock H) (h_locks H))"
    using assms by (auto simp: RunOrphanLockSweep_def releaseLocks_def Let_def)
  show locks: "h_locks H' = filter (\<lambda>l. \<exists>a \<in> set (h_attempts H). ra_id a = rl_owner l \<and> is_live (ra_status a)) (h_locks H)"
    by (simp add: eq(1) releaseLocks_locks delete_where_def orphanLock_def row_exists_iff)
  show "same_but_locks H H'" unfolding eq(1) by (rule releaseLocks_frame)
  show "n + length (h_locks H') = length (h_locks H)"
    unfolding locks eq(2) using sum_length_filter_compl [of "orphanLock H" "h_locks H"]
    by (simp add: orphanLock_def row_exists_iff)
qed

section \<open>Locks in mid-attempt\<close>

lemma acquire_target_effect:
  assumes "acquire_target ac wi key probe H = Inr (H', got)"
  obtains (held) "H' = H" "\<exists>l \<in> set (h_locks H). rl_type l = ''file_scope'' \<and> rl_owner l = ac_attempt ac \<and>
      lockConflictWhere probe (rl_key l)"
  | (taken) "acquireLocksCollision H ''file_scope'' probe = None" "same_but_locks H H'"
      "set (h_locks H') = {l \<in> set (h_locks H). lock_key l \<noteq> (''file_scope'', key)} \<union>
        {\<lparr>rl_type = ''file_scope'', rl_key = key, rl_owner = ac_attempt ac, rl_epoch = ac_epoch ac\<rparr>}"
proof (cases "acquireLocksCollision H ''file_scope'' probe")
  case (Some c)
  obtain owner display slug where c: "c = (owner, display, slug)" by (cases c)
  with assms Some have "H' = H" "owner = ac_attempt ac"
    by (auto simp: acquire_target_def Let_def split: if_splits)
  with lock_collision_Some [OF Some [unfolded c acquireLocksCollision_def]] held show thesis by auto
next
  case None
  let ?mine = "\<lparr>rl_type = ''file_scope'', rl_key = key, rl_owner = ac_attempt ac, rl_epoch = ac_epoch ac\<rparr>"
  let ?take = "acquireLockIfFree ''file_scope'' key (ac_attempt ac) (ac_epoch ac) (wi_project wi) (wi_id wi)"
  have frame: "same_but_locks H H'" using acquire_target_adds_own [OF assms] by (simp add: adds_own_def)
  show thesis
  proof (cases "?take (newLockOp ''acquire_locks'' [] [] []) H")
    case (Pair free H1)
    show thesis
    proof (cases free)
      case True
      with assms None Pair have "H' = H1" by (simp add: acquire_target_def Let_def)
      moreover have "?take (newLockOp ''acquire_locks'' [] [] []) H = (True, H1)" using Pair True by simp
      ultimately show thesis using acquireLockIfFree_locks
        by (intro taken [OF None frame]) auto
    next
      case False
      then have "?take (newLockOp ''acquire_locks'' [] [] []) H = (False, H1)" using Pair by simp
      then have H1: "H1 = H" by (rule acquireLockIfFree_taken)
      let ?op = "withExtra (newLockOp ''orphan_reclaim'' [] [] []) [(''reclaimed_by_attempt_id'', JStr (ac_attempt ac))]"
      let ?H2 = "fst (releaseLocks (lockDeleteByKey ''file_scope'' key) ?op H)"
      have H2: "set (h_locks ?H2) = {l \<in> set (h_locks H). lock_key l \<noteq> (''file_scope'', key)}"
        by (auto simp: releaseLocks_locks set_delete_where lockDeleteByKey_def lock_key_def)
      have H': "H' = snd (?take ?op ?H2)"
        using assms None Pair False H1 by (simp add: acquire_target_def Let_def)
      have "fst (?take ?op ?H2)"
        using H2 by (auto simp: acquireLockIfFree_def row_exists_iff lock_key_def)
      then have "?take ?op ?H2 = (True, H')" unfolding H' by (simp only: prod_eq_iff fst_conv snd_conv simp_thms)
      from acquireLockIfFree_locks [OF this] have "h_locks H' = h_locks ?H2 @ [?mine]" ..
      then have "set (h_locks H') = set (h_locks ?H2) \<union> {?mine}" by simp
      then show thesis unfolding H2 by (rule taken [OF None frame])
    qed
  qed
qed

text \<open>
  A target keeps every lock of a live attempt and leaves the requesting attempt with a lock
  that the target's probe matches.
\<close>

lemma acquire_target_keeps:
  assumes inv: "attempts_have_items H" and ok: "acquire_target ac wi key probe H = Inr (H', got)"
    and key: "lockConflictWhere probe key"
    and l: "l \<in> set (h_locks H)" "a \<in> set (h_attempts H)" "ra_id a = rl_owner l" "is_live (ra_status a)"
  shows "l \<in> set (h_locks H')"
  using ok
proof (cases rule: acquire_target_effect)
  case taken
  have "lock_key l \<noteq> (''file_scope'', key)"
    using lock_collision_None [OF taken(1) [unfolded acquireLocksCollision_def] inv l(1)] key l(2-4)
    by (auto simp: lock_key_def)
  with taken(3) l(1) show ?thesis by simp
qed (use l in simp)

definition covered_by :: "string \<Rightarrow> lock_conflict_probe \<Rightarrow> hub \<Rightarrow> bool" where
  "covered_by att probe H \<longleftrightarrow> (\<exists>l \<in> set (h_locks H). rl_type l = ''file_scope'' \<and> rl_owner l = att \<and>
     lockConflictWhere probe (rl_key l))"

lemma acquire_target_covers:
  assumes "acquire_target ac wi key probe H = Inr (H', got)" "lockConflictWhere probe key"
  shows "covered_by (ac_attempt ac) probe H'"
  using assms(1)
  by (cases rule: acquire_target_effect) (use assms(2) in \<open>auto simp: covered_by_def\<close>)

lemma acquire_loop_effect:
  assumes "acquire_loop ac wi ts H = Inr (H', got)" "attempts_have_items H"
    and "\<And>key probe. (key, probe) \<in> set ts \<Longrightarrow> lockConflictWhere probe key"
    and b: "b \<in> set (h_attempts H)" "ra_id b = ac_attempt ac" "is_live (ra_status b)"
  shows "\<And>key probe. (key, probe) \<in> set ts \<Longrightarrow> covered_by (ac_attempt ac) probe H'"
    and "\<And>l a. l \<in> set (h_locks H) \<Longrightarrow> a \<in> set (h_attempts H) \<Longrightarrow> ra_id a = rl_owner l \<Longrightarrow> is_live (ra_status a) \<Longrightarrow>
      l \<in> set (h_locks H')"
proof -
  have "(\<forall>(key, probe) \<in> set ts. covered_by (ac_attempt ac) probe H') \<and>
    (\<forall>l \<in> set (h_locks H). \<forall>a \<in> set (h_attempts H). ra_id a = rl_owner l \<and> is_live (ra_status a) \<longrightarrow> l \<in> set (h_locks H'))"
    using assms
  proof (induction ts arbitrary: H got)
    case (Cons t ts)
    obtain key probe where t: "t = (key, probe)" by (cases t)
    with Cons.prems(1) obtain H1 g1 g2 where 1: "acquire_target ac wi key probe H = Inr (H1, g1)"
        "acquire_loop ac wi ts H1 = Inr (H', g2)"
      by (auto split: sum.splits)
    have key: "lockConflictWhere probe key" using Cons.prems(3) t by simp
    have same: "same_but_locks H H1" using acquire_target_adds_own [OF 1(1)] by (simp add: adds_own_def)
    then have rows: "h_attempts H1 = h_attempts H" "attempts_have_items H1"
      using Cons.prems(2) by (simp_all add: same_but_locks_def attempts_have_items_def)
    have IH: "(\<forall>(key, probe) \<in> set ts. covered_by (ac_attempt ac) probe H') \<and>
      (\<forall>l \<in> set (h_locks H1). \<forall>a \<in> set (h_attempts H). ra_id a = rl_owner l \<and> is_live (ra_status a) \<longrightarrow> l \<in> set (h_locks H'))"
      using Cons.IH [OF 1(2) rows(2)] Cons.prems(3-6) unfolding rows(1) by (metis list.set_intros(2))
    moreover have "covered_by (ac_attempt ac) probe H'"
    proof -
      from acquire_target_covers [OF 1(1) key] obtain l where l: "l \<in> set (h_locks H1)" "rl_type l = ''file_scope''"
          "rl_owner l = ac_attempt ac" "lockConflictWhere probe (rl_key l)" unfolding covered_by_def by blast
      have "l \<in> set (h_locks H')" using conjunct2 [OF IH, rule_format, OF l(1) Cons.prems(4)] l(3) Cons.prems(5,6) by simp
      with l show ?thesis unfolding covered_by_def by blast
    qed
    moreover have "l \<in> set (h_locks H1)"
      if "l \<in> set (h_locks H)" "a \<in> set (h_attempts H)" "ra_id a = rl_owner l" "is_live (ra_status a)" for l a
      by (rule acquire_target_keeps [OF Cons.prems(2) 1(1) key that])
    ultimately show ?case by (auto simp: t)
  qed simp
  then show "\<And>key probe. (key, probe) \<in> set ts \<Longrightarrow> covered_by (ac_attempt ac) probe H'"
    and "\<And>l a. l \<in> set (h_locks H) \<Longrightarrow> a \<in> set (h_attempts H) \<Longrightarrow> ra_id a = rl_owner l \<Longrightarrow> is_live (ra_status a) \<Longrightarrow>
      l \<in> set (h_locks H')"
    by blast+
qed

lemma probe_own_key: "lockConflictWhere (fileScopeConflictProbe project repo uri) (fileScopeLockKey project repo uri)"
  by (auto simp: lockConflictWhere_def fileScopeConflictProbe_def Let_def exactProbeMulti_def fileScopeLockKey_def)

lemma acquire_targets_own_key: "(key, probe) \<in> set (acquire_targets project ds) \<Longrightarrow> lockConflictWhere probe key"
  by (drule acquire_targets_pairs) (auto simp: file_pair_def probe_own_key)

lemma FnAcquireLocks_effect:
  assumes inv: "hub_inv H" and ok: "FnAcquireLocks sha now ref ac H = Inr (H', r)"
  obtains wi declared where "item_by_ref H ref = Some wi" "decodeDeclaredResources (wi_declared wi) = Some declared"
    "\<And>key probe. (key, probe) \<in> set (acquire_targets (wi_project wi) declared) \<Longrightarrow> covered_by (ac_attempt ac) probe H'"
    "\<And>l a. l \<in> set (h_locks H) \<Longrightarrow> a \<in> set (h_attempts H) \<Longrightarrow> ra_id a = rl_owner l \<Longrightarrow> is_live (ra_status a) \<Longrightarrow>
      l \<in> set (h_locks H')"
  using ok
proof (cases rule: FnAcquireLocks_Inr)
  case (1 wi declared H1 acquired)
  note V = verifyAttemptCredential_Inr [OF 1(3)]
  have rows: "h_locks H1 = h_locks H" "attempts_have_items H1"
    using hub_inv_attempts_have_items [OF keeps_cores_inv [OF verify_keeps_cores [OF 1(3)] inv]] by (simp_all add: V(2))
  have st: "attempt_statuses H1 = attempt_statuses H"
    by (rule edits_attempt_status [OF verify_edits [OF 1(3) edits_refl]])
  have live: "\<exists>b \<in> set (h_attempts H1). ra_id b = ra_id a \<and> ra_status b = ra_status a" if "a \<in> set (h_attempts H)" for a
  proof -
    have "(ra_id a, ra_status a) \<in> set (attempt_statuses H1)" unfolding st using that by simp
    then show ?thesis by auto
  qed
  from V(3) obtain a where "a \<in> set (h_attempts H)" "ra_id a = ac_attempt ac" "ra_status a = ARunning"
    by (auto dest: attempt_by_id_Some)
  with live [of a] obtain b where b: "b \<in> set (h_attempts H1)" "ra_id b = ac_attempt ac" "is_live (ra_status b)" by auto
  have own: "lockConflictWhere probe key" if "(key, probe) \<in> set (acquire_targets (wi_project wi) declared)" for key probe
    by (rule acquire_targets_own_key [OF that])
  show thesis
  proof (rule that [OF 1(1,4) acquire_loop_effect(1) [OF 1(5) rows(2) own b]])
    fix l a assume "l \<in> set (h_locks H)" "a \<in> set (h_attempts H)" "ra_id a = rl_owner l" "is_live (ra_status a)"
    with live [of a] obtain c where "c \<in> set (h_attempts H1)" "ra_id c = rl_owner l" "is_live (ra_status c)" by auto
    with \<open>l \<in> set (h_locks H)\<close> show "l \<in> set (h_locks H')"
      using own acquire_loop_effect(2) [OF 1(5) rows(2) own b, of l c] rows(1) by simp
  qed
qed

end
