(* ===== verification/Claim_Grant.thy ===== *)
theory Claim_Grant
  imports Attempt_Effects
begin

text \<open>
  When a claim is granted: the probe the code runs before it writes decides alone. Once it
  has passed, neither the constraints on attempts nor the acquisition loop can refuse, so
  the only outcomes of an admissible claim are the grant and a refusal that names a live
  attempt of another work item.
\<close>

lemma deriveClaimLocks_own_key:
  assumes "(l, probe) \<in> set (deriveClaimLocks requested declared project)"
  shows "lockConflictWhere probe (rq_key l)"
proof (cases "requested \<noteq> [] \<or> declared = None")
  case True
  with assms show ?thesis by (auto simp: deriveClaimLocks_def lockConflictWhere_def exactProbe_def exactProbeMulti_def)
next
  case False
  with assms have "file_pair project (unmarshalDeclaredResources declared) (l, probe)"
    by (auto simp: deriveClaimLocks_def intro: derive_locks_loop_pairs)
  then show ?thesis by (auto simp: file_pair_def probe_own_key)
qed

definition lock_conflict :: "hub \<Rightarrow> string \<Rightarrow> resource_lock_req \<times> lock_conflict_probe \<Rightarrow> run_attempt \<Rightarrow> bool" where
  "lock_conflict H wi q a \<longleftrightarrow>
     a \<in> set (h_attempts H) \<and> is_live (ra_status a) \<and> ra_wi a \<noteq> wi \<and>
     (\<exists>l \<in> set (h_locks H). rl_type l = rq_type (fst q) \<and> lockConflictWhere (snd q) (rl_key l) \<and> rl_owner l = ra_id a)"

lemma probe_refusal:
  assumes "probeForeignLockHolders H wi (map fst pairs) (map snd pairs) = Some e"
  obtains q a slug where "q \<in> set pairs" "lock_conflict H wi q a"
    "e = NewErrDetails ErrConflictLockTaken (ConflictWith (ra_id a) (ra_display a) slug)"
  using assms
proof (induction pairs)
  case (Cons q qs)
  show ?case
  proof (cases "foreignLockHolder H (rq_type (fst q)) (snd q) wi")
    case None
    with Cons.prems(2) have "probeForeignLockHolders H wi (map fst qs) (map snd qs) = Some e" by simp
    with Cons.IH Cons.prems(1) show ?thesis by (metis list.set_intros(2))
  next
    case (Some c)
    obtain owner display slug where c: "c = (owner, display, slug)" by (cases c)
    from lock_collision_Some [OF Some [unfolded c foreignLockHolder_def]] obtain l a where
      "l \<in> set (h_locks H)" "a \<in> set (h_attempts H)" "rl_type l = rq_type (fst q)" "lockConflictWhere (snd q) (rl_key l)"
      "rl_owner l = owner" "ra_id a = owner" "is_live (ra_status a)" "ra_wi a \<noteq> wi" "ra_display a = display"
      by blast
    moreover from this have "lock_conflict H wi q a" unfolding lock_conflict_def by (intro conjI bexI [of _ l]) simp_all
    moreover have "e = NewErrDetails ErrConflictLockTaken (ConflictWith owner display slug)"
      using Cons.prems(2) Some c by simp
    ultimately show ?thesis by (intro Cons.prems(1) [of q a slug]) simp_all
  qed
qed simp

lemma probe_passed:
  assumes "attempts_have_items H" "probeForeignLockHolders H wi (map fst pairs) (map snd pairs) = None"
    "q \<in> set pairs"
  shows "\<not> lock_conflict H wi q a"
proof
  assume "lock_conflict H wi q a"
  then obtain l where "a \<in> set (h_attempts H)" "is_live (ra_status a)" "ra_wi a \<noteq> wi" "l \<in> set (h_locks H)"
      "rl_type l = rq_type (fst q)" "lockConflictWhere (snd q) (rl_key l)" "rl_owner l = ra_id a"
    unfolding lock_conflict_def by blast
  with probeForeignLockHolders_None [OF assms(1,2), of "fst q" "snd q" l a] assms(3) show False by simp
qed

text \<open>After the prior attempt is superseded, the new attempt violates no constraint.\<close>

lemma claim_insert_ok:
  assumes inv: "hub_inv H" and w: "wi \<in> set (h_items H)"
    and fresh: "\<forall>a \<in> set (h_attempts H). ra_id a \<noteq> newID"
      "\<forall>a \<in> set (h_attempts H). ra_wi a = wi_id wi \<longrightarrow> ra_idem a \<noteq> cr_idem req"
    and K: "\<forall>b \<in> set (h_attempts K). \<exists>a \<in> set (h_attempts H). attempt_core b = attempt_core a \<and> ra_idem b = ra_idem a"
  shows "insert_attempt (new_attempt sha now newID wi req ca prior) K =
    Inr (K\<lparr>h_attempts := h_attempts K @ [new_attempt sha now newID wi req ca prior]\<rparr>)"
proof -
  have "ra_id b \<noteq> newID \<and> (ra_wi b = wi_id wi \<longrightarrow> ra_idem b \<noteq> cr_idem req \<and> ra_epoch b \<noteq> wi_epoch wi + 1)"
    if b: "b \<in> set (h_attempts K)" for b
  proof -
    from K b obtain a where a: "a \<in> set (h_attempts H)" "attempt_core b = attempt_core a" "ra_idem b = ra_idem a" by blast
    from attempt_item_known [OF inv a(1)] obtain v where
      v: "v \<in> set (h_items H)" "wi_id v = ra_wi a" "ra_epoch a \<le> wi_epoch v" .
    have "ra_wi a = wi_id wi \<Longrightarrow> ra_epoch a \<le> wi_epoch wi" using item_unique [OF inv v(1) w] v(2,3) by simp
    with a fresh show ?thesis by auto
  qed
  then show ?thesis by (auto simp: insert_attempt_def row_exists_iff new_attempt_def)
qed

lemma claim_supersede_rows:
  "h_attempts (claim_supersede now ca prior H) =
     update_where (\<lambda>a. ra_id a = prior) (\<lambda>a. a\<lparr>ra_status := ASuperseded, ra_ended := Some now\<rparr>) (h_attempts H)"
  "h_locks (claim_supersede now ca prior H) = filter (\<lambda>l. rl_owner l \<noteq> prior) (h_locks H)"
  by (simp_all add: claim_supersede_def update_attempt_def releaseLocks_locks delete_where_def lockDeleteByAttempt_def)

lemma acquire_all_succeeds:
  assumes uniq: "lock_keys_unique K" and own: "\<not> live_foreign K wi att"
    and free: "\<And>l o'. l \<in> set ls \<Longrightarrow> lock_holder K (req_key l) = Some o' \<Longrightarrow> \<not> live_foreign K wi o'"
  shows "\<exists>K'. acquire_all ls att e project wi op K = Inr K'"
proof -
  have "hub_locks.take_all e project op (map req_key ls) att wi K \<noteq> None"
    using hub_locks.take_all_refused_iff [OF uniq own, of e project op "map req_key ls"] free by auto
  with acquire_all_take_all [of ls att e project wi op K] show ?thesis
    by (cases "acquire_all ls att e project wi op K") auto
qed

lemma claim_grant_succeeds:
  assumes inv: "hub_inv H" and w: "wi \<in> set (h_items H)"
    and fresh: "\<forall>a \<in> set (h_attempts H). ra_id a \<noteq> newID"
      "\<forall>a \<in> set (h_attempts H). ra_wi a = wi_id wi \<longrightarrow> ra_idem a \<noteq> cr_idem req"
    and free: "\<And>q a. q \<in> set pairs \<Longrightarrow> \<not> lock_conflict H (wi_id wi) q a"
    and own: "\<And>q. q \<in> set pairs \<Longrightarrow> lockConflictWhere (snd q) (rq_key (fst q))"
  shows "\<exists>H' r. claim_grant sha now newID wi req ca (map fst pairs) tk prior H = Inr (H', r)"
proof -
  let ?H1 = "if tk \<and> prior \<noteq> [] then claim_supersede now ca prior H else H"
  let ?new = "new_attempt sha now newID wi req ca prior"
  let ?H2 = "?H1\<lparr>h_attempts := h_attempts ?H1 @ [?new]\<rparr>"
  let ?H3 = "if tk \<and> prior \<noteq> [] then emit_event (attemptSupersededEvent wi newID ca) ?H2 else ?H2"
  have core: "\<exists>a \<in> set (h_attempts H). attempt_core b = attempt_core a \<and> ra_idem b = ra_idem a \<and> (is_live (ra_status b) \<longrightarrow> is_live (ra_status a))"
    if "b \<in> set (h_attempts ?H1)" for b
    using that by (auto simp: claim_supersede_rows set_update_where split: if_splits)
  then have ins: "insert_attempt ?new ?H1 = Inr ?H2" by (intro claim_insert_ok [OF inv w fresh]) blast
  have rows: "h_attempts ?H3 = h_attempts ?H1 @ [?new]" "h_locks ?H3 = h_locks ?H1" by simp_all
  have uniq: "lock_keys_unique ?H3"
    using hub_inv_distinct(3) [OF inv] claim_supersede_holder(1) lock_holder_cong [OF rows(2)]
    by (simp add: lock_keys_unique_def)
  have foreign: "\<exists>a \<in> set (h_attempts H). ra_id a = o' \<and> is_live (ra_status a) \<and> ra_wi a \<noteq> wi_id wi"
    if "live_foreign ?H3 (wi_id wi) o'" for o'
  proof -
    from that obtain b where b: "b \<in> set (h_attempts ?H1)" "ra_id b = o'" "is_live (ra_status b)" "ra_wi b \<noteq> wi_id wi"
      unfolding live_foreign_def row_exists_iff rows(1) by (auto simp: new_attempt_def)
    from core [OF b(1)] b(2-4) show ?thesis by auto
  qed
  have "\<exists>K'. acquire_all (map fst pairs) newID (wi_epoch wi + 1) (wi_project wi) (wi_id wi)
      (withExtra (newLockOp ''claim'' (ca_user ca) (ca_display ca) (ca_api_key ca)) [(''is_takeover'', JBool tk)]) ?H3 = Inr K'"
  proof (rule acquire_all_succeeds [OF uniq])
    show "\<not> live_foreign ?H3 (wi_id wi) newID" using foreign [of newID] fresh(1) by blast
    fix l o' assume l: "l \<in> set (map fst pairs)" "lock_holder ?H3 (req_key l) = Some o'"
    from l(1) obtain q where q: "q \<in> set pairs" "l = fst q" by auto
    from l(2) uniq obtain k where k: "k \<in> set (h_locks ?H1)" "lock_key k = req_key l" "rl_owner k = o'"
      unfolding lock_holder_Some_iff [OF uniq] rows(2) by blast
    then have kH: "k \<in> set (h_locks H)" by (auto simp: claim_supersede_rows split: if_splits)
    show "\<not> live_foreign ?H3 (wi_id wi) o'"
    proof
      assume "live_foreign ?H3 (wi_id wi) o'"
      from foreign [OF this] obtain a where "a \<in> set (h_attempts H)" "ra_id a = o'" "is_live (ra_status a)" "ra_wi a \<noteq> wi_id wi"
        by blast
      with kH k q own [OF q(1)] have "lock_conflict H (wi_id wi) q a"
        unfolding lock_conflict_def by (intro conjI bexI [of _ k]) (auto simp: lock_key_def req_key_def)
      with free q(1) show False by blast
    qed
  qed
  then obtain K' where "acquire_all (map fst pairs) newID (wi_epoch wi + 1) (wi_project wi) (wi_id wi)
      (withExtra (newLockOp ''claim'' (ca_user ca) (ca_display ca) (ca_api_key ca)) [(''is_takeover'', JBool tk)]) ?H3 = Inr K'" ..
  with ins show ?thesis by (simp add: claim_grant_def Let_def)
qed

end
