(* ===== verification/Claim_Retry.thy ===== *)
theory Claim_Retry
  imports Lock_Exclusion Fencing
begin

text \<open>
  A claim repeated under its idempotency key gives the same attempt for ever, whatever the
  hub does in between: rows of attempts persist with the fields a replay reads.
\<close>

section \<open>Rows persist\<close>

lemma select_one_map: "map_option f (select_one (\<lambda>x. Q (f x)) xs) = find Q (map f xs)"
  by (induction xs) (auto simp: select_one_def)

lemma find_append_Some: "find Q xs = Some y \<Longrightarrow> find Q (xs @ ys) = Some y"
  by (induction xs) auto

lemma select_one_extend:
  assumes "map f ys = map f xs @ new" "select_one (\<lambda>x. Q (f x)) xs = Some x"
  obtains y where "select_one (\<lambda>x. Q (f x)) ys = Some y" "f y = f x"
proof -
  have "find Q (map f xs) = Some (f x)" using select_one_map [of f Q xs] assms(2) by simp
  then have "find Q (map f ys) = Some (f x)" unfolding assms(1) by (rule find_append_Some)
  then have "map_option f (select_one (\<lambda>x. Q (f x)) ys) = Some (f x)" by (simp only: select_one_map)
  then show thesis using that by auto
qed

lemma kept_item_by_ref:
  assumes "kept H H'" "item_by_ref H ref = Some w"
  obtains w' where "item_by_ref H' ref = Some w'" "wi_id w' = wi_id w" "item_filed w' = item_filed w"
proof -
  let ?f = "\<lambda>w. (wi_id w, item_filed w)"
  have "map ?f (h_items H') = map ?f (h_items H) @ []" using assms(1) by (simp only: kept_def append_Nil2)
  then obtain w' where "select_one (\<lambda>w. (\<lambda>p. fst p = ref \<or> fst (snd p) = ref) (?f w)) (h_items H') = Some w'" "?f w' = ?f w"
    by (rule select_one_extend [where Q = "\<lambda>p. fst p = ref \<or> fst (snd p) = ref" and x = w])
       (use assms(2) in \<open>simp add: item_by_ref_def\<close>)
  then show thesis using that by (simp add: item_by_ref_def)
qed

definition filed_claim :: "hub \<Rightarrow> string \<Rightarrow> string \<Rightarrow> run_attempt option" where
  "filed_claim H i k = select_one (\<lambda>a. ra_wi a = i \<and> ra_idem a = k) (h_attempts H)"

lemma kept_filed_claim:
  assumes "kept H H'" "filed_claim H i k = Some a"
  obtains a' where "filed_claim H' i k = Some a'" "attempt_core a' = attempt_core a"
proof -
  let ?f = "\<lambda>a. (attempt_core a, attempt_filed a)"
  let ?Q = "\<lambda>p. fst (snd (fst p)) = i \<and> fst (snd p) = k"
  from assms(1) obtain new where "map ?f (h_attempts H') = map ?f (h_attempts H) @ new"
    unfolding kept_def by blast
  then obtain a' where "select_one (\<lambda>a. ?Q (?f a)) (h_attempts H') = Some a'" "?f a' = ?f a"
    by (rule select_one_extend [where Q = ?Q and x = a])
       (use assms(2) in \<open>simp add: filed_claim_def\<close>)
  then show thesis using that by (simp add: filed_claim_def)
qed

section \<open>Claiming again\<close>

lemma FnClaimWorkItem_filed:
  assumes "FnClaimWorkItem sha now newID ref req ca H = Inr (H', r)"
  obtains wi a where "claim_validate req = None" "item_by_ref H ref = Some wi" "wi_workflow_mode wi \<noteq> ''pending''"
    "kept H H'" "filed_claim H' (wi_id wi) (cr_idem req) = Some a" "cl_attempt r = ra_id a" "cl_epoch r = ra_epoch a"
proof -
  from assms have val: "claim_validate req = None"
    by (simp add: FnClaimWorkItem_def split: option.splits)
  with assms obtain wi where wi: "item_by_ref H ref = Some wi" "wi_workflow_mode wi \<noteq> ''pending''"
    by (auto simp: FnClaimWorkItem_def split: option.splits if_splits)
  show thesis
  proof (cases "filed_claim H (wi_id wi) (cr_idem req)")
    case (Some a)
    with assms val wi have "H' = H" "r = claim_replay H now wi a"
      by (auto simp: FnClaimWorkItem_def filed_claim_def)
    with that [OF val wi] Some show thesis by (simp add: claim_replay_def)
  next
    case None
    then have none: "\<forall>a \<in> set (h_attempts H). \<not> (ra_wi a = wi_id wi \<and> ra_idem a = cr_idem req)"
      by (simp add: filed_claim_def select_one_None)
    obtain tk prior locks where grant: "claim_grant sha now newID wi req ca locks tk prior H = Inr (H', r)"
      using assms
    proof (cases rule: FnClaimWorkItem_Inr)
      case (fresh wi' tk prior pairs)
      with wi(1) that show ?thesis by simp
    qed (use wi(1) none in auto)
    then show thesis
    proof (cases rule: claim_grant_Inr)
      case (1 H1 H2 H3 H4)
      let ?new = "new_attempt sha now newID wi req ca prior"
      have "filed_claim H1 (wi_id wi) (cr_idem req) = None"
        using none by (auto simp: 1(1) claim_supersede_def update_attempt_def set_update_where filed_claim_def
            select_one_None split: if_splits)
      then have "filed_claim H2 (wi_id wi) (cr_idem req) = Some ?new"
        unfolding insert_attempt_Inr(1) [OF 1(2)] filed_claim_def
        by (simp add: select_one_None select_one_last new_attempt_def)
      moreover have "h_attempts H' = h_attempts H2"
        using same_but_locksD(2) [OF acquire_all_frame [OF 1(4)]] by (simp add: 1(3,5) claim_classify_def)
      ultimately have "filed_claim H' (wi_id wi) (cr_idem req) = Some ?new" by (simp add: filed_claim_def)
      from that [OF val wi claim_grant_kept [OF grant] this] 1(6,7) show thesis by (simp add: new_attempt_def)
    qed
  qed
qed

text \<open>
  C11: A claim is idempotent under its key, for ever: once a claim has succeeded, sending it
  again at any later time, whatever has happened in between, succeeds, returns the same
  attempt and epoch, and changes nothing.
\<close>

theorem claim_retry:
  assumes "FnClaimWorkItem sha now newID ref req ca (hs_hub s) = Inr (H1, r)"
    and "(sys_step sha ok)\<^sup>*\<^sup>* (s\<lparr>hs_hub := H1\<rparr>) t"
  shows "\<exists>r'. FnClaimWorkItem sha now' newID' ref req ca' (hs_hub t) = Inr (hs_hub t, r') \<and>
    cl_attempt r' = cl_attempt r \<and> cl_epoch r' = cl_epoch r"
proof -
  from assms(1) obtain wi a where first: "claim_validate req = None" "item_by_ref (hs_hub s) ref = Some wi"
      "wi_workflow_mode wi \<noteq> ''pending''" "kept (hs_hub s) H1"
      "filed_claim H1 (wi_id wi) (cr_idem req) = Some a" "cl_attempt r = ra_id a" "cl_epoch r = ra_epoch a"
    by (rule FnClaimWorkItem_filed)
  have "kept H1 (hs_hub t)" using sys_steps_kept [OF assms(2)] by simp
  moreover from kept_trans [OF first(4) this] obtain w' where
    w': "item_by_ref (hs_hub t) ref = Some w'" "wi_id w' = wi_id wi" "item_filed w' = item_filed wi"
    using first(2) by (rule kept_item_by_ref)
  ultimately obtain a' where
    "filed_claim (hs_hub t) (wi_id w') (cr_idem req) = Some a'" "attempt_core a' = attempt_core a"
    using first(5) by (auto elim: kept_filed_claim)
  with first w' show ?thesis by (simp add: FnClaimWorkItem_def filed_claim_def claim_replay_def)
qed

theorem claim_retry_witness:
  "\<exists>r'. FnClaimWorkItem (\<lambda>s. s) 99 ''r9'' ''w1'' (a_claim ''c1'') bob ex_hub2 = Inr (ex_hub2, r') \<and>
    cl_attempt r' = ''r1''"
proof -
  obtain r where r: "FnClaimWorkItem (\<lambda>s. s) 10 ''r1'' ''w1'' (a_claim ''c1'') ann ex_hub0 = Inr (ex_hub1, r)"
    using ex_ok(1) by (cases "FnClaimWorkItem (\<lambda>s. s) 10 ''r1'' ''w1'' (a_claim ''c1'') ann ex_hub0")
      (auto simp: ex_hub1_def claimed_def)
  have "(case FnClaimWorkItem (\<lambda>s. s) 10 ''r1'' ''w1'' (a_claim ''c1'') ann ex_hub0 of Inl e \<Rightarrow> [] | Inr (H, r) \<Rightarrow> cl_attempt r)
      = ''r1''" by code_simp
  with r have "cl_attempt r = ''r1''" by simp
  moreover have "(sys_step (\<lambda>s. s) (\<lambda>r. True))\<^sup>*\<^sup>* (ex_sys ex_hub1) (ex_sys ex_hub2)"
    using claimed_step [OF ex_ok(2), of "\<lambda>r. True"] unfolding ex_hub2_def [symmetric] by (simp add: r_into_rtranclp)
  ultimately show ?thesis
    using claim_retry [of "\<lambda>s. s" 10 "''r1''" "''w1''" "a_claim ''c1''" ann "ex_sys ex_hub0" ex_hub1 r "\<lambda>r. True"
        "ex_sys ex_hub2" 99 "''r9''" bob] r
    by (auto simp: ex_sys_def)
qed

end
