(* ===== verification/Lifecycle.thy ===== *)
theory Lifecycle
  imports Claim_Grant Claim_Retry
begin

text \<open>
  The attempt lifecycle in the reachable states: what a completion, a claim, a takeover, a
  cancellation and an acquisition do to the whole of the lock table, the items and the
  attempts, when a claim is granted, and that a running item can always be finished.
\<close>

section \<open>Completion\<close>

lemma complete_sys_step:
  assumes "FnCompleteAttempt sha now scID wiID req roles role (hs_hub s) = Inr H'"
  shows "sys_step sha ok s (s\<lparr>hs_hub := H'\<rparr>)"
  by (rule sys_tx [OF tx_complete [OF assms]])

lemma finished_Inr:
  "\<not> isl (FnCompleteAttempt (\<lambda>s. s) now scID wi req (\<lambda>p. []) [] H) \<Longrightarrow>
   FnCompleteAttempt (\<lambda>s. s) now scID wi req (\<lambda>p. []) [] H = Inr (finished now scID wi req H)"
  by (cases "FnCompleteAttempt (\<lambda>s. s) now scID wi req (\<lambda>p. []) [] H") (simp_all add: finished_def)

lemma claimed_Inr:
  "\<not> isl (FnClaimWorkItem (\<lambda>s. s) now newID ref req ca H) \<Longrightarrow>
   \<exists>r. FnClaimWorkItem (\<lambda>s. s) now newID ref req ca H = Inr (claimed now newID ref req ca H, r)"
  by (cases "FnClaimWorkItem (\<lambda>s. s) now newID ref req ca H") (auto simp: claimed_def)

text \<open>Ann's second attempt wraps up the first item.\<close>

definition ex_hub4 :: hub where
  "ex_hub4 = finished 40 ''c40'' ''w1'' (a_finish ''r2'' 2 ''wrapped'') ex_hub2"

lemma ex_finish_ok:
  "FnCompleteAttempt (\<lambda>s. s) 40 ''c40'' ''w1'' (a_finish ''r2'' 2 ''wrapped'') (\<lambda>p. []) [] ex_hub2 = Inr ex_hub4"
  unfolding ex_hub4_def by (rule finished_Inr) code_simp

text \<open>
  C5: A completion in a reachable state releases exactly the locks of its attempt when it
  wraps or fails, and exactly the attempt's file-scope locks when it pauses; it moves that
  attempt and its item to the requested status, requeues exactly the blocked items whose
  last open blocker was this one, and changes no other status.
\<close>

theorem completion_effect:
  assumes "sys_init s0" "(sys_step sha ok)\<^sup>*\<^sup>* s0 s"
    and "FnCompleteAttempt sha now scID wiID req roles role (hs_hub s) = Inr H'"
  shows "h_locks H' = filter (\<lambda>l. \<not> released_by req l) (h_locks (hs_hub s)) \<and>
    attempt_statuses H' = map (\<lambda>a. (ra_id a, if ra_id a = cq_attempt req then attempt_status_of (cq_status req) else ra_status a))
      (h_attempts (hs_hub s)) \<and>
    map (\<lambda>w. (wi_id w, wi_status w)) (h_items H') =
      map (\<lambda>w. (wi_id w, completed_status (hs_hub s) wiID req w)) (h_items (hs_hub s))"
  using FnCompleteAttempt_effect [OF reachable_hub_inv [OF assms(1,2)] assms(3)] by blast

theorem completion_effect_witness:
  "h_locks ex_hub2 \<noteq> [] \<and> h_locks ex_hub4 = filter (\<lambda>l. \<not> released_by (a_finish ''r2'' 2 ''wrapped'') l) (h_locks ex_hub2)"
proof
  show "h_locks ex_hub2 \<noteq> []" by code_simp
  show "h_locks ex_hub4 = filter (\<lambda>l. \<not> released_by (a_finish ''r2'' 2 ''wrapped'') l) (h_locks ex_hub2)"
    using completion_effect [OF ex_sys_init ex_run2 [of "\<lambda>r. True"], of 40 "''c40''" "''w1''"
        "a_finish ''r2'' 2 ''wrapped''" "\<lambda>p. []" "[]" ex_hub4] ex_finish_ok
    by (simp add: ex_sys_def)
qed

lemma spent_attempt:
  assumes "\<forall>a \<in> set (h_attempts H). ra_id a = att \<longrightarrow> ra_status a \<noteq> ARunning"
  shows "isl (verifyAttemptCredential sha now wi att e secret H)"
proof (cases "verifyAttemptCredential sha now wi att e secret H")
  case (Inr H')
  with verifyAttemptCredential_Inr(3) [OF Inr] assms show ?thesis by (auto dest: attempt_by_id_Some)
qed simp

lemma completed_not_running:
  assumes "hub_inv H" "FnCompleteAttempt sha now scID wiID req roles role H = Inr H'"
    and "a \<in> set (h_attempts H')" "ra_id a = cq_attempt req"
  shows "ra_status a \<noteq> ARunning"
proof -
  have "(ra_id a, ra_status a) \<in> set (attempt_statuses H')" using assms(3) by simp
  then have "ra_status a = attempt_status_of (cq_status req)"
    unfolding FnCompleteAttempt_effect(2) [OF assms(1,2)] using assms(4) by auto
  then show ?thesis by (simp add: attempt_status_of_def)
qed

text \<open>
  C6: A completed attempt is spent for ever: however the hub moves on, its credential never
  completes again, never acquires a lock and never records pins.
\<close>

theorem completed_attempt_is_spent:
  assumes "sys_init s0" "(sys_step sha ok)\<^sup>*\<^sup>* s0 s"
    and "FnCompleteAttempt sha now scID wiID req roles role (hs_hub s) = Inr H'"
    and "(sys_step sha ok)\<^sup>*\<^sup>* (s\<lparr>hs_hub := H'\<rparr>) t"
  shows "isl (FnCompleteAttempt sha now' scID' wi' (req'\<lparr>cq_attempt := cq_attempt req\<rparr>) roles' role' (hs_hub t)) \<and>
    isl (FnAcquireLocks sha now' ref (ac\<lparr>ac_attempt := cq_attempt req\<rparr>) (hs_hub t)) \<and>
    isl (FnRecordRepoPins sha now' wi' (ac\<lparr>ac_attempt := cq_attempt req\<rparr>) pins (hs_hub t))"
proof -
  have s: "sys_inv s" by (rule hub_run.reachable_inv [OF assms(1,2)])
  have s': "sys_inv (s\<lparr>hs_hub := H'\<rparr>)" by (rule sys_step_inv [OF complete_sys_step [OF assms(3)] s])
  have "hub_inv (hs_hub s)" using s by (simp add: sys_inv_def)
  note stopped = completed_not_running [OF this assms(3)]
  have "ages H' (hs_hub t)" using sys_steps_ages [OF assms(4) s'] by simp
  moreover have "cq_attempt req \<in> ra_id ` set (h_attempts H')"
  proof -
    from assms(3) obtain a where "a \<in> set (h_attempts (hs_hub s))" "ra_id a = cq_attempt req"
      by (cases rule: FnCompleteAttempt_Inr) (auto dest!: verifyAttemptCredential_Inr(3) attempt_by_id_Some)
    moreover have "ages (hs_hub s) H'" using sys_step_ages [OF complete_sys_step [OF assms(3)] s] by simp
    ultimately show ?thesis unfolding ages_def by force
  qed
  ultimately have "\<forall>a \<in> set (h_attempts (hs_hub t)). ra_id a = cq_attempt req \<longrightarrow> ra_status a \<noteq> ARunning"
    using stopped unfolding ages_def aged_def by metis
  note no = spent_attempt [OF this]
  show ?thesis
  proof (intro conjI)
    show "isl (FnCompleteAttempt sha now' scID' wi' (req'\<lparr>cq_attempt := cq_attempt req\<rparr>) roles' role' (hs_hub t))"
    proof (cases "FnCompleteAttempt sha now' scID' wi' (req'\<lparr>cq_attempt := cq_attempt req\<rparr>) roles' role' (hs_hub t)")
      case (Inr K)
      then obtain wi e secret H1 where "verifyAttemptCredential sha now' wi (cq_attempt req) e secret (hs_hub t) = Inr H1"
        by (cases rule: FnCompleteAttempt_Inr) simp
      with no [of sha now' wi e secret] show ?thesis by simp
    qed simp
    show "isl (FnAcquireLocks sha now' ref (ac\<lparr>ac_attempt := cq_attempt req\<rparr>) (hs_hub t))"
    proof (cases "FnAcquireLocks sha now' ref (ac\<lparr>ac_attempt := cq_attempt req\<rparr>) (hs_hub t)")
      case (Inr K)
      then obtain wi e secret H1 where "verifyAttemptCredential sha now' wi (cq_attempt req) e secret (hs_hub t) = Inr H1"
        by (cases K) (auto elim: FnAcquireLocks_Inr)
      with no [of sha now' wi e secret] show ?thesis by simp
    qed simp
    show "isl (FnRecordRepoPins sha now' wi' (ac\<lparr>ac_attempt := cq_attempt req\<rparr>) pins (hs_hub t))"
    proof (cases "item_by_id (hs_hub t) wi'")
      case (Some wi)
      with no [of sha now' wi "ac_epoch ac" "ac_secret ac"] show ?thesis
        by (auto simp: FnRecordRepoPins_def split: sum.splits)
    qed (simp add: FnRecordRepoPins_def)
  qed
qed

theorem completed_attempt_is_spent_witness:
  "isl (FnCompleteAttempt (\<lambda>s. s) 50 ''c50'' ''w1'' (a_finish ''r2'' 2 ''wrapped'') (\<lambda>p. []) [] ex_hub4)"
  using completed_attempt_is_spent [OF ex_sys_init ex_run2 [of "\<lambda>r. True"], of 40 "''c40''" "''w1''"
      "a_finish ''r2'' 2 ''wrapped''" "\<lambda>p. []" "[]" ex_hub4 "ex_sys ex_hub4" 50 "''c50''" "''w1''"
      "a_finish ''r2'' 2 ''wrapped''"] ex_finish_ok
  by (simp add: ex_sys_def a_finish_def)

section \<open>Progress\<close>

text \<open>The request by which a holder gives up: a forced failure.\<close>

definition giving_up :: "run_attempt \<Rightarrow> string \<Rightarrow> complete_request" where
  "giving_up a secret = \<lparr>cq_attempt = ra_id a, cq_epoch = ra_epoch a, cq_secret = secret, cq_status = ''failed'',
     cq_force_terminate = True, cq_pause_reason = None, cq_derived = None, cq_no_steps_reason = None\<rparr>"

lemma giving_up_accepted:
  assumes inv: "hub_inv H" and w: "w \<in> set (h_items H)" "wi_status w = Running" "wi_current w = Some (ra_id a)"
    and a: "a \<in> set (h_attempts H)" "ra_status a = ARunning" "hex_decode (ra_secret_hash a) = Some (sha secret)"
  shows "\<exists>H'. FnCompleteAttempt sha now scID (wi_id w) (giving_up a secret) roles role H = Inr H'"
proof -
  let ?req = "giving_up a secret"
  have "\<exists>H1. verifyAttemptCredential sha now w (cq_attempt ?req) (cq_epoch ?req) (cq_secret ?req) H = Inr H1"
    using attempt_by_id_known [OF inv a(1)] w(3) a(2,3)
    by (simp add: verifyAttemptCredential_def hashSecretInternal_def giving_up_def)
  then obtain H1 where H1: "verifyAttemptCredential sha now w (cq_attempt ?req) (cq_epoch ?req) (cq_secret ?req) H = Inr H1" ..
  obtain H2 where H2: "complete_step_phase scID (wi_id w) ?req H1 = Inr H2"
    by (cases "complete_step_phase scID (wi_id w) ?req H1")
       (auto simp: complete_step_phase_def giving_up_def split: option.splits if_splits)
  have "complete_validate ?req = None" "no_steps_gate v (wi_id w) ?req H2 = None" "cq_status ?req \<noteq> ''wrapped''" for v
    by (simp_all add: complete_validate_def no_steps_gate_def giving_up_def)
  with H1 H2 item_by_id_known [OF inv w(1)] w(2) show ?thesis
    by (simp add: FnCompleteAttempt_def Let_def)
qed

text \<open>
  C7: No work item is stuck with a running holder. In every reachable state a running item
  has a running current attempt, and whoever knows its secret can end it: the forced
  failure is accepted, the item fails and no lock of the attempt remains.
\<close>

theorem holder_can_finish:
  assumes "sys_init s0" "(sys_step sha ok)\<^sup>*\<^sup>* s0 s"
    and "w \<in> set (h_items (hs_hub s))" "wi_status w = Running"
  shows "\<exists>a \<in> set (h_attempts (hs_hub s)). wi_current w = Some (ra_id a) \<and> ra_wi a = wi_id w \<and> ra_status a = ARunning \<and>
    (\<forall>secret now scID roles role. hex_decode (ra_secret_hash a) = Some (sha secret) \<longrightarrow>
      (\<exists>H'. FnCompleteAttempt sha now scID (wi_id w) (giving_up a secret) roles role (hs_hub s) = Inr H' \<and>
        (\<forall>l \<in> set (h_locks H'). rl_owner l \<noteq> ra_id a) \<and>
        (\<exists>w' \<in> set (h_items H'). wi_id w' = wi_id w \<and> wi_status w' = Failed)))"
proof -
  have "status_inv s" by (rule hub_status.reachable_inv [OF assms(1,2)])
  then have inv: "hub_inv (hs_hub s)" "running_ok (hs_hub s)" by (simp_all add: status_inv_def sys_inv_def)
  with assms(3,4) obtain a where a: "a \<in> set (h_attempts (hs_hub s))" "wi_current w = Some (ra_id a)"
      "ra_status a = ARunning" "ra_wi a = wi_id w"
    unfolding running_ok_def by blast
  have "(\<exists>H'. FnCompleteAttempt sha now scID (wi_id w) (giving_up a secret) roles role (hs_hub s) = Inr H' \<and>
      (\<forall>l \<in> set (h_locks H'). rl_owner l \<noteq> ra_id a) \<and> (\<exists>w' \<in> set (h_items H'). wi_id w' = wi_id w \<and> wi_status w' = Failed))"
    if sec: "hex_decode (ra_secret_hash a) = Some (sha secret)" for secret now scID roles role
  proof -
    from giving_up_accepted [where sha = sha, OF inv(1) assms(3,4) a(2,1,3) sec] obtain H' where
      H': "FnCompleteAttempt sha now scID (wi_id w) (giving_up a secret) roles role (hs_hub s) = Inr H'" by blast
    note E = FnCompleteAttempt_effect [OF inv(1) H']
    have "(wi_id w, Failed) \<in> set (map (\<lambda>w. (wi_id w, wi_status w)) (h_items H'))"
      unfolding E(3) using assms(3)
      by (auto simp: completed_status_def wi_status_of_def giving_up_def intro!: image_eqI [of _ _ w])
    then have "\<exists>w' \<in> set (h_items H'). wi_id w' = wi_id w \<and> wi_status w' = Failed" by auto
    moreover have "\<forall>l \<in> set (h_locks H'). rl_owner l \<noteq> ra_id a"
      by (simp add: E(1) released_by_def giving_up_def)
    ultimately show ?thesis using H' by blast
  qed
  with a show ?thesis by blast
qed

theorem holder_can_finish_witness:
  "\<exists>a \<in> set (h_attempts ex_hub2). wi_current (hd (h_items ex_hub2)) = Some (ra_id a) \<and> ra_status a = ARunning"
proof -
  have "hd (h_items ex_hub2) \<in> set (h_items ex_hub2) \<and> wi_status (hd (h_items ex_hub2)) = Running" by code_simp
  then show ?thesis
    using holder_can_finish [OF ex_sys_init ex_run2 [of "\<lambda>r. True"], of "hd (h_items ex_hub2)"] by (auto simp: ex_sys_def)
qed

section \<open>Claims\<close>

text \<open>
  C4: A granted claim in a reachable state does this and no more to the lock table: the new
  attempt gets every key derived for the claim, the attempt it displaces loses all its
  locks, every other key keeps its holder; no live attempt of another item loses anything.
  It appends the new attempt, supersedes exactly the displaced one, and moves exactly the
  claimed item to running under the new attempt and the next epoch.
\<close>

theorem claim_effect:
  assumes "sys_init s0" "(sys_step sha ok)\<^sup>*\<^sup>* s0 s"
    and "FnClaimWorkItem sha now newID ref req ca (hs_hub s) = Inr (H', r)"
    and "item_by_ref (hs_hub s) ref = Some wi" "attempt_by_id (hs_hub s) (cl_attempt r) = None"
  defines "keys \<equiv> (\<lambda>q. req_key (fst q)) ` set (deriveClaimLocks (cr_locks req) (wi_declared wi) (wi_project wi))"
  shows "(\<forall>k. lock_holder H' k =
      (if k \<in> keys then Some newID
       else case lock_holder (hs_hub s) k of None \<Rightarrow> None | Some p \<Rightarrow> if claim_displaces wi p then None else Some p)) \<and>
    (\<forall>k p. lock_holder (hs_hub s) k = Some p \<and> live_foreign (hs_hub s) (wi_id wi) p \<longrightarrow> lock_holder H' k = Some p) \<and>
    attempt_statuses H' = map (\<lambda>a. (ra_id a, if claim_displaces wi (ra_id a) then ASuperseded else ra_status a))
      (h_attempts (hs_hub s)) @ [(newID, ARunning)] \<and>
    item_states H' = map (\<lambda>w. if wi_id w = wi_id wi then (wi_id w, Running, Some newID, wi_epoch wi + 1)
      else (wi_id w, wi_status w, wi_current w, wi_epoch w)) (h_items (hs_hub s))"
proof -
  let ?H = "hs_hub s"
  have inv: "hub_inv ?H" by (rule reachable_hub_inv [OF assms(1,2)])
  have uniq: "lock_keys_unique ?H" using hub_inv_distinct(3) [OF inv] by (simp add: lock_keys_unique_def)
  have wi: "wi \<in> set (h_items ?H)" using item_by_ref_Some [OF assms(4)] by blast
  from assms(3) obtain tk prior where g: "claim_gate ?H wi req ca = Inr (tk, prior)"
      "probeForeignLockHolders ?H (wi_id wi) (map fst (deriveClaimLocks (cr_locks req) (wi_declared wi) (wi_project wi)))
        (map snd (deriveClaimLocks (cr_locks req) (wi_declared wi) (wi_project wi))) = None"
      "claim_grant sha now newID wi req ca (map fst (deriveClaimLocks (cr_locks req) (wi_declared wi) (wi_project wi)))
        tk prior ?H = Inr (H', r)"
  proof (cases rule: FnClaimWorkItem_Inr)
    case (replay wi' a)
    with assms(5) attempt_by_id_known [OF inv replay(2)] show thesis by (simp add: claim_replay_def)
  next
    case (fresh wi' tk prior pairs)
    with assms(4) that [of tk prior] show thesis by simp
  qed
  let ?pairs = "deriveClaimLocks (cr_locks req) (wi_declared wi) (wi_project wi)"
  have keys: "keys = req_key ` set (map fst ?pairs)" by (simp add: keys_def image_image)
  note D = claim_gate_displaces [OF inv wi g(1)]
  have disp: "(tk \<and> prior \<noteq> []) \<and> p = prior \<longleftrightarrow> claim_displaces wi p" for p using D by blast
  note E = claim_grant_effect [OF uniq g(3)]
  have one: "lock_holder H' k = (if k \<in> keys then Some newID
       else case lock_holder ?H k of None \<Rightarrow> None | Some p \<Rightarrow> if claim_displaces wi p then None else Some p)" for k
    unfolding E(1) keys by (auto simp: disp [symmetric] split: option.splits)
  have two: "lock_holder H' k = Some p" if "lock_holder ?H k = Some p" "live_foreign ?H (wi_id wi) p" for k p
  proof -
    from that(2) obtain a where a: "a \<in> set (h_attempts ?H)" "ra_id a = p" "is_live (ra_status a)" "ra_wi a \<noteq> wi_id wi"
      by (auto simp: live_foreign_def row_exists_iff)
    have "\<not> claim_displaces wi p"
      using current_of_item [OF inv wi _ a(1,2)] a(4) by (auto simp: claim_displaces_def)
    moreover have "k \<notin> keys"
    proof
      assume "k \<in> keys"
      then obtain q where q: "q \<in> set ?pairs" "k = req_key (fst q)" by (auto simp: keys_def)
      from that(1) lock_holder_Some_iff [OF uniq] obtain l where
        "l \<in> set (h_locks ?H)" "lock_key l = k" "rl_owner l = p" by blast
      with a q deriveClaimLocks_own_key [of "fst q" "snd q"] have "lock_conflict ?H (wi_id wi) q a"
        unfolding lock_conflict_def by (intro conjI bexI [of _ l]) (auto simp: lock_key_def req_key_def)
      with probe_passed [OF hub_inv_attempts_have_items [OF inv] g(2) q(1)] show False by blast
    qed
    ultimately show ?thesis using one that(1) by simp
  qed
  have three: "attempt_statuses H' = map (\<lambda>a. (ra_id a, if claim_displaces wi (ra_id a) then ASuperseded else ra_status a))
      (h_attempts ?H) @ [(newID, ARunning)]"
    unfolding E(2) disp by simp
  have four: "item_states H' = map (\<lambda>w. if wi_id w = wi_id wi then (wi_id w, Running, Some newID, wi_epoch wi + 1)
      else (wi_id w, wi_status w, wi_current w, wi_epoch w)) (h_items ?H)"
    unfolding E(3) by simp
  from one two three four show ?thesis by blast
qed

theorem claim_effect_witness:
  "lock_holder ex_hub2 (''file_scope'', ''p:r:a.go'') = Some ''r2'' \<and> lock_holder ex_hub1 (''file_scope'', ''p:r:a.go'') = Some ''r1''"
proof
  obtain r where r: "FnClaimWorkItem (\<lambda>s. s) 20 ''r2'' ''w1'' (a_claim ''c2'') ann ex_hub1 = Inr (ex_hub2, r)"
    using claimed_Inr [OF ex_ok(2)] unfolding ex_hub2_def by blast
  have "(case FnClaimWorkItem (\<lambda>s. s) 20 ''r2'' ''w1'' (a_claim ''c2'') ann ex_hub1 of Inl e \<Rightarrow> [] | Inr (H, r) \<Rightarrow> cl_attempt r)
      = ''r2''" by code_simp
  with r have "cl_attempt r = ''r2''" by simp
  moreover have "attempt_by_id ex_hub1 ''r2'' = None" by code_simp
  moreover have "item_by_ref ex_hub1 ''w1'' = Some (hd (h_items ex_hub1))" by code_simp
  moreover have "(''file_scope'', ''p:r:a.go'') \<in> (\<lambda>q. req_key (fst q)) `
      set (deriveClaimLocks (cr_locks (a_claim ''c2'')) (wi_declared (hd (h_items ex_hub1))) (wi_project (hd (h_items ex_hub1))))"
    by code_simp
  ultimately show "lock_holder ex_hub2 (''file_scope'', ''p:r:a.go'') = Some ''r2''"
    using claim_effect [OF ex_sys_init ex_run1 [of "\<lambda>r. True"], of 20 "''r2''" "''w1''" "a_claim ''c2''" ann ex_hub2 r
        "hd (h_items ex_hub1)"] r
    by (auto simp: ex_sys_def)
  show "lock_holder ex_hub1 (''file_scope'', ''p:r:a.go'') = Some ''r1''" by code_simp
qed

text \<open>
  C10: A claim that passes the checks on the item and on the request is granted exactly when
  no live attempt of another work item holds a lock that collides with one of the claim's
  keys; otherwise, and only then, it is refused, and always with CONFLICT\_LOCK\_TAKEN.
\<close>

theorem claim_granted_iff:
  assumes "sys_init s0" "(sys_step sha ok)\<^sup>*\<^sup>* s0 s"
    and "claim_validate req = None" "item_by_ref (hs_hub s) ref = Some wi" "wi_workflow_mode wi \<noteq> ''pending''"
    and "wi_type wi = Some ty" "ty \<noteq> []" "ValidateRequestedLocks (cr_locks req)"
    and "\<forall>a \<in> set (h_attempts (hs_hub s)). ra_id a \<noteq> newID \<and> (ra_wi a = wi_id wi \<longrightarrow> ra_idem a \<noteq> cr_idem req)"
    and "\<not> isl (claim_gate (hs_hub s) wi req ca)"
  shows "((\<exists>H' r. FnClaimWorkItem sha now newID ref req ca (hs_hub s) = Inr (H', r)) \<longleftrightarrow>
      (\<forall>q \<in> set (deriveClaimLocks (cr_locks req) (wi_declared wi) (wi_project wi)).
        \<forall>a. \<not> lock_conflict (hs_hub s) (wi_id wi) q a)) \<and>
    (\<forall>e. FnClaimWorkItem sha now newID ref req ca (hs_hub s) = Inl e \<longrightarrow> err_code e = ErrConflictLockTaken)"
proof -
  let ?H = "hs_hub s" and ?pairs = "deriveClaimLocks (cr_locks req) (wi_declared wi) (wi_project wi)"
  have inv: "hub_inv ?H" by (rule reachable_hub_inv [OF assms(1,2)])
  have wi: "wi \<in> set (h_items ?H)" using item_by_ref_Some [OF assms(4)] by blast
  obtain tk prior where gate: "claim_gate ?H wi req ca = Inr (tk, prior)"
    using assms(10) by (cases "claim_gate ?H wi req ca") auto
  have "select_one (\<lambda>a. ra_wi a = wi_id wi \<and> ra_idem a = cr_idem req) (h_attempts ?H) = None"
    using assms(9) by (auto simp: select_one_None)
  then have run: "FnClaimWorkItem sha now newID ref req ca ?H =
      (case probeForeignLockHolders ?H (wi_id wi) (map fst ?pairs) (map snd ?pairs) of Some e \<Rightarrow> Inl e
       | None \<Rightarrow> claim_grant sha now newID wi req ca (map fst ?pairs) tk prior ?H)"
    using assms(3-8) gate by (simp add: FnClaimWorkItem_def Let_def)
  show ?thesis
  proof (cases "probeForeignLockHolders ?H (wi_id wi) (map fst ?pairs) (map snd ?pairs)")
    case None
    have free: "\<not> lock_conflict ?H (wi_id wi) q a" if "q \<in> set ?pairs" for q a
      by (rule probe_passed [OF hub_inv_attempts_have_items [OF inv] None that])
    have "\<exists>H' r. claim_grant sha now newID wi req ca (map fst ?pairs) tk prior ?H = Inr (H', r)"
      by (rule claim_grant_succeeds [OF inv wi _ _ free])
         (use assms(9) deriveClaimLocks_own_key in \<open>auto intro: prod.collapse [THEN subst]\<close>)
    with free run None show ?thesis by auto
  next
    case (Some e)
    then obtain q a slug where "q \<in> set ?pairs" "lock_conflict ?H (wi_id wi) q a"
        "e = NewErrDetails ErrConflictLockTaken (ConflictWith (ra_id a) (ra_display a) slug)"
      by (rule probe_refusal)
    with run Some show ?thesis by (auto simp: NewErrDetails_def)
  qed
qed

text \<open>Bob is refused the third item, whose file Ann's second attempt holds under a repository.\<close>

theorem claim_granted_iff_witness:
  "\<exists>e. FnClaimWorkItem (\<lambda>s. s) 30 ''r3'' ''w3'' (a_claim ''c1'') bob ex_hub2 = Inl e \<and> err_code e = ErrConflictLockTaken"
proof -
  let ?w = "hd (tl (tl (h_items ex_hub2)))" and ?a = "hd (tl (h_attempts ex_hub2))"
  let ?q = "hd (deriveClaimLocks (cr_locks (a_claim ''c1'')) (wi_declared ?w) (wi_project ?w))"
  have w: "item_by_ref ex_hub2 ''w3'' = Some ?w" by code_simp
  have c: "claim_validate (a_claim ''c1'') = None" "wi_workflow_mode ?w \<noteq> ''pending''" "wi_type ?w = Some ''feature''"
    "ValidateRequestedLocks (cr_locks (a_claim ''c1''))" "\<not> isl (claim_gate ex_hub2 ?w (a_claim ''c1'') bob)"
    by code_simp+
  have fresh: "list_all (\<lambda>a. ra_id a \<noteq> ''r3'' \<and> (ra_wi a = wi_id ?w \<longrightarrow> ra_idem a \<noteq> cr_idem (a_claim ''c1''))) (h_attempts ex_hub2)"
    by code_simp
  have q: "?q \<in> set (deriveClaimLocks (cr_locks (a_claim ''c1'')) (wi_declared ?w) (wi_project ?w))" by code_simp
  have a: "?a \<in> set (h_attempts ex_hub2) \<and> is_live (ra_status ?a) \<and> ra_wi ?a \<noteq> wi_id ?w \<and>
    list_ex (\<lambda>l. rl_type l = rq_type (fst ?q) \<and> lockConflictWhere (snd ?q) (rl_key l) \<and> rl_owner l = ra_id ?a) (h_locks ex_hub2)"
    by code_simp
  then have "lock_conflict ex_hub2 (wi_id ?w) ?q ?a" by (simp add: lock_conflict_def list_ex_iff)
  with q claim_granted_iff [OF ex_sys_init ex_run2 [of "\<lambda>r. True"], of "a_claim ''c1''" "''w3''" ?w "''feature''" "''r3''" bob 30]
    w c fresh
  show ?thesis
    by (cases "FnClaimWorkItem (\<lambda>s. s) 30 ''r3'' ''w3'' (a_claim ''c1'') bob ex_hub2") (auto simp: ex_sys_def list_all_iff)
qed

section \<open>Takeover, cancellation, locks\<close>

text \<open>
  C12: A forced takeover whose read and write meet the same state displaces exactly the
  running current attempt, and only for its own user, a maintainer of the project or an
  administrator: that attempt is superseded and loses every lock, the new attempt gets every
  key the item's declaration derives and the next epoch, and nothing else changes in locks,
  attempts and items.
\<close>

theorem takeover_effect:
  assumes "sys_init s0" "(sys_step sha ok)\<^sup>*\<^sup>* s0 s"
    and "FnForceTakeover sha now newID gen scID ref req ca role roles (hs_hub s) = Inr H'"
  shows "\<exists>wi prior a. item_by_ref (hs_hub s) ref = Some wi \<and> wi_status wi = Running \<and> wi_current wi = Some prior \<and>
    attempt_by_id (hs_hub s) prior = Some a \<and>
    (ra_actor a = ca_user ca \<or> roles (wi_project wi) = ''maintainer'' \<or> role = ''admin'') \<and>
    (\<forall>k. lock_holder H' k =
      (if k \<in> (\<lambda>q. req_key (fst q)) ` set (takeover_locks (wi_project wi) (unmarshalDeclaredResources (wi_declared wi)))
       then Some newID else if lock_holder (hs_hub s) k = Some prior then None else lock_holder (hs_hub s) k)) \<and>
    attempt_statuses H' = map (\<lambda>a. (ra_id a, if ra_id a = prior then ASuperseded else ra_status a)) (h_attempts (hs_hub s)) @
      [(newID, ARunning)] \<and>
    item_states H' = map (\<lambda>w. if wi_id w = wi_id wi then (wi_id w, Running, Some newID, wi_epoch wi + 1)
      else (wi_id w, wi_status w, wi_current w, wi_epoch w)) (h_items (hs_hub s))"
proof -
  let ?H = "hs_hub s"
  have uniq: "lock_keys_unique ?H"
    using hub_inv_distinct(3) [OF reachable_hub_inv [OF assms(1,2)]] by (simp add: lock_keys_unique_def)
  from assms(3) obtain tc where tc: "takeover_read ?H ref req ca role roles = Inr tc"
      "takeover_apply sha now newID gen scID tc req ca ?H = Inr H'"
    by (auto simp: FnForceTakeover_def split: sum.splits)
  note R = takeover_read_Inr [OF tc(1)] and E = takeover_apply_effect [OF uniq tc(2)]
  from R(4) obtain a where "attempt_by_id ?H (tc_prior tc) = Some a"
    "ra_actor a = ca_user ca \<or> roles (wi_project (tc_wi tc)) = ''maintainer'' \<or> role = ''admin''" by blast
  moreover have "attempt_statuses H' = map (\<lambda>a. (ra_id a, if ra_id a = tc_prior tc then ASuperseded else ra_status a)) (h_attempts ?H) @
      [(newID, ARunning)]" unfolding E(2) by simp
  moreover have "item_states H' = map (\<lambda>w. if wi_id w = wi_id (tc_wi tc) then (wi_id w, Running, Some newID, wi_epoch (tc_wi tc) + 1)
      else (wi_id w, wi_status w, wi_current w, wi_epoch w)) (h_items ?H)" unfolding E(3) by simp
  ultimately show ?thesis using R(1-3) E(1) by (intro exI [of _ "tc_wi tc"] exI [of _ "tc_prior tc"] exI [of _ a]) blast
qed

definition a_takeover :: takeover_request where
  "a_takeover = \<lparr>tq_reason = ''stuck'', tq_machine = ''m'', tq_secret = ''pw''\<rparr>"

theorem takeover_effect_witness:
  "\<exists>H'. FnForceTakeover (\<lambda>s. s) 40 ''r4'' ''g'' ''c40'' ''w1'' a_takeover bob ''admin'' (\<lambda>p. []) ex_hub2 = Inr H' \<and>
    attempt_statuses H' = [(''r1'', ASuperseded), (''r2'', ASuperseded), (''r4'', ARunning)]"
proof -
  have "\<not> isl (FnForceTakeover (\<lambda>s. s) 40 ''r4'' ''g'' ''c40'' ''w1'' a_takeover bob ''admin'' (\<lambda>p. []) ex_hub2)"
    by code_simp
  then obtain H' where H': "FnForceTakeover (\<lambda>s. s) 40 ''r4'' ''g'' ''c40'' ''w1'' a_takeover bob ''admin'' (\<lambda>p. []) ex_hub2 = Inr H'"
    by (cases "FnForceTakeover (\<lambda>s. s) 40 ''r4'' ''g'' ''c40'' ''w1'' a_takeover bob ''admin'' (\<lambda>p. []) ex_hub2") auto
  moreover have "item_by_ref ex_hub2 ''w1'' = Some (hd (h_items ex_hub2)) \<and> wi_current (hd (h_items ex_hub2)) = Some ''r2''"
    "attempt_statuses ex_hub2 = [(''r1'', ASuperseded), (''r2'', ARunning)]" by code_simp+
  ultimately show ?thesis
    using takeover_effect [OF ex_sys_init ex_run2 [of "\<lambda>r. True"], of 40 "''r4''" "''g''" "''c40''" "''w1''" a_takeover bob
        "''admin''" "\<lambda>p. []" H'] by (auto simp: ex_sys_def)
qed

text \<open>
  A cancellation in a reachable state is accepted only for an item that is neither
  running nor terminal, and only for its reporter, a maintainer of its project or an
  administrator; it cancels exactly the item and its live attempts, and releases exactly the
  locks owned by attempts of that item.
\<close>

theorem cancel_effect:
  assumes "sys_init s0" "(sys_step sha ok)\<^sup>*\<^sup>* s0 s"
    and "CancelWorkItem now ref user role roles (hs_hub s) = Inr H'"
  shows "\<exists>wi. item_by_ref (hs_hub s) ref = Some wi \<and> wi_status wi \<noteq> Running \<and> \<not> is_terminal (wi_status wi) \<and>
    (wi_reporter wi = user \<or> role = ''admin'' \<or> roles (wi_project wi) = ''maintainer'') \<and>
    h_locks H' = filter (\<lambda>l. \<not> (\<exists>a \<in> set (h_attempts (hs_hub s)). ra_id a = rl_owner l \<and> ra_wi a = wi_id wi)) (h_locks (hs_hub s)) \<and>
    attempt_statuses H' = map (\<lambda>a. (ra_id a, if ra_wi a = wi_id wi \<and> is_live (ra_status a) then ACancelled else ra_status a))
      (h_attempts (hs_hub s)) \<and>
    item_states H' = map (\<lambda>w. (wi_id w, if wi_id w = wi_id wi then Cancelled else wi_status w, wi_current w, wi_epoch w))
      (h_items (hs_hub s))"
proof -
  let ?H = "hs_hub s"
  from reachable_hub_inv [OF assms(1,2)] assms(3) obtain wi where C: "item_by_ref ?H ref = Some wi" "wi_status wi \<noteq> Running"
    "\<not> is_terminal (wi_status wi)" "wi_reporter wi = user \<or> role = ''admin'' \<or> roles (wi_project wi) = ''maintainer''"
    "h_locks H' = filter (\<lambda>l. \<not> (\<exists>a \<in> set (h_attempts ?H). ra_id a = rl_owner l \<and> ra_wi a = wi_id wi)) (h_locks ?H)"
    "map (\<lambda>a. (ra_id a, ra_wi a, ra_status a)) (h_attempts H') =
       map (\<lambda>a. (ra_id a, ra_wi a, if ra_wi a = wi_id wi \<and> is_live (ra_status a) then ACancelled else ra_status a)) (h_attempts ?H)"
    "item_states H' = map (\<lambda>(i, st, c, e). (i, if i = wi_id wi then Cancelled else st, c, e)) (item_states ?H)"
    by (rule CancelWorkItem_effect)
  have "attempt_statuses H' = map (\<lambda>(i, w, st). (i, st)) (map (\<lambda>a. (ra_id a, ra_wi a, ra_status a)) (h_attempts H'))" by simp
  also have "\<dots> = map (\<lambda>a. (ra_id a, if ra_wi a = wi_id wi \<and> is_live (ra_status a) then ACancelled else ra_status a)) (h_attempts ?H)"
    unfolding C(6) by simp
  finally have "attempt_statuses H' =
    map (\<lambda>a. (ra_id a, if ra_wi a = wi_id wi \<and> is_live (ra_status a) then ACancelled else ra_status a)) (h_attempts ?H)" .
  moreover have "item_states H' = map (\<lambda>w. (wi_id w, if wi_id w = wi_id wi then Cancelled else wi_status w, wi_current w, wi_epoch w))
      (h_items ?H)" unfolding C(7) by simp
  ultimately show ?thesis using C(1-5) by (intro exI [of _ wi]) blast
qed

theorem cancel_effect_witness:
  "\<exists>H'. CancelWorkItem 40 ''w2'' ''u_rep'' ''user'' (\<lambda>p. []) ex_hub2 = Inr H' \<and> h_locks H' = h_locks ex_hub2"
proof -
  have "\<not> isl (CancelWorkItem 40 ''w2'' ''u_rep'' ''user'' (\<lambda>p. []) ex_hub2)" by code_simp
  then obtain H' where H': "CancelWorkItem 40 ''w2'' ''u_rep'' ''user'' (\<lambda>p. []) ex_hub2 = Inr H'"
    by (cases "CancelWorkItem 40 ''w2'' ''u_rep'' ''user'' (\<lambda>p. []) ex_hub2") auto
  from cancel_effect [OF ex_sys_init ex_run2 [of "\<lambda>r. True"], of 40 "''w2''" "''u_rep''" "''user''" "\<lambda>p. []" H'] H'
  obtain wi where wi: "item_by_ref ex_hub2 ''w2'' = Some wi"
    "h_locks H' = filter (\<lambda>l. \<not> (\<exists>a \<in> set (h_attempts ex_hub2). ra_id a = rl_owner l \<and> ra_wi a = wi_id wi)) (h_locks ex_hub2)"
    by (auto simp: ex_sys_def)
  have "map_option wi_id (item_by_ref ex_hub2 ''w2'') = Some ''w2''" "list_all (\<lambda>a. ra_wi a = ''w1'') (h_attempts ex_hub2)"
    by code_simp+
  with wi have "h_locks H' = h_locks ex_hub2" by (auto simp: list_all_iff intro!: filter_True)
  with H' show ?thesis by blast
qed

text \<open>
  A granted acquisition in a reachable state leaves its attempt with a lock on every
  file the item declares for writing, in one of the spellings the declaration collides
  with, and takes no lock from any live attempt.
\<close>

theorem acquire_covers:
  assumes "sys_init s0" "(sys_step sha ok)\<^sup>*\<^sup>* s0 s"
    and "FnAcquireLocks sha now ref ac (hs_hub s) = Inr (H', r)"
  shows "\<exists>wi declared. item_by_ref (hs_hub s) ref = Some wi \<and> decodeDeclaredResources (wi_declared wi) = Some declared \<and>
    (\<forall>(key, probe) \<in> set (acquire_targets (wi_project wi) declared). covered_by (ac_attempt ac) probe H') \<and>
    (\<forall>l \<in> set (h_locks (hs_hub s)). \<forall>a \<in> set (h_attempts (hs_hub s)). ra_id a = rl_owner l \<and> is_live (ra_status a) \<longrightarrow>
      l \<in> set (h_locks H'))"
proof -
  show ?thesis
  proof (rule FnAcquireLocks_effect [OF reachable_hub_inv [OF assms(1,2)] assms(3)])
    fix wi declared
    assume A: "item_by_ref (hs_hub s) ref = Some wi" "decodeDeclaredResources (wi_declared wi) = Some declared"
      and cov: "\<And>key probe. (key, probe) \<in> set (acquire_targets (wi_project wi) declared) \<Longrightarrow> covered_by (ac_attempt ac) probe H'"
      and keep: "\<And>l a. l \<in> set (h_locks (hs_hub s)) \<Longrightarrow> a \<in> set (h_attempts (hs_hub s)) \<Longrightarrow> ra_id a = rl_owner l \<Longrightarrow>
        is_live (ra_status a) \<Longrightarrow> l \<in> set (h_locks H')"
    show ?thesis by (intro exI [of _ wi] exI [of _ declared] conjI A) (use cov keep in blast)+
  qed
qed

theorem acquire_covers_witness:
  "\<exists>H' r. FnAcquireLocks (\<lambda>s. s) 40 ''w1'' \<lparr>ac_attempt = ''r2'', ac_epoch = 2, ac_secret = ''pw''\<rparr> ex_hub2 = Inr (H', r) \<and>
    (\<forall>l \<in> set (h_locks ex_hub2). l \<in> set (h_locks H'))"
proof -
  let ?ac = "\<lparr>ac_attempt = ''r2'', ac_epoch = 2, ac_secret = ''pw''\<rparr>"
  have "\<not> isl (FnAcquireLocks (\<lambda>s. s) 40 ''w1'' ?ac ex_hub2)" by code_simp
  then obtain K where "FnAcquireLocks (\<lambda>s. s) 40 ''w1'' ?ac ex_hub2 = Inr K"
    by (cases "FnAcquireLocks (\<lambda>s. s) 40 ''w1'' ?ac ex_hub2") auto
  then obtain H' r where H': "FnAcquireLocks (\<lambda>s. s) 40 ''w1'' ?ac ex_hub2 = Inr (H', r)" by (cases K) blast
  have "list_all (\<lambda>l. list_ex (\<lambda>a. ra_id a = rl_owner l \<and> is_live (ra_status a)) (h_attempts ex_hub2)) (h_locks ex_hub2)"
    by code_simp
  with acquire_covers [OF ex_sys_init ex_run2 [of "\<lambda>r. True"], of 40 "''w1''" ?ac H' r] H' show ?thesis
    by (auto simp: ex_sys_def list_all_iff list_ex_iff)
qed

text \<open>
  The orphan sweep keeps exactly the locks whose owner is a live attempt, reports how
  many it removed, touches no other table, and finds nothing more to do when it runs again.
\<close>

theorem orphan_sweep_exact:
  "h_locks (fst (RunOrphanLockSweep H)) =
     filter (\<lambda>l. \<exists>a \<in> set (h_attempts H). ra_id a = rl_owner l \<and> is_live (ra_status a)) (h_locks H) \<and>
   snd (RunOrphanLockSweep H) + length (h_locks (fst (RunOrphanLockSweep H))) = length (h_locks H) \<and>
   same_but_locks H (fst (RunOrphanLockSweep H)) \<and>
   RunOrphanLockSweep (fst (RunOrphanLockSweep H)) = (fst (RunOrphanLockSweep H), 0)"
proof -
  let ?K = "fst (RunOrphanLockSweep H)"
  note E = RunOrphanLockSweep_effect [OF prod.collapse [symmetric], of H]
  note E2 = RunOrphanLockSweep_effect [OF prod.collapse [symmetric], of ?K]
  have atts: "h_attempts ?K = h_attempts H" using E(2) by (simp add: same_but_locks_def)
  have "filter (orphanLock ?K) (h_locks ?K) = []"
    unfolding E(1) filter_filter by (auto simp: orphanLock_def atts row_exists_iff filter_empty_conv)
  then have "RunOrphanLockSweep ?K = (?K\<lparr>h_locks := delete_where (orphanLock ?K) (h_locks ?K)\<rparr>, 0)"
    by (simp add: RunOrphanLockSweep_def releaseLocks_def Let_def emitLockEvents_def)
  moreover have "delete_where (orphanLock ?K) (h_locks ?K) = h_locks ?K"
    using \<open>filter (orphanLock ?K) (h_locks ?K) = []\<close> by (auto simp: delete_where_def filter_empty_conv intro!: filter_True)
  ultimately show ?thesis using E by simp
qed

end
