(* ===== verification/Step_History.thy ===== *)
theory Step_History
  imports Fencing Lock_Journal
begin

text \<open>
  The step machine of \<^verbatim>\<open>routes_step.go\<close>: what a request to the step handler does
  in each of its outcomes, and the history of step completions as an append-only log in
  which no step attempt occurs twice.
\<close>

section \<open>The log\<close>

definition logs :: "hub \<Rightarrow> hub \<Rightarrow> bool" where
  "logs H H' \<longleftrightarrow> (\<exists>added. h_completions H' = h_completions H @ added) \<and>
     (distinct (map sc_step_attempt (h_completions H)) \<longrightarrow> distinct (map sc_step_attempt (h_completions H'))) \<and>
     (distinct (map ss_wi (h_steps H)) \<longrightarrow> distinct (map ss_wi (h_steps H')))"

lemma logs_refl [simp, intro!]: "logs H H"
  by (simp add: logs_def)

lemma logs_trans [trans]: "logs H H1 \<Longrightarrow> logs H1 H2 \<Longrightarrow> logs H H2"
  unfolding logs_def by auto

lemma logs_same: "h_completions H' = h_completions H \<Longrightarrow> map ss_wi (h_steps H') = map ss_wi (h_steps H) \<Longrightarrow> logs H H'"
  by (simp add: logs_def)

lemma logs_locks: "same_but_locks H H' \<Longrightarrow> logs H H'"
  by (rule logs_same) (simp_all add: same_but_locks_def)

lemma logs_append:
  "\<forall>d \<in> set (h_completions H). sc_step_attempt d \<noteq> sc_step_attempt c \<Longrightarrow>
   h_completions H' = h_completions H @ [c] \<Longrightarrow> map ss_wi (h_steps H') = map ss_wi (h_steps H) \<Longrightarrow> logs H H'"
  by (auto simp: logs_def)

lemma step_of_None_iff: "step_of H i = None \<longleftrightarrow> i \<notin> ss_wi ` set (h_steps H)"
  by (auto simp: step_of_def select_one_None)

lemma logs_new_step:
  "step_of H i = None \<Longrightarrow> h_completions H' = h_completions H \<Longrightarrow> h_steps H' = h_steps H @ [st] \<Longrightarrow> ss_wi st = i \<Longrightarrow> logs H H'"
  by (auto simp: logs_def step_of_None_iff)

lemma release_step_rows [simp]:
  "h_steps (fst (releaseLocks stmt op H)) = h_steps H" "h_completions (fst (releaseLocks stmt op H)) = h_completions H"
  using releaseLocks_frame [of H stmt op] by (simp_all add: same_but_locks_def)

lemma logs_force_terminate: "logs H (fnForceTerminateStep sc i att sa H)"
proof (cases "step_of H i")
  case (Some st)
  show ?thesis
  proof (cases "ss_step st")
    case (Some step)
    let ?sa = "case sa of Some x \<Rightarrow> if x \<noteq> [] then x else unknownStepAttemptID sc | None \<Rightarrow> unknownStepAttemptID sc"
    let ?c = "\<lparr>sc_id = sc, sc_wi = i, sc_step = step, sc_step_attempt = ?sa, sc_run_attempt = att, sc_status = ''failed'',
      sc_summary = None, sc_error_type = Some ''force_terminate'', sc_escalated = False\<rparr>"
    show ?thesis
    proof (cases "row_exists (\<lambda>c. sc_step_attempt c = ?sa) (h_completions H)")
      case True
      then show ?thesis using Some \<open>step_of H i = Some st\<close>
        by (intro logs_same) (simp_all add: fnForceTerminateStep_def Let_def map_update_where_frame)
    next
      case False
      then show ?thesis using Some \<open>step_of H i = Some st\<close>
        by (intro logs_append [where c = ?c])
           (auto simp: fnForceTerminateStep_def Let_def map_update_where_frame row_exists_iff)
    qed
  qed (simp add: fnForceTerminateStep_def \<open>step_of H i = Some st\<close>)
qed (simp add: fnForceTerminateStep_def)

section \<open>Steps\<close>

lemma select_one_update:
  "(\<And>x. P x \<Longrightarrow> P (f x)) \<Longrightarrow> select_one P (update_where P f xs) = map_option f (select_one P xs)"
  by (induction xs) (auto simp: select_one_def update_where_def)

lemma startStep_rows:
  assumes "startStep now i step sa H = (H', b)"
  shows "h_completions H' = h_completions H" "h_items H' = h_items H" "h_attempts H' = h_attempts H" "logs H H'"
    "b \<longleftrightarrow> (\<forall>st. step_of H i = Some st \<longrightarrow> ss_status st = SIdle)"
    "b \<Longrightarrow> \<exists>st. step_of H' i = Some st \<and> ss_status st = SInProgress \<and> ss_step st = step \<and> ss_attempt st = sa \<and> ss_started st = Some now"
proof -
  show "h_completions H' = h_completions H" "h_items H' = h_items H" "h_attempts H' = h_attempts H"
    "b \<longleftrightarrow> (\<forall>st. step_of H i = Some st \<longrightarrow> ss_status st = SIdle)"
    using assms by (auto simp: startStep_def split: option.splits if_splits)
  show "logs H H'"
  proof (cases "step_of H i")
    case None
    with assms show ?thesis by (intro logs_new_step [OF None]) (auto simp: startStep_def)
  next
    case (Some st)
    with assms show ?thesis
      by (intro logs_same) (auto simp: startStep_def map_update_where_frame split: if_splits)
  qed
  assume b
  show "\<exists>st. step_of H' i = Some st \<and> ss_status st = SInProgress \<and> ss_step st = step \<and> ss_attempt st = sa \<and> ss_started st = Some now"
  proof (cases "step_of H i")
    case None
    let ?new = "\<lparr>ss_wi = i, ss_wi_type = None, ss_step = step, ss_status = SInProgress, ss_attempt = sa,
               ss_started = Some now, ss_version = 1, ss_scenario_ref = None\<rparr>"
    have "step_of H' i = Some ?new"
      using assms None unfolding step_of_def
      by (auto simp: startStep_def step_of_def select_one_None select_one_last)
    then show ?thesis by simp
  next
    case (Some st)
    let ?f = "\<lambda>s. s\<lparr>ss_status := SInProgress, ss_step := step, ss_attempt := sa, ss_started := Some now, ss_version := ss_version s + 1\<rparr>"
    have "step_of H' i = Some (?f st)"
      using assms Some \<open>b\<close> unfolding step_of_def
      by (auto simp: startStep_def step_of_def select_one_update split: if_splits)
    then show ?thesis by simp
  qed
qed

lemma insertStepCompletion_Inr:
  assumes "insertStepCompletion c H = Inr H'"
  shows "H' = H\<lparr>h_completions := h_completions H @ [c]\<rparr>" "\<forall>d \<in> set (h_completions H). sc_step_attempt d \<noteq> sc_step_attempt c"
    "\<exists>a \<in> set (h_attempts H). ra_id a = sc_run_attempt c"
  using assms by (auto simp: insertStepCompletion_def row_exists_iff split: if_splits)

lemma insert_step_events_rows:
  "insert_step_events wi att u evs H = Inr H' \<Longrightarrow>
   h_completions H' = h_completions H \<and> h_steps H' = h_steps H \<and> h_items H' = h_items H \<and> h_attempts H' = h_attempts H \<and>
   h_locks H' = h_locks H"
proof (induction evs arbitrary: H)
  case (Cons ev evs)
  then obtain H1 where "insertStepEvent wi att u ev H = Inr H1" "insert_step_events wi att u evs H1 = Inr H'"
    by (auto split: sum.splits)
  with Cons.IH [of H1] show ?case by (auto simp: insertStepEvent_def split: if_splits)
qed simp

definition step_started :: "string \<Rightarrow> string option \<Rightarrow> string option \<Rightarrow> hub \<Rightarrow> bool" where
  "step_started i step sa H \<longleftrightarrow>
     (\<exists>st. step_of H i = Some st \<and> ss_status st = SInProgress \<and> ss_step st = step \<and> ss_attempt st = sa)"

definition step_idle :: "string \<Rightarrow> hub \<Rightarrow> bool" where
  "step_idle i H \<longleftrightarrow> (\<forall>st. step_of H i = Some st \<longrightarrow> ss_status st = SIdle)"

text \<open>Setting the row of an item to idle, as the completed and the failed branch do.\<close>

lemma step_idle_update:
  fixes H H' :: hub
  assumes "h_steps H' = update_where (\<lambda>s. ss_wi s = i) f (h_steps H)" "\<And>s. ss_wi (f s) = ss_wi s" "\<And>s. ss_status (f s) = SIdle"
  shows "step_idle i H'"
proof -
  have "step_of H' i = map_option f (step_of H i)"
    unfolding step_of_def assms(1) by (rule select_one_update) (simp add: assms(2))
  then show ?thesis using assms(3) by (auto simp: step_idle_def)
qed

lemma step_idle_cong: fixes H H' :: hub shows "h_steps H' = h_steps H \<Longrightarrow> step_idle i H' = step_idle i H"
  by (simp add: step_idle_def step_of_def)

lemma step_started_cong: fixes H H' :: hub shows "h_steps H' = h_steps H \<Longrightarrow> step_started i step sa H' = step_started i step sa H"
  by (simp add: step_started_def step_of_def)

lemma step_in_progress_effect:
  assumes "step_in_progress now i req H = Inr (H', evs)"
  shows "step_idle i H" "step_started i (sq_step req) (sq_step_attempt req) H'" "h_completions H' = h_completions H"
    "h_items H' = h_items H" "h_attempts H' = h_attempts H" "logs H H'"
proof -
  from assms have s: "startStep now i (sq_step req) (sq_step_attempt req) H = (H', True)"
    by (auto simp: step_in_progress_def split: prod.splits if_splits)
  note S = startStep_rows [OF s]
  show "step_idle i H" using S(5) by (simp add: step_idle_def)
  show "step_started i (sq_step req) (sq_step_attempt req) H'" using S(6) by (auto simp: step_started_def)
  show "h_completions H' = h_completions H" "h_items H' = h_items H" "h_attempts H' = h_attempts H" "logs H H'" by (rule S)+
qed

lemma step_completed_effect:
  assumes "step_completed now sc i req H = Inr (H', evs)"
  defines "c \<equiv> completion_row sc i req ''completed'' None False"
  shows "h_completions H' = h_completions H @ [c]" "\<forall>d \<in> set (h_completions H). sc_step_attempt d \<noteq> sc_step_attempt c"
    "\<exists>a \<in> set (h_attempts H). ra_id a = sc_run_attempt c"
    "if derefStr (sq_next_step req) = [] then step_idle i H' else step_started i (sq_next_step req) (sq_next_attempt req) H'"
    "h_items H' = h_items H" "h_attempts H' = h_attempts H" "logs H H'"
proof -
  let ?f = "\<lambda>s. s\<lparr>ss_step := sq_step req, ss_status := SIdle, ss_attempt := None, ss_started := None, ss_version := ss_version s + 1\<rparr>"
  let ?H1 = "H\<lparr>h_steps := update_where (\<lambda>s. ss_wi s = i) ?f (h_steps H)\<rparr>"
  from assms(1) obtain H2 where H2: "insertStepCompletion c ?H1 = Inr H2"
    and H': "if derefStr (sq_next_step req) = [] then H' = H2
      else startStep now i (sq_next_step req) (sq_next_attempt req) H2 = (H', True)"
    by (auto simp: step_completed_def c_def Let_def split: sum.splits prod.splits if_splits)
  note I = insertStepCompletion_Inr [OF H2]
  have "step_idle i ?H1" by (rule step_idle_update [of _ i ?f H]) simp_all
  moreover have "h_steps H2 = h_steps ?H1" by (simp add: I(1))
  ultimately have idle: "step_idle i H2" using step_idle_cong by blast
  have "logs H ?H1" by (rule logs_same) (simp_all add: map_update_where_frame)
  also have "logs ?H1 H2" using I by (intro logs_append [where c = c]) simp_all
  finally have logs2: "logs H H2" .
  note S = startStep_rows [of now i "sq_next_step req" "sq_next_attempt req" H2 H' True]
  show "h_completions H' = h_completions H @ [c]" "h_items H' = h_items H" "h_attempts H' = h_attempts H"
    using H' S(1-3) by (auto simp: I(1) split: if_splits)
  show "\<forall>d \<in> set (h_completions H). sc_step_attempt d \<noteq> sc_step_attempt c" "\<exists>a \<in> set (h_attempts H). ra_id a = sc_run_attempt c"
    using I(2,3) by simp_all
  show "if derefStr (sq_next_step req) = [] then step_idle i H' else step_started i (sq_next_step req) (sq_next_attempt req) H'"
    using H' idle S(6) by (auto simp: step_started_def split: if_splits)
  show "logs H H'" using logs2 H' logs_trans [OF logs2 S(4)] by (auto split: if_splits)
qed

lemma step_failed_effect:
  assumes "step_failed sc i req u H = Inr (H', evs)"
  defines "c \<equiv> completion_row sc i req ''failed'' (sq_error_type req) (sq_escalated req)"
  shows "h_completions H' = h_completions H @ [c]" "\<forall>d \<in> set (h_completions H). sc_step_attempt d \<noteq> sc_step_attempt c"
    "\<exists>a \<in> set (h_attempts H). ra_id a = sc_run_attempt c" "step_idle i H'"
    "h_items H' = (if sq_escalated req then update_where (\<lambda>w. wi_id w = i) (\<lambda>w. w\<lparr>wi_status := Blocked\<rparr>) (h_items H) else h_items H)"
    "h_attempts H' = h_attempts H" "logs H H'"
proof -
  let ?f = "\<lambda>s. s\<lparr>ss_status := SIdle, ss_attempt := None, ss_started := None, ss_version := ss_version s + 1\<rparr>"
  let ?H1 = "H\<lparr>h_steps := update_where (\<lambda>s. ss_wi s = i) ?f (h_steps H)\<rparr>"
  from assms(1) obtain H2 where H2: "insertStepCompletion c ?H1 = Inr H2"
    and H': "H' = (if sq_escalated req then escalate_stall i req u H2 else H2)"
    by (auto simp: step_failed_def c_def Let_def split: sum.splits)
  note I = insertStepCompletion_Inr [OF H2]
  have rows: "h_completions H' = h_completions H2" "h_steps H' = h_steps H2" "h_attempts H' = h_attempts H2"
    by (simp_all add: H' escalate_stall_def)
  show "h_completions H' = h_completions H @ [c]" "h_attempts H' = h_attempts H" by (simp_all add: rows I(1))
  show "\<forall>d \<in> set (h_completions H). sc_step_attempt d \<noteq> sc_step_attempt c" "\<exists>a \<in> set (h_attempts H). ra_id a = sc_run_attempt c"
    using I(2,3) by simp_all
  show "step_idle i H'" by (rule step_idle_update [of _ i ?f H]) (simp_all add: rows(2) I(1))
  show "h_items H' = (if sq_escalated req then update_where (\<lambda>w. wi_id w = i) (\<lambda>w. w\<lparr>wi_status := Blocked\<rparr>) (h_items H) else h_items H)"
    by (simp add: H' escalate_stall_def update_item_def I(1))
  have "logs H ?H1" by (rule logs_same) (simp_all add: map_update_where_frame)
  also have "logs ?H1 H2" using I by (intro logs_append [where c = c]) simp_all
  also have "logs H2 H'" by (rule logs_same) (simp_all add: rows)
  finally show "logs H H'" .
qed

text \<open>The credential check touches nothing but the heartbeat of the attempt.\<close>

lemma step_credential_rows:
  assumes "step_credential sha now i req H = Inr H1"
  shows "h_completions H1 = h_completions H" "h_steps H1 = h_steps H" "h_items H1 = h_items H"
    "map ra_id (h_attempts H1) = map ra_id (h_attempts H)"
proof -
  have "H1 = H \<or> (\<exists>att. H1 = update_attempt att (\<lambda>a. a\<lparr>ra_last_active := now\<rparr>) H)"
    using assms by (auto simp: step_credential_def VerifyAttemptCredentialPool_def dest!: verifyAttemptCredential_Inr(2)
        split: if_splits sum.splits)
  then show "h_completions H1 = h_completions H" "h_steps H1 = h_steps H" "h_items H1 = h_items H"
    "map ra_id (h_attempts H1) = map ra_id (h_attempts H)"
    by (auto simp: update_attempt_def map_update_where_frame)
qed

lemma handleUpdateStep_Inr:
  assumes "handleUpdateStep sha now sc ref req u H = Inr (H', r)"
  obtains (heartbeat) wi H1 where "load_for H ref u ''writer'' = Inr wi" "step_credential sha now (wi_id wi) req H = Inr H1"
      "sq_heartbeat req" "(H', r) = step_heartbeat now (wi_id wi) req H1"
  | (transition) wi H1 where "load_for H ref u ''writer'' = Inr wi" "step_credential sha now (wi_id wi) req H = Inr H1"
      "\<not> sq_heartbeat req" "\<not> step_summary_too_long req"
      "validateNextStepArgs (derefStr (sq_next_step req)) (derefStr (sq_next_attempt req)) (sq_status req) False = None"
      "validateTerminalStepArgs (sq_status req) (sq_step_attempt req) False = None"
      "step_transition now sc (wi_id wi) req u H1 = Inr H'"
      "r = Transitioned (sq_status req) (if derefStr (sq_next_step req) \<noteq> [] then sq_next_step req else None)"
  using assms unfolding handleUpdateStep_def
  by (auto split: option.splits sum.splits if_splits)

lemma step_transition_Inr:
  assumes "step_transition now sc i req u H = Inr H'"
  obtains H1 evs where "validateStepIdentity (sq_status req) (sq_heartbeat req) (sq_step req)
      (case step_of H i of None \<Rightarrow> None | Some s \<Rightarrow> ss_step s) = None"
    "sq_status req = ''in_progress'' \<and> step_in_progress now i req H = Inr (H1, evs) \<or>
     sq_status req = ''completed'' \<and> step_completed now sc i req H = Inr (H1, evs) \<or>
     sq_status req = ''failed'' \<and> step_failed sc i req u H = Inr (H1, evs)"
    "insert_step_events i (sq_attempt req) u evs H1 = Inr H'"
  using assms unfolding step_transition_def Let_def
  by (auto split: option.splits sum.splits if_splits)

lemma step_heartbeat_logs: "(H', r) = step_heartbeat now i req H \<Longrightarrow> logs H H'"
  by (rule logs_same) (auto simp: step_heartbeat_def Let_def map_update_where_frame)

lemma handleUpdateStep_logs:
  assumes "handleUpdateStep sha now sc ref req u H = Inr (H', r)"
  shows "logs H H'"
  using assms
proof (cases rule: handleUpdateStep_Inr)
  case (heartbeat wi H1)
  have "logs H H1" by (rule logs_same) (simp_all add: step_credential_rows [OF heartbeat(2)])
  then show ?thesis using step_heartbeat_logs [OF heartbeat(4)] by (rule logs_trans)
next
  case (transition wi H1)
  have one: "logs H H1" by (rule logs_same) (simp_all add: step_credential_rows [OF transition(2)])
  from transition(7) show ?thesis
  proof (cases rule: step_transition_Inr)
    case (1 H2 evs)
    have "logs H1 H2"
      using 1(2) step_in_progress_effect(6) step_completed_effect(7) step_failed_effect(7) by blast
    moreover have "logs H2 H'" by (rule logs_same) (simp_all add: insert_step_events_rows [OF 1(3)])
    ultimately show ?thesis using one logs_trans by blast
  qed
qed

section \<open>The log in the system\<close>

lemma complete_step_phase_logs: "complete_step_phase sc i req H = Inr H' \<Longrightarrow> logs H H'"
  by (auto simp: complete_step_phase_def intro: logs_force_terminate split: option.splits if_splits)

lemma complete_commit_step_rows:
  "h_steps (complete_commit now wi req H) = h_steps H" "h_completions (complete_commit now wi req H) = h_completions H"
  by (simp_all add: complete_commit_def complete_release_def complete_update_attempt_def expire_methodology_def Let_def)

lemma FnCompleteAttempt_logs:
  assumes "FnCompleteAttempt sha now scID wiID req roles role H = Inr H'"
  shows "logs H H'"
  using assms
proof (cases rule: FnCompleteAttempt_Inr)
  case (1 wi H1 H2)
  have "logs H H1" unfolding verifyAttemptCredential_Inr(2) [OF 1(4)] by (rule logs_same) simp_all
  also have "logs H1 H2" by (rule complete_step_phase_logs [OF 1(5)])
  also have "logs H2 H'" unfolding 1(6) by (rule logs_same) (simp_all add: complete_commit_step_rows)
  finally show ?thesis .
qed

lemma claim_step_upsert_logs: "logs H (claim_step_upsert wi req H)"
proof (cases "row_exists (\<lambda>s. ss_wi s = wi_id wi) (h_steps H)")
  case True
  then show ?thesis by (intro logs_same) (simp_all add: claim_step_upsert_def map_update_where_frame)
next
  case False
  then have "step_of H (wi_id wi) = None" by (auto simp: step_of_def select_one_None row_exists_iff)
  then show ?thesis
    using False by (intro logs_new_step [of H "wi_id wi"]) (auto simp: claim_step_upsert_def)
qed

lemma FnClaimWorkItem_logs:
  assumes "FnClaimWorkItem sha now newID ref req ca H = Inr (H', r)"
  shows "logs H H'"
  using assms
proof (cases rule: FnClaimWorkItem_Inr)
  case (fresh wi tk prior pairs)
  from fresh(7) show ?thesis
  proof (cases rule: claim_grant_Inr)
    case (1 H1 H2 H3 H4)
    let ?H5 = "update_item (wi_id wi) (\<lambda>w. w\<lparr>wi_status := Running, wi_current := Some newID, wi_epoch := wi_epoch wi + 1\<rparr>) H4"
    have "logs H H1" unfolding 1(1) by (rule logs_same) (simp_all add: claim_supersede_def)
    also have "logs H1 H2" by (rule logs_same) (simp_all add: insert_attempt_Inr(1) [OF 1(2)])
    also have "logs H2 H3" unfolding 1(3) by (rule logs_same) simp_all
    also have "logs H3 H4" by (rule logs_locks [OF acquire_all_frame [OF 1(4)]])
    also have "logs H4 ?H5" by (rule logs_same) simp_all
    also have "logs ?H5 (claim_step_upsert wi req ?H5)" by (rule claim_step_upsert_logs)
    also have "logs (claim_step_upsert wi req ?H5) H'" unfolding 1(5) by (rule logs_same) (simp_all add: claim_classify_def)
    finally show ?thesis .
  qed
qed simp

lemma takeover_apply_logs:
  assumes "takeover_apply sha now newID gen scID tc req ca H = Inr H'"
  shows "logs H H'"
  using assms
proof (cases rule: takeover_apply_Inr)
  case (1 pairs H1 H2)
  let ?K = "case step_of H (wi_id (tc_wi tc)) of None \<Rightarrow> H
     | Some st \<Rightarrow> if ss_status st = SInProgress
         then fnForceTerminateStep scID (wi_id (tc_wi tc)) (tc_prior tc) (ss_attempt st) H else H"
  have "logs H ?K" by (auto split: option.splits intro: logs_force_terminate)
  also have "logs ?K (takeover_displace now scID tc req ca H)"
    unfolding takeover_displace_def Let_def by (rule logs_same) simp_all
  also have "logs (takeover_displace now scID tc req ca H) H1"
    by (rule logs_same) (simp_all add: insert_attempt_Inr(1) [OF 1(3)])
  also have "logs H1 H2" by (rule logs_locks [OF acquire_all_frame [OF 1(4)]])
  also have "logs H2 H'" unfolding 1(5) by (rule logs_same) simp_all
  finally show ?thesis .
qed

lemma hub_tx_logs: "hub_tx sha ok H H' \<Longrightarrow> logs H H'"
proof (induction rule: hub_tx.induct)
  case (tx_pins now wiID ac pins H H')
  then show ?case
    by (auto simp: FnRecordRepoPins_def dest!: verifyAttemptCredential_Inr(2) split: option.splits sum.splits
        intro!: logs_same)
next
  case (tx_locks now ref ac H H' lr)
  from tx_locks show ?case
  proof (cases rule: FnAcquireLocks_Inr)
    case (1 wi declared H1 acquired)
    have "logs H H1" unfolding verifyAttemptCredential_Inr(2) [OF 1(3)] by (rule logs_same) simp_all
    also have "logs H1 H'" using acquire_loop_adds_own [OF 1(5)] by (intro logs_locks) (simp add: adds_own_def)
    finally show ?thesis .
  qed
next
  case (tx_verify now ref att e secret H H')
  then show ?case
    by (auto simp: VerifyAttemptCredentialPool_def dest!: verifyAttemptCredential_Inr(2) split: sum.splits intro!: logs_same)
next
  case (tx_cancel now ref user role roles H H')
  then show ?case by (rule CancelWorkItem_Inr) (auto simp: cancel_commit_def Let_def intro!: logs_same)
next
  case (tx_sweep H H' n)
  then show ?case by (auto simp: RunOrphanLockSweep_def split: prod.splits dest!: arg_cong [where f = fst] intro!: logs_same)
next
  case (tx_delete_dependency b c kind H H')
  then show ?case
    by (auto simp: DeleteDependency_def requeueIfUnblocked_def Let_def split: if_splits option.splits prod.splits
        intro!: logs_same)
next
  case (tx_gc_unblock H' H)
  then show ?case by (auto simp: RunUnblockDependentWI_def intro!: logs_same)
qed (auto intro: FnClaimWorkItem_logs FnCompleteAttempt_logs handleUpdateStep_logs)

lemma sys_step_logs:
  assumes "sys_step sha ok s t"
  shows "logs (hs_hub s) (hs_hub t)"
  using assms
proof (cases rule: sys_step.cases)
  case (sys_edge_insert dreq project user)
  then show ?thesis
    by (auto simp: create_dependency_insert_def Let_def intro!: logs_same)
qed (auto intro: hub_tx_logs takeover_apply_logs)

lemma sys_steps_logs: "(sys_step sha ok)\<^sup>*\<^sup>* s t \<Longrightarrow> logs (hs_hub s) (hs_hub t)"
  by (induction rule: rtranclp_induct) (auto intro: sys_step_logs logs_trans)

section \<open>Properties\<close>

text \<open>Ann records that her second attempt starts a step, and then that it is done.\<close>

definition ann_user :: user_ctx where
  "ann_user = \<lparr>us_id = ''ann'', us_display = ''Ann'', us_role = ''user'', us_project_roles = (\<lambda>p. ''writer''),
     us_api_key = ''k1'', us_scope = None\<rparr>"

definition a_step :: "string \<Rightarrow> step_request" where
  "a_step st = \<lparr>sq_attempt = ''r2'', sq_epoch = 2, sq_secret = ''pw'', sq_status = st, sq_step = Some ''build'',
     sq_step_attempt = Some ''s1'', sq_heartbeat = False, sq_summary = None, sq_error_type = None, sq_escalated = False,
     sq_next_step = None, sq_next_attempt = None\<rparr>"

definition stepped :: "int \<Rightarrow> step_request \<Rightarrow> hub \<Rightarrow> hub" where
  "stepped now req H = (case handleUpdateStep (\<lambda>s. s) now ''c1'' ''w1'' req ann_user H of Inl e \<Rightarrow> H | Inr (H', r) \<Rightarrow> H')"

lemma stepped_Inr:
  "\<not> isl (handleUpdateStep (\<lambda>s. s) now ''c1'' ''w1'' req ann_user H) \<Longrightarrow>
   \<exists>r. handleUpdateStep (\<lambda>s. s) now ''c1'' ''w1'' req ann_user H = Inr (stepped now req H, r)"
  by (cases "handleUpdateStep (\<lambda>s. s) now ''c1'' ''w1'' req ann_user H") (auto simp: stepped_def)

text \<open>
  Starting a step is exclusive. The handler accepts a start only while no step of the
  item is in progress, and afterwards the named step is, under the named step attempt; it
  records no completion and changes no work item.
\<close>

theorem step_start_exclusive:
  assumes "handleUpdateStep sha now sc ref req u H = Inr (H', r)"
    and "sq_status req = ''in_progress''" "\<not> sq_heartbeat req"
  shows "\<exists>wi. load_for H ref u ''writer'' = Inr wi \<and> step_idle (wi_id wi) H \<and>
    step_started (wi_id wi) (sq_step req) (sq_step_attempt req) H' \<and> \<not> step_idle (wi_id wi) H' \<and>
    h_completions H' = h_completions H \<and> h_items H' = h_items H"
  using assms(1)
proof (cases rule: handleUpdateStep_Inr)
  case (transition wi H1)
  note C = step_credential_rows [OF transition(2)]
  from transition(7) show ?thesis
  proof (cases rule: step_transition_Inr)
    case (1 H2 evs)
    have go: "step_in_progress now (wi_id wi) req H1 = Inr (H2, evs)" using 1(2) assms(2) by simp
    note P = step_in_progress_effect [OF go] and E = insert_step_events_rows [OF 1(3)]
    have "step_started (wi_id wi) (sq_step req) (sq_step_attempt req) H'"
      using P(2) E step_started_cong [of H' H2] by simp
    moreover from this have "\<not> step_idle (wi_id wi) H'" by (auto simp: step_started_def step_idle_def)
    moreover have "step_idle (wi_id wi) H" using P(1) step_idle_cong [OF C(2)] by simp
    ultimately show ?thesis using transition(1) P(3,4) E C(1,3) by (intro exI [of _ wi]) simp
  qed
qed (use assms(3) in simp)

theorem step_start_exclusive_witness:
  "step_started ''w1'' (Some ''build'') (Some ''s1'') (stepped 50 (a_step ''in_progress'') ex_hub2)"
proof -
  have "\<not> isl (handleUpdateStep (\<lambda>s. s) 50 ''c1'' ''w1'' (a_step ''in_progress'') ann_user ex_hub2)" by code_simp
  from stepped_Inr [OF this] obtain r where
    r: "handleUpdateStep (\<lambda>s. s) 50 ''c1'' ''w1'' (a_step ''in_progress'') ann_user ex_hub2 =
      Inr (stepped 50 (a_step ''in_progress'') ex_hub2, r)" ..
  have "(case load_for ex_hub2 ''w1'' ann_user ''writer'' of Inl e \<Rightarrow> [] | Inr w \<Rightarrow> wi_id w) = ''w1''" by code_simp
  with step_start_exclusive [OF r] show ?thesis by (auto simp: a_step_def)
qed

text \<open>
  C13: Ending a step is recorded exactly once. A transition to completed or failed is
  accepted only for the step the item is at, with a step attempt that is not blank and has
  never been recorded, and on behalf of an existing attempt; it appends exactly one row
  with that step, step attempt and status to the history; afterwards no step is in
  progress, or exactly the named next one is; and only an escalated failure touches a work
  item, which it blocks.
\<close>

theorem step_done_recorded:
  assumes "handleUpdateStep sha now sc ref req u H = Inr (H', Transitioned st nx)" "st \<noteq> ''in_progress''"
  shows "\<exists>wi c. load_for H ref u ''writer'' = Inr wi \<and> st \<in> {''completed'', ''failed''} \<and>
    h_completions H' = h_completions H @ [c] \<and> sc_wi c = wi_id wi \<and> sc_status c = st \<and>
    sc_step_attempt c \<notin> sc_step_attempt ` set (h_completions H) \<and> trim_space (sc_step_attempt c) \<noteq> [] \<and>
    sc_run_attempt c \<in> ra_id ` set (h_attempts H) \<and>
    (\<forall>row stored. step_of H (wi_id wi) = Some row \<and> ss_step row = Some stored \<longrightarrow> sc_step c = stored) \<and>
    (case nx of None \<Rightarrow> step_idle (wi_id wi) H' | Some n \<Rightarrow> step_started (wi_id wi) (Some n) (sq_next_attempt req) H') \<and>
    h_items H' = (if st = ''failed'' \<and> sc_escalated c
      then update_where (\<lambda>w. wi_id w = wi_id wi) (\<lambda>w. w\<lparr>wi_status := Blocked\<rparr>) (h_items H) else h_items H)"
  using assms(1)
proof (cases rule: handleUpdateStep_Inr)
  case (heartbeat wi H1)
  then show ?thesis by (simp add: step_heartbeat_def Let_def)
next
  case (transition wi H1)
  note C = step_credential_rows [OF transition(2)]
  have st: "st = sq_status req" and nx: "nx = (if derefStr (sq_next_step req) \<noteq> [] then sq_next_step req else None)"
    using transition(8) by simp_all
  have row: "step_of H1 (wi_id wi) = step_of H (wi_id wi)" by (simp add: step_of_def C(2))
  have atts: "ra_id ` set (h_attempts H1) = ra_id ` set (h_attempts H)" using C(4) by (metis set_map)
  from transition(7) show ?thesis
  proof (cases rule: step_transition_Inr)
    case (1 H2 evs)
    note E = insert_step_events_rows [OF 1(3)]
    have st2: "st \<in> {''completed'', ''failed''}" using 1(2) st assms(2) by auto
    with transition(6) st obtain sa where sa: "sq_step_attempt req = Some sa" "trim_space sa \<noteq> []"
      by (auto simp: validateTerminalStepArgs_def split: option.splits if_splits)
    have ident: "derefStr (sq_step req) = stored" if "step_of H (wi_id wi) = Some row" "ss_step row = Some stored" for row stored
      using 1(1) that st2 st transition(3) row by (auto simp: validateStepIdentity_def split: if_splits)
    define c where "c = completion_row sc (wi_id wi) req st (if st = ''failed'' then sq_error_type req else None)
      (st = ''failed'' \<and> sq_escalated req)"
    have done2: "h_completions H2 = h_completions H1 @ [c]" "\<forall>d \<in> set (h_completions H1). sc_step_attempt d \<noteq> sc_step_attempt c"
      "\<exists>a \<in> set (h_attempts H1). ra_id a = sc_run_attempt c"
      "case nx of None \<Rightarrow> step_idle (wi_id wi) H2 | Some n \<Rightarrow> step_started (wi_id wi) (Some n) (sq_next_attempt req) H2"
      "h_items H2 = (if st = ''failed'' \<and> sc_escalated c
        then update_where (\<lambda>w. wi_id w = wi_id wi) (\<lambda>w. w\<lparr>wi_status := Blocked\<rparr>) (h_items H1) else h_items H1)"
    proof -
      have "h_completions H2 = h_completions H1 @ [c] \<and> (\<forall>d \<in> set (h_completions H1). sc_step_attempt d \<noteq> sc_step_attempt c) \<and>
        (\<exists>a \<in> set (h_attempts H1). ra_id a = sc_run_attempt c) \<and>
        (case nx of None \<Rightarrow> step_idle (wi_id wi) H2 | Some n \<Rightarrow> step_started (wi_id wi) (Some n) (sq_next_attempt req) H2) \<and>
        h_items H2 = (if st = ''failed'' \<and> sc_escalated c
          then update_where (\<lambda>w. wi_id w = wi_id wi) (\<lambda>w. w\<lparr>wi_status := Blocked\<rparr>) (h_items H1) else h_items H1)"
      proof (cases "st = ''completed''")
        case True
        then have ok: "step_completed now sc (wi_id wi) req H1 = Inr (H2, evs)" using 1(2) st by auto
        have "c = completion_row sc (wi_id wi) req ''completed'' None False" using True by (simp add: c_def)
        with step_completed_effect [OF ok] True nx show ?thesis
          by (cases "sq_next_step req") (auto simp: derefStr_def split: if_splits)
      next
        case False
        with st2 have F: "st = ''failed''" by simp
        then have ok: "step_failed sc (wi_id wi) req u H1 = Inr (H2, evs)" using 1(2) st by auto
        have "c = completion_row sc (wi_id wi) req ''failed'' (sq_error_type req) (sq_escalated req)"
          using F by (simp add: c_def)
        moreover have "nx = None"
          using transition(5) F st nx by (auto simp: validateNextStepArgs_def split: if_splits)
        ultimately show ?thesis using step_failed_effect [OF ok] F by (simp add: completion_row_def)
      qed
      then show "h_completions H2 = h_completions H1 @ [c]" "\<forall>d \<in> set (h_completions H1). sc_step_attempt d \<noteq> sc_step_attempt c"
        "\<exists>a \<in> set (h_attempts H1). ra_id a = sc_run_attempt c"
        "case nx of None \<Rightarrow> step_idle (wi_id wi) H2 | Some n \<Rightarrow> step_started (wi_id wi) (Some n) (sq_next_attempt req) H2"
        "h_items H2 = (if st = ''failed'' \<and> sc_escalated c
          then update_where (\<lambda>w. wi_id w = wi_id wi) (\<lambda>w. w\<lparr>wi_status := Blocked\<rparr>) (h_items H1) else h_items H1)"
        by blast+
    qed
    have "case nx of None \<Rightarrow> step_idle (wi_id wi) H' | Some n \<Rightarrow> step_started (wi_id wi) (Some n) (sq_next_attempt req) H'"
      using done2(4) E step_idle_cong [of H' H2] step_started_cong [of H' H2] by (simp split: option.splits)
    moreover have "sc_run_attempt c \<in> ra_id ` set (h_attempts H)" using done2(3) atts by force
    moreover have "sc_step_attempt c \<notin> sc_step_attempt ` set (h_completions H)" using done2(2) C(1) by auto
    moreover have "sc_wi c = wi_id wi" "sc_status c = st" "trim_space (sc_step_attempt c) \<noteq> []" "sc_step c = derefStr (sq_step req)"
      using sa by (simp_all add: c_def completion_row_def derefStr_def)
    ultimately show ?thesis
      using transition(1) st2 done2(1,5) E C(1,3) ident by (intro exI [of _ wi] exI [of _ c]) simp
  qed
qed

theorem step_done_recorded_witness:
  "map sc_step_attempt (h_completions (stepped 60 (a_step ''completed'') (stepped 50 (a_step ''in_progress'') ex_hub2))) = [''s1'']"
proof -
  let ?H = "stepped 50 (a_step ''in_progress'') ex_hub2"
  let ?r = "handleUpdateStep (\<lambda>s. s) 60 ''c1'' ''w1'' (a_step ''completed'') ann_user ?H"
  have ok: "\<not> isl ?r" "(case ?r of Inl e \<Rightarrow> False | Inr (H, r) \<Rightarrow> r = Transitioned ''completed'' None)" "h_completions ?H = []"
    by code_simp+
  from stepped_Inr [OF ok(1)] ok(2) have
    r: "?r = Inr (stepped 60 (a_step ''completed'') ?H, Transitioned ''completed'' None)" by auto
  from step_done_recorded [OF r] obtain c where
    "h_completions (stepped 60 (a_step ''completed'') ?H) = h_completions ?H @ [c]" by auto
  moreover have "(case ?r of Inl e \<Rightarrow> [] | Inr (H, r) \<Rightarrow> map sc_step_attempt (h_completions H)) = [''s1'']" by code_simp
  ultimately show ?thesis using r by simp
qed

text \<open>
  The history of step completions is an append-only log. From a hub without steps, in
  every run, a later history extends an earlier one, no step attempt is recorded twice, and
  every work item has at most one step state.
\<close>

theorem step_history_append_only:
  assumes "h_completions (hs_hub s0) = []" "h_steps (hs_hub s0) = []"
    and "(sys_step sha ok)\<^sup>*\<^sup>* s0 s" "(sys_step sha ok)\<^sup>*\<^sup>* s t"
  shows "prefix (h_completions (hs_hub s)) (h_completions (hs_hub t)) \<and>
    distinct (map sc_step_attempt (h_completions (hs_hub t))) \<and> distinct (map ss_wi (h_steps (hs_hub t)))"
proof -
  have "logs (hs_hub s) (hs_hub t)" by (rule sys_steps_logs [OF assms(4)])
  moreover have "logs (hs_hub s0) (hs_hub t)" by (rule sys_steps_logs [OF rtranclp_trans [OF assms(3,4)]])
  ultimately show ?thesis using assms(1,2) by (auto simp: logs_def prefix_def)
qed

theorem step_history_append_only_witness:
  "distinct (map ss_wi (h_steps ex_hub3))"
  using step_history_append_only [of "ex_sys ex_hub0" "\<lambda>s. s" "\<lambda>r. True" "ex_sys ex_hub0" "ex_sys ex_hub3"] ex_run3 [of "\<lambda>r. True"]
  by (simp add: ex_sys_def ex_hub0_def hub_of_items_def)

text \<open>
  The step handler checks the credential only when both an attempt id and a secret come
  with the request. A writer who sends no secret can report an escalated failure on a work
  item that has been wrapped: the item leaves its terminal status and becomes blocked.
\<close>

theorem stall_without_secret_reopens:
  "\<exists>H H'. (sys_step (\<lambda>s. s) (\<lambda>r. True))\<^sup>*\<^sup>* (ex_sys ex_hub0) (ex_sys H) \<and>
    (\<exists>r. handleUpdateStep (\<lambda>s. s) 60 ''c9'' ''w1'' ((a_step ''failed'')\<lparr>sq_secret := [], sq_escalated := True\<rparr>) ann_user H = Inr (H', r)) \<and>
    map wi_status (h_items H) = [Wrapped, Queued, Queued] \<and> map wi_status (h_items H') = [Blocked, Queued, Queued]"
proof -
  let ?H = "finished 40 ''c40'' ''w1'' (a_finish ''r2'' 2 ''wrapped'') ex_hub2"
  let ?req = "(a_step ''failed'')\<lparr>sq_secret := [], sq_escalated := True\<rparr>"
  let ?r = "handleUpdateStep (\<lambda>s. s) 60 ''c9'' ''w1'' ?req ann_user ?H"
  have "\<not> isl (FnCompleteAttempt (\<lambda>s. s) 40 ''c40'' ''w1'' (a_finish ''r2'' 2 ''wrapped'') (\<lambda>p. []) [] ex_hub2)"
    by code_simp
  from finished_step [OF this, of "\<lambda>r. True"] have run: "(sys_step (\<lambda>s. s) (\<lambda>r. True))\<^sup>*\<^sup>* (ex_sys ex_hub0) (ex_sys ?H)"
    using ex_run2 [of "\<lambda>r. True"] by (meson rtranclp.rtrancl_into_rtrancl)
  have "map wi_status (h_items ?H) = [Wrapped, Queued, Queued]" by code_simp
  moreover have "(case ?r of Inl e \<Rightarrow> False | Inr (H', r) \<Rightarrow> map wi_status (h_items H') = [Blocked, Queued, Queued])" by code_simp
  then obtain H' r where "?r = Inr (H', r)" "map wi_status (h_items H') = [Blocked, Queued, Queued]"
    by (cases ?r) auto
  ultimately show ?thesis using run by - (rule exI [of _ ?H], rule exI [of _ H'], intro conjI exI [of _ r])
qed

end
