(* ===== verification/Lifecycle_Findings.thy ===== *)
theory Lifecycle_Findings
  imports Lifecycle Step_History
begin

text \<open>
  Runs of the hub that the code does not mean to allow, each exhibited from the initial
  state of the example: a lock that outlives its finished item, a finished item brought back
  by a takeover decided earlier, and an item with two running attempts.
\<close>

lemma sys_claim:
  assumes "FnClaimWorkItem (\<lambda>s. s) now newID ref req ca (hs_hub s) = Inr (H', r)"
  shows "sys_step (\<lambda>s. s) (\<lambda>r. True) s (s\<lparr>hs_hub := H'\<rparr>)"
  by (rule sys_tx [OF tx_claim [OF assms]]) simp

lemma sys_update_step:
  assumes "handleUpdateStep (\<lambda>s. s) now sc ref req u (hs_hub s) = Inr (H', r)"
  shows "sys_step (\<lambda>s. s) ok s (s\<lparr>hs_hub := H'\<rparr>)"
  by (rule sys_tx [OF tx_step [OF assms]])

section \<open>A lock that outlives its item\<close>

text \<open>Ann claims with a branch lock and pauses; Bob claims the paused item and wraps it.\<close>

definition branch_claim :: claim_request where
  "branch_claim = (a_claim ''c1'')\<lparr>cr_locks := [\<lparr>rq_type = ''git_branch'', rq_key = ''p:main''\<rparr>]\<rparr>"

definition leak1 :: hub where "leak1 = claimed 10 ''r1'' ''w1'' branch_claim ann ex_hub0"
definition leak2 :: hub where "leak2 = finished 20 ''x1'' ''w1'' (a_finish ''r1'' 1 ''paused'') leak1"
definition leak3 :: hub where "leak3 = claimed 30 ''r2'' ''w1'' (a_claim ''c2'') bob leak2"
definition leak4 :: hub where "leak4 = finished 40 ''x2'' ''w1'' (a_finish ''r2'' 2 ''wrapped'') leak3"

lemma leak_run: "(sys_step (\<lambda>s. s) (\<lambda>r. True))\<^sup>*\<^sup>* (ex_sys ex_hub0) (ex_sys leak4)"
proof -
  have 1: "\<not> isl (FnClaimWorkItem (\<lambda>s. s) 10 ''r1'' ''w1'' branch_claim ann ex_hub0)"
    "\<not> isl (FnCompleteAttempt (\<lambda>s. s) 20 ''x1'' ''w1'' (a_finish ''r1'' 1 ''paused'') (\<lambda>p. []) [] leak1)"
    "\<not> isl (FnClaimWorkItem (\<lambda>s. s) 30 ''r2'' ''w1'' (a_claim ''c2'') bob leak2)"
    "\<not> isl (FnCompleteAttempt (\<lambda>s. s) 40 ''x2'' ''w1'' (a_finish ''r2'' 2 ''wrapped'') (\<lambda>p. []) [] leak3)"
    by code_simp+
  have "sys_step (\<lambda>s. s) (\<lambda>r. True) (ex_sys ex_hub0) (ex_sys leak1)"
    unfolding leak1_def by (rule claimed_step [OF 1(1)]) simp
  moreover have "sys_step (\<lambda>s. s) (\<lambda>r. True) (ex_sys leak1) (ex_sys leak2)"
    unfolding leak2_def by (rule finished_step [OF 1(2)])
  moreover have "sys_step (\<lambda>s. s) (\<lambda>r. True) (ex_sys leak2) (ex_sys leak3)"
    unfolding leak3_def by (rule claimed_step [OF 1(3)]) simp
  moreover have "sys_step (\<lambda>s. s) (\<lambda>r. True) (ex_sys leak3) (ex_sys leak4)"
    unfolding leak4_def by (rule finished_step [OF 1(4)])
  ultimately show ?thesis by (meson rtranclp.rtrancl_refl rtranclp.rtrancl_into_rtrancl)
qed


section \<open>A takeover decided too early\<close>

definition bobs_takeover :: takeover_ctx where
  "bobs_takeover = (case takeover_read ex_hub2 ''w1'' a_takeover bob ''admin'' (\<lambda>p. []) of
     Inl e \<Rightarrow> \<lparr>tc_wi = hd (h_items ex_hub2), tc_prior = [], tc_prior_display = []\<rparr> | Inr tc \<Rightarrow> tc)"

definition taken_over :: hub where
  "taken_over = (case takeover_apply (\<lambda>s. s) 50 ''r5'' ''g'' ''x5'' bobs_takeover a_takeover bob ex_hub4 of Inl e \<Rightarrow> ex_hub4 | Inr H \<Rightarrow> H)"

text \<open>
  C26: A forced takeover brings a finished work item back. Its checks read the item outside
  the transaction that applies them; when the holder wraps the item in between, the takeover
  still succeeds, the item leaves its terminal status and the wrapped attempt is rewritten
  as superseded.
\<close>

theorem takeover_reopens_wrapped_item:
  "(sys_step (\<lambda>s. s) (\<lambda>r. True))\<^sup>*\<^sup>* (ex_sys ex_hub0)
     \<lparr>hs_hub = ex_hub4, hs_takeovers = [(bobs_takeover, a_takeover, bob)], hs_edges = []\<rparr> \<and>
   sys_step (\<lambda>s. s) (\<lambda>r. True)
     \<lparr>hs_hub = ex_hub4, hs_takeovers = [(bobs_takeover, a_takeover, bob)], hs_edges = []\<rparr>
     \<lparr>hs_hub = taken_over, hs_takeovers = [(bobs_takeover, a_takeover, bob)], hs_edges = []\<rparr> \<and>
   map_option wi_status (item_by_id ex_hub4 ''w1'') = Some Wrapped \<and>
   map_option wi_status (item_by_id taken_over ''w1'') = Some Running \<and>
   attempt_statuses ex_hub4 = [(''r1'', ASuperseded), (''r2'', AWrapped)] \<and>
   attempt_statuses taken_over = [(''r1'', ASuperseded), (''r2'', ASuperseded), (''r5'', ARunning)]"
proof (intro conjI)
  let ?T = "[(bobs_takeover, a_takeover, bob)]"
  have read: "takeover_read ex_hub2 ''w1'' a_takeover bob ''admin'' (\<lambda>p. []) = Inr bobs_takeover"
  proof -
    have "\<not> isl (takeover_read ex_hub2 ''w1'' a_takeover bob ''admin'' (\<lambda>p. []))" by code_simp
    then show ?thesis
      by (cases "takeover_read ex_hub2 ''w1'' a_takeover bob ''admin'' (\<lambda>p. [])") (simp_all add: bobs_takeover_def)
  qed
  have apply': "takeover_apply (\<lambda>s. s) 50 ''r5'' ''g'' ''x5'' bobs_takeover a_takeover bob ex_hub4 = Inr taken_over"
  proof -
    have "\<not> isl (takeover_apply (\<lambda>s. s) 50 ''r5'' ''g'' ''x5'' bobs_takeover a_takeover bob ex_hub4)" by code_simp
    then show ?thesis
      by (cases "takeover_apply (\<lambda>s. s) 50 ''r5'' ''g'' ''x5'' bobs_takeover a_takeover bob ex_hub4") (simp_all add: taken_over_def)
  qed
  have "sys_step (\<lambda>s. s) (\<lambda>r. True) (ex_sys ex_hub2) \<lparr>hs_hub = ex_hub2, hs_takeovers = ?T, hs_edges = []\<rparr>"
    using sys_takeover_read [of "ex_sys ex_hub2", simplified ex_sys_def, simplified, OF read] by (simp add: ex_sys_def)
  moreover have "sys_step (\<lambda>s. s) (\<lambda>r. True) \<lparr>hs_hub = ex_hub2, hs_takeovers = ?T, hs_edges = []\<rparr>
      \<lparr>hs_hub = ex_hub4, hs_takeovers = ?T, hs_edges = []\<rparr>"
    using complete_sys_step [of "\<lambda>s. s" 40 "''c40''" "''w1''" "a_finish ''r2'' 2 ''wrapped''" "\<lambda>p. []" "[]"
        "\<lparr>hs_hub = ex_hub2, hs_takeovers = ?T, hs_edges = []\<rparr>" ex_hub4 "\<lambda>r. True"] ex_finish_ok by simp
  ultimately show "(sys_step (\<lambda>s. s) (\<lambda>r. True))\<^sup>*\<^sup>* (ex_sys ex_hub0) \<lparr>hs_hub = ex_hub4, hs_takeovers = ?T, hs_edges = []\<rparr>"
    using ex_run2 [of "\<lambda>r. True"] by (meson rtranclp.rtrancl_into_rtrancl)
  show "sys_step (\<lambda>s. s) (\<lambda>r. True) \<lparr>hs_hub = ex_hub4, hs_takeovers = ?T, hs_edges = []\<rparr>
      \<lparr>hs_hub = taken_over, hs_takeovers = ?T, hs_edges = []\<rparr>"
    using sys_takeover_apply [of bobs_takeover a_takeover bob "\<lparr>hs_hub = ex_hub4, hs_takeovers = ?T, hs_edges = []\<rparr>"
        "\<lambda>s. s" 50 "''r5''" "''g''" "''x5''" taken_over "\<lambda>r. True"] apply' by simp
  show "map_option wi_status (item_by_id ex_hub4 ''w1'') = Some Wrapped"
    "map_option wi_status (item_by_id taken_over ''w1'') = Some Running"
    "attempt_statuses ex_hub4 = [(''r1'', ASuperseded), (''r2'', AWrapped)]"
    "attempt_statuses taken_over = [(''r1'', ASuperseded), (''r2'', ASuperseded), (''r5'', ARunning)]"
    by code_simp+
qed

section \<open>Two running attempts\<close>

definition waits_for :: dependency_request where
  "waits_for = \<lparr>dq_blocked = ''w1'', dq_blocking = ''w2'', dq_kind = ''blocks'', dq_note = None\<rparr>"

definition stalled1 :: hub where "stalled1 = create_dependency_insert waits_for ''p'' ''ann'' ex_hub2"
definition stalled2 :: hub where "stalled2 = stepped 50 ((a_step ''failed'')\<lparr>sq_escalated := True\<rparr>) stalled1"
definition stalled3 :: hub where
  "stalled3 = (case DeleteDependency ''w1'' ''w2'' ''blocks'' stalled2 of Inl e \<Rightarrow> stalled2 | Inr H \<Rightarrow> H)"
definition stalled4 :: hub where "stalled4 = claimed 60 ''r4'' ''w1'' (a_claim ''c4'') bob stalled3"

text \<open>
  An item can have two running attempts. An escalated failure blocks the item but leaves
  its attempt running; once the item is queued again, here because a dependency of it is
  removed, the next claim is no takeover, so the first attempt is never superseded.
\<close>

theorem two_running_attempts:
  "\<exists>edges. (sys_step (\<lambda>s. s) (\<lambda>r. True))\<^sup>*\<^sup>* (ex_sys ex_hub0)
      \<lparr>hs_hub = stalled4, hs_takeovers = [], hs_edges = edges\<rparr> \<and>
    map (\<lambda>a. (ra_id a, ra_wi a, ra_status a)) (h_attempts stalled4) =
      [(''r1'', ''w1'', ASuperseded), (''r2'', ''w1'', ARunning), (''r4'', ''w1'', ARunning)]"
proof (intro exI conjI)
  let ?E = "[(waits_for, ''p'')]"
  let ?S = "\<lambda>H. \<lparr>hs_hub = H, hs_takeovers = [], hs_edges = ?E\<rparr>"
  have "create_dependency_check ex_hub2 waits_for (\<lambda>p. ''writer'') [] = Inr ''p''" by code_simp
  then have 0: "sys_step (\<lambda>s. s) (\<lambda>r. True) (ex_sys ex_hub2) (?S ex_hub2)"
    using sys_edge_check [of "ex_sys ex_hub2" waits_for "\<lambda>p. ''writer''" "[]" "''p''" "\<lambda>s. s" "\<lambda>r. True"] by (simp add: ex_sys_def)
  have 1: "sys_step (\<lambda>s. s) (\<lambda>r. True) (?S ex_hub2) (?S stalled1)"
    using sys_edge_insert [of waits_for "''p''" "?S ex_hub2" "\<lambda>s. s" "\<lambda>r. True" "''ann''"] by (simp add: stalled1_def)
  have ok: "\<not> isl (handleUpdateStep (\<lambda>s. s) 50 ''c1'' ''w1'' ((a_step ''failed'')\<lparr>sq_escalated := True\<rparr>) ann_user stalled1)"
    "\<not> isl (DeleteDependency ''w1'' ''w2'' ''blocks'' stalled2)"
    "\<not> isl (FnClaimWorkItem (\<lambda>s. s) 60 ''r4'' ''w1'' (a_claim ''c4'') bob stalled3)"
    by code_simp+
  from stepped_Inr [OF ok(1)] have 2: "sys_step (\<lambda>s. s) (\<lambda>r. True) (?S stalled1) (?S stalled2)"
    using sys_update_step [of 50 "''c1''" "''w1''" _ ann_user "?S stalled1"] by (auto simp: stalled2_def)
  have "DeleteDependency ''w1'' ''w2'' ''blocks'' stalled2 = Inr stalled3"
    using ok(2) by (cases "DeleteDependency ''w1'' ''w2'' ''blocks'' stalled2") (simp_all add: stalled3_def)
  then have 3: "sys_step (\<lambda>s. s) (\<lambda>r. True) (?S stalled2) (?S stalled3)"
    using sys_tx [OF tx_delete_dependency, of "''w1''" "''w2''" "''blocks''" "?S stalled2"] by simp
  from claimed_Inr [OF ok(3)] have 4: "sys_step (\<lambda>s. s) (\<lambda>r. True) (?S stalled3) (?S stalled4)"
    using sys_claim [of 60 "''r4''" "''w1''" "a_claim ''c4''" bob "?S stalled3"] by (auto simp: stalled4_def)
  show "(sys_step (\<lambda>s. s) (\<lambda>r. True))\<^sup>*\<^sup>* (ex_sys ex_hub0) (?S stalled4)"
    using ex_run2 [of "\<lambda>r. True"] 0 1 2 3 4 by (meson rtranclp.rtrancl_into_rtrancl)
  show "map (\<lambda>a. (ra_id a, ra_wi a, ra_status a)) (h_attempts stalled4) =
      [(''r1'', ''w1'', ASuperseded), (''r2'', ''w1'', ARunning), (''r4'', ''w1'', ARunning)]" by code_simp
qed

end
