(* ===== verification/Authorization.thy ===== *)
theory Authorization
  imports Fencing
begin

text \<open>
  Who may do what: every handler in front of the attempt lifecycle that succeeds has been
  called by someone with the role it demands in the project of the addressed work item, and
  an attempt of another user is displaced only by a maintainer or an administrator.
\<close>

definition may :: "user_ctx \<Rightarrow> string \<Rightarrow> nat \<Rightarrow> bool" where
  "may u project level \<longleftrightarrow> (us_scope u = None \<or> us_scope u = Some project) \<and>
     (us_role u = ''admin'' \<or> project \<noteq> [] \<and> us_project_roles u project \<noteq> [] \<and>
        max 1 level \<le> RoleLevel (us_project_roles u project))"

lemma checkProjectAccess_iff: "checkProjectAccess (Some u) project role = None \<longleftrightarrow> may u project (RoleLevel role)"
proof -
  have "RoleLevel ''viewer'' = 1" by (simp add: RoleLevel_def)
  then show ?thesis by (auto simp: checkProjectAccess_def may_def Let_def)
qed

lemma load_for_Inr:
  assumes "load_for H ref u role = Inr wi"
  shows "item_by_ref H ref = Some wi" "may u (wi_project wi) (RoleLevel role)"
  using assms checkProjectAccess_iff [of u "wi_project wi" role]
  by (auto simp: load_for_def GetWorkItem_def split: sum.splits option.splits)

definition allowed :: "hub \<Rightarrow> string \<Rightarrow> user_ctx \<Rightarrow> nat \<Rightarrow> bool" where
  "allowed H ref u level \<longleftrightarrow> (\<exists>wi. item_by_ref H ref = Some wi \<and> may u (wi_project wi) level)"

lemma load_for_allowed: "load_for H ref u ''writer'' = Inr wi \<Longrightarrow> allowed H ref u 2"
  using load_for_Inr [of H ref u "''writer''" wi] by (auto simp: allowed_def RoleLevel_def)

lemma RoleLevel_values: "RoleLevel ''writer'' = 2" "RoleLevel ''maintainer'' = 3"
  by (simp_all add: RoleLevel_def)

lemma may_mono: "may u p m \<Longrightarrow> n \<le> m \<Longrightarrow> may u p n"
  by (auto simp: may_def)


definition a_viewer :: user_ctx where
  "a_viewer = \<lparr>us_id = ''eve'', us_display = ''Eve'', us_role = ''user'', us_project_roles = (\<lambda>p. ''viewer''),
     us_api_key = ''k9'', us_scope = None\<rparr>"


lemma takeover_needs_maintainer:
  assumes "item_by_ref H ref = Some wi" "wi_current wi = Some cur" "attempt_by_id H cur = Some a" "ra_actor a \<noteq> us_id u"
    and take: "handleForceTakeover sha now newID gen sc ref treq u H = Inr K"
  shows "us_role u = ''admin'' \<or> us_project_roles u (wi_project wi) = ''maintainer''"
proof -
  from take have "FnForceTakeover sha now newID gen sc ref treq (caller_of u) (us_role u) (us_project_roles u) H = Inr K"
    by (auto simp: handleForceTakeover_def split: sum.splits option.splits)
  then obtain tc where tc: "takeover_read H ref treq (caller_of u) (us_role u) (us_project_roles u) = Inr tc"
    by (auto simp: FnForceTakeover_def split: sum.splits)
  note R = takeover_read_Inr [OF tc]
  from R(1,3) assms(1,2) have "tc_wi tc = wi" "tc_prior tc = cur" by simp_all
  with R(4) assms(3,4) show ?thesis by (auto simp: caller_of_def)
qed

lemma claim_takeover_needs_maintainer:
  assumes inv: "hub_inv H" and w: "item_by_ref H ref = Some wi" "wi_status wi = Running" "wi_current wi = Some cur"
    and a: "attempt_by_id H cur = Some a" "ra_actor a \<noteq> us_id u" "ra_actor a \<noteq> []"
    and claim: "handleClaimWorkItem sha now newID ref creq u H = Inr (K, r)" "attempt_by_id H (cl_attempt r) = None"
  shows "cr_force_over creq \<and> (us_role u = ''admin'' \<or> us_project_roles u (wi_project wi) = ''maintainer'')"
proof -
  from claim(1) have c: "claim_authorize H ref creq u = None"
      "FnClaimWorkItem sha now newID ref creq (caller_of u) H = Inr (K, r)"
    by (auto simp: handleClaimWorkItem_def split: option.splits)
  have "cr_force_over creq"
    using c(2)
  proof (cases rule: FnClaimWorkItem_Inr)
    case (replay wi' b)
    with claim(2) attempt_by_id_known [OF inv replay(2)] show ?thesis by (simp add: claim_replay_def)
  next
    case (fresh wi' tk prior pairs)
    with w(1) have "wi' = wi" by simp
    with fresh(3) w(2,3) a(1,2) show ?thesis by (auto simp: claim_gate_def caller_of_def split: if_splits)
  qed
  moreover obtain wi' where "load_for H ref u ''writer'' = Inr wi'"
    using c(1) by (auto simp: claim_authorize_def split: sum.splits)
  moreover from this have "wi' = wi" using load_for_Inr(1) w(1) by fastforce
  ultimately show ?thesis using c(1) w(3) a by (auto simp: claim_authorize_def split: if_splits)
qed

text \<open>
  Displacing another user takes a maintainer. In every reachable state, on a running
  item whose current attempt belongs to someone else, a caller who is neither an
  administrator nor a maintainer of the project is refused every forced takeover, and every
  claim but the replay of one already filed, which changes nothing.
\<close>

theorem displacing_needs_maintainer:
  assumes "sys_init s0" "(sys_step sha ok)\<^sup>*\<^sup>* s0 s"
    and "item_by_ref (hs_hub s) ref = Some wi" "wi_status wi = Running" "wi_current wi = Some cur"
    and "attempt_by_id (hs_hub s) cur = Some a" "ra_actor a \<noteq> us_id u" "ra_actor a \<noteq> []"
    and "\<not> (us_role u = ''admin'' \<or> us_project_roles u (wi_project wi) = ''maintainer'')"
  shows "isl (handleForceTakeover sha now newID gen sc ref treq u (hs_hub s)) \<and>
    (\<forall>K r. handleClaimWorkItem sha now newID ref creq u (hs_hub s) = Inr (K, r) \<longrightarrow>
      K = hs_hub s \<and> (\<exists>b \<in> set (h_attempts (hs_hub s)). ra_id b = cl_attempt r \<and> ra_idem b = cr_idem creq))"
proof (intro conjI allI impI)
  let ?H = "hs_hub s"
  have inv: "hub_inv ?H" by (rule reachable_hub_inv [OF assms(1,2)])
  show "isl (handleForceTakeover sha now newID gen sc ref treq u ?H)"
    using takeover_needs_maintainer [OF assms(3,5,6,7)] assms(9)
    by (cases "handleForceTakeover sha now newID gen sc ref treq u ?H") auto
  fix K r assume claim: "handleClaimWorkItem sha now newID ref creq u ?H = Inr (K, r)"
  then have "attempt_by_id ?H (cl_attempt r) \<noteq> None"
    using claim_takeover_needs_maintainer [OF inv assms(3-8) claim] assms(9) by blast
  then obtain b where b: "b \<in> set (h_attempts ?H)" "ra_id b = cl_attempt r" by (auto dest: attempt_by_id_Some)
  from claim have "FnClaimWorkItem sha now newID ref creq (caller_of u) ?H = Inr (K, r)"
    by (auto simp: handleClaimWorkItem_def split: option.splits)
  then have "K = ?H \<and> (\<exists>b \<in> set (h_attempts ?H). ra_id b = cl_attempt r \<and> ra_idem b = cr_idem creq)"
  proof (cases rule: FnClaimWorkItem_Inr)
    case (replay wi' b')
    then show ?thesis by (auto simp: claim_replay_def)
  next
    case (fresh wi' tk prior pairs)
    from fresh(7) show ?thesis
    proof (cases rule: claim_grant_Inr)
      case (1 H1 H2 H3 H4)
      have "map ra_id (h_attempts H1) = map ra_id (h_attempts ?H)"
        by (simp add: 1(1) claim_supersede_def update_attempt_def map_update_where_frame)
      moreover have "newID \<in> set (map ra_id (h_attempts ?H))" using b 1(6) by auto
      ultimately have "newID \<in> set (map ra_id (h_attempts H1))" by simp
      with insert_attempt_Inr(2) [OF 1(2)] show ?thesis by (auto simp: new_attempt_def)
    qed
  qed
  then show "K = ?H" "\<exists>b \<in> set (h_attempts ?H). ra_id b = cl_attempt r \<and> ra_idem b = cr_idem creq" by blast+
qed

definition bob_user :: user_ctx where
  "bob_user = a_viewer\<lparr>us_id := ''bob'', us_project_roles := (\<lambda>p. ''writer'')\<rparr>"

theorem displacing_needs_maintainer_witness:
  "isl (handleForceTakeover (\<lambda>s. s) 40 ''r9'' ''g'' ''x'' ''w1''
     \<lparr>tq_reason = ''stuck'', tq_machine = ''m'', tq_secret = ''pw''\<rparr> bob_user ex_hub2)"
proof -
  let ?w = "hd (h_items ex_hub2)" and ?a = "hd (tl (h_attempts ex_hub2))"
  have "item_by_ref ex_hub2 ''w1'' = Some ?w \<and> wi_status ?w = Running \<and> wi_current ?w = Some ''r2'' \<and>
    attempt_by_id ex_hub2 ''r2'' = Some ?a \<and> ra_actor ?a = ''ann'' \<and> us_id bob_user = ''bob'' \<and>
    \<not> (us_role bob_user = ''admin'' \<or> us_project_roles bob_user (wi_project ?w) = ''maintainer'')"
    by code_simp
  with displacing_needs_maintainer [OF ex_sys_init ex_run2 [of "\<lambda>r. True"], of "''w1''" ?w "''r2''" ?a bob_user]
  show ?thesis by (simp add: ex_sys_def)
qed

end
