(* ===== verification/Json_Canonical.thy ===== *)
theory Json_Canonical
  imports Lock_Keys Complex_Main "HOL-Library.List_Lexorder" "HOL-Library.Char_ord"
begin

text \<open>
  The canonical form of a JSON document (\<^verbatim>\<open>internal/skillregistry/canonical.go\<close>),
  over which the content digest of a skill version is computed, and the equality of decoded
  values (\<^verbatim>\<open>semanticJSONEqual\<close> of \<^verbatim>\<open>schema.go\<close>). A document is the tree the token
  stream of \<^verbatim>\<open>encoding/json\<close> spells, with number literals kept as they are written and
  the members of an object in their order, duplicates included; the canonical bytes are
  given by the tree they spell. Strings are compared by their bytes, as Go does.
\<close>

section \<open>Number literals\<close>

datatype canon_error =
    EmptyDocument
  | DuplicateKey string
  | BadExponent
  | NoDigits
  | NotDecimal
  | TooManyDigits
  | ExponentOutOfBounds

definition is_digit :: "char \<Rightarrow> bool" where
  "is_digit c = (48 \<le> (of_char c :: nat) \<and> (of_char c :: nat) \<le> 57)"

definition digit_val :: "char \<Rightarrow> nat" where
  "digit_val c = (of_char c :: nat) - 48"

definition digits_nat :: "string \<Rightarrow> nat" where
  "digits_nat ds = foldl (\<lambda>n c. 10 * n + digit_val c) 0 ds"

text \<open>\<^verbatim>\<open>strconv.ParseInt(s, 10, 64)\<close>; \<open>wrap64\<close> is int64 arithmetic.\<close>

definition signed_int :: "string \<Rightarrow> int option" where
  "signed_int s =
     (let ds = (if has_prefix s ''-'' \<or> has_prefix s ''+'' then drop 1 s else s) in
      if ds = [] \<or> \<not> list_all is_digit ds then None
      else Some (if has_prefix s ''-'' then - int (digits_nat ds) else int (digits_nat ds)))"

definition parseInt64 :: "string \<Rightarrow> int option" where
  "parseInt64 s =
     (case signed_int s of
        None \<Rightarrow> None
      | Some n \<Rightarrow> (if - (2 ^ 63) \<le> n \<and> n < 2 ^ 63 then Some n else None))"

definition wrap64 :: "int \<Rightarrow> int" where
  "wrap64 n = (n + 2 ^ 63) mod 2 ^ 64 - 2 ^ 63"

definition maxCanonicalMantissaDigits :: nat where
  "maxCanonicalMantissaDigits = 1000"

definition maxCanonicalExponent :: int where
  "maxCanonicalExponent = 1000"

definition before_exponent :: "string \<Rightarrow> string" where
  "before_exponent s = takeWhile (\<lambda>c. c \<noteq> CHR ''e'' \<and> c \<noteq> CHR ''E'') s"

definition after_exponent :: "string \<Rightarrow> string option" where
  "after_exponent s =
     (case dropWhile (\<lambda>c. c \<noteq> CHR ''e'' \<and> c \<noteq> CHR ''E'') s of [] \<Rightarrow> None | c # t \<Rightarrow> Some t)"

definition before_point :: "string \<Rightarrow> string" where
  "before_point s = takeWhile (\<lambda>c. c \<noteq> CHR ''.'') s"

definition after_point :: "string \<Rightarrow> string" where
  "after_point s = drop 1 (dropWhile (\<lambda>c. c \<noteq> CHR ''.'') s)"

definition number_parts :: "string \<Rightarrow> canon_error + (bool \<times> string \<times> int)" where
  "number_parts literal =
     (let negative = has_prefix literal ''-'';
          s = (if negative then drop 1 literal else literal);
          mantissa = before_exponent s in
      case (case after_exponent s of None \<Rightarrow> Some 0 | Some x \<Rightarrow> parseInt64 x) of
        None \<Rightarrow> Inl BadExponent
      | Some e \<Rightarrow>
          (let fraction = after_point mantissa;
               digits = before_point mantissa @ fraction in
           if digits = [] then Inl NoDigits
           else if \<not> list_all is_digit digits then Inl NotDecimal
           else Inr (negative, digits, wrap64 (e - int (length fraction)))))"

definition trim_left_zeros :: "string \<Rightarrow> string" where
  "trim_left_zeros ds = dropWhile (\<lambda>c. c = CHR ''0'') ds"

definition trim_right_zeros :: "string \<Rightarrow> string" where
  "trim_right_zeros ds = rev (dropWhile (\<lambda>c. c = CHR ''0'') (rev ds))"

definition write_decimal :: "bool \<Rightarrow> string \<Rightarrow> int \<Rightarrow> string" where
  "write_decimal negative digits exponent =
     (if negative then ''-'' else '''') @
     (let point = int (length digits) + exponent in
      if exponent \<ge> 0 then digits @ replicate (nat exponent) (CHR ''0'')
      else if point > 0 then take (nat point) digits @ ''.'' @ drop (nat point) digits
      else ''0.'' @ replicate (nat (- point)) (CHR ''0'') @ digits)"

definition normalizeJSONNumber :: "string \<Rightarrow> canon_error + string" where
  "normalizeJSONNumber literal =
     (case number_parts literal of
        Inl err \<Rightarrow> Inl err
      | Inr (negative, ds, exponent) \<Rightarrow>
          (let lead = trim_left_zeros ds;
               digits = trim_right_zeros lead;
               trimmedZeros = length lead - length digits in
           if digits = [] then Inr ''0''
           else
             (let e = wrap64 (exponent + int trimmedZeros) in
              if length digits > maxCanonicalMantissaDigits then Inl TooManyDigits
              else if e > maxCanonicalExponent \<or> e < - maxCanonicalExponent then Inl ExponentOutOfBounds
              else Inr (write_decimal negative digits e))))"

text \<open>
  The rational number a literal names: sign, all digits before the exponent read as one
  integer, scaled by the exponent less the number of digits after the point.
\<close>

definition literal_exponent :: "string \<Rightarrow> int" where
  "literal_exponent l =
     (case after_exponent l of None \<Rightarrow> 0 | Some x \<Rightarrow> (case signed_int x of None \<Rightarrow> 0 | Some n \<Rightarrow> n))"

definition literal_value :: "string \<Rightarrow> rat" where
  "literal_value l =
     (if has_prefix l ''-'' then - 1 else 1) *
     of_nat (digits_nat (filter is_digit (before_exponent l))) *
     10 powi (literal_exponent l - int (length (after_point (before_exponent l))))"

section \<open>Documents\<close>

fun writeCanonicalValue :: "json \<Rightarrow> canon_error + json"
and writeCanonicalArray :: "json list \<Rightarrow> canon_error + json list"
and canonical_members :: "string list \<Rightarrow> (string \<times> json) list \<Rightarrow> canon_error + (string \<times> json) list" where
  "writeCanonicalValue (JNum l) =
     (case normalizeJSONNumber l of Inl e \<Rightarrow> Inl e | Inr n \<Rightarrow> Inr (JNum n))"
| "writeCanonicalValue (JArr js) =
     (case writeCanonicalArray js of Inl e \<Rightarrow> Inl e | Inr cs \<Rightarrow> Inr (JArr cs))"
| "writeCanonicalValue (JObj ms) =
     (case canonical_members [] ms of Inl e \<Rightarrow> Inl e | Inr cs \<Rightarrow> Inr (JObj (sort_key fst cs)))"
| "writeCanonicalValue (JStr s) = Inr (JStr s)"
| "writeCanonicalValue (JBool b) = Inr (JBool b)"
| "writeCanonicalValue JNull = Inr JNull"
| "writeCanonicalArray [] = Inr []"
| "writeCanonicalArray (j # js) =
     (case writeCanonicalValue j of
        Inl e \<Rightarrow> Inl e
      | Inr c \<Rightarrow> (case writeCanonicalArray js of Inl e \<Rightarrow> Inl e | Inr cs \<Rightarrow> Inr (c # cs)))"
| "canonical_members seen [] = Inr []"
| "canonical_members seen ((k, v) # ms) =
     (if k \<in> set seen then Inl (DuplicateKey k)
      else
        (case writeCanonicalValue v of
           Inl e \<Rightarrow> Inl e
         | Inr c \<Rightarrow>
             (case canonical_members (k # seen) ms of Inl e \<Rightarrow> Inl e | Inr cs \<Rightarrow> Inr ((k, c) # cs))))"

definition canonicalizeJSON :: "raw_json \<Rightarrow> canon_error + json" where
  "canonicalizeJSON raw =
     (case raw of None \<Rightarrow> Inl EmptyDocument | Some j \<Rightarrow> writeCanonicalValue j)"

section \<open>Decoded values\<close>

text \<open>
  \<^verbatim>\<open>exactRuntimeNumber\<close> reads a literal with \<^verbatim>\<open>big.Rat.SetString\<close>, which refuses a
  decimal exponent beyond a million unless the mantissa is zero.
\<close>

definition exactRuntimeNumber :: "string \<Rightarrow> rat option" where
  "exactRuntimeNumber l =
     (let s = (if has_prefix l ''-'' then drop 1 l else l);
          mantissa = before_exponent s;
          fraction = after_point mantissa;
          digits = before_point mantissa @ fraction in
      if digits = [] \<or> \<not> list_all is_digit digits then None
      else
        (case (case after_exponent s of None \<Rightarrow> Some 0 | Some x \<Rightarrow> parseInt64 x) of
           None \<Rightarrow> None
         | Some e \<Rightarrow>
             (if digits_nat digits = 0 then Some 0
              else if abs (e - int (length fraction)) > 1000000 then None
              else Some ((if has_prefix l ''-'' then - 1 else 1) *
                         of_nat (digits_nat digits) * 10 powi (e - int (length fraction))))))"

text \<open>An object is a Go map here: its members are read by key.\<close>

lemma size_zip_fst: "(a, b) \<in> set (zip av bv) \<Longrightarrow> size a < Suc (size_list size av)"
  by (drule set_zip_leftD) (simp add: less_Suc_eq_le size_list_estimation')

lemma size_member_value: "(k, v) \<in> set av \<Longrightarrow> size v < Suc (size_list (size_prod (\<lambda>_. 0) size) av)"
  by (simp add: less_Suc_eq_le size_list_estimation' [where f = "size_prod (\<lambda>_. 0) size"])

function (sequential) semanticJSONEqual :: "json \<Rightarrow> json \<Rightarrow> bool" where
  "semanticJSONEqual (JObj av) b =
     (case b of
        JObj bv \<Rightarrow>
          length av = length bv \<and>
          list_all (\<lambda>(k, v). case map_of bv k of None \<Rightarrow> False | Some w \<Rightarrow> semanticJSONEqual v w) av
      | _ \<Rightarrow> False)"
| "semanticJSONEqual (JArr av) b =
     (case b of
        JArr bv \<Rightarrow> length av = length bv \<and> list_all (\<lambda>(v, w). semanticJSONEqual v w) (zip av bv)
      | _ \<Rightarrow> False)"
| "semanticJSONEqual (JNum l) b =
     (case b of
        JNum m \<Rightarrow>
          (case (exactRuntimeNumber l, exactRuntimeNumber m) of
             (Some x, Some y) \<Rightarrow> x = y
           | _ \<Rightarrow> False)
      | _ \<Rightarrow> False)"
| "semanticJSONEqual (JStr s) b = (case b of JStr t \<Rightarrow> s = t | _ \<Rightarrow> False)"
| "semanticJSONEqual (JBool s) b = (case b of JBool t \<Rightarrow> s = t | _ \<Rightarrow> False)"
| "semanticJSONEqual JNull b = (case b of JNull \<Rightarrow> True | _ \<Rightarrow> False)"
  by pat_completeness auto
termination
  by (relation "measure (\<lambda>(a, b). size a)") (auto dest: size_zip_fst size_member_value)

end
