(* ===== verification/Json_Values.thy ===== *)
theory Json_Values
  imports Json_Canonical
begin

text \<open>
  What the canonical form of \<^verbatim>\<open>Json_Canonical\<close> is worth: a number is written the one way
  its value allows, and two documents have the same canonical form exactly when the equality
  of decoded values identifies them.
\<close>

section \<open>Decimal digit strings\<close>

abbreviation zeros :: "nat \<Rightarrow> string" where
  "zeros n \<equiv> replicate n (CHR ''0'')"

lemma digit_val_bound: "is_digit c \<Longrightarrow> digit_val c \<le> 9"
  by (auto simp: is_digit_def digit_val_def)

lemma digit_val_inj: "is_digit c \<Longrightarrow> is_digit d \<Longrightarrow> digit_val c = digit_val d \<Longrightarrow> c = d"
proof -
  assume "is_digit c" "is_digit d" "digit_val c = digit_val d"
  then have "(of_char c :: nat) = of_char d" unfolding is_digit_def digit_val_def by linarith
  then show "c = d" by simp
qed

lemma digit_0 [simp]: "is_digit (CHR ''0'')" "digit_val (CHR ''0'') = 0"
  by (simp_all add: is_digit_def digit_val_def)

lemma digit_val_0: "is_digit c \<Longrightarrow> digit_val c = 0 \<longleftrightarrow> c = CHR ''0''"
  using digit_val_inj [of c "CHR ''0''"] by auto

lemma not_digit [simp]: "\<not> is_digit (CHR ''-'')" "\<not> is_digit (CHR ''.'')" "\<not> is_digit (CHR ''e'')" "\<not> is_digit (CHR ''E'')"
  by (simp_all add: is_digit_def)

lemma digits_nat_Nil [simp]: "digits_nat [] = 0"
  by (simp add: digits_nat_def)

lemma digits_nat_snoc [simp]: "digits_nat (ds @ [c]) = 10 * digits_nat ds + digit_val c"
  by (simp add: digits_nat_def)

lemma digits_nat_append: "digits_nat (xs @ ys) = digits_nat xs * 10 ^ length ys + digits_nat ys"
proof (induction ys rule: rev_induct)
  case (snoc y ys)
  have "digits_nat (xs @ ys @ [y]) = 10 * digits_nat (xs @ ys) + digit_val y"
    using digits_nat_snoc [of "xs @ ys" y] by simp
  with snoc show ?case by (simp add: algebra_simps)
qed simp

lemma digits_nat_zeros [simp]: "digits_nat (zeros n) = 0"
proof (induction n)
  case (Suc n)
  then show ?case using digits_nat_append [of "zeros n" "zeros 1"] by (simp add: replicate_append_same [symmetric] del: replicate_append_same)
qed simp

lemma digits_nat_bound: "list_all is_digit ds \<Longrightarrow> digits_nat ds < 10 ^ length ds"
proof (induction ds rule: rev_induct)
  case (snoc c ds)
  then have "digits_nat ds + 1 \<le> 10 ^ length ds" "digit_val c \<le> 9"
    by (auto intro: digit_val_bound)
  then show ?case by simp
qed simp

lemma digits_nat_inj:
  "length xs = length ys \<Longrightarrow> list_all is_digit xs \<Longrightarrow> list_all is_digit ys \<Longrightarrow> digits_nat xs = digits_nat ys \<Longrightarrow> xs = ys"
proof (induction xs arbitrary: ys rule: rev_induct)
  case (snoc x xs)
  from snoc.prems(1) obtain y zs where ys: "ys = zs @ [y]" by (cases ys rule: rev_cases) auto
  have d: "is_digit x" "is_digit y" using snoc.prems ys by auto
  have "10 * digits_nat xs + digit_val x = 10 * digits_nat zs + digit_val y" using snoc.prems(4) ys by simp
  with digit_val_bound [OF d(1)] digit_val_bound [OF d(2)]
  have "\<not> digits_nat xs < digits_nat zs" "\<not> digits_nat zs < digits_nat xs" by linarith+
  then have "digits_nat xs = digits_nat zs" by linarith
  moreover from this have "digit_val x = digit_val y" using snoc.prems(4) ys by simp
  moreover have "length xs = length zs" "list_all is_digit xs" "list_all is_digit zs" using snoc.prems(1-3) ys by simp_all
  ultimately have "xs = zs" "x = y" using snoc.IH d by (blast, blast intro: digit_val_inj)
  then show ?case using ys by simp
qed simp

text \<open>The digits a normalised number carries.\<close>

definition proper_digits :: "string \<Rightarrow> bool" where
  "proper_digits ds \<longleftrightarrow> ds \<noteq> [] \<and> list_all is_digit ds \<and> hd ds \<noteq> CHR ''0'' \<and> last ds \<noteq> CHR ''0''"

lemma proper_digits_lower:
  assumes "proper_digits ds"
  shows "10 ^ (length ds - 1) \<le> digits_nat ds"
proof (cases ds)
  case (Cons c cs)
  with assms have "digit_val c \<ge> 1" using digit_val_0 [of c] by (auto simp: proper_digits_def)
  then have "10 ^ length cs \<le> digit_val c * 10 ^ length cs" by simp
  also have "\<dots> \<le> digits_nat ds" using Cons digits_nat_append [of "[c]" cs] by (simp add: digits_nat_def)
  finally show ?thesis using Cons by simp
qed (use assms in \<open>simp add: proper_digits_def\<close>)

lemma proper_digits_pos: "proper_digits ds \<Longrightarrow> 0 < digits_nat ds"
  using proper_digits_lower [of ds] by (meson less_le_trans zero_less_numeral zero_less_power)

lemma proper_digits_last: "proper_digits ds \<Longrightarrow> \<not> 10 dvd digits_nat ds"
proof (cases ds rule: rev_cases)
  case (snoc cs c)
  assume "proper_digits ds"
  then have "digit_val c \<noteq> 0" "digit_val c \<le> 9" using snoc digit_val_0 digit_val_bound by (auto simp: proper_digits_def)
  then show ?thesis using snoc by (simp add: dvd_eq_mod_eq_0)
qed (simp add: proper_digits_def)

lemma proper_digits_inj:
  assumes "proper_digits xs" "proper_digits ys" "digits_nat xs = digits_nat ys"
  shows "xs = ys"
proof -
  have le: "length a \<le> length b" if "proper_digits a" "proper_digits b" "digits_nat a = digits_nat b" for a b
  proof -
    have "list_all is_digit b" using that(2) by (simp add: proper_digits_def)
    from digits_nat_bound [OF this] have "digits_nat a < 10 ^ length b" by (simp only: that(3))
    with proper_digits_lower [OF that(1)] have "(10::nat) ^ (length a - 1) < 10 ^ length b"
      by (rule le_less_trans)
    then have "length a - 1 < length b" by (rule power_less_imp_less_exp [rotated]) simp
    then show ?thesis by simp
  qed
  from le [of xs ys] le [of ys xs] assms have "length xs = length ys" by simp
  with assms show ?thesis by (auto intro: digits_nat_inj simp: proper_digits_def)
qed

lemma scaled_digits_inj:
  assumes "proper_digits xs" "proper_digits ys"
    and eq: "of_nat (digits_nat xs) * 10 powi a = (of_nat (digits_nat ys) * 10 powi b :: rat)"
  shows "xs = ys \<and> a = b"
proof -
  have no: False if "proper_digits u" "p < q" "of_nat (digits_nat u) * 10 powi p = (of_nat (digits_nat v) * 10 powi q :: rat)" for u v p q
  proof -
    have "(10::rat) powi (p + (q - p)) = 10 powi p * 10 powi (q - p)" by (rule power_int_add) simp
    then have q: "(10::rat) powi q = 10 powi p * 10 ^ nat (q - p)" using that(2) by (simp add: power_int_def)
    have "(10::rat) powi p \<noteq> 0" by simp
    moreover have "10 powi p * of_nat (digits_nat u) = 10 powi p * (of_nat (digits_nat v) * 10 ^ nat (q - p) :: rat)"
      using that(3) unfolding q by (simp only: mult_ac)
    ultimately have "of_nat (digits_nat u) = (of_nat (digits_nat v) * 10 ^ nat (q - p) :: rat)"
      using mult_left_cancel by blast
    then have "of_nat (digits_nat u) = (of_nat (digits_nat v * 10 ^ nat (q - p)) :: rat)" by simp
    then have "digits_nat u = digits_nat v * 10 ^ nat (q - p)" by (simp only: of_nat_eq_iff)
    moreover have "10 dvd (10::nat) ^ nat (q - p)" using that(2) by (simp add: dvd_power)
    ultimately have "10 dvd digits_nat u" by simp
    with proper_digits_last [OF that(1)] show False by simp
  qed
  have "a = b" using no [OF assms(1) _ eq] no [OF assms(2) _ eq [symmetric]] by (meson linorder_neqE)
  with eq have "digits_nat xs = digits_nat ys" by simp
  with assms \<open>a = b\<close> show ?thesis by (auto intro: proper_digits_inj)
qed

section \<open>Reading a literal\<close>

text \<open>
  The longest literal the statements speak of. The bound keeps the exponent arithmetic away
  from the ends of int64 and the value within what \<^verbatim>\<open>big.Rat\<close> reads.
\<close>

definition short_literal :: "string \<Rightarrow> bool" where
  "short_literal l \<longleftrightarrow> length l \<le> 999000"

lemma wrap64_twice: "wrap64 (wrap64 a + b) = wrap64 (a + b)"
  by (simp add: wrap64_def mod_simps algebra_simps)

lemma wrap64_exact: "\<bar>wrap64 a\<bar> \<le> 10 ^ 6 \<Longrightarrow> - (2 ^ 63) - 10 ^ 6 \<le> a \<Longrightarrow> a \<le> 2 ^ 63 + 10 ^ 6 \<Longrightarrow> wrap64 a = a"
proof -
  assume a: "\<bar>wrap64 a\<bar> \<le> 10 ^ 6" "- (2 ^ 63) - 10 ^ 6 \<le> a" "a \<le> 2 ^ 63 + 10 ^ 6"
  define k where "k = (a + 2 ^ 63) div 2 ^ 64"
  have w: "wrap64 a = a - 18446744073709551616 * k"
    unfolding wrap64_def k_def minus_mult_div_eq_mod [symmetric] by simp
  consider "k \<le> - 1" | "k = 0" | "1 \<le> k" by linarith
  then show "wrap64 a = a" using a unfolding w by cases simp_all
qed

lemma takeWhile_dropWhile_point: "before_point m @ (if after_point m = [] \<and> CHR ''.'' \<notin> set m then [] else CHR ''.'' # after_point m) = m"
  by (induction m) (auto simp: before_point_def after_point_def)

lemma filter_digits_mantissa:
  assumes "list_all is_digit (before_point m @ after_point m)"
  shows "filter is_digit m = before_point m @ after_point m"
proof -
  have "filter is_digit m = filter is_digit (before_point m @ (if after_point m = [] \<and> CHR ''.'' \<notin> set m then [] else CHR ''.'' # after_point m))"
    by (simp only: takeWhile_dropWhile_point)
  also have "\<dots> = filter is_digit (before_point m) @ filter is_digit (after_point m)" by simp
  also have "\<dots> = before_point m @ after_point m"
    using assms by (simp add: filter_id_conv list_all_iff)
  finally show ?thesis .
qed

lemma strip_sign:
  "before_exponent (CHR ''-'' # s) = CHR ''-'' # before_exponent s"
  "after_exponent (CHR ''-'' # s) = after_exponent s"
  "after_point (CHR ''-'' # m) = after_point m"
  by (simp_all add: before_exponent_def after_exponent_def after_point_def)

lemma length_before_exponent: "length (before_exponent s) \<le> length s"
  by (simp add: before_exponent_def length_takeWhile_le)

lemma parseInt64_signed: "parseInt64 s = Some n \<Longrightarrow> signed_int s = Some n \<and> - (2 ^ 63) \<le> n \<and> n < 2 ^ 63"
  by (auto simp: parseInt64_def split: option.splits if_splits)

lemma number_parts_value:
  assumes "number_parts l = Inr (neg, ds, e)"
  shows "neg = has_prefix l ''-''" "ds = filter is_digit (before_exponent l)" "ds \<noteq> []" "list_all is_digit ds"
    "e = wrap64 (literal_exponent l - int (length (after_point (before_exponent l))))"
    "- (2 ^ 63) \<le> literal_exponent l" "literal_exponent l < 2 ^ 63"
    "length (after_point (before_exponent l)) \<le> length ds" "length ds \<le> length l"
proof -
  define s where "s = (if has_prefix l ''-'' then drop 1 l else l)"
  define m where "m = before_exponent s"
  have bl: "filter is_digit (before_exponent l) = filter is_digit m" "after_point (before_exponent l) = after_point m"
    "after_exponent l = after_exponent s"
    by (auto simp: s_def m_def has_prefix_iff strip_sign)
  obtain x where x: "(case after_exponent s of None \<Rightarrow> Some 0 | Some x \<Rightarrow> parseInt64 x) = Some x"
    and parts: "neg = has_prefix l ''-''" "ds = before_point m @ after_point m" "ds \<noteq> []" "list_all is_digit ds"
      "e = wrap64 (x - int (length (after_point m)))"
    using assms by (auto simp: number_parts_def Let_def s_def [symmetric] m_def [symmetric] split: option.splits if_splits)
  have x': "literal_exponent l = x" "- (2 ^ 63) \<le> x" "x < 2 ^ 63"
    using x by (auto simp: literal_exponent_def bl split: option.splits dest: parseInt64_signed)
  have fil: "filter is_digit (before_exponent l) = ds" using filter_digits_mantissa [of m] parts bl by simp
  have "length (filter is_digit (before_exponent l)) \<le> length l"
    using length_filter_le length_before_exponent order_trans by blast
  then show "length ds \<le> length l" using fil by simp
  show "neg = has_prefix l ''-''" "ds = filter is_digit (before_exponent l)" "ds \<noteq> []" "list_all is_digit ds"
    using parts fil by simp_all
  show "e = wrap64 (literal_exponent l - int (length (after_point (before_exponent l))))"
    "- (2 ^ 63) \<le> literal_exponent l" "literal_exponent l < 2 ^ 63"
    "length (after_point (before_exponent l)) \<le> length ds"
    using parts x' bl by simp_all
qed

section \<open>Writing a number\<close>

lemma trim_left_zeros_split: "\<exists>k. ds = zeros k @ trim_left_zeros ds"
proof (induction ds)
  case (Cons c ds)
  then obtain k where "ds = zeros k @ trim_left_zeros ds" by blast
  then show ?case by (cases "c = CHR ''0''") (auto simp: trim_left_zeros_def intro: exI [of _ "Suc k"] exI [of _ 0])
qed (simp add: trim_left_zeros_def)

lemma trim_right_zeros_split: "ds = trim_right_zeros ds @ zeros (length ds - length (trim_right_zeros ds))"
proof -
  obtain k where k: "rev ds = zeros k @ trim_left_zeros (rev ds)" using trim_left_zeros_split by blast
  have t: "trim_right_zeros ds = rev (trim_left_zeros (rev ds))"
    by (simp add: trim_right_zeros_def trim_left_zeros_def)
  have "rev (rev ds) = rev (trim_left_zeros (rev ds)) @ zeros k" by (subst k) simp
  then have ds: "ds = trim_right_zeros ds @ zeros k" by (simp add: t)
  then have "length ds = length (trim_right_zeros ds) + k" by (metis length_append length_replicate)
  with ds show ?thesis by simp
qed

lemma trim_left_zeros_hd: "trim_left_zeros ds \<noteq> [] \<Longrightarrow> hd (trim_left_zeros ds) \<noteq> CHR ''0''"
  using hd_dropWhile [of "\<lambda>c. c = CHR ''0''" ds] by (auto simp: trim_left_zeros_def)

lemma trim_right_zeros_last: "trim_right_zeros ds \<noteq> [] \<Longrightarrow> last (trim_right_zeros ds) \<noteq> CHR ''0''"
  using hd_dropWhile [of "\<lambda>c. c = CHR ''0''" "rev ds"] by (auto simp: trim_right_zeros_def last_rev)

lemma trimmed_proper:
  assumes "list_all is_digit ds" "trim_right_zeros (trim_left_zeros ds) \<noteq> []"
  shows "proper_digits (trim_right_zeros (trim_left_zeros ds))"
proof -
  define lead where "lead = trim_left_zeros ds"
  obtain k where "ds = zeros k @ lead" using trim_left_zeros_split lead_def by blast
  with assms(1) have d: "list_all is_digit lead" by (metis list_all_append)
  have sp: "lead = trim_right_zeros lead @ zeros (length lead - length (trim_right_zeros lead))"
    by (rule trim_right_zeros_split)
  have "hd (trim_right_zeros lead) = hd lead" using sp assms(2) unfolding lead_def [symmetric] by (metis hd_append2)
  moreover have "lead \<noteq> []" using assms(2) unfolding lead_def [symmetric] by (auto simp: trim_right_zeros_def)
  then have "hd lead \<noteq> CHR ''0''" unfolding lead_def by (rule trim_left_zeros_hd)
  moreover have "list_all is_digit (trim_right_zeros lead)" using d sp by (metis list_all_append)
  ultimately show ?thesis
    using assms(2) trim_right_zeros_last unfolding lead_def [symmetric] proper_digits_def by simp
qed

lemma trimmed_nat:
  "digits_nat ds = digits_nat (trim_right_zeros (trim_left_zeros ds)) *
     10 ^ (length (trim_left_zeros ds) - length (trim_right_zeros (trim_left_zeros ds)))"
proof -
  define lead where "lead = trim_left_zeros ds"
  obtain k where k: "ds = zeros k @ lead" using trim_left_zeros_split lead_def by blast
  have "digits_nat ds = digits_nat lead" by (subst k) (simp add: digits_nat_append)
  also have "\<dots> = digits_nat (trim_right_zeros lead @ zeros (length lead - length (trim_right_zeros lead)))"
    using trim_right_zeros_split [of lead] by simp
  finally show ?thesis unfolding lead_def [symmetric] by (simp add: digits_nat_append)
qed

lemma trim_wrapped:
  assumes "proper_digits ds"
  shows "trim_left_zeros (zeros a @ ds @ zeros b) = ds @ zeros b" "trim_right_zeros (ds @ zeros b) = ds"
proof -
  have "trim_left_zeros (zeros a @ xs) = trim_left_zeros xs" for xs :: string
    by (induction a) (simp_all add: trim_left_zeros_def)
  moreover from assms obtain c cs where "ds = c # cs" "c \<noteq> CHR ''0''" by (cases ds) (auto simp: proper_digits_def)
  ultimately show "trim_left_zeros (zeros a @ ds @ zeros b) = ds @ zeros b" by (simp add: trim_left_zeros_def)
  from assms obtain c cs where "rev ds = c # cs" "c \<noteq> CHR ''0''"
    by (cases ds rule: rev_cases) (auto simp: proper_digits_def)
  then have "dropWhile (\<lambda>c. c = CHR ''0'') (zeros b @ rev ds) = rev ds" by (induction b) simp_all
  then show "trim_right_zeros (ds @ zeros b) = ds" by (simp add: trim_right_zeros_def)
qed

definition signed_scale :: "bool \<Rightarrow> string \<Rightarrow> int \<Rightarrow> rat" where
  "signed_scale neg ds e = (if neg then - 1 else 1) * of_nat (digits_nat ds) * 10 powi e"

lemma signed_scale_inj:
  assumes "proper_digits xs" "proper_digits ys" "signed_scale n xs a = signed_scale m ys b"
  shows "n = m \<and> xs = ys \<and> a = b"
proof -
  have pos: "0 < (of_nat (digits_nat u) * 10 powi c :: rat)" if "proper_digits u" for u c
    using proper_digits_pos [OF that] by simp
  have "n = m" using pos [OF assms(1), of a] pos [OF assms(2), of b] assms(3)
    by (auto simp: signed_scale_def split: if_splits)
  with assms(3) have "of_nat (digits_nat xs) * 10 powi a = (of_nat (digits_nat ys) * 10 powi b :: rat)"
    by (auto simp: signed_scale_def split: if_splits)
  with scaled_digits_inj [OF assms(1,2)] \<open>n = m\<close> show ?thesis by blast
qed

text \<open>What normalisation keeps of a literal: sign, digits and exponent.\<close>

definition decimal_of :: "string \<Rightarrow> bool \<Rightarrow> string \<Rightarrow> int \<Rightarrow> bool" where
  "decimal_of l neg ds e \<longleftrightarrow>
     proper_digits ds \<and> length ds \<le> 1000 \<and> \<bar>e\<bar> \<le> 1000 \<and>
     \<bar>literal_exponent l - int (length (after_point (before_exponent l)))\<bar> \<le> 1000000 \<and>
     literal_value l = signed_scale neg ds e \<and> normalizeJSONNumber l = Inr (write_decimal neg ds e)"

lemma normalize_cases:
  assumes "normalizeJSONNumber l = Inr c" "short_literal l"
  obtains (zero) "c = ''0''" "literal_value l = 0"
    | (number) neg ds e where "decimal_of l neg ds e" "c = write_decimal neg ds e"
proof -
  obtain neg ds x where p: "number_parts l = Inr (neg, ds, x)"
    using assms(1) by (auto simp: normalizeJSONNumber_def split: sum.splits)
  note v = number_parts_value [OF p]
  define f where "f = length (after_point (before_exponent l))"
  define core where "core = trim_right_zeros (trim_left_zeros ds)"
  define z where "z = length (trim_left_zeros ds) - length core"
  have lv: "literal_value l = signed_scale neg ds (literal_exponent l - int f)"
    using v(1,2) by (simp add: literal_value_def signed_scale_def f_def)
  have nat: "digits_nat ds = digits_nat core * 10 ^ z"
    unfolding core_def z_def by (rule trimmed_nat)
  show thesis
  proof (cases "core = []")
    case True
    with nat have "literal_value l = 0" using lv by (simp add: signed_scale_def)
    moreover have "c = ''0''" using assms(1) p True by (simp add: normalizeJSONNumber_def core_def Let_def)
    ultimately show thesis using zero by blast
  next
    case False
    define e where "e = wrap64 (x + int z)"
    have norm: "c = write_decimal neg core e" "length core \<le> 1000" "\<bar>e\<bar> \<le> 1000"
      using assms(1) p False
      by (auto simp: normalizeJSONNumber_def core_def [symmetric] z_def [symmetric] e_def [symmetric] Let_def
          maxCanonicalMantissaDigits_def maxCanonicalExponent_def split: if_splits)
    have "z \<le> length (trim_left_zeros ds)" by (simp add: z_def)
    also have "\<dots> \<le> length ds" by (simp add: trim_left_zeros_def length_dropWhile_le)
    finally have bounds: "z \<le> 999000" "f \<le> 999000"
      using v(8,9) assms(2) by (simp_all add: short_literal_def f_def)
    have e: "e = wrap64 (literal_exponent l - int f + int z)" by (simp add: e_def v(5) f_def wrap64_twice)
    have ez: "e = literal_exponent l - int f + int z"
      unfolding e by (rule wrap64_exact) (use e norm(3) bounds v(6,7) in auto)
    then have "\<bar>literal_exponent l - int f\<bar> \<le> 1000000" using norm(3) bounds(1) by linarith
    moreover from ez have "literal_value l = signed_scale neg core e"
      using lv nat by (simp add: signed_scale_def power_int_add)
    moreover have "proper_digits core" unfolding core_def
      by (rule trimmed_proper) (use v(4) False core_def in auto)
    ultimately have "decimal_of l neg core e" using norm assms(1) by (simp add: decimal_of_def f_def)
    with norm(1) show thesis using number by blast
  qed
qed

lemma no_exponent:
  assumes "\<forall>c \<in> set s. is_digit c \<or> c = CHR ''.''"
  shows "before_exponent s = s" "after_exponent s = None"
proof -
  have "c \<noteq> CHR ''e'' \<and> c \<noteq> CHR ''E''" if "c \<in> set s" for c using assms that by auto
  then have "takeWhile (\<lambda>c. c \<noteq> CHR ''e'' \<and> c \<noteq> CHR ''E'') s = s"
    "dropWhile (\<lambda>c. c \<noteq> CHR ''e'' \<and> c \<noteq> CHR ''E'') s = []"
    by simp_all
  then show "before_exponent s = s" "after_exponent s = None"
    by (simp_all only: before_exponent_def after_exponent_def list.case)
qed

lemma no_point:
  assumes "list_all is_digit s"
  shows "before_point s = s" "after_point s = []"
proof -
  have "c \<noteq> CHR ''.''" if "c \<in> set s" for c using assms that by (auto simp: list_all_iff)
  then have "takeWhile (\<lambda>c. c \<noteq> CHR ''.'') s = s" "dropWhile (\<lambda>c. c \<noteq> CHR ''.'') s = []" by simp_all
  then show "before_point s = s" "after_point s = []"
    by (simp_all only: before_point_def after_point_def drop_Nil)
qed

lemma one_point:
  assumes "list_all is_digit s"
  shows "before_point (s @ CHR ''.'' # t) = s" "after_point (s @ CHR ''.'' # t) = t"
proof -
  have "c \<noteq> CHR ''.''" if "c \<in> set s" for c using assms that by (auto simp: list_all_iff)
  then have "takeWhile (\<lambda>c. c \<noteq> CHR ''.'') (s @ CHR ''.'' # t) = s"
    "dropWhile (\<lambda>c. c \<noteq> CHR ''.'') (s @ CHR ''.'' # t) = CHR ''.'' # t"
    by (simp_all add: takeWhile_append2 dropWhile_append2)
  then show "before_point (s @ CHR ''.'' # t) = s" "after_point (s @ CHR ''.'' # t) = t"
    by (simp_all add: before_point_def after_point_def)
qed

lemma wrap64_small: "\<bar>n\<bar> \<le> 10 ^ 6 \<Longrightarrow> wrap64 n = n"
  by (simp add: wrap64_def)

text \<open>The literal with the digits \<open>whole\<close> before the point and \<open>fr\<close> after it, if any.\<close>

lemma plain_literal_parts:
  assumes "list_all is_digit whole" "list_all is_digit fr" "whole \<noteq> []" "length fr \<le> 10 ^ 6"
    "l = (if neg then ''-'' else '''') @ whole @ (if fr = [] then [] else CHR ''.'' # fr)"
  shows "number_parts l = Inr (neg, whole @ fr, - int (length fr))"
proof -
  define m where "m = whole @ (if fr = [] then [] else CHR ''.'' # fr)"
  have m: "\<forall>c \<in> set m. is_digit c \<or> c = CHR ''.''" using assms(1,2) by (auto simp: m_def list_all_iff)
  have pts: "before_point m = whole" "after_point m = fr"
    using no_point [OF assms(1)] one_point [OF assms(1)] by (simp_all add: m_def)
  obtain c cs where w: "whole = c # cs" "is_digit c" using assms(1,3) by (cases whole) auto
  have neg: "has_prefix l ''-'' = neg"
    using w assms(5) by (auto simp: has_prefix_def)
  have "(if has_prefix l ''-'' then drop 1 l else l) = m" by (simp only: neg) (simp add: assms(5) m_def)
  moreover have "wrap64 (- int (length fr)) = - int (length fr)"
    by (rule wrap64_small) (use assms(4) in simp)
  ultimately show ?thesis
    using assms(1-3) by (simp add: number_parts_def neg no_exponent [OF m] pts)
qed

lemma write_decimal_parts:
  assumes "proper_digits ds" "length ds \<le> 1000" "\<bar>e\<bar> \<le> 1000"
  obtains a b where "number_parts (write_decimal neg ds e) = Inr (neg, zeros a @ ds @ zeros b, e - int b)" "b \<le> 1000"
proof -
  have ds: "list_all is_digit ds" "ds \<noteq> []" using assms(1) by (simp_all add: proper_digits_def)
  have z: "list_all is_digit (zeros n)" for n by (simp add: list_all_iff)
  consider "e \<ge> 0" | "e < 0" "0 < int (length ds) + e" | "e < 0" "int (length ds) + e \<le> 0" by linarith
  then show thesis
  proof cases
    case 1
    have "number_parts (write_decimal neg ds e) = Inr (neg, (ds @ zeros (nat e)) @ [], - int (length ([] :: string)))"
      by (rule plain_literal_parts) (use 1 ds z in \<open>auto simp: write_decimal_def\<close>)
    then show thesis using that [of 0 "nat e"] 1 assms(3) by simp
  next
    case 2
    define p where "p = nat (int (length ds) + e)"
    have p: "0 < p" "p < length ds" using 2 by (auto simp: p_def)
    have "number_parts (write_decimal neg ds e) = Inr (neg, take p ds @ drop p ds, - int (length (drop p ds)))"
      by (rule plain_literal_parts)
         (use 2 ds p assms(2) in \<open>auto simp: write_decimal_def p_def [symmetric] Let_def list_all_iff dest: in_set_takeD in_set_dropD\<close>)
    then show thesis using that [of 0 0] 2 p by (simp add: p_def)
  next
    case 3
    define k where "k = nat (- (int (length ds) + e))"
    have "number_parts (write_decimal neg ds e) = Inr (neg, ''0'' @ zeros k @ ds, - int (length (zeros k @ ds)))"
      by (rule plain_literal_parts)
         (use 3 ds z assms(2,3) in \<open>auto simp: write_decimal_def k_def [symmetric] Let_def k_def\<close>)
    moreover have "''0'' @ zeros k @ ds = zeros (Suc k) @ ds @ zeros 0" by simp
    moreover have "- int (length (zeros k @ ds)) = e - int 0" using 3 by (simp add: k_def)
    ultimately show thesis using that [of "Suc k" 0] by simp
  qed
qed

lemma normalize_written:
  assumes "proper_digits ds" "length ds \<le> 1000" "\<bar>e\<bar> \<le> 1000"
  shows "normalizeJSONNumber (write_decimal neg ds e) = Inr (write_decimal neg ds e)"
proof -
  obtain a b where p: "number_parts (write_decimal neg ds e) = Inr (neg, zeros a @ ds @ zeros b, e - int b)" "b \<le> 1000"
    using write_decimal_parts [OF assms] by blast
  have "wrap64 (e - int b + int b) = e" using wrap64_small [of e] assms(3) by simp
  moreover have "e \<le> 1000" "- 1000 \<le> e" using assms(3) by linarith+
  moreover have "ds \<noteq> []" using assms(1) by (simp add: proper_digits_def)
  ultimately show ?thesis
    using p(1) trim_wrapped [OF assms(1)] assms
    by (simp add: normalizeJSONNumber_def Let_def maxCanonicalMantissaDigits_def maxCanonicalExponent_def)
qed

lemma written_short:
  assumes "length ds \<le> 1000" "\<bar>e\<bar> \<le> 1000"
  shows "short_literal (write_decimal neg ds e)"
  using assms by (auto simp: write_decimal_def short_literal_def Let_def)

lemma literal_value_written:
  assumes "proper_digits ds" "length ds \<le> 1000" "\<bar>e\<bar> \<le> 1000"
  shows "literal_value (write_decimal neg ds e) = signed_scale neg ds e"
proof -
  obtain a b where p: "number_parts (write_decimal neg ds e) = Inr (neg, zeros a @ ds @ zeros b, e - int b)" "b \<le> 1000"
    using write_decimal_parts [OF assms] by blast
  note v = number_parts_value [OF p(1)]
  define w where "w = write_decimal neg ds e"
  define x where "x = literal_exponent w - int (length (after_point (before_exponent w)))"
  have sh: "length w \<le> 999000" using written_short [OF assms(2,3)] by (simp add: short_literal_def w_def)
  have "e - int b = wrap64 x" using v(5) by (simp add: w_def x_def)
  moreover have "wrap64 x = x"
  proof (rule wrap64_exact)
    show "\<bar>wrap64 x\<bar> \<le> 10 ^ 6" using calculation assms(3) p(2) by simp
    show "- (2 ^ 63) - 10 ^ 6 \<le> x" "x \<le> 2 ^ 63 + 10 ^ 6"
      using v(6-9) sh unfolding x_def w_def by auto
  qed
  ultimately have "x = e - int b" by simp
  then have "literal_value w = signed_scale neg (zeros a @ ds @ zeros b) (e - int b)"
    using v(1,2) by (simp add: literal_value_def signed_scale_def w_def x_def)
  also have "\<dots> = signed_scale neg ds e"
    by (simp add: signed_scale_def digits_nat_append power_int_diff)
  finally show ?thesis by (simp add: w_def)
qed

section \<open>Numbers have one canonical spelling\<close>

lemmas number_eval = normalizeJSONNumber_def number_parts_def has_prefix_def before_exponent_def after_exponent_def
  before_point_def after_point_def parseInt64_def signed_int_def digits_nat_def digit_val_def is_digit_def
  wrap64_def trim_left_zeros_def trim_right_zeros_def write_decimal_def maxCanonicalMantissaDigits_def
  maxCanonicalExponent_def Let_def

lemma canonical_number:
  assumes "normalizeJSONNumber l = Inr c" "short_literal l"
  shows "normalizeJSONNumber c = Inr c" "short_literal c" "literal_value c = literal_value l"
proof -
  have zero: "normalizeJSONNumber ''0'' = Inr ''0''" "short_literal ''0''" "literal_value ''0'' = 0"
    by (simp_all add: number_eval short_literal_def literal_value_def)
  have "normalizeJSONNumber c = Inr c \<and> short_literal c \<and> literal_value c = literal_value l"
    using assms
  proof (cases rule: normalize_cases)
    case (number neg ds e)
    then show ?thesis
      by (simp add: decimal_of_def normalize_written written_short literal_value_written)
  qed (simp add: zero)
  then show "normalizeJSONNumber c = Inr c" "short_literal c" "literal_value c = literal_value l" by simp_all
qed

lemma signed_scale_nonzero: "proper_digits ds \<Longrightarrow> signed_scale neg ds e \<noteq> 0"
  using proper_digits_pos [of ds] by (simp add: signed_scale_def)

lemma canonical_number_unique:
  assumes "normalizeJSONNumber l = Inr c" "short_literal l" "normalizeJSONNumber m = Inr d" "short_literal m"
    "literal_value l = literal_value m"
  shows "c = d"
  using assms(1,2)
proof (cases rule: normalize_cases)
  case l: zero
  show ?thesis using assms(3,4)
    by (cases rule: normalize_cases)
       (use l assms(5) in \<open>auto simp: decimal_of_def signed_scale_nonzero\<close>)
next
  case l: (number neg ds e)
  show ?thesis using assms(3,4)
  proof (cases rule: normalize_cases)
    case (number neg' ds' e')
    with l assms(5) have "neg = neg' \<and> ds = ds' \<and> e = e'"
      by (intro signed_scale_inj) (simp_all add: decimal_of_def)
    with l number show ?thesis by simp
  qed (use l assms(5) in \<open>auto simp: decimal_of_def signed_scale_nonzero\<close>)
qed

text \<open>
  Numbers are normalised by value and by nothing else. Two literals of a document have the
  same canonical spelling exactly when they name the same rational number, whatever their
  exponents, leading and trailing zeros and precision; the canonical spelling names that
  number and is its own canonical spelling.
\<close>
theorem number_spelled_by_value:
  assumes "normalizeJSONNumber l = Inr c" "normalizeJSONNumber m = Inr d" "short_literal l" "short_literal m"
  shows "(c = d \<longleftrightarrow> literal_value l = literal_value m) \<and> literal_value c = literal_value l \<and> normalizeJSONNumber c = Inr c"
  using canonical_number [OF assms(1,3)] canonical_number [OF assms(2,4)] canonical_number_unique assms by metis

lemma number_spelled_by_value_witness:
  "normalizeJSONNumber ''-120.50e1'' = Inr ''-1205'' \<and> normalizeJSONNumber ''-1.205E+3'' = Inr ''-1205'' \<and>
   literal_value ''-120.50e1'' = literal_value ''-1.205E+3''"
proof -
  have n: "normalizeJSONNumber ''-120.50e1'' = Inr ''-1205''" "normalizeJSONNumber ''-1.205E+3'' = Inr ''-1205''"
    by (simp_all add: number_eval)
  have s: "short_literal ''-120.50e1''" "short_literal ''-1.205E+3''"
    by (simp_all add: short_literal_def)
  from number_spelled_by_value [OF n s] n show ?thesis by simp
qed

section \<open>Documents have one canonical form\<close>

fun short_json :: "json \<Rightarrow> bool" where
  "short_json (JNum l) = short_literal l"
| "short_json (JArr js) = list_all short_json js"
| "short_json (JObj ms) = list_all (\<lambda>(k, v). short_json v) ms"
| "short_json j = True"

lemma exactRuntimeNumber_canonical:
  assumes "normalizeJSONNumber l = Inr c" "short_literal l"
  shows "exactRuntimeNumber l = Some (literal_value l)"
proof -
  obtain neg ds x where p: "number_parts l = Inr (neg, ds, x)"
    using assms(1) by (auto simp: normalizeJSONNumber_def split: sum.splits)
  define s where "s = (if has_prefix l ''-'' then drop 1 l else l)"
  define m where "m = before_exponent s"
  have bl: "filter is_digit (before_exponent l) = filter is_digit m" "after_point (before_exponent l) = after_point m"
    "after_exponent l = after_exponent s"
    by (auto simp: s_def m_def has_prefix_iff strip_sign)
  obtain e where e: "(case after_exponent s of None \<Rightarrow> Some 0 | Some x \<Rightarrow> parseInt64 x) = Some e"
    and ds: "before_point m @ after_point m \<noteq> []" "list_all is_digit (before_point m @ after_point m)"
    using p by (auto simp: number_parts_def Let_def s_def [symmetric] m_def [symmetric] split: option.splits if_splits)
  have le: "literal_exponent l = e"
    using e by (auto simp: literal_exponent_def bl split: option.splits dest: parseInt64_signed)
  have lv: "literal_value l = (if has_prefix l ''-'' then - 1 else 1) * of_nat (digits_nat (before_point m @ after_point m)) *
      10 powi (e - int (length (after_point m)))"
    using filter_digits_mantissa [OF ds(2)] by (simp add: literal_value_def bl le)
  have "literal_value l = 0 \<or> \<bar>e - int (length (after_point m))\<bar> \<le> 1000000"
    using assms by (cases rule: normalize_cases) (simp_all add: decimal_of_def bl le)
  moreover have "digits_nat (before_point m @ after_point m) = 0" if "literal_value l = 0"
    using that by (simp add: lv split: if_splits)
  ultimately have "digits_nat (before_point m @ after_point m) = 0 \<or> \<bar>e - int (length (after_point m))\<bar> \<le> 1000000"
    by blast
  with e ds lv show ?thesis
    by (auto simp: exactRuntimeNumber_def Let_def s_def [symmetric] m_def [symmetric])
qed

definition canonical_pair :: "string \<times> json \<Rightarrow> string \<times> json \<Rightarrow> bool" where
  "canonical_pair m c \<longleftrightarrow> fst c = fst m \<and> writeCanonicalValue (snd m) = Inr (snd c)"

lemma canonical_membersD:
  "canonical_members seen ms = Inr cs \<Longrightarrow>
     distinct (map fst ms) \<and> set (map fst ms) \<inter> set seen = {} \<and> list_all2 canonical_pair ms cs"
proof (induction ms arbitrary: seen cs)
  case (Cons m ms)
  obtain k v where m: "m = (k, v)" by (cases m)
  with Cons.prems obtain c cs' where c: "k \<notin> set seen" "writeCanonicalValue v = Inr c"
    "canonical_members (k # seen) ms = Inr cs'" "cs = (k, c) # cs'"
    by (auto split: if_splits sum.splits)
  from Cons.IH [OF c(3)] c m show ?case by (auto simp: canonical_pair_def)
qed simp

lemma canonical_membersI:
  "distinct (map fst ms) \<Longrightarrow> set (map fst ms) \<inter> set seen = {} \<Longrightarrow> list_all2 canonical_pair ms cs \<Longrightarrow>
   canonical_members seen ms = Inr cs"
proof (induction ms arbitrary: seen cs)
  case (Cons m ms)
  obtain k v where m: "m = (k, v)" by (cases m)
  from Cons.prems(3) obtain c cs' where cs: "cs = c # cs'" "canonical_pair m c" "list_all2 canonical_pair ms cs'"
    by (auto simp: list_all2_Cons1)
  then have c: "c = (k, snd c)" "writeCanonicalValue v = Inr (snd c)"
    by (cases c, auto simp: canonical_pair_def m)
  have "canonical_members (k # seen) ms = Inr cs'"
    by (rule Cons.IH [OF _ _ cs(3)]) (use Cons.prems(1,2) m in auto)
  with c Cons.prems(2) cs(1) m show ?case by simp
qed simp

lemma writeCanonicalArrayD:
  "writeCanonicalArray js = Inr cs \<Longrightarrow> list_all2 (\<lambda>j c. writeCanonicalValue j = Inr c) js cs"
  by (induction js arbitrary: cs) (auto split: sum.splits)

lemma writeCanonicalArrayI:
  "list_all2 (\<lambda>j c. writeCanonicalValue j = Inr c) js cs \<Longrightarrow> writeCanonicalArray js = Inr cs"
  by (induction rule: list_all2_induct) simp_all

lemma canonical_pairs_keys: "list_all2 canonical_pair ms cs \<Longrightarrow> map fst cs = map fst ms"
  by (induction rule: list_all2_induct) (auto simp: canonical_pair_def)

lemma list_all2_ex1: "list_all2 R xs ys \<Longrightarrow> x \<in> set xs \<Longrightarrow> \<exists>y \<in> set ys. R x y"
  by (metis in_set_conv_nth list_all2_conv_all_nth)

lemma list_all2_ex2: "list_all2 R xs ys \<Longrightarrow> y \<in> set ys \<Longrightarrow> \<exists>x \<in> set xs. R x y"
  by (metis in_set_conv_nth list_all2_conv_all_nth)

lemma canonical_pair_of:
  assumes "list_all2 canonical_pair av cs" "(k, v) \<in> set av"
  obtains c where "(k, c) \<in> set cs" "writeCanonicalValue v = Inr c"
proof -
  from list_all2_ex1 [OF assms] obtain y where y: "y \<in> set cs" "canonical_pair (k, v) y" by blast
  obtain k' c where "y = (k', c)" by (cases y)
  with y show thesis using that by (simp add: canonical_pair_def)
qed

lemma canonical_pair_from:
  assumes "list_all2 canonical_pair av cs" "(k, c) \<in> set cs"
  obtains v where "(k, v) \<in> set av" "writeCanonicalValue v = Inr c"
proof -
  from list_all2_ex2 [OF assms] obtain x where x: "x \<in> set av" "canonical_pair x (k, c)" by blast
  obtain k' v where "x = (k', v)" by (cases x)
  with x show thesis using that by (simp add: canonical_pair_def)
qed

lemma sort_key_eq_iff:
  fixes cs ds :: "(string \<times> json) list"
  assumes "distinct (map fst cs)" "distinct (map fst ds)"
  shows "sort_key fst cs = sort_key fst ds \<longleftrightarrow> set cs = set ds"
proof
  assume "sort_key fst cs = sort_key fst ds"
  then show "set cs = set ds" by (metis set_sort)
next
  assume eq: "set cs = set ds"
  have dm: "distinct (map fst (sort_key fst xs))" if "distinct (map fst xs)" for xs :: "(string \<times> json) list"
    using that by (simp add: distinct_map)
  show "sort_key fst cs = sort_key fst ds"
    by (rule map_sorted_distinct_set_unique [of fst])
       (use assms eq dm in \<open>auto simp: distinct_map intro: inj_on_subset\<close>)
qed

lemma canonical_object:
  assumes "writeCanonicalValue (JObj ms) = Inr c"
  obtains cs where "c = JObj (sort_key fst cs)" "distinct (map fst ms)" "list_all2 canonical_pair ms cs" "distinct (map fst cs)"
proof -
  from assms obtain cs where "canonical_members [] ms = Inr cs" "c = JObj (sort_key fst cs)"
    by (auto split: sum.splits)
  with canonical_membersD [of "[]" ms cs] canonical_pairs_keys [of ms cs] show thesis using that by simp
qed

lemma short_member: "short_json (JObj ms) \<Longrightarrow> (k, v) \<in> set ms \<Longrightarrow> short_json v"
  by (auto simp: list_all_iff)

lemma map_of_distinct: "distinct (map fst ms) \<Longrightarrow> map_of ms k = Some v \<longleftrightarrow> (k, v) \<in> set ms"
  by (rule map_of_eq_Some_iff)

lemma canonical_objects_equal_iff:
  assumes "list_all2 canonical_pair av cs" "distinct (map fst av)" "list_all2 canonical_pair bv ds" "distinct (map fst bv)"
    and R: "\<And>k v w c d. (k, v) \<in> set av \<Longrightarrow> (k, w) \<in> set bv \<Longrightarrow> writeCanonicalValue v = Inr c \<Longrightarrow>
      writeCanonicalValue w = Inr d \<Longrightarrow> c = d \<longleftrightarrow> R v w"
  shows "set cs = set ds \<longleftrightarrow>
     length av = length bv \<and> (\<forall>(k, v) \<in> set av. \<exists>w. (k, w) \<in> set bv \<and> R v w)"
proof -
  have keys: "distinct (map fst cs)" "distinct (map fst ds)"
    using canonical_pairs_keys assms(1-4) by simp_all
  have card: "card (set cs) = length av" "card (set ds) = length bv"
    using keys assms(1,3) by (auto simp: distinct_map distinct_card dest: list_all2_lengthD)
  have sub: "set cs \<subseteq> set ds \<longleftrightarrow> (\<forall>(k, v) \<in> set av. \<exists>w. (k, w) \<in> set bv \<and> R v w)"
  proof
    assume s: "set cs \<subseteq> set ds"
    show "\<forall>(k, v) \<in> set av. \<exists>w. (k, w) \<in> set bv \<and> R v w"
    proof clarify
      fix k v assume m: "(k, v) \<in> set av"
      obtain c where c: "(k, c) \<in> set cs" "writeCanonicalValue v = Inr c"
        by (rule canonical_pair_of [OF assms(1) m])
      with s have "(k, c) \<in> set ds" by blast
      then obtain w where "(k, w) \<in> set bv" "writeCanonicalValue w = Inr c"
        by (rule canonical_pair_from [OF assms(3)])
      with c show "\<exists>w. (k, w) \<in> set bv \<and> R v w" using R m by blast
    qed
  next
    assume r: "\<forall>(k, v) \<in> set av. \<exists>w. (k, w) \<in> set bv \<and> R v w"
    show "set cs \<subseteq> set ds"
    proof clarify
      fix k c assume "(k, c) \<in> set cs"
      then obtain v where v: "(k, v) \<in> set av" "writeCanonicalValue v = Inr c"
        by (rule canonical_pair_from [OF assms(1)])
      with r obtain w where w: "(k, w) \<in> set bv" "R v w" by blast
      obtain d where "(k, d) \<in> set ds" "writeCanonicalValue w = Inr d"
        by (rule canonical_pair_of [OF assms(3) w(1)])
      with R v w show "(k, c) \<in> set ds" by blast
    qed
  qed
  show ?thesis
  proof
    assume "set cs = set ds"
    with sub card show "length av = length bv \<and> (\<forall>(k, v) \<in> set av. \<exists>w. (k, w) \<in> set bv \<and> R v w)" by auto
  next
    assume "length av = length bv \<and> (\<forall>(k, v) \<in> set av. \<exists>w. (k, w) \<in> set bv \<and> R v w)"
    with sub card show "set cs = set ds" by (intro card_subset_eq) auto
  qed
qed

lemma read_member:
  assumes "distinct (map fst bv)"
  shows "(case map_of bv k of None \<Rightarrow> False | Some w \<Rightarrow> R w) \<longleftrightarrow> (\<exists>w. (k, w) \<in> set bv \<and> R w)"
proof (cases "map_of bv k")
  case None
  then have "k \<notin> fst ` set bv" by (simp add: map_of_eq_None_iff)
  then have "(k, w) \<notin> set bv" for w by force
  with None show ?thesis by simp
next
  case (Some w)
  then have "(k, w') \<in> set bv \<longleftrightarrow> w' = w" for w' using map_of_eq_Some_iff [OF assms, of k w'] by auto
  with Some show ?thesis by simp
qed

lemma canonical_equal_iff:
  "writeCanonicalValue j = Inr c \<Longrightarrow> writeCanonicalValue k = Inr d \<Longrightarrow> short_json j \<Longrightarrow> short_json k \<Longrightarrow>
   c = d \<longleftrightarrow> semanticJSONEqual j k"
proof (induction j k arbitrary: c d rule: semanticJSONEqual.induct)
  case (1 av b)
  obtain cs where c: "c = JObj (sort_key fst cs)" "distinct (map fst av)" "list_all2 canonical_pair av cs" "distinct (map fst cs)"
    using canonical_object [OF "1.prems"(1)] by blast
  show ?case
  proof (cases b)
    case (JObj bv)
    obtain ds where d: "d = JObj (sort_key fst ds)" "distinct (map fst bv)" "list_all2 canonical_pair bv ds" "distinct (map fst ds)"
      using canonical_object "1.prems"(2) JObj by blast
    have "c = d \<longleftrightarrow> set cs = set ds" using c d by (simp add: sort_key_eq_iff)
    also have "\<dots> \<longleftrightarrow> length av = length bv \<and> (\<forall>(k, v) \<in> set av. \<exists>w. (k, w) \<in> set bv \<and> semanticJSONEqual v w)"
    proof (rule canonical_objects_equal_iff [OF c(3,2) d(3,2)])
      fix k v w c' d'
      assume m: "(k, v) \<in> set av" "(k, w) \<in> set bv" "writeCanonicalValue v = Inr c'" "writeCanonicalValue w = Inr d'"
      have "map_of bv k = Some w" using d(2) m(2) by simp
      moreover have "short_json v" "short_json w" using "1.prems"(3,4) m JObj by (auto simp: list_all_iff)
      ultimately show "c' = d' \<longleftrightarrow> semanticJSONEqual v w" using "1.IH" [OF JObj] m by blast
    qed
    also have "\<dots> \<longleftrightarrow> semanticJSONEqual (JObj av) b"
      using JObj by (simp add: list_all_iff read_member [OF d(2)] case_prod_beta)
    finally show ?thesis .
  qed (use "1.prems" c in \<open>auto split: sum.splits\<close>)
next
  case (2 av b)
  obtain cs where c: "c = JArr cs" "list_all2 (\<lambda>j c. writeCanonicalValue j = Inr c) av cs"
    using "2.prems"(1) writeCanonicalArrayD by (auto split: sum.splits)
  show ?case
  proof (cases b)
    case (JArr bv)
    obtain ds where d: "d = JArr ds" "list_all2 (\<lambda>j c. writeCanonicalValue j = Inr c) bv ds"
      using "2.prems"(2) JArr writeCanonicalArrayD by (auto split: sum.splits)
    have len: "length cs = length av" "length ds = length bv" using c(2) d(2) by (simp_all add: list_all2_lengthD)
    have elem: "cs ! i = ds ! i \<longleftrightarrow> semanticJSONEqual (av ! i) (bv ! i)" if "i < length av" "length av = length bv" for i
      by (rule "2.IH" [OF JArr, of "(av ! i, bv ! i)"])
         (use that c(2) d(2) "2.prems"(3,4) JArr in \<open>auto simp: list_all2_conv_all_nth list_all_length set_zip\<close>)
    have "c = d \<longleftrightarrow> length av = length bv \<and> (\<forall>i < length av. cs ! i = ds ! i)"
      using c(1) d(1) len by (auto simp: list_eq_iff_nth_eq)
    also have "\<dots> \<longleftrightarrow> length av = length bv \<and> (\<forall>i < length av. semanticJSONEqual (av ! i) (bv ! i))"
      using elem by blast
    also have "\<dots> \<longleftrightarrow> semanticJSONEqual (JArr av) b" using JArr by (auto simp: list_all_length)
    finally show ?thesis .
  qed (use "2.prems" c in \<open>auto split: sum.splits\<close>)
next
  case (3 l b)
  show ?case
  proof (cases b)
    case (JNum m)
    obtain x y where "normalizeJSONNumber l = Inr x" "c = JNum x" "normalizeJSONNumber m = Inr y" "d = JNum y"
      using 3 JNum by (auto split: sum.splits)
    moreover from this have "x = y \<longleftrightarrow> literal_value l = literal_value m"
      using canonical_number canonical_number_unique 3 JNum by (metis short_json.simps(1))
    ultimately show ?thesis using 3 JNum by (simp add: exactRuntimeNumber_canonical)
  qed (use 3 in \<open>auto split: sum.splits\<close>)
qed (auto split: sum.splits json.splits)

lemma canonical_fixed:
  "writeCanonicalValue j = Inr c \<Longrightarrow> short_json j \<Longrightarrow> writeCanonicalValue c = Inr c \<and> short_json c"
proof (induction j arbitrary: c)
  case (JNum l)
  then obtain x where "normalizeJSONNumber l = Inr x" "c = JNum x" by (auto split: sum.splits)
  with canonical_number [of l x] JNum(2) show ?case by simp
next
  case (JArr js)
  then obtain cs where c: "c = JArr cs" "list_all2 (\<lambda>j c. writeCanonicalValue j = Inr c) js cs"
    by (auto split: sum.splits dest: writeCanonicalArrayD)
  have elem: "writeCanonicalValue d = Inr d \<and> short_json d" if d: "d \<in> set cs" for d
  proof -
    from list_all2_ex2 [OF c(2) d] obtain j where j: "j \<in> set js" "writeCanonicalValue j = Inr d" by blast
    then have "short_json j" using JArr.prems(2) by (auto simp: list_all_iff)
    with JArr.IH j show ?thesis by blast
  qed
  then have "list_all2 (\<lambda>j c. writeCanonicalValue j = Inr c) cs cs" by (intro list.rel_refl_strong) blast
  then have "writeCanonicalArray cs = Inr cs" by (rule writeCanonicalArrayI)
  with elem c(1) show ?case by (simp add: list_all_iff)
next
  case (JObj ms)
  obtain cs where c: "c = JObj (sort_key fst cs)" "distinct (map fst ms)" "list_all2 canonical_pair ms cs" "distinct (map fst cs)"
    using canonical_object [OF JObj.prems(1)] by blast
  have elem: "writeCanonicalValue d = Inr d \<and> short_json d" if d: "(k, d) \<in> set cs" for k d
  proof -
    obtain v where v: "(k, v) \<in> set ms" "writeCanonicalValue v = Inr d"
      by (rule canonical_pair_from [OF c(3) d])
    have "v \<in> Basic_BNFs.snds (k, v)" by simp
    moreover have "short_json v" using v(1) JObj.prems(2) by (auto simp: list_all_iff)
    ultimately show ?thesis using JObj.IH v by blast
  qed
  have "list_all2 canonical_pair (sort_key fst cs) (sort_key fst cs)"
    by (intro list.rel_refl_strong) (use elem in \<open>auto simp: canonical_pair_def\<close>)
  moreover have "distinct (map fst (sort_key fst cs))" using c(4) by (simp add: distinct_map)
  ultimately have "canonical_members [] (sort_key fst cs) = Inr (sort_key fst cs)"
    by (intro canonical_membersI) simp_all
  moreover have "sort_key fst (sort_key fst cs) = sort_key fst cs" by (rule sort_key_eq_iff [THEN iffD2]) (use c(4) in \<open>simp_all add: distinct_map\<close>)
  ultimately show ?case using c(1) elem by (auto simp: list_all_iff)
qed auto

text \<open>
  C32: the canonical form of a document is decided by its value. Two documents have the same
  canonical form exactly when the equality of decoded values that enum matching uses
  identifies them, so the order of members, the spelling of numbers and nothing else is
  forgotten; and a canonical document is its own canonical form, so a digest taken when a
  version is published is the digest of what a later fetch returns.
\<close>
theorem canonical_form_decides_equality:
  assumes "canonicalizeJSON (Some j) = Inr c" "canonicalizeJSON (Some k) = Inr d" "short_json j" "short_json k"
  shows "(c = d \<longleftrightarrow> semanticJSONEqual j k) \<and> canonicalizeJSON (Some c) = Inr c"
  using assms canonical_equal_iff [of j c k d] canonical_fixed [of j c] by (simp add: canonicalizeJSON_def)

definition spelled_one_way :: json where
  "spelled_one_way = JObj [(''b'', JArr [JNum ''1.0'', JNull]), (''a'', JNum ''-0'')]"

definition spelled_another_way :: json where
  "spelled_another_way = JObj [(''a'', JNum ''0e7''), (''b'', JArr [JNum ''10e-1'', JNull])]"

lemma canonical_form_decides_equality_witness:
  "semanticJSONEqual spelled_one_way spelled_another_way"
proof -
  have c: "canonicalizeJSON (Some spelled_one_way) = Inr (JObj [(''a'', JNum ''0''), (''b'', JArr [JNum ''1'', JNull])])"
    "canonicalizeJSON (Some spelled_another_way) = Inr (JObj [(''a'', JNum ''0''), (''b'', JArr [JNum ''1'', JNull])])"
    by (simp_all add: canonicalizeJSON_def spelled_one_way_def spelled_another_way_def number_eval)
  have s: "short_json spelled_one_way" "short_json spelled_another_way"
    by (simp_all add: spelled_one_way_def spelled_another_way_def short_literal_def)
  from canonical_form_decides_equality [OF c s] show ?thesis by simp
qed

end
