(* ===== verification/Skill_Schema.thy ===== *)
theory Skill_Schema
  imports Json_Canonical "HOL-Library.Monad_Syntax"
begin

text \<open>
  The contract of a published skill: the closed vocabulary of capabilities, the fail-closed
  JSON Schema subset and the check of a value against a compiled schema
  (\<^verbatim>\<open>internal/skillregistry/schema.go\<close>, \<^verbatim>\<open>strict.go\<close>, \<^verbatim>\<open>contract.go\<close>). Every
  refusal is \<open>None\<close> or \<open>False\<close>; the messages are not modelled. The regular expressions of
  \<^verbatim>\<open>pattern\<close> are two arguments: which sources compile, and what a source matches. Values are
  those a decoder with \<^verbatim>\<open>UseNumber\<close> gives, so the float64 branches of the code do not arise.
\<close>

section \<open>Reading a document strictly\<close>

fun traverse :: "('a \<Rightarrow> 'b option) \<Rightarrow> 'a list \<Rightarrow> 'b list option" where
  "traverse f [] = Some []"
| "traverse f (x # xs) =
     (case f x of
        None \<Rightarrow> None
      | Some y \<Rightarrow> (case traverse f xs of None \<Rightarrow> None | Some ys \<Rightarrow> Some (y # ys)))"

lemma traverse_cong [fundef_cong]:
  "xs = ys \<Longrightarrow> (\<And>x. x \<in> set ys \<Longrightarrow> f x = g x) \<Longrightarrow> traverse f xs = traverse g ys"
proof (induction xs arbitrary: ys)
  case (Cons x xs)
  then obtain zs where ys: "ys = x # zs" "xs = zs" by auto
  with Cons have "f x = g x" "traverse f xs = traverse g zs" by auto
  with ys show ?case by (cases "g x") simp_all
qed simp

definition SupportedSchemaKeywords :: "string list" where
  "SupportedSchemaKeywords =
     [''additionalProperties'', ''description'', ''enum'', ''exclusiveMaximum'',
      ''exclusiveMinimum'', ''items'', ''maxItems'', ''maxLength'', ''maximum'',
      ''minItems'', ''minLength'', ''minimum'', ''pattern'', ''properties'',
      ''required'', ''title'', ''type'', ''uniqueItems'']"

definition schemaTypeVocabulary :: "string list" where
  "schemaTypeVocabulary =
     [''object'', ''array'', ''string'', ''number'', ''integer'', ''boolean'', ''null'']"

text \<open>
  \<^verbatim>\<open>validateExactKeys\<close> decodes the document without \<^verbatim>\<open>UseNumber\<close>: a number that
  \<^verbatim>\<open>strconv.ParseFloat\<close> rounds to infinity is an error there.
\<close>

definition float64_finite :: "string \<Rightarrow> bool" where
  "float64_finite l = (\<bar>literal_value l\<bar> < 2 ^ 1024 - 2 ^ 970)"

fun floats_finite :: "json \<Rightarrow> bool" where
  "floats_finite (JNum l) = float64_finite l"
| "floats_finite (JArr js) = list_all floats_finite js"
| "floats_finite (JObj ms) = list_all (\<lambda>(k, v). floats_finite v) ms"
| "floats_finite j = True"

function (sequential) validateExactObject :: "json \<Rightarrow> bool" where
  "validateExactObject (JObj ms) =
     list_all (\<lambda>(k, child).
       k \<in> set SupportedSchemaKeywords \<and>
       (if k = ''properties'' then
          (case child of JObj ps \<Rightarrow> list_all (\<lambda>(name, node). validateExactObject node) ps | _ \<Rightarrow> True)
        else if k = ''items'' then validateExactObject child
        else True)) ms"
| "validateExactObject j = True"
  by pat_completeness auto
termination
  by (relation "measure size") (auto dest!: size_member_value)

section \<open>Compiling a schema\<close>

text \<open>\<^verbatim>\<open>schemaDoc\<close>: the struct a schema object is decoded into; a keyword of the wrong type is an error.\<close>

record schema_doc =
  doc_type :: "json option"
  doc_properties :: "(string \<times> json) list"
  doc_required :: "string list"
  doc_additional :: "bool option"
  doc_items :: "json option"
  doc_minItems :: "int option"
  doc_maxItems :: "int option"
  doc_uniqueItems :: bool
  doc_minLength :: "int option"
  doc_maxLength :: "int option"
  doc_pattern :: "string option"
  doc_minimum :: "json option"
  doc_maximum :: "json option"
  doc_exclusiveMinimum :: "json option"
  doc_exclusiveMaximum :: "json option"
  doc_enum :: "json list option"

definition typed_field :: "(json \<Rightarrow> 'a option) \<Rightarrow> (string \<times> json) list \<Rightarrow> string \<Rightarrow> 'a option option" where
  "typed_field read ms k =
     (case map_of ms k of
        None \<Rightarrow> Some None
      | Some j \<Rightarrow> (case read j of None \<Rightarrow> None | Some x \<Rightarrow> Some (Some x)))"

definition read_string :: "json \<Rightarrow> string option" where
  "read_string j = (case j of JStr s \<Rightarrow> Some s | JNull \<Rightarrow> Some [] | _ \<Rightarrow> None)"

definition read_strings :: "json \<Rightarrow> string list option" where
  "read_strings j = (case j of JArr js \<Rightarrow> traverse read_string js | _ \<Rightarrow> None)"

definition read_bool :: "json \<Rightarrow> bool option" where
  "read_bool j = (case j of JBool b \<Rightarrow> Some b | _ \<Rightarrow> None)"

definition read_int :: "json \<Rightarrow> int option" where
  "read_int j = (case j of JNum l \<Rightarrow> parseInt64 l | _ \<Rightarrow> None)"

definition read_object :: "json \<Rightarrow> (string \<times> json) list option" where
  "read_object j = (case j of JObj ms \<Rightarrow> Some ms | _ \<Rightarrow> None)"

definition read_array :: "json \<Rightarrow> json list option" where
  "read_array j = (case j of JArr js \<Rightarrow> Some js | _ \<Rightarrow> None)"

definition decode_schema_doc :: "(string \<times> json) list \<Rightarrow> schema_doc option" where
  "decode_schema_doc ms =
     do {
       properties \<leftarrow> typed_field read_object ms ''properties'';
       required \<leftarrow> typed_field read_strings ms ''required'';
       additional \<leftarrow> typed_field read_bool ms ''additionalProperties'';
       minItems \<leftarrow> typed_field read_int ms ''minItems'';
       maxItems \<leftarrow> typed_field read_int ms ''maxItems'';
       uniqueItems \<leftarrow> typed_field read_bool ms ''uniqueItems'';
       minLength \<leftarrow> typed_field read_int ms ''minLength'';
       maxLength \<leftarrow> typed_field read_int ms ''maxLength'';
       pattern \<leftarrow> typed_field read_string ms ''pattern'';
       members \<leftarrow> typed_field read_array ms ''enum'';
       title \<leftarrow> typed_field read_string ms ''title'';
       description \<leftarrow> typed_field read_string ms ''description'';
       Some \<lparr> doc_type = map_of ms ''type'',
         doc_properties = (case properties of None \<Rightarrow> [] | Some ps \<Rightarrow> ps),
         doc_required = (case required of None \<Rightarrow> [] | Some rs \<Rightarrow> rs),
         doc_additional = additional,
         doc_items = map_of ms ''items'',
         doc_minItems = minItems, doc_maxItems = maxItems,
         doc_uniqueItems = (uniqueItems = Some True),
         doc_minLength = minLength, doc_maxLength = maxLength,
         doc_pattern = pattern,
         doc_minimum = map_of ms ''minimum'', doc_maximum = map_of ms ''maximum'',
         doc_exclusiveMinimum = map_of ms ''exclusiveMinimum'',
         doc_exclusiveMaximum = map_of ms ''exclusiveMaximum'',
         doc_enum = members \<rparr>
     }"

datatype compiled_schema = CompiledSchema
  (cs_types: "string list")
  (cs_properties: "(string \<times> compiled_schema) list")
  (cs_required: "string list")
  (cs_additional: "bool option")
  (cs_items: "compiled_schema option")
  (cs_minItems: "int option") (cs_maxItems: "int option")
  (cs_uniqueItems: bool)
  (cs_minLength: "int option") (cs_maxLength: "int option")
  (cs_pattern: "string option")
  (cs_minimum: "rat option") (cs_maximum: "rat option")
  (cs_exclusiveMinimum: "rat option") (cs_exclusiveMaximum: "rat option")
  (cs_enum: "json list")

definition compile_types :: "json option \<Rightarrow> string list option" where
  "compile_types t =
     (case t of
        None \<Rightarrow> Some []
      | Some (JStr s) \<Rightarrow> (if s \<in> set schemaTypeVocabulary then Some [s] else None)
      | Some (JArr js) \<Rightarrow>
          (if js = [] then None
           else traverse (\<lambda>e. case e of
                   JStr s \<Rightarrow> (if s \<in> set schemaTypeVocabulary then Some s else None)
                 | _ \<Rightarrow> None) js)
      | Some _ \<Rightarrow> None)"

definition schemaNumber :: "json option \<Rightarrow> rat option option" where
  "schemaNumber raw =
     (case raw of
        None \<Rightarrow> Some None
      | Some (JNum l) \<Rightarrow> (case exactRuntimeNumber l of None \<Rightarrow> None | Some x \<Rightarrow> Some (Some x))
      | Some _ \<Rightarrow> None)"

definition ordered_limits :: "'a :: linorder option \<Rightarrow> 'a option \<Rightarrow> bool" where
  "ordered_limits lo hi = (case (lo, hi) of (Some a, Some b) \<Rightarrow> a \<le> b | _ \<Rightarrow> True)"

definition nonnegative :: "int option \<Rightarrow> bool" where
  "nonnegative v = (case v of None \<Rightarrow> True | Some n \<Rightarrow> 0 \<le> n)"

definition required_ok :: "string list \<Rightarrow> (string \<times> compiled_schema) list \<Rightarrow> bool" where
  "required_ok required properties \<longleftrightarrow>
     [] \<notin> set required \<and> distinct required \<and>
     (properties = [] \<or> list_all (\<lambda>name. map_of properties name \<noteq> None) required)"

definition compile_enum :: "json list option \<Rightarrow> json list option" where
  "compile_enum members =
     (case members of
        None \<Rightarrow> Some []
      | Some [] \<Rightarrow> None
      | Some es \<Rightarrow>
          (case traverse (\<lambda>e. case canonicalizeJSON (Some e) of Inl _ \<Rightarrow> None | Inr c \<Rightarrow> Some c) es of
             None \<Rightarrow> None
           | Some cs \<Rightarrow> (if distinct cs then Some cs else None)))"

lemma size_map_of: "map_of ms k = Some j \<Longrightarrow> size j < size (JObj ms)"
  by (drule map_of_SomeD) (simp add: size_member_value)

lemma size_list_insort_key: "size_list f (insort_key g x xs) = Suc (f x + size_list f xs)"
  by (induction xs) simp_all

lemma size_list_sort_key: "size_list f (sort_key g xs) = size_list f xs"
  by (induction xs) (simp_all add: size_list_insort_key)

lemma size_canonical:
  "writeCanonicalValue j = Inr c \<Longrightarrow> size c = size j"
  "writeCanonicalArray js = Inr cs \<Longrightarrow> size_list size cs = size_list size js"
  "canonical_members seen ms = Inr ds \<Longrightarrow> size_list (size_prod (\<lambda>_. 0) size) ds = size_list (size_prod (\<lambda>_. 0) size) ms"
  by (induction j and js and seen ms arbitrary: c and cs and ds rule: writeCanonicalValue_writeCanonicalArray_canonical_members.induct)
     (auto simp: size_list_sort_key split: sum.splits if_splits)

lemma decode_schema_doc_sources:
  assumes "decode_schema_doc ms = Some d"
  shows "(name, p) \<in> set (doc_properties d) \<Longrightarrow> size p < size (JObj ms)"
    "doc_items d = Some p \<Longrightarrow> size p < size (JObj ms)"
proof -
  obtain properties where props: "typed_field read_object ms ''properties'' = Some properties"
    "doc_properties d = (case properties of None \<Rightarrow> [] | Some ps \<Rightarrow> ps)" and items: "doc_items d = map_of ms ''items''"
    using assms by (auto simp: decode_schema_doc_def bind_eq_Some_conv)
  show "size p < size (JObj ms)" if m: "(name, p) \<in> set (doc_properties d)"
  proof -
    from m props obtain j where "map_of ms ''properties'' = Some j" "read_object j = Some (doc_properties d)"
      by (auto simp: typed_field_def split: option.splits)
    then have "map_of ms ''properties'' = Some (JObj (doc_properties d))"
      by (auto simp: read_object_def split: json.splits)
    from size_map_of [OF this] size_member_value [OF m] show ?thesis by simp
  qed
  show "size p < size (JObj ms)" if "doc_items d = Some p"
    using that items by (auto dest: size_map_of)
qed

lemma compiled_property_smaller:
  "canonicalizeJSON (Some raw) = Inr (JObj ms) \<Longrightarrow> decode_schema_doc ms = Some d \<Longrightarrow> (name, p) \<in> set (doc_properties d) \<Longrightarrow>
   size p < size raw"
  using decode_schema_doc_sources(1) [of ms d] size_canonical(1) [of raw "JObj ms"]
  unfolding canonicalizeJSON_def option.case by (simp only:)

lemma compiled_items_smaller:
  "canonicalizeJSON (Some raw) = Inr (JObj ms) \<Longrightarrow> decode_schema_doc ms = Some d \<Longrightarrow> doc_items d = Some p \<Longrightarrow>
   size p < size raw"
  using decode_schema_doc_sources(2) [of ms d] size_canonical(1) [of raw "JObj ms"]
  unfolding canonicalizeJSON_def option.case by (simp only:)

function (sequential) compileSchema :: "(string \<Rightarrow> bool) \<Rightarrow> json \<Rightarrow> compiled_schema option" where
  "compileSchema valid_re raw =
     (case canonicalizeJSON (Some raw) of
        Inr (JObj ms) \<Rightarrow>
          (if \<not> floats_finite (JObj ms) \<or> \<not> validateExactObject (JObj ms) then None
           else
             (case decode_schema_doc ms of
                None \<Rightarrow> None
              | Some d \<Rightarrow>
                  (if list_ex (\<lambda>kw. map_of ms kw = Some JNull) SupportedSchemaKeywords then None
                   else
                     do {
                       types \<leftarrow> compile_types (doc_type d);
                       properties \<leftarrow> traverse (\<lambda>(name, p). map_option (Pair name) (compileSchema valid_re p)) (doc_properties d);
                       items \<leftarrow> (case doc_items d of None \<Rightarrow> Some None | Some p \<Rightarrow> map_option Some (compileSchema valid_re p));
                       minimum \<leftarrow> schemaNumber (doc_minimum d);
                       maximum \<leftarrow> schemaNumber (doc_maximum d);
                       exclusiveMinimum \<leftarrow> schemaNumber (doc_exclusiveMinimum d);
                       exclusiveMaximum \<leftarrow> schemaNumber (doc_exclusiveMaximum d);
                       members \<leftarrow> compile_enum (doc_enum d);
                       if required_ok (doc_required d) properties \<and>
                          nonnegative (doc_minItems d) \<and> nonnegative (doc_maxItems d) \<and>
                          nonnegative (doc_minLength d) \<and> nonnegative (doc_maxLength d) \<and>
                          ordered_limits (doc_minItems d) (doc_maxItems d) \<and>
                          ordered_limits (doc_minLength d) (doc_maxLength d) \<and>
                          (case doc_pattern d of None \<Rightarrow> True | Some re \<Rightarrow> valid_re re) \<and>
                          ordered_limits minimum maximum
                       then Some (CompiledSchema types properties (doc_required d) (doc_additional d) items
                              (doc_minItems d) (doc_maxItems d) (doc_uniqueItems d) (doc_minLength d) (doc_maxLength d)
                              (doc_pattern d) minimum maximum exclusiveMinimum exclusiveMaximum members)
                       else None
                     })))
      | _ \<Rightarrow> None)"
  by pat_completeness auto
termination
  by (relation "measure (size \<circ> snd)") (auto dest: compiled_property_smaller compiled_items_smaller)

declare compileSchema.simps [simp del]

definition CompileSchema :: "(string \<Rightarrow> bool) \<Rightarrow> raw_json \<Rightarrow> compiled_schema option" where
  "CompileSchema valid_re raw = (case raw of None \<Rightarrow> None | Some j \<Rightarrow> compileSchema valid_re j)"

section \<open>Checking a value\<close>

definition is_integer :: "rat \<Rightarrow> bool" where
  "is_integer x = (snd (quotient_of x) = 1)"

definition jsonTypeName :: "json \<Rightarrow> string" where
  "jsonTypeName value =
     (case value of
        JNull \<Rightarrow> ''null''
      | JBool b \<Rightarrow> ''boolean''
      | JStr s \<Rightarrow> ''string''
      | JNum l \<Rightarrow>
          (case exactRuntimeNumber l of
             None \<Rightarrow> ''unknown''
           | Some x \<Rightarrow>
               (if \<not> list_ex (\<lambda>c. c \<in> {CHR ''.'', CHR ''e'', CHR ''E''}) l \<or> is_integer x then ''integer'' else ''number''))
      | JArr js \<Rightarrow> ''array''
      | JObj ms \<Rightarrow> ''object'')"

definition typeMatches :: "string list \<Rightarrow> json \<Rightarrow> bool" where
  "typeMatches types value =
     list_ex (\<lambda>t. t = jsonTypeName value \<or> (t = ''number'' \<and> jsonTypeName value = ''integer'')) types"

text \<open>\<^verbatim>\<open>utf8.RuneCountInString\<close> on valid UTF-8, which is what the JSON decoder leaves.\<close>

definition rune_count :: "string \<Rightarrow> int" where
  "rune_count s = int (length (filter (\<lambda>c. \<not> (128 \<le> (of_char c :: nat) \<and> (of_char c :: nat) < 192)) s))"

definition in_limits :: "int option \<Rightarrow> int option \<Rightarrow> int \<Rightarrow> bool" where
  "in_limits lo hi n \<longleftrightarrow>
     (case lo of None \<Rightarrow> True | Some a \<Rightarrow> a \<le> n) \<and> (case hi of None \<Rightarrow> True | Some b \<Rightarrow> n \<le> b)"

fun unique_items :: "json list \<Rightarrow> json list \<Rightarrow> bool" where
  "unique_items seen [] = True"
| "unique_items seen (e # es) =
     (case canonicalizeJSON (Some e) of
        Inl _ \<Rightarrow> False
      | Inr key \<Rightarrow> key \<notin> set seen \<and> unique_items (key # seen) es)"

definition number_in_range :: "compiled_schema \<Rightarrow> rat \<Rightarrow> bool" where
  "number_in_range s n \<longleftrightarrow>
     (case cs_minimum s of None \<Rightarrow> True | Some x \<Rightarrow> x \<le> n) \<and>
     (case cs_maximum s of None \<Rightarrow> True | Some x \<Rightarrow> n \<le> x) \<and>
     (case cs_exclusiveMinimum s of None \<Rightarrow> True | Some x \<Rightarrow> x < n) \<and>
     (case cs_exclusiveMaximum s of None \<Rightarrow> True | Some x \<Rightarrow> n < x)"

function (sequential) check :: "(string \<Rightarrow> string \<Rightarrow> bool) \<Rightarrow> compiled_schema \<Rightarrow> json \<Rightarrow> bool" where
  "check re_match s value =
     ((cs_types s = [] \<or> typeMatches (cs_types s) value) \<and>
      (cs_enum s = [] \<or> list_ex (semanticJSONEqual value) (cs_enum s)) \<and>
      (case value of
         JObj ms \<Rightarrow>
           list_all (\<lambda>name. name \<in> fst ` set ms) (cs_required s) \<and>
           list_all (\<lambda>(name, v).
             case map_of (cs_properties s) name of
               Some child \<Rightarrow> check re_match child v
             | None \<Rightarrow> cs_additional s \<noteq> Some False) ms
       | JArr js \<Rightarrow>
           in_limits (cs_minItems s) (cs_maxItems s) (int (length js)) \<and>
           (\<not> cs_uniqueItems s \<or> unique_items [] js) \<and>
           (case cs_items s of None \<Rightarrow> True | Some child \<Rightarrow> list_all (check re_match child) js)
       | JStr t \<Rightarrow>
           in_limits (cs_minLength s) (cs_maxLength s) (rune_count t) \<and>
           (case cs_pattern s of None \<Rightarrow> True | Some re \<Rightarrow> re_match re t)
       | JNum l \<Rightarrow>
           (case exactRuntimeNumber l of None \<Rightarrow> False | Some n \<Rightarrow> number_in_range s n)
       | _ \<Rightarrow> True))"
  by pat_completeness auto
termination
  by (relation "measure (\<lambda>(m, s, v). size v)")
     (auto dest!: size_member_value simp: less_Suc_eq_le size_list_estimation')

declare check.simps [simp del]

section \<open>Contracts\<close>

datatype capability =
    CapAuthoring
  | CapReview
  | CapVerification
  | CapShipping
  | CapDeterministicOperation
  | UnknownCapability string

record skill_contract =
  Capabilities :: "capability list"
  InputSchema :: raw_json
  ParamsSchema :: raw_json
  OutputSchema :: raw_json
  Interactive :: bool

definition capabilitySet :: "capability list" where
  "capabilitySet = [CapAuthoring, CapReview, CapVerification, CapShipping, CapDeterministicOperation]"

definition schema_supported :: "(string \<Rightarrow> bool) \<Rightarrow> raw_json \<Rightarrow> bool" where
  "schema_supported valid_re raw = (raw = None \<or> CompileSchema valid_re raw \<noteq> None)"

definition ValidateContract :: "(string \<Rightarrow> bool) \<Rightarrow> skill_contract \<Rightarrow> bool" where
  "ValidateContract valid_re c \<longleftrightarrow>
     Capabilities c \<noteq> [] \<and>
     set (Capabilities c) \<subseteq> set capabilitySet \<and>
     distinct (Capabilities c) \<and>
     schema_supported valid_re (InputSchema c) \<and>
     schema_supported valid_re (ParamsSchema c) \<and>
     schema_supported valid_re (OutputSchema c)"

end
