(* ===== verification/Workflow.thy ===== *)
theory Workflow
  imports Skill_Schema
begin

text \<open>
  Pinned workflows: a flow is a versioned sequence of steps, each bound to one published
  version of a skill and carrying an explicit grant from the controller
  (\<^verbatim>\<open>internal/workflow/contract.go\<close>, \<^verbatim>\<open>validate.go\<close>). A Go string enumeration is a
  datatype with a constructor for the values outside it. The error texts are constructors of
  \<open>flow_error\<close>; a schema or a parameter the registry refuses is one error.
\<close>

section \<open>Data\<close>

record model_candidate =
  mc_harness :: string
  mc_model :: string
  mc_effort :: string

record input_ref =
  in_name :: string
  in_step :: string
  in_output :: string

record flow_step =
  fs_id :: string
  fs_skill :: string
  fs_skill_version :: int
  fs_rhs :: "bool option"
  fs_models :: "model_candidate list"
  fs_params :: raw_json
  fs_inputs :: "input_ref list"

record flow =
  fl_version :: int
  fl_steps :: "flow_step list"

datatype execution_authority = AuthorityReadOnly | AuthorityWrite | OtherAuthority string

datatype producer_isolation = IsolationShared | IsolationRequired | OtherIsolation string

record step_grant =
  Authority :: execution_authority
  ProducerIsolation :: producer_isolation

definition no_grant :: step_grant where
  "no_grant = \<lparr> Authority = OtherAuthority [], ProducerIsolation = OtherIsolation [] \<rparr>"

record skill_binding =
  sb_skill :: string
  sb_version :: int
  sb_contract :: skill_contract

record validated_step =
  vs_step :: flow_step
  vs_contract :: skill_contract

record validated_flow =
  vf_flow :: flow
  vf_steps :: "validated_step list"
  vf_grants :: "string \<rightharpoonup> step_grant"

text \<open>A lookup in a Go map gives the zero value for a missing key.\<close>

definition grant_in :: "(string \<rightharpoonup> step_grant) \<Rightarrow> string \<Rightarrow> step_grant" where
  "grant_in grants sid = (case grants sid of None \<Rightarrow> no_grant | Some g \<Rightarrow> g)"

datatype flow_error =
    VersionNotPositive | NoSteps
  | BindingNotExact | BindingDuplicate | BindingInvalidContract
  | StepInvalidId | StepNotPinned | StepNoModels
  | CandidateInvalidHarness | CandidateInvalidModel | CandidateInvalidEffort | CandidateDuplicate
  | StepDuplicateId | StepUnbound | StepMissingGrant | GrantNoAuthority | GrantNoIsolation
  | InteractiveUnattended | ParamsRefused
  | InputInvalid | InputDuplicate | InputNotEarlier | InputSchemaUnreadable | InputIncompatible
  | GrantsNotExact
  | ShippingNotWrite | ShippingNoWrite | GatesMissing | WriteGatesMissing

section \<open>Shapes\<close>

definition is_alpha :: "char \<Rightarrow> bool" where
  "is_alpha c = ((65 \<le> (of_char c :: nat) \<and> (of_char c :: nat) \<le> 90) \<or> (97 \<le> (of_char c :: nat) \<and> (of_char c :: nat) \<le> 122))"

definition is_lower :: "char \<Rightarrow> bool" where
  "is_lower c = (97 \<le> (of_char c :: nat) \<and> (of_char c :: nat) \<le> 122)"

text \<open>\<^verbatim>\<open>^[A-Za-z0-9][A-Za-z0-9._:-]*$\<close>, \<^verbatim>\<open>^[a-z][a-z0-9_-]*$\<close> and \<^verbatim>\<open>^sha256:[0-9a-f]{64}$\<close>.\<close>

definition validIdentifier :: "string \<Rightarrow> bool" where
  "validIdentifier s =
     (case s of
        [] \<Rightarrow> False
      | c # cs \<Rightarrow>
          (is_alpha c \<or> is_digit c) \<and>
          list_all (\<lambda>c. is_alpha c \<or> is_digit c \<or> c \<in> {CHR ''.'', CHR ''_'', CHR '':'', CHR ''-''}) cs)"

definition tokenRE :: "string \<Rightarrow> bool" where
  "tokenRE s =
     (case s of
        [] \<Rightarrow> False
      | c # cs \<Rightarrow> is_lower c \<and> list_all (\<lambda>c. is_lower c \<or> is_digit c \<or> c \<in> {CHR ''_'', CHR ''-''}) cs)"

definition sha256RE :: "string \<Rightarrow> bool" where
  "sha256RE s \<longleftrightarrow>
     has_prefix s ''sha256:'' \<and> length (drop 7 s) = 64 \<and>
     list_all (\<lambda>c. is_digit c \<or> (97 \<le> (of_char c :: nat) \<and> (of_char c :: nat) \<le> 102)) (drop 7 s)"

fun check_candidates :: "(string \<times> string \<times> string) list \<Rightarrow> model_candidate list \<Rightarrow> flow_error option" where
  "check_candidates seen [] = None"
| "check_candidates seen (c # cs) =
     (if \<not> tokenRE (mc_harness c) then Some CandidateInvalidHarness
      else if mc_model c = [] \<or> mc_model c \<noteq> trim_space (mc_model c) \<or>
              list_ex (\<lambda>x. x \<in> {CHR 0x0D, CHR 0x0A, CHR 0x09}) (mc_model c) then Some CandidateInvalidModel
      else if \<not> tokenRE (mc_effort c) then Some CandidateInvalidEffort
      else
        (let key = (mc_harness c, mc_model c, mc_effort c) in
         if key \<in> set seen then Some CandidateDuplicate else check_candidates (key # seen) cs))"

definition validateStepShape :: "flow_step \<Rightarrow> flow_error option" where
  "validateStepShape s =
     (if \<not> validIdentifier (fs_id s) then Some StepInvalidId
      else if \<not> validIdentifier (fs_skill s) \<or> fs_skill_version s \<le> 0 then Some StepNotPinned
      else if fs_models s = [] then Some StepNoModels
      else check_candidates [] (fs_models s))"

definition validateGrant :: "step_grant \<Rightarrow> flow_error option" where
  "validateGrant g =
     (if Authority g \<noteq> AuthorityReadOnly \<and> Authority g \<noteq> AuthorityWrite then Some GrantNoAuthority
      else if ProducerIsolation g \<noteq> IsolationShared \<and> ProducerIsolation g \<noteq> IsolationRequired then Some GrantNoIsolation
      else None)"

section \<open>Schemas and parameters\<close>

text \<open>
  \<^verbatim>\<open>decodeOneValue\<close> followed by \<^verbatim>\<open>json.Marshal\<close>: an object becomes a map, in which the last of
  several members with the same key stays, and is written with its keys sorted. Number
  literals are kept as they are.
\<close>

fun keep_last :: "(string \<times> 'a) list \<Rightarrow> (string \<times> 'a) list" where
  "keep_last [] = []"
| "keep_last ((k, v) # ms) = (if k \<in> fst ` set ms then keep_last ms else (k, v) # keep_last ms)"

function (sequential) decodeOneValue :: "json \<Rightarrow> json" where
  "decodeOneValue (JObj ms) = JObj (sort_key fst (keep_last (map (\<lambda>(k, v). (k, decodeOneValue v)) ms)))"
| "decodeOneValue (JArr js) = JArr (map decodeOneValue js)"
| "decodeOneValue j = j"
  by pat_completeness auto
termination
  by (relation "measure size") (auto dest!: size_member_value simp: less_Suc_eq_le size_list_estimation')

definition namedPropertySchema :: "raw_json \<Rightarrow> string \<Rightarrow> json option" where
  "namedPropertySchema raw name =
     (case raw of
        Some (JObj ms) \<Rightarrow> (case map_of ms ''properties'' of Some (JObj ps) \<Rightarrow> map_of ps name | _ \<Rightarrow> None)
      | _ \<Rightarrow> None)"

definition canonicalSchema :: "json \<Rightarrow> json" where
  "canonicalSchema j = decodeOneValue j"

definition validateParams ::
  "(string \<Rightarrow> bool) \<Rightarrow> (string \<Rightarrow> string \<Rightarrow> bool) \<Rightarrow> raw_json \<Rightarrow> raw_json \<Rightarrow> bool" where
  "validateParams valid_re re_match raw schema =
     (case schema of
        None \<Rightarrow> True
      | Some sc \<Rightarrow>
          (case CompileSchema valid_re schema of
             None \<Rightarrow> False
           | Some compiled \<Rightarrow>
               check re_match compiled (case raw of None \<Rightarrow> JNull | Some j \<Rightarrow> decodeOneValue j)))"

fun validateInputs ::
  "string list \<Rightarrow> (string \<rightharpoonup> nat) \<Rightarrow> validated_step list \<Rightarrow> skill_contract \<Rightarrow> nat \<Rightarrow> input_ref list \<Rightarrow> flow_error option" where
  "validateInputs seen prior priorSteps consumer index [] = None"
| "validateInputs seen prior priorSteps consumer index (i # is) =
     (if \<not> validIdentifier (in_name i) \<or> \<not> validIdentifier (in_step i) \<or> \<not> validIdentifier (in_output i) then Some InputInvalid
      else if in_name i \<in> set seen then Some InputDuplicate
      else
        (case prior (in_step i) of
           None \<Rightarrow> Some InputNotEarlier
         | Some producerIndex \<Rightarrow>
             (if index \<le> producerIndex then Some InputNotEarlier
              else
                (case (namedPropertySchema (OutputSchema (vs_contract (priorSteps ! producerIndex))) (in_output i),
                       namedPropertySchema (InputSchema consumer) (in_name i)) of
                   (Some p, Some c) \<Rightarrow>
                     (if canonicalSchema p = canonicalSchema c
                      then validateInputs (in_name i # seen) prior priorSteps consumer index is
                      else Some InputIncompatible)
                 | _ \<Rightarrow> Some InputSchemaUnreadable))))"

section \<open>Safety gates\<close>

definition hasCapability :: "skill_contract \<Rightarrow> capability \<Rightarrow> bool" where
  "hasCapability c wanted = list_ex (\<lambda>x. x = wanted) (Capabilities c)"

definition step_grant_of :: "(string \<rightharpoonup> step_grant) \<Rightarrow> validated_step \<Rightarrow> step_grant" where
  "step_grant_of grants s = grant_in grants (fs_id (vs_step s))"

definition is_shipping :: "validated_step \<Rightarrow> bool" where
  "is_shipping s = hasCapability (vs_contract s) CapShipping"

definition implementation_write :: "(string \<rightharpoonup> step_grant) \<Rightarrow> validated_step \<Rightarrow> bool" where
  "implementation_write grants s \<longleftrightarrow> Authority (step_grant_of grants s) = AuthorityWrite \<and> \<not> is_shipping s"

definition independent_reader :: "(string \<rightharpoonup> step_grant) \<Rightarrow> validated_step \<Rightarrow> bool" where
  "independent_reader grants s \<longleftrightarrow>
     Authority (step_grant_of grants s) = AuthorityReadOnly \<and> ProducerIsolation (step_grant_of grants s) = IsolationRequired"

text \<open>The loops over indices: the first index of \<open>[i..<j]\<close>, or the last, at which \<open>P\<close> holds.\<close>

definition first_index :: "(nat \<Rightarrow> bool) \<Rightarrow> nat \<Rightarrow> nat \<Rightarrow> nat option" where
  "first_index P i j = find P [i..<j]"

definition last_index :: "(nat \<Rightarrow> bool) \<Rightarrow> nat \<Rightarrow> nat \<Rightarrow> nat option" where
  "last_index P i j = find P (rev [i..<j])"

definition gateIndexes ::
  "validated_step list \<Rightarrow> (string \<rightharpoonup> step_grant) \<Rightarrow> nat \<Rightarrow> nat \<Rightarrow> nat option \<times> nat option" where
  "gateIndexes steps grants start stop =
     (last_index (\<lambda>i. independent_reader grants (steps ! i) \<and> hasCapability (vs_contract (steps ! i)) CapReview) start stop,
      last_index (\<lambda>i. independent_reader grants (steps ! i) \<and> hasCapability (vs_contract (steps ! i)) CapVerification) start stop)"

definition distinct_gates ::
  "validated_step list \<Rightarrow> (string \<rightharpoonup> step_grant) \<Rightarrow> nat \<Rightarrow> nat \<Rightarrow> bool" where
  "distinct_gates steps grants start stop =
     (case gateIndexes steps grants start stop of
        (Some review, Some verification) \<Rightarrow> review \<noteq> verification
      | _ \<Rightarrow> False)"

definition gates_after_write ::
  "validated_step list \<Rightarrow> (string \<rightharpoonup> step_grant) \<Rightarrow> nat \<Rightarrow> flow_error option" where
  "gates_after_write steps grants i =
     (case first_index (\<lambda>j. implementation_write grants (steps ! j)) (Suc i) (length steps) of
        Some nextWrite \<Rightarrow> None
      | None \<Rightarrow>
          (let boundary = (case first_index (\<lambda>j. is_shipping (steps ! j)) (Suc i) (length steps) of
                             Some j \<Rightarrow> j | None \<Rightarrow> length steps) in
           if distinct_gates steps grants (Suc i) boundary then None
           else if boundary < length steps then Some GatesMissing
           else Some WriteGatesMissing))"

definition gates_before_shipping ::
  "validated_step list \<Rightarrow> (string \<rightharpoonup> step_grant) \<Rightarrow> nat \<Rightarrow> flow_error option" where
  "gates_before_shipping steps grants i =
     (case last_index (\<lambda>j. implementation_write grants (steps ! j)) 0 i of
        None \<Rightarrow> Some ShippingNoWrite
      | Some lastWrite \<Rightarrow>
          (if distinct_gates steps grants (Suc lastWrite) i then None else Some GatesMissing))"

definition step_gates ::
  "validated_step list \<Rightarrow> (string \<rightharpoonup> step_grant) \<Rightarrow> nat \<Rightarrow> flow_error option" where
  "step_gates steps grants i =
     (if is_shipping (steps ! i) \<and> Authority (step_grant_of grants (steps ! i)) \<noteq> AuthorityWrite then Some ShippingNotWrite
      else if implementation_write grants (steps ! i) then gates_after_write steps grants i
      else if is_shipping (steps ! i) then gates_before_shipping steps grants i
      else None)"

fun first_error :: "('a \<Rightarrow> 'e option) \<Rightarrow> 'a list \<Rightarrow> 'e option" where
  "first_error f [] = None"
| "first_error f (x # xs) = (case f x of None \<Rightarrow> first_error f xs | Some e \<Rightarrow> Some e)"

definition validateSafetyGates :: "validated_step list \<Rightarrow> (string \<rightharpoonup> step_grant) \<Rightarrow> flow_error option" where
  "validateSafetyGates steps grants = first_error (step_gates steps grants) [0..<length steps]"

section \<open>Validation\<close>

fun bind_skills ::
  "(string \<Rightarrow> bool) \<Rightarrow> (string \<times> int \<rightharpoonup> skill_contract) \<Rightarrow> skill_binding list \<Rightarrow>
   flow_error + (string \<times> int \<rightharpoonup> skill_contract)" where
  "bind_skills valid_re bound [] = Inr bound"
| "bind_skills valid_re bound (b # bs) =
     (if \<not> validIdentifier (sb_skill b) \<or> sb_version b \<le> 0 then Inl BindingNotExact
      else if bound (sb_skill b, sb_version b) \<noteq> None then Inl BindingDuplicate
      else if \<not> ValidateContract valid_re (sb_contract b) then Inl BindingInvalidContract
      else bind_skills valid_re (bound ((sb_skill b, sb_version b) \<mapsto> sb_contract b)) bs)"

text \<open>One step: its shape, its id, its binding, its grant, its parameters and its inputs.\<close>

definition validate_step ::
  "(string \<Rightarrow> bool) \<Rightarrow> (string \<Rightarrow> string \<Rightarrow> bool) \<Rightarrow> (string \<times> int \<rightharpoonup> skill_contract) \<Rightarrow> (string \<times> step_grant) list \<Rightarrow>
   (string \<rightharpoonup> nat) \<Rightarrow> validated_step list \<Rightarrow> flow_step \<Rightarrow> flow_error + (skill_contract \<times> step_grant)" where
  "validate_step valid_re re_match bound context stepIndex steps step =
     (case validateStepShape step of
        Some e \<Rightarrow> Inl e
      | None \<Rightarrow>
          (if stepIndex (fs_id step) \<noteq> None then Inl StepDuplicateId
           else
             (case bound (fs_skill step, fs_skill_version step) of
                None \<Rightarrow> Inl StepUnbound
              | Some contract \<Rightarrow>
                  (case map_of context (fs_id step) of
                     None \<Rightarrow> Inl StepMissingGrant
                   | Some grant \<Rightarrow>
                       (case validateGrant grant of
                          Some e \<Rightarrow> Inl e
                        | None \<Rightarrow>
                            (if Interactive contract \<and> fs_rhs step \<noteq> Some True then Inl InteractiveUnattended
                             else if \<not> validateParams valid_re re_match (fs_params step) (ParamsSchema contract) then Inl ParamsRefused
                             else
                               (case validateInputs [] (stepIndex(fs_id step \<mapsto> length steps)) steps contract (length steps) (fs_inputs step) of
                                  Some e \<Rightarrow> Inl e
                                | None \<Rightarrow> Inr (contract, grant))))))))"

fun validate_steps ::
  "(string \<Rightarrow> bool) \<Rightarrow> (string \<Rightarrow> string \<Rightarrow> bool) \<Rightarrow> (string \<times> int \<rightharpoonup> skill_contract) \<Rightarrow> (string \<times> step_grant) list \<Rightarrow>
   (string \<rightharpoonup> nat) \<Rightarrow> validated_step list \<Rightarrow> (string \<rightharpoonup> step_grant) \<Rightarrow> flow_step list \<Rightarrow>
   flow_error + (validated_step list \<times> (string \<rightharpoonup> step_grant))" where
  "validate_steps valid_re re_match bound context stepIndex steps grants [] = Inr (steps, grants)"
| "validate_steps valid_re re_match bound context stepIndex steps grants (step # rest) =
     (case validate_step valid_re re_match bound context stepIndex steps step of
        Inl e \<Rightarrow> Inl e
      | Inr (contract, grant) \<Rightarrow>
          validate_steps valid_re re_match bound context (stepIndex(fs_id step \<mapsto> length steps))
            (steps @ [\<lparr> vs_step = step, vs_contract = contract \<rparr>]) (grants(fs_id step \<mapsto> grant)) rest)"

text \<open>
  \<^verbatim>\<open>Validate\<close>. The grants of the context are a Go map, given by its entries; its size is the
  number of distinct keys.
\<close>

definition Validate ::
  "(string \<Rightarrow> bool) \<Rightarrow> (string \<Rightarrow> string \<Rightarrow> bool) \<Rightarrow> flow \<Rightarrow> skill_binding list \<Rightarrow> (string \<times> step_grant) list \<Rightarrow>
   flow_error + validated_flow" where
  "Validate valid_re re_match fl bindings context =
     (if fl_version fl \<le> 0 then Inl VersionNotPositive
      else if fl_steps fl = [] then Inl NoSteps
      else
        (case bind_skills valid_re Map.empty bindings of
           Inl e \<Rightarrow> Inl e
         | Inr bound \<Rightarrow>
             (case validate_steps valid_re re_match bound context Map.empty [] Map.empty (fl_steps fl) of
                Inl e \<Rightarrow> Inl e
              | Inr (steps, grants) \<Rightarrow>
                  (if length (remdups (map fst context)) \<noteq> length (fl_steps fl) then Inl GrantsNotExact
                   else
                     (case validateSafetyGates steps grants of
                        Some e \<Rightarrow> Inl e
                      | None \<Rightarrow> Inr \<lparr> vf_flow = fl, vf_steps = steps, vf_grants = grants \<rparr>)))))"

definition Unattended :: "validated_flow \<Rightarrow> bool \<Rightarrow> bool" where
  "Unattended f requiresHumanSession \<longleftrightarrow>
     vf_steps f \<noteq> [] \<and>
     \<not> list_ex (\<lambda>s. Interactive (vs_contract s) \<or> (requiresHumanSession \<and> fs_rhs (vs_step s) = Some True)) (vf_steps f)"

end
