(* ===== verification/Workflow_Policy.thy ===== *)
theory Workflow_Policy
  imports Workflow
begin

text \<open>
  The decision whether a pinned workflow advances (\<^verbatim>\<open>internal/workflow/policy.go\<close>, with
  its data from \<^verbatim>\<open>contract.go\<close>): the history of worker results is checked against the
  invocations the controller issued, the repairs it authorized, the order of events and the
  gates. An error is a constructor of \<open>policy_error\<close>.
\<close>

section \<open>Data\<close>

datatype result_status =
    StatusCompleted | StatusIncomplete | StatusBlocked | StatusProviderError | StatusInvalidResult
  | OtherStatus string

datatype review_verdict = NoVerdict | ReviewPass | ReviewWarn | ReviewFail | OtherVerdict string

record artifact_ref =
  ar_id :: string
  ar_version :: int
  ar_hash :: string

record evidence =
  ev_kind :: string
  ev_ref :: string
  ev_hash :: string

record step_result =
  sr_status :: result_status
  sr_verdict :: review_verdict
  sr_wi :: string
  sr_flow_version :: int
  sr_step :: string
  sr_attempt :: string
  sr_epoch :: int
  sr_producer :: string
  sr_artifact :: artifact_ref
  sr_evidence :: "evidence list"

record expected_invocation =
  ex_wi :: string
  ex_flow_version :: int
  ex_step :: string
  ex_attempt :: string
  ex_epoch :: int
  ex_producer :: string

datatype approval_decision = ApprovalGranted | ApprovalDenied | OtherApproval string

record human_approval =
  ha_wi :: string
  ha_flow_version :: int
  ha_step :: string
  ha_artifact :: artifact_ref
  ha_actor :: string
  ha_decision :: approval_decision

record repair_authorization =
  ra_failed :: string
  ra_retry :: expected_invocation
  ra_authorized :: bool
  ra_reason :: string

record repair_episode =
  re_failed_review :: string
  re_producer :: expected_invocation
  re_verification :: expected_invocation
  re_review :: expected_invocation
  re_authorized :: bool
  re_reason :: string

record policy_input =
  RequiresHumanSession :: bool
  Expected :: "expected_invocation list"
  Approvals :: "human_approval list"
  Repair :: "repair_authorization option"
  RepairEpisodes :: "repair_episode list"

datatype decision = DecisionAdvance | DecisionWait | DecisionPause

datatype policy_error =
    NotValidated | InteractiveNeedsHuman | ExpectedCount
  | ExpectedIncomplete | ForeignWorkItem | ResultMismatch | DuplicateAttempt | UnknownStep
  | UnknownStatus | ArtifactInvalid | EvidenceInvalid | VerdictInvalid | VerdictOnNonReview | GateWithoutEvidence
  | TooManyEpisodes | EpisodeUnauthorized | EpisodeNotFailedReview | EpisodeBinding | EpisodeIncomplete
  | EpisodeRole | EpisodeUnaffected | EpisodeOrder
  | OutOfOrder | RetryUnbound | RepairSequence | RepairUnauthorized | RepairWithoutRetry
  | SharedProducer | ShippingWithoutWrite | ShippingWithoutGates
  | MissingStep | ReviewMissingVerdict | MissingApproval

section \<open>Lookups\<close>

definition expectedFor :: "step_result \<Rightarrow> expected_invocation" where
  "expectedFor r =
     \<lparr> ex_wi = sr_wi r, ex_flow_version = sr_flow_version r, ex_step = sr_step r, ex_attempt = sr_attempt r,
       ex_epoch = sr_epoch r, ex_producer = sr_producer r \<rparr>"

definition findValidatedStep :: "validated_flow \<Rightarrow> string \<Rightarrow> validated_step option" where
  "findValidatedStep fl sid = find (\<lambda>s. fs_id (vs_step s) = sid) (vf_steps fl)"

definition stepPosition :: "validated_flow \<Rightarrow> string \<Rightarrow> nat" where
  "stepPosition fl sid =
     (case first_index (\<lambda>i. fs_id (vs_step (vf_steps fl ! i)) = sid) 0 (length (vf_steps fl)) of
        None \<Rightarrow> length (vf_steps fl)
      | Some i \<Rightarrow> i)"

definition flow_grant :: "validated_flow \<Rightarrow> string \<Rightarrow> step_grant" where
  "flow_grant fl sid = grant_in (vf_grants fl) sid"

definition episodeContainsResult :: "repair_episode list \<Rightarrow> step_result \<Rightarrow> bool" where
  "episodeContainsResult episodes r =
     list_ex (\<lambda>e. ex_attempt (re_producer e) = sr_attempt r \<or> ex_attempt (re_verification e) = sr_attempt r \<or>
                   ex_attempt (re_review e) = sr_attempt r) episodes"

definition hasApproval :: "human_approval list \<Rightarrow> step_result \<Rightarrow> bool" where
  "hasApproval approvals r =
     list_ex (\<lambda>a. ha_wi a = sr_wi r \<and> ha_flow_version a = sr_flow_version r \<and> ha_step a = sr_step r \<and>
                   ha_artifact a = sr_artifact r \<and> validIdentifier (ha_actor a) \<and> ha_decision a = ApprovalGranted) approvals"

section \<open>The shape of a result\<close>

definition evidence_ok :: "evidence \<Rightarrow> bool" where
  "evidence_ok e \<longleftrightarrow> validIdentifier (ev_kind e) \<and> trim_space (ev_ref e) \<noteq> [] \<and> sha256RE (ev_hash e)"

definition verdict_error :: "step_result \<Rightarrow> bool \<Rightarrow> policy_error option" where
  "verdict_error r review =
     (if review then
        (case sr_verdict r of
           ReviewPass \<Rightarrow> None
         | ReviewWarn \<Rightarrow> None
         | ReviewFail \<Rightarrow> None
         | NoVerdict \<Rightarrow> (if sr_status r \<noteq> StatusProviderError then Some VerdictInvalid else None)
         | OtherVerdict _ \<Rightarrow> Some VerdictInvalid)
      else if sr_verdict r \<noteq> NoVerdict then Some VerdictOnNonReview
      else None)"

definition validateResult :: "step_result \<Rightarrow> validated_step \<Rightarrow> policy_error option" where
  "validateResult r step =
     (if sr_status r \<notin> {StatusCompleted, StatusIncomplete, StatusBlocked, StatusProviderError, StatusInvalidResult} then Some UnknownStatus
      else if \<not> validIdentifier (ar_id (sr_artifact r)) \<or> ar_version (sr_artifact r) \<le> 0 \<or> \<not> sha256RE (ar_hash (sr_artifact r))
      then Some ArtifactInvalid
      else if \<not> list_all evidence_ok (sr_evidence r) then Some EvidenceInvalid
      else
        (let review = hasCapability (vs_contract step) CapReview in
         case verdict_error r review of
           Some e \<Rightarrow> Some e
         | None \<Rightarrow>
             (if (review \<or> hasCapability (vs_contract step) CapVerification) \<and>
                 sr_status r = StatusCompleted \<and> sr_evidence r = []
              then Some GateWithoutEvidence
              else None)))"

section \<open>Binding results to invocations\<close>

definition expected_complete :: "validated_flow \<Rightarrow> expected_invocation \<Rightarrow> bool" where
  "expected_complete fl e \<longleftrightarrow>
     validIdentifier (ex_wi e) \<and> ex_flow_version e = fl_version (vf_flow fl) \<and> validIdentifier (ex_step e) \<and>
     validIdentifier (ex_attempt e) \<and> 0 < ex_epoch e \<and> validIdentifier (ex_producer e)"

fun bind_results ::
  "validated_flow \<Rightarrow> string \<Rightarrow> string list \<Rightarrow> (step_result \<times> expected_invocation) list \<Rightarrow> policy_error option" where
  "bind_results fl wi seen [] = None"
| "bind_results fl wi seen ((r, e) # rest) =
     (if \<not> expected_complete fl e then Some ExpectedIncomplete
      else if wi \<noteq> [] \<and> wi \<noteq> ex_wi e then Some ForeignWorkItem
      else if expectedFor r \<noteq> e then Some ResultMismatch
      else if ex_attempt e \<in> set seen then Some DuplicateAttempt
      else
        (case findValidatedStep fl (ex_step e) of
           None \<Rightarrow> Some UnknownStep
         | Some step \<Rightarrow>
             (case validateResult r step of
                Some err \<Rightarrow> Some err
              | None \<Rightarrow> bind_results fl (ex_wi e) (ex_attempt e # seen) rest)))"

section \<open>Repair episodes\<close>

text \<open>\<^verbatim>\<open>positions\<close> and \<^verbatim>\<open>values\<close>: the last result with an attempt id, and its index.\<close>

definition position_of :: "step_result list \<Rightarrow> string \<Rightarrow> nat option" where
  "position_of results a = last_index (\<lambda>i. sr_attempt (results ! i) = a) 0 (length results)"

definition result_of :: "step_result list \<Rightarrow> string \<Rightarrow> step_result option" where
  "result_of results a = map_option (\<lambda>i. results ! i) (position_of results a)"

definition position0 :: "step_result list \<Rightarrow> string \<Rightarrow> nat" where
  "position0 results a = (case position_of results a of None \<Rightarrow> 0 | Some i \<Rightarrow> i)"

definition read_only_gate :: "validated_flow \<Rightarrow> string \<Rightarrow> bool" where
  "read_only_gate fl sid \<longleftrightarrow>
     Authority (flow_grant fl sid) = AuthorityReadOnly \<and> ProducerIsolation (flow_grant fl sid) = IsolationRequired"

definition episode_roles ::
  "validated_flow \<Rightarrow> validated_step \<Rightarrow> validated_step \<Rightarrow> validated_step \<Rightarrow> validated_step \<Rightarrow>
   step_result \<Rightarrow> step_result \<Rightarrow> step_result \<Rightarrow> step_result \<Rightarrow> bool" where
  "episode_roles fl failedStep repairStep verifyStep reviewStep failed repair verify review \<longleftrightarrow>
     hasCapability (vs_contract failedStep) CapReview \<and> read_only_gate fl (sr_step failed) \<and>
     fs_id (vs_step repairStep) \<noteq> [] \<and>
     fs_id (vs_step repairStep) \<noteq> fs_id (vs_step reviewStep) \<and>
     fs_id (vs_step repairStep) \<noteq> fs_id (vs_step verifyStep) \<and>
     fs_id (vs_step repairStep) \<noteq> fs_id (vs_step failedStep) \<and>
     Authority (flow_grant fl (sr_step repair)) = AuthorityWrite \<and>
     \<not> hasCapability (vs_contract repairStep) CapShipping \<and>
     stepPosition fl (sr_step repair) < stepPosition fl (sr_step failed) \<and>
     read_only_gate fl (sr_step verify) \<and> hasCapability (vs_contract verifyStep) CapVerification \<and>
     read_only_gate fl (sr_step review) \<and> hasCapability (vs_contract reviewStep) CapReview"

definition validate_episode :: "validated_flow \<Rightarrow> step_result list \<Rightarrow> repair_episode \<Rightarrow> policy_error option" where
  "validate_episode fl results e =
     (if \<not> re_authorized e \<or> trim_space (re_reason e) = [] then Some EpisodeUnauthorized
      else
        (case result_of results (re_failed_review e) of
           None \<Rightarrow> Some EpisodeNotFailedReview
         | Some failed \<Rightarrow>
             (if sr_verdict failed \<noteq> ReviewFail then Some EpisodeNotFailedReview
              else
                (case (result_of results (ex_attempt (re_producer e)), result_of results (ex_attempt (re_verification e)),
                       result_of results (ex_attempt (re_review e))) of
                   (Some repair, Some verify, Some review) \<Rightarrow>
                     (if expectedFor repair \<noteq> re_producer e \<or> expectedFor verify \<noteq> re_verification e \<or>
                         expectedFor review \<noteq> re_review e then Some EpisodeBinding
                      else if sr_status repair \<noteq> StatusCompleted \<or> sr_status verify \<noteq> StatusCompleted \<or>
                              sr_status review \<noteq> StatusCompleted then Some EpisodeIncomplete
                      else
                        (case (findValidatedStep fl (sr_step failed), findValidatedStep fl (sr_step repair),
                               findValidatedStep fl (sr_step verify), findValidatedStep fl (sr_step review)) of
                           (Some failedStep, Some repairStep, Some verifyStep, Some reviewStep) \<Rightarrow>
                             (if \<not> episode_roles fl failedStep repairStep verifyStep reviewStep failed repair verify review
                              then Some EpisodeRole
                              else if \<not> list_ex (\<lambda>i. in_step i = sr_step repair) (fs_inputs (vs_step failedStep))
                              then Some EpisodeUnaffected
                              else if position0 results (re_failed_review e) \<ge> position0 results (ex_attempt (re_producer e)) \<or>
                                      position0 results (ex_attempt (re_producer e)) \<ge> position0 results (ex_attempt (re_verification e)) \<or>
                                      position0 results (ex_attempt (re_verification e)) \<ge> position0 results (ex_attempt (re_review e))
                              then Some EpisodeOrder
                              else None)
                         | _ \<Rightarrow> Some EpisodeRole))
                 | _ \<Rightarrow> Some EpisodeBinding))))"

definition validateRepairEpisodes ::
  "validated_flow \<Rightarrow> repair_episode list \<Rightarrow> step_result list \<Rightarrow> policy_error option" where
  "validateRepairEpisodes fl episodes results = first_error (validate_episode fl results) episodes"

section \<open>Order of events\<close>

definition repair_exempt :: "policy_input \<Rightarrow> step_result \<Rightarrow> bool" where
  "repair_exempt input r \<longleftrightarrow>
     episodeContainsResult (RepairEpisodes input) r \<or>
     (case Repair input of None \<Rightarrow> False | Some auth \<Rightarrow> ra_authorized auth \<and> ra_retry auth = expectedFor r)"

fun ordinary_order :: "validated_flow \<Rightarrow> policy_input \<Rightarrow> int \<Rightarrow> step_result list \<Rightarrow> bool" where
  "ordinary_order fl input lastOrdinary [] = True"
| "ordinary_order fl input lastOrdinary (r # rs) =
     (if repair_exempt input r then ordinary_order fl input lastOrdinary rs
      else
        (let position = int (stepPosition fl (sr_step r)) in
         \<not> position < lastOrdinary \<and> ordinary_order fl input position rs))"

text \<open>The retries of the legacy, single-repair form: the failed result and the one retry.\<close>

fun scan_candidates ::
  "policy_input \<Rightarrow> step_result \<Rightarrow> (step_result \<times> step_result) option \<Rightarrow> step_result list \<Rightarrow>
   policy_error + (step_result \<times> step_result) option" where
  "scan_candidates input first found [] = Inr found"
| "scan_candidates input first found (c # cs) =
     (if episodeContainsResult (RepairEpisodes input) c then scan_candidates input first found cs
      else if RepairEpisodes input \<noteq> [] \<or> found \<noteq> None then Inl RetryUnbound
      else if (sr_status first = StatusCompleted \<and> sr_verdict first \<noteq> ReviewFail) \<or> sr_epoch c < sr_epoch first \<or>
              sr_attempt c = sr_attempt first then Inl RepairSequence
      else scan_candidates input first (Some (first, c)) cs)"

definition history :: "step_result list \<Rightarrow> string \<Rightarrow> step_result list" where
  "history results sid = filter (\<lambda>r. sr_step r = sid) results"

fun scan_steps ::
  "policy_input \<Rightarrow> step_result list \<Rightarrow> (step_result \<times> step_result) option \<Rightarrow> validated_step list \<Rightarrow>
   policy_error + (step_result \<times> step_result) option" where
  "scan_steps input results found [] = Inr found"
| "scan_steps input results found (s # ss) =
     (case history results (fs_id (vs_step s)) of
        first # c # cs \<Rightarrow>
          (case scan_candidates input first found (c # cs) of
             Inl e \<Rightarrow> Inl e
           | Inr found' \<Rightarrow> scan_steps input results found' ss)
      | _ \<Rightarrow> scan_steps input results found ss)"

definition latest_of :: "step_result list \<Rightarrow> string \<Rightarrow> step_result option" where
  "latest_of results sid = (case history results sid of [] \<Rightarrow> None | h \<Rightarrow> Some (last h))"

definition hasDistinctFreshGates :: "validated_flow \<Rightarrow> int \<Rightarrow> step_result list \<Rightarrow> string \<Rightarrow> bool" where
  "hasDistinctFreshGates fl epoch results retryID =
     (let after = (case first_index (\<lambda>i. sr_attempt (results ! i) = retryID) 0 (length results) of
                     None \<Rightarrow> results | Some i \<Rightarrow> drop (Suc i) results);
          fresh_gate = (\<lambda>s. case latest_of results (fs_id (vs_step s)) of
             None \<Rightarrow> False
           | Some r \<Rightarrow> \<not> sr_epoch r < epoch \<and> sr_status r = StatusCompleted \<and>
               ProducerIsolation (flow_grant fl (fs_id (vs_step s))) = IsolationRequired \<and>
               list_ex (\<lambda>x. sr_attempt x = sr_attempt r) after) in
      list_ex (\<lambda>s. fresh_gate s \<and> hasCapability (vs_contract s) CapReview \<and>
                   map_option sr_verdict (latest_of results (fs_id (vs_step s))) \<noteq> Some ReviewFail) (vf_steps fl) \<and>
      list_ex (\<lambda>s. fresh_gate s \<and> hasCapability (vs_contract s) CapVerification) (vf_steps fl))"

section \<open>Gates\<close>

definition independent_gate :: "validated_flow \<Rightarrow> validated_step \<Rightarrow> bool" where
  "independent_gate fl s \<longleftrightarrow>
     ProducerIsolation (flow_grant fl (fs_id (vs_step s))) = IsolationRequired \<and>
     (hasCapability (vs_contract s) CapReview \<or> hasCapability (vs_contract s) CapVerification)"

definition flow_write :: "validated_flow \<Rightarrow> validated_step \<Rightarrow> bool" where
  "flow_write fl s \<longleftrightarrow> implementation_write (vf_grants fl) s"

definition validateProducerIndependence :: "validated_flow \<Rightarrow> step_result list \<Rightarrow> bool" where
  "validateProducerIndependence fl results =
     list_all (\<lambda>i. let gate = vf_steps fl ! i in
       \<not> independent_gate fl gate \<or>
       list_all (\<lambda>r. list_all (\<lambda>producer.
           \<not> flow_write fl producer \<or>
           list_all (\<lambda>p. sr_producer p \<noteq> sr_producer r) (history results (fs_id (vs_step producer))))
         (take i (vf_steps fl))) (history results (fs_id (vs_step gate))))
     [0..<length (vf_steps fl)]"

definition result_is_write :: "validated_flow \<Rightarrow> step_result \<Rightarrow> bool" where
  "result_is_write fl r =
     (case findValidatedStep fl (sr_step r) of None \<Rightarrow> False | Some s \<Rightarrow> flow_write fl s)"

definition result_is_gate :: "validated_flow \<Rightarrow> step_result \<Rightarrow> bool" where
  "result_is_gate fl r =
     (case findValidatedStep fl (sr_step r) of
        None \<Rightarrow> False
      | Some s \<Rightarrow> sr_status r = StatusCompleted \<and> read_only_gate fl (fs_id (vs_step s)))"

definition result_capability :: "validated_flow \<Rightarrow> step_result \<Rightarrow> capability \<Rightarrow> bool" where
  "result_capability fl r cap =
     (case findValidatedStep fl (sr_step r) of None \<Rightarrow> False | Some s \<Rightarrow> hasCapability (vs_contract s) cap)"

definition attempt_at :: "step_result list \<Rightarrow> nat option \<Rightarrow> string" where
  "attempt_at results i = (case i of None \<Rightarrow> [] | Some j \<Rightarrow> sr_attempt (results ! j))"

definition shipping_event :: "validated_flow \<Rightarrow> step_result list \<Rightarrow> nat \<Rightarrow> policy_error option" where
  "shipping_event fl results shipIndex =
     (if \<not> result_capability fl (results ! shipIndex) CapShipping then None
      else
        (case last_index (\<lambda>i. result_is_write fl (results ! i)) 0 shipIndex of
           None \<Rightarrow> Some ShippingWithoutWrite
         | Some lastWrite \<Rightarrow>
             (let review = attempt_at results (last_index (\<lambda>i. result_is_gate fl (results ! i) \<and>
                    result_capability fl (results ! i) CapReview \<and> sr_verdict (results ! i) \<noteq> ReviewFail) (Suc lastWrite) shipIndex);
                  verify = attempt_at results (last_index (\<lambda>i. result_is_gate fl (results ! i) \<and>
                    result_capability fl (results ! i) CapVerification) (Suc lastWrite) shipIndex) in
              if review = [] \<or> verify = [] \<or> review = verify then Some ShippingWithoutGates else None)))"

definition validateShippingEventOrder :: "validated_flow \<Rightarrow> step_result list \<Rightarrow> policy_error option" where
  "validateShippingEventOrder fl results = first_error (shipping_event fl results) [0..<length results]"

section \<open>The decision\<close>

text \<open>
  The last loop: the first step without a result ends the history, a failure pauses, a step
  whose approval is missing waits; a later result in its place is an error.
\<close>

fun progress ::
  "policy_input \<Rightarrow> step_result list \<Rightarrow> validated_step list \<Rightarrow> policy_error + decision" where
  "progress input results [] = Inr DecisionAdvance"
| "progress input results (s # later) =
     (case latest_of results (fs_id (vs_step s)) of
        None \<Rightarrow>
          (if list_ex (\<lambda>l. latest_of results (fs_id (vs_step l)) \<noteq> None) later then Inl MissingStep
           else Inr DecisionWait)
      | Some r \<Rightarrow>
          (if sr_status r \<noteq> StatusCompleted \<or> sr_verdict r = ReviewFail then Inr DecisionPause
           else if hasCapability (vs_contract s) CapReview \<and> sr_verdict r = NoVerdict then Inl ReviewMissingVerdict
           else if RequiresHumanSession input \<and> fs_rhs (vs_step s) = Some True \<and> \<not> hasApproval (Approvals input) r then
             (if list_ex (\<lambda>l. latest_of results (fs_id (vs_step l)) \<noteq> None) later then Inl MissingApproval
              else Inr DecisionWait)
           else progress input results later))"

definition legacy_repair ::
  "validated_flow \<Rightarrow> step_result list \<Rightarrow> policy_input \<Rightarrow> (step_result \<times> step_result) option \<Rightarrow>
   policy_error + decision option" where
  "legacy_repair fl results input found =
     (case found of
        Some (failure, retry) \<Rightarrow>
          (if RepairEpisodes input = [] then
             (case Repair input of
                None \<Rightarrow> Inl RepairUnauthorized
              | Some auth \<Rightarrow>
                  (if \<not> ra_authorized auth \<or> trim_space (ra_reason auth) = [] \<or> ra_failed auth \<noteq> sr_attempt failure \<or>
                      ra_retry auth \<noteq> expectedFor retry then Inl RepairUnauthorized
                   else if sr_status retry \<noteq> StatusCompleted \<or> sr_verdict retry = ReviewFail then Inr (Some DecisionPause)
                   else if \<not> hasDistinctFreshGates fl (sr_epoch retry) results (sr_attempt retry) then Inr (Some DecisionWait)
                   else Inr None))
           else Inr None)
      | None \<Rightarrow>
          (if Repair input \<noteq> None \<and> RepairEpisodes input = [] then Inl RepairWithoutRetry else Inr None))"

definition Decide :: "validated_flow \<Rightarrow> step_result list \<Rightarrow> policy_input \<Rightarrow> policy_error + decision" where
  "Decide fl results input =
     (if vf_steps fl = [] then Inl NotValidated
      else if \<not> RequiresHumanSession input \<and> list_ex (\<lambda>s. Interactive (vs_contract s)) (vf_steps fl) then Inl InteractiveNeedsHuman
      else if length (Expected input) \<noteq> length results then Inl ExpectedCount
      else
        (case bind_results fl [] [] (zip results (Expected input)) of
           Some e \<Rightarrow> Inl e
         | None \<Rightarrow>
             (if length (RepairEpisodes input) > 8 then Inl TooManyEpisodes
              else
                (case validateRepairEpisodes fl (RepairEpisodes input) results of
                   Some e \<Rightarrow> Inl e
                 | None \<Rightarrow>
                     (if \<not> ordinary_order fl input (-1) results then Inl OutOfOrder
                      else
                        (case scan_steps input results None (vf_steps fl) of
                           Inl e \<Rightarrow> Inl e
                         | Inr found \<Rightarrow>
                             (case legacy_repair fl results input found of
                                Inl e \<Rightarrow> Inl e
                              | Inr (Some d) \<Rightarrow> Inr d
                              | Inr None \<Rightarrow>
                                  (if \<not> validateProducerIndependence fl results then Inl SharedProducer
                                   else
                                     (case validateShippingEventOrder fl results of
                                        Some e \<Rightarrow> Inl e
                                      | None \<Rightarrow> progress input results (vf_steps fl))))))))))"

end
