(* ===== verification/Workflow_Properties.thy ===== *)
theory Workflow_Properties
  imports Workflow_Policy
begin

text \<open>
  What a validated flow guarantees and what a decision to advance is worth: the typing of a
  flow, the gates in front of shipping, and the two directions between a flow and the
  histories its policy accepts.
\<close>

section \<open>Searching indices\<close>

lemma last_index_Suc:
  "last_index P i (Suc j) = (if i \<le> j then if P j then Some j else last_index P i j else None)"
  by (simp add: last_index_def)

lemma last_index_Some:
  "last_index P i j = Some k \<longleftrightarrow> i \<le> k \<and> k < j \<and> P k \<and> (\<forall>m. k < m \<and> m < j \<longrightarrow> \<not> P m)"
proof (induction j)
  case (Suc j)
  show ?case
  proof (cases "i \<le> j \<and> P j")
    case True
    then show ?thesis by (auto simp: last_index_Suc) (metis less_Suc_eq not_less_eq)
  next
    case False
    then show ?thesis using Suc by (auto simp: last_index_Suc less_Suc_eq)
  qed
qed (simp add: last_index_def)

lemma last_index_None: "last_index P i j = None \<longleftrightarrow> (\<forall>k. i \<le> k \<and> k < j \<longrightarrow> \<not> P k)"
  by (auto simp: last_index_def find_None_iff)

lemma first_index_Some: "first_index P i j = Some k \<Longrightarrow> i \<le> k \<and> k < j \<and> P k \<and> (\<forall>m. i \<le> m \<and> m < k \<longrightarrow> \<not> P m)"
proof -
  assume "first_index P i j = Some k"
  then obtain n where n: "n < length [i..<j]" "P ([i..<j] ! n)" "k = [i..<j] ! n" "\<forall>m < n. \<not> P ([i..<j] ! m)"
    by (auto simp: first_index_def find_Some_iff)
  have "\<not> P m" if "i \<le> m" "m < k" for m
  proof -
    have "[i..<j] ! (m - i) = m" "m - i < n" using n that by auto
    then show ?thesis using n(4) by metis
  qed
  with n show ?thesis by auto
qed

lemma first_index_None: "first_index P i j = None \<longleftrightarrow> (\<forall>k. i \<le> k \<and> k < j \<longrightarrow> \<not> P k)"
  by (auto simp: first_index_def find_None_iff)

lemma first_error_None: "first_error f xs = None \<longleftrightarrow> (\<forall>x \<in> set xs. f x = None)"
  by (induction xs) (auto split: option.splits)

section \<open>The typing of a validated flow\<close>

abbreviation step_id :: "validated_step \<Rightarrow> string" where
  "step_id s \<equiv> fs_id (vs_step s)"

definition bound_to :: "(string \<Rightarrow> bool) \<Rightarrow> skill_binding list \<Rightarrow> validated_step \<Rightarrow> bool" where
  "bound_to valid_re bindings s \<longleftrightarrow>
     ValidateContract valid_re (vs_contract s) \<and>
     (\<exists>b \<in> set bindings. sb_skill b = fs_skill (vs_step s) \<and> sb_version b = fs_skill_version (vs_step s) \<and> sb_contract b = vs_contract s)"

definition granted :: "(string \<times> step_grant) list \<Rightarrow> (string \<rightharpoonup> step_grant) \<Rightarrow> validated_step \<Rightarrow> bool" where
  "granted context grants s \<longleftrightarrow>
     (\<exists>g. grants (step_id s) = Some g \<and> map_of context (step_id s) = Some g \<and>
          Authority g \<in> {AuthorityReadOnly, AuthorityWrite} \<and> ProducerIsolation g \<in> {IsolationShared, IsolationRequired})"

definition input_typed :: "validated_step list \<Rightarrow> nat \<Rightarrow> validated_step \<Rightarrow> input_ref \<Rightarrow> bool" where
  "input_typed steps i s inp \<longleftrightarrow>
     (\<exists>j < i. step_id (steps ! j) = in_step inp \<and>
        (\<exists>p c. namedPropertySchema (OutputSchema (vs_contract (steps ! j))) (in_output inp) = Some p \<and>
               namedPropertySchema (InputSchema (vs_contract s)) (in_name inp) = Some c \<and>
               canonicalSchema p = canonicalSchema c))"

definition step_typed ::
  "(string \<Rightarrow> bool) \<Rightarrow> skill_binding list \<Rightarrow> (string \<times> step_grant) list \<Rightarrow> (string \<rightharpoonup> step_grant) \<Rightarrow>
   validated_step list \<Rightarrow> nat \<Rightarrow> bool" where
  "step_typed valid_re bindings context grants steps i \<longleftrightarrow>
     validIdentifier (step_id (steps ! i)) \<and> fs_models (vs_step (steps ! i)) \<noteq> [] \<and>
     bound_to valid_re bindings (steps ! i) \<and> granted context grants (steps ! i) \<and>
     (Interactive (vs_contract (steps ! i)) \<longrightarrow> fs_rhs (vs_step (steps ! i)) = Some True) \<and>
     (\<forall>inp \<in> set (fs_inputs (vs_step (steps ! i))). input_typed steps i (steps ! i) inp)"

lemma bind_skills_sound:
  assumes "bind_skills valid_re bound bs = Inr bound'" "bound' k = Some c"
  shows "bound k = Some c \<or> ValidateContract valid_re c \<and> (\<exists>b \<in> set bs. (sb_skill b, sb_version b) = k \<and> sb_contract b = c)"
  using assms
proof (induction bs arbitrary: bound)
  case (Cons b bs)
  from Cons.prems(1) have ok: "ValidateContract valid_re (sb_contract b)"
    "bind_skills valid_re (bound((sb_skill b, sb_version b) \<mapsto> sb_contract b)) bs = Inr bound'"
    by (auto split: if_splits)
  from Cons.IH [OF ok(2) Cons.prems(2)] ok(1) show ?case by (auto split: if_splits)
qed simp

lemma validateInputs_sound:
  assumes "validateInputs seen prior steps consumer index is = None" "inp \<in> set is"
  shows "\<exists>j < index. prior (in_step inp) = Some j \<and>
     (\<exists>p c. namedPropertySchema (OutputSchema (vs_contract (steps ! j))) (in_output inp) = Some p \<and>
            namedPropertySchema (InputSchema consumer) (in_name inp) = Some c \<and> canonicalSchema p = canonicalSchema c)"
  using assms
proof (induction "is" arbitrary: seen)
  case (Cons i "is")
  from Cons.prems(1) have "validateInputs (in_name i # seen) prior steps consumer index is = None \<and>
      (\<exists>j < index. prior (in_step i) = Some j \<and>
       (\<exists>p c. namedPropertySchema (OutputSchema (vs_contract (steps ! j))) (in_output i) = Some p \<and>
            namedPropertySchema (InputSchema consumer) (in_name i) = Some c \<and> canonicalSchema p = canonicalSchema c))"
    by (auto split: if_splits option.splits)
  with Cons.IH Cons.prems(2) show ?case by auto
qed simp

lemma validate_step_sound:
  assumes "validate_step valid_re re_match bound context stepIndex steps step = Inr (contract, grant)"
  shows "validateStepShape step = None" "stepIndex (fs_id step) = None" "bound (fs_skill step, fs_skill_version step) = Some contract"
    "map_of context (fs_id step) = Some grant" "validateGrant grant = None"
    "Interactive contract \<Longrightarrow> fs_rhs step = Some True"
    "validateInputs [] (stepIndex(fs_id step \<mapsto> length steps)) steps contract (length steps) (fs_inputs step) = None"
  using assms by (auto simp: validate_step_def split: option.splits if_splits)

lemma validateGrant_None: "validateGrant g = None \<Longrightarrow> Authority g \<in> {AuthorityReadOnly, AuthorityWrite} \<and> ProducerIsolation g \<in> {IsolationShared, IsolationRequired}"
  by (auto simp: validateGrant_def split: if_splits)

definition indexes :: "(string \<rightharpoonup> nat) \<Rightarrow> validated_step list \<Rightarrow> bool" where
  "indexes stepIndex steps \<longleftrightarrow> (\<forall>sid j. stepIndex sid = Some j \<longleftrightarrow> j < length steps \<and> step_id (steps ! j) = sid)"

lemma indexes_distinct: "indexes stepIndex steps \<Longrightarrow> distinct (map step_id steps)"
  by (auto simp: indexes_def distinct_conv_nth) (metis option.inject)

lemma indexes_fresh:
  assumes "indexes stepIndex steps" "stepIndex sid = None"
  shows "sid \<notin> step_id ` set steps"
proof
  assume "sid \<in> step_id ` set steps"
  then obtain j where "j < length steps" "step_id (steps ! j) = sid" by (auto simp: in_set_conv_nth)
  then have "stepIndex sid = Some j" using assms(1) unfolding indexes_def by blast
  with assms(2) show False by simp
qed

lemma indexes_extend:
  assumes "indexes stepIndex steps" "stepIndex (step_id s) = None"
  shows "indexes (stepIndex(step_id s \<mapsto> length steps)) (steps @ [s])"
proof -
  have fresh: "step_id (steps ! j) \<noteq> step_id s" if "j < length steps" for j
    using assms that unfolding indexes_def by (metis option.distinct(1))
  show ?thesis unfolding indexes_def
  proof (intro allI)
    fix sid j
    show "(stepIndex(step_id s \<mapsto> length steps)) sid = Some j \<longleftrightarrow>
        j < length (steps @ [s]) \<and> step_id ((steps @ [s]) ! j) = sid"
      using assms(1) fresh by (cases "j < length steps") (auto simp: indexes_def nth_append less_Suc_eq)
  qed
qed

lemma step_typed_extend:
  assumes "step_typed valid_re bindings context grants steps i" "i < length steps"
    "\<And>g. grants (step_id (steps ! i)) = Some g \<Longrightarrow> grants' (step_id (steps ! i)) = Some g"
  shows "step_typed valid_re bindings context grants' (steps @ [s]) i"
proof -
  have same: "(steps @ [s]) ! j = steps ! j" if "j \<le> i" for j using that assms(2) by (simp add: nth_append)
  have "granted context grants' (steps ! i)" using assms(1,3) unfolding step_typed_def granted_def by blast
  moreover have "input_typed (steps @ [s]) i (steps ! i) inp" if "input_typed steps i (steps ! i) inp" for inp
    using that same unfolding input_typed_def by (metis less_imp_le)
  ultimately show ?thesis using assms(1) same [of i] by (auto simp: step_typed_def)
qed

lemma validate_steps_sound:
  assumes "validate_steps valid_re re_match bound context stepIndex steps grants rest = Inr (steps', grants')"
    and bound: "\<And>k c. bound k = Some c \<Longrightarrow> ValidateContract valid_re c \<and> (\<exists>b \<in> set bindings. (sb_skill b, sb_version b) = k \<and> sb_contract b = c)"
    and "indexes stepIndex steps" "dom grants = step_id ` set steps"
    and "\<forall>i < length steps. step_typed valid_re bindings context grants steps i"
  shows "map vs_step steps' = map vs_step steps @ rest \<and> distinct (map step_id steps') \<and> dom grants' = step_id ` set steps' \<and>
     (\<forall>i < length steps'. step_typed valid_re bindings context grants' steps' i)"
  using assms(1,3-5)
proof (induction rest arbitrary: stepIndex steps grants)
  case Nil
  then show ?case by (auto dest: indexes_distinct)
next
  case (Cons step rest)
  obtain contract grant where v: "validate_step valid_re re_match bound context stepIndex steps step = Inr (contract, grant)"
    and r: "validate_steps valid_re re_match bound context (stepIndex(fs_id step \<mapsto> length steps))
        (steps @ [\<lparr> vs_step = step, vs_contract = contract \<rparr>]) (grants(fs_id step \<mapsto> grant)) rest = Inr (steps', grants')"
    using Cons.prems(1) by (auto split: sum.splits)
  define s where "s = \<lparr> vs_step = step, vs_contract = contract \<rparr>"
  note vs = validate_step_sound [OF v]
  have ix: "indexes (stepIndex(fs_id step \<mapsto> length steps)) (steps @ [s])"
    using indexes_extend [OF Cons.prems(2), of s] vs(2) by (simp add: s_def)
  have fresh: "fs_id step \<notin> step_id ` set steps"
    by (rule indexes_fresh [OF Cons.prems(2) vs(2)])
  have old: "step_typed valid_re bindings context (grants(fs_id step \<mapsto> grant)) (steps @ [s]) i" if "i < length steps" for i
  proof (rule step_typed_extend [OF _ that])
    show "step_typed valid_re bindings context grants steps i" using Cons.prems(4) that by blast
    fix g assume "grants (step_id (steps ! i)) = Some g"
    moreover have "step_id (steps ! i) \<noteq> fs_id step" using fresh nth_mem [OF that] by (metis image_eqI)
    ultimately show "(grants(fs_id step \<mapsto> grant)) (step_id (steps ! i)) = Some g" by simp
  qed
  have new: "step_typed valid_re bindings context (grants(fs_id step \<mapsto> grant)) (steps @ [s]) (length steps)"
  proof -
    have "bound_to valid_re bindings s" using bound [OF vs(3)] by (auto simp: bound_to_def s_def)
    moreover have "granted context (grants(fs_id step \<mapsto> grant)) s"
      using vs(4) validateGrant_None [OF vs(5)] by (auto simp: granted_def s_def)
    moreover have "input_typed (steps @ [s]) (length steps) s inp" if "inp \<in> set (fs_inputs step)" for inp
    proof -
      from validateInputs_sound [OF vs(7) that] obtain j p c where j: "j < length steps"
        "(stepIndex(fs_id step \<mapsto> length steps)) (in_step inp) = Some j"
        "namedPropertySchema (OutputSchema (vs_contract (steps ! j))) (in_output inp) = Some p"
        "namedPropertySchema (InputSchema contract) (in_name inp) = Some c" "canonicalSchema p = canonicalSchema c"
        by blast
      have "step_id ((steps @ [s]) ! j) = in_step inp" using ix j(2) unfolding indexes_def by blast
      with j show ?thesis unfolding input_typed_def by (intro exI [of _ j]) (auto simp: nth_append s_def)
    qed
    moreover have "validIdentifier (fs_id step)" "fs_models step \<noteq> []"
      using vs(1) by (auto simp: validateStepShape_def split: if_splits)
    ultimately show ?thesis using vs(6) by (auto simp: step_typed_def s_def)
  qed
  have "map vs_step steps' = map vs_step (steps @ [s]) @ rest \<and> distinct (map step_id steps') \<and> dom grants' = step_id ` set steps' \<and>
     (\<forall>i < length steps'. step_typed valid_re bindings context grants' steps' i)"
  proof (rule Cons.IH [OF r [folded s_def] ix])
    show "dom (grants(fs_id step \<mapsto> grant)) = step_id ` set (steps @ [s])"
      using Cons.prems(3) by (simp add: s_def)
    show "\<forall>i < length (steps @ [s]). step_typed valid_re bindings context (grants(fs_id step \<mapsto> grant)) (steps @ [s]) i"
    proof (intro allI impI)
      fix i assume "i < length (steps @ [s])"
      then consider "i < length steps" | "i = length steps" by fastforce
      then show "step_typed valid_re bindings context (grants(fs_id step \<mapsto> grant)) (steps @ [s]) i"
        using old new by cases simp_all
    qed
  qed
  then show ?case by (simp add: s_def)
qed

lemma Validate_parts:
  assumes "Validate valid_re re_match fl bindings context = Inr vf"
  obtains bound where "bind_skills valid_re Map.empty bindings = Inr bound"
    "validate_steps valid_re re_match bound context Map.empty [] Map.empty (fl_steps fl) = Inr (vf_steps vf, vf_grants vf)"
    "length (remdups (map fst context)) = length (fl_steps fl)" "validateSafetyGates (vf_steps vf) (vf_grants vf) = None"
    "vf_flow vf = fl" "fl_steps fl \<noteq> []" "0 < fl_version fl"
  using assms by (auto simp: Validate_def split: if_splits sum.splits option.splits)

definition flow_typed ::
  "(string \<Rightarrow> bool) \<Rightarrow> skill_binding list \<Rightarrow> (string \<times> step_grant) list \<Rightarrow> validated_flow \<Rightarrow> bool" where
  "flow_typed valid_re bindings context vf \<longleftrightarrow>
     vf_steps vf \<noteq> [] \<and> 0 < fl_version (vf_flow vf) \<and>
     map vs_step (vf_steps vf) = fl_steps (vf_flow vf) \<and> distinct (map step_id (vf_steps vf)) \<and>
     dom (vf_grants vf) = step_id ` set (vf_steps vf) \<and> fst ` set context = step_id ` set (vf_steps vf) \<and>
     (\<forall>i < length (vf_steps vf). step_typed valid_re bindings context (vf_grants vf) (vf_steps vf) i)"

lemma Validate_typed:
  assumes "Validate valid_re re_match fl bindings context = Inr vf"
  shows "flow_typed valid_re bindings context vf" "vf_flow vf = fl"
proof -
  obtain bound where b: "bind_skills valid_re Map.empty bindings = Inr bound"
    and st: "validate_steps valid_re re_match bound context Map.empty [] Map.empty (fl_steps fl) = Inr (vf_steps vf, vf_grants vf)"
    and len: "length (remdups (map fst context)) = length (fl_steps fl)"
    and fl: "vf_flow vf = fl" "fl_steps fl \<noteq> []" "0 < fl_version fl"
    by (rule Validate_parts [OF assms])
  have sound: "map vs_step (vf_steps vf) = map vs_step ([] :: validated_step list) @ fl_steps fl \<and> distinct (map step_id (vf_steps vf)) \<and>
      dom (vf_grants vf) = step_id ` set (vf_steps vf) \<and>
      (\<forall>i < length (vf_steps vf). step_typed valid_re bindings context (vf_grants vf) (vf_steps vf) i)"
    by (rule validate_steps_sound [OF st])
       (use bind_skills_sound [OF b] in \<open>auto simp: indexes_def\<close>)
  then have same: "map vs_step (vf_steps vf) = fl_steps fl" by simp
  have sub: "step_id ` set (vf_steps vf) \<subseteq> fst ` set context"
  proof clarify
    fix s assume "s \<in> set (vf_steps vf)"
    then obtain i where "i < length (vf_steps vf)" "s = vf_steps vf ! i" by (auto simp: in_set_conv_nth)
    with sound have "granted context (vf_grants vf) s" by (auto simp: step_typed_def)
    then show "step_id s \<in> fst ` set context" by (auto simp: granted_def dest: map_of_SomeD intro: rev_image_eqI)
  qed
  have "card (step_id ` set (vf_steps vf)) = length (fl_steps fl)"
    using sound same by (metis distinct_card length_map list.set_map)
  moreover have "card (fst ` set context) = length (fl_steps fl)"
    using len by (metis length_remdups_card_conv list.set_map)
  ultimately have "fst ` set context = step_id ` set (vf_steps vf)"
    using card_subset_eq [OF _ sub] by simp
  moreover have "vf_steps vf \<noteq> []" using same fl by auto
  ultimately show "flow_typed valid_re bindings context vf" using sound same fl by (simp add: flow_typed_def)
  show "vf_flow vf = fl" by (rule fl)
qed

section \<open>The gates of a validated flow\<close>

definition gate_of :: "validated_flow \<Rightarrow> capability \<Rightarrow> nat \<Rightarrow> bool" where
  "gate_of vf cap i \<longleftrightarrow> independent_reader (vf_grants vf) (vf_steps vf ! i) \<and> hasCapability (vs_contract (vf_steps vf ! i)) cap"

definition writes_at :: "validated_flow \<Rightarrow> nat \<Rightarrow> bool" where
  "writes_at vf i \<longleftrightarrow> implementation_write (vf_grants vf) (vf_steps vf ! i)"

definition gated_between :: "validated_flow \<Rightarrow> nat \<Rightarrow> nat \<Rightarrow> bool" where
  "gated_between vf i j \<longleftrightarrow>
     (\<exists>r v. i < r \<and> r < j \<and> i < v \<and> v < j \<and> r \<noteq> v \<and> gate_of vf CapReview r \<and> gate_of vf CapVerification v)"

lemma distinct_gates_between:
  assumes "distinct_gates (vf_steps vf) (vf_grants vf) (Suc i) j"
  shows "gated_between vf i j"
proof -
  obtain a b where g: "gateIndexes (vf_steps vf) (vf_grants vf) (Suc i) j = (a, b)" by (cases "gateIndexes (vf_steps vf) (vf_grants vf) (Suc i) j")
  with assms obtain r v where "a = Some r" "b = Some v" "r \<noteq> v"
    by (cases a; cases b) (simp_all add: distinct_gates_def)
  with g have "i < r \<and> r < j \<and> gate_of vf CapReview r" "i < v \<and> v < j \<and> gate_of vf CapVerification v"
    by (simp_all add: gateIndexes_def last_index_Some gate_of_def Suc_le_eq)
  with \<open>r \<noteq> v\<close> show ?thesis unfolding gated_between_def by blast
qed

lemma validated_gates:
  assumes "validateSafetyGates (vf_steps vf) (vf_grants vf) = None" "i < length (vf_steps vf)"
  shows "step_gates (vf_steps vf) (vf_grants vf) i = None"
  using assms by (simp add: validateSafetyGates_def first_error_None)

lemma shipping_gated:
  assumes "validateSafetyGates (vf_steps vf) (vf_grants vf) = None" "i < length (vf_steps vf)" "is_shipping (vf_steps vf ! i)"
  obtains w where "Authority (step_grant_of (vf_grants vf) (vf_steps vf ! i)) = AuthorityWrite"
    "last_index (writes_at vf) 0 i = Some w" "distinct_gates (vf_steps vf) (vf_grants vf) (Suc w) i"
  using validated_gates [OF assms(1,2)] assms(3)
  by (auto simp: step_gates_def gates_before_shipping_def implementation_write_def writes_at_def [abs_def] split: if_splits option.splits)

lemma last_write_gated:
  assumes "validateSafetyGates (vf_steps vf) (vf_grants vf) = None" "w < length (vf_steps vf)" "writes_at vf w"
    "\<And>j. w < j \<Longrightarrow> j < length (vf_steps vf) \<Longrightarrow> \<not> writes_at vf j"
  shows "\<exists>b \<le> length (vf_steps vf). (\<forall>j. w < j \<and> j < b \<longrightarrow> \<not> is_shipping (vf_steps vf ! j)) \<and> gated_between vf w b"
proof -
  have nx: "first_index (\<lambda>j. implementation_write (vf_grants vf) (vf_steps vf ! j)) (Suc w) (length (vf_steps vf)) = None"
    using assms(4) by (simp add: first_index_None writes_at_def)
  define f where "f = first_index (\<lambda>j. is_shipping (vf_steps vf ! j)) (Suc w) (length (vf_steps vf))"
  define b where "b = (case f of Some j \<Rightarrow> j | None \<Rightarrow> length (vf_steps vf))"
  have "\<not> is_shipping (vf_steps vf ! w)" using assms(3) by (simp add: writes_at_def implementation_write_def)
  then have "gates_after_write (vf_steps vf) (vf_grants vf) w = None"
    using validated_gates [OF assms(1,2)] assms(3) by (simp add: step_gates_def writes_at_def)
  then have "distinct_gates (vf_steps vf) (vf_grants vf) (Suc w) b"
    by (simp add: gates_after_write_def nx f_def [symmetric] b_def [symmetric] Let_def split: if_splits)
  then have "gated_between vf w b" by (rule distinct_gates_between)
  moreover have "b \<le> length (vf_steps vf) \<and> (\<forall>j. w < j \<and> j < b \<longrightarrow> \<not> is_shipping (vf_steps vf ! j))"
  proof (cases f)
    case None
    then have "\<forall>k. Suc w \<le> k \<and> k < length (vf_steps vf) \<longrightarrow> \<not> is_shipping (vf_steps vf ! k)"
      unfolding f_def first_index_None .
    with None show ?thesis by (simp add: b_def Suc_le_eq)
  next
    case (Some k)
    from first_index_Some [OF this [unfolded f_def]] show ?thesis using Some by (auto simp: b_def)
  qed
  ultimately show ?thesis by blast
qed

lemma gated_between_mono: "gated_between vf i j \<Longrightarrow> i' \<le> i \<Longrightarrow> j \<le> j' \<Longrightarrow> gated_between vf i' j'"
  unfolding gated_between_def by (meson le_less_trans less_le_trans)

lemma last_index_above:
  assumes "last_index P 0 j = Some k" "P w" "w < j"
  shows "w \<le> k"
  using assms by (auto simp: last_index_Some intro: leI)

lemma shipping_after_write:
  assumes "validateSafetyGates (vf_steps vf) (vf_grants vf) = None" "i < length (vf_steps vf)" "is_shipping (vf_steps vf ! i)"
    "w < i" "writes_at vf w"
  shows "gated_between vf w i"
proof -
  obtain w' where w': "last_index (writes_at vf) 0 i = Some w'" "distinct_gates (vf_steps vf) (vf_grants vf) (Suc w') i"
    by (rule shipping_gated [OF assms(1-3)])
  with last_index_above [OF w'(1) assms(5,4)] show ?thesis
    by (blast intro: gated_between_mono distinct_gates_between)
qed

lemma write_gated:
  assumes "validateSafetyGates (vf_steps vf) (vf_grants vf) = None" "w < length (vf_steps vf)" "writes_at vf w"
  shows "gated_between vf w (length (vf_steps vf))"
proof -
  obtain w' where w': "last_index (writes_at vf) 0 (length (vf_steps vf)) = Some w'"
    using assms(2,3) last_index_None [of "writes_at vf" 0 "length (vf_steps vf)"] by auto
  then have "w \<le> w'" using assms(2,3) by (blast intro: last_index_above)
  moreover have "w' < length (vf_steps vf)" "writes_at vf w'" "\<forall>j. w' < j \<and> j < length (vf_steps vf) \<longrightarrow> \<not> writes_at vf j"
    using w' by (simp_all add: last_index_Some)
  from last_write_gated [OF assms(1) this(1,2)] this(3)
  obtain b where "b \<le> length (vf_steps vf)" "gated_between vf w' b" by blast
  ultimately show ?thesis by (blast intro: gated_between_mono)
qed


text \<open>
  C28: no path to shipping avoids the gates. In a validated flow a shipping step has write
  authority and an implementation write before it, and between every implementation write
  and every later shipping step there are two different read-only steps run by an
  independent producer, one of them a review and the other a verification; an implementation
  write that is never shipped is followed by two such steps as well.
\<close>
theorem shipping_is_gated:
  assumes "Validate valid_re re_match fl bindings context = Inr vf"
  shows "(\<forall>i < length (vf_steps vf). is_shipping (vf_steps vf ! i) \<longrightarrow>
       Authority (step_grant_of (vf_grants vf) (vf_steps vf ! i)) = AuthorityWrite \<and> (\<exists>w < i. writes_at vf w) \<and>
       (\<forall>w < i. writes_at vf w \<longrightarrow> gated_between vf w i)) \<and>
     (\<forall>w < length (vf_steps vf). writes_at vf w \<longrightarrow> gated_between vf w (length (vf_steps vf)))"
proof -
  have g: "validateSafetyGates (vf_steps vf) (vf_grants vf) = None" by (rule Validate_parts [OF assms])
  have "Authority (step_grant_of (vf_grants vf) (vf_steps vf ! i)) = AuthorityWrite \<and> (\<exists>w < i. writes_at vf w)"
    if "i < length (vf_steps vf)" "is_shipping (vf_steps vf ! i)" for i
    by (rule shipping_gated [OF g that]) (auto simp: last_index_Some)
  with shipping_after_write [OF g] write_gated [OF g] show ?thesis by blast
qed

section \<open>A flow\<close>

text \<open>Write, review, verify, ship: the review reads the patch the first step produces.\<close>

definition text_schema :: "string \<Rightarrow> json" where
  "text_schema name =
     JObj [(''type'', JStr ''object''), (''properties'', JObj [(name, JObj [(''type'', JStr ''string'')])])]"

definition contract_of :: "capability \<Rightarrow> raw_json \<Rightarrow> raw_json \<Rightarrow> skill_contract" where
  "contract_of c inp out =
     \<lparr> Capabilities = [c], InputSchema = inp, ParamsSchema = None, OutputSchema = out, Interactive = False \<rparr>"

definition a_step :: "string \<Rightarrow> bool option \<Rightarrow> input_ref list \<Rightarrow> flow_step" where
  "a_step name rhs inputs =
     \<lparr> fs_id = name, fs_skill = name, fs_skill_version = 1, fs_rhs = rhs,
       fs_models = [\<lparr> mc_harness = ''claude'', mc_model = ''default'', mc_effort = ''high'' \<rparr>],
       fs_params = None, fs_inputs = inputs \<rparr>"

definition safe_flow :: flow where
  "safe_flow = \<lparr> fl_version = 5, fl_steps =
     [a_step ''write'' None [],
      a_step ''review'' None [\<lparr> in_name = ''change'', in_step = ''write'', in_output = ''patch'' \<rparr>],
      a_step ''verify'' None [],
      a_step ''ship'' None []] \<rparr>"

definition safe_bindings :: "skill_binding list" where
  "safe_bindings =
     [\<lparr> sb_skill = ''write'', sb_version = 1, sb_contract = contract_of CapAuthoring None (Some (text_schema ''patch'')) \<rparr>,
      \<lparr> sb_skill = ''review'', sb_version = 1, sb_contract = contract_of CapReview (Some (text_schema ''change'')) None \<rparr>,
      \<lparr> sb_skill = ''verify'', sb_version = 1, sb_contract = contract_of CapVerification None None \<rparr>,
      \<lparr> sb_skill = ''ship'', sb_version = 1, sb_contract = contract_of CapShipping None None \<rparr>]"

definition writer_grant :: step_grant where
  "writer_grant = \<lparr> Authority = AuthorityWrite, ProducerIsolation = IsolationShared \<rparr>"

definition gate_grant :: step_grant where
  "gate_grant = \<lparr> Authority = AuthorityReadOnly, ProducerIsolation = IsolationRequired \<rparr>"

definition safe_context :: "(string \<times> step_grant) list" where
  "safe_context = [(''write'', writer_grant), (''review'', gate_grant), (''verify'', gate_grant), (''ship'', writer_grant)]"

definition no_patterns :: "string \<Rightarrow> bool" where
  "no_patterns re = False"

definition safe_steps :: "validated_step list" where
  "safe_steps = map (\<lambda>(s, b). \<lparr> vs_step = s, vs_contract = sb_contract b \<rparr>) (zip (fl_steps safe_flow) safe_bindings)"

definition never_matches :: "string \<Rightarrow> string \<Rightarrow> bool" where
  "never_matches re s = False"

definition safe_vf :: validated_flow where
  "safe_vf = projr (Validate no_patterns never_matches safe_flow safe_bindings safe_context)"

lemma safe_flow_validates: "Validate no_patterns never_matches safe_flow safe_bindings safe_context = Inr safe_vf"
proof -
  have "\<not> isl (Validate no_patterns never_matches safe_flow safe_bindings safe_context)" by code_simp
  then show ?thesis by (simp add: safe_vf_def)
qed

lemma safe_vf_steps: "vf_steps safe_vf = safe_steps"
  by code_simp

lemma flow_typed_grants:
  assumes "flow_typed valid_re bindings context vf"
  shows "vf_grants vf = map_of context"
proof
  fix sid
  show "vf_grants vf sid = map_of context sid"
  proof (cases "sid \<in> step_id ` set (vf_steps vf)")
    case True
    then obtain i where "i < length (vf_steps vf)" "step_id (vf_steps vf ! i) = sid" by (auto simp: in_set_conv_nth)
    moreover from this have "granted context (vf_grants vf) (vf_steps vf ! i)"
      using assms by (auto simp: flow_typed_def step_typed_def)
    ultimately show ?thesis by (auto simp: granted_def)
  next
    case False
    then have "vf_grants vf sid = None" "map_of context sid = None"
      using assms by (auto simp: flow_typed_def map_of_eq_None_iff)
    then show ?thesis by simp
  qed
qed

lemma safe_vf_value [code]: "safe_vf = \<lparr> vf_flow = safe_flow, vf_steps = safe_steps, vf_grants = map_of safe_context \<rparr>"
  using Validate_typed [OF safe_flow_validates] flow_typed_grants safe_vf_steps by (cases safe_vf) auto


lemma shipping_is_gated_witness: "gated_between safe_vf 0 3"
proof -
  have "3 < length (vf_steps safe_vf)" "is_shipping (vf_steps safe_vf ! 3)" "writes_at safe_vf 0"
    by code_simp+
  then show ?thesis using shipping_is_gated [OF safe_flow_validates] by simp
qed

end
