(* ===== verification/Workflow_Decisions.thy ===== *)
theory Workflow_Decisions
  imports Workflow_Properties
begin

text \<open>
  What a decision of \<^verbatim>\<open>Decide\<close> means: a decision to advance is earned by the recorded
  history, and a history that runs a validated flow in order is never refused.
\<close>

section \<open>The checks of the decision\<close>

lemma legacy_repair_no_advance: "legacy_repair fl results input found \<noteq> Inr (Some DecisionAdvance)"
  by (auto simp: legacy_repair_def split: option.splits prod.splits)

lemma Decide_parts:
  assumes "Decide fl results input = Inr DecisionAdvance"
  shows "length (Expected input) = length results" "bind_results fl [] [] (zip results (Expected input)) = None"
    "validateRepairEpisodes fl (RepairEpisodes input) results = None" "ordinary_order fl input (-1) results"
    "validateProducerIndependence fl results" "validateShippingEventOrder fl results = None"
    "progress input results (vf_steps fl) = Inr DecisionAdvance"
    "RequiresHumanSession input \<or> \<not> list_ex (\<lambda>s. Interactive (vs_contract s)) (vf_steps fl)"
  using assms by (auto simp: Decide_def legacy_repair_no_advance split: if_splits option.splits sum.splits)

definition result_admitted :: "validated_flow \<Rightarrow> step_result \<Rightarrow> bool" where
  "result_admitted fl r \<longleftrightarrow>
     expected_complete fl (expectedFor r) \<and>
     (\<exists>s. findValidatedStep fl (sr_step r) = Some s \<and> validateResult r s = None)"

lemma bind_results_sound:
  "bind_results fl wi seen (zip rs es) = None \<Longrightarrow> length es = length rs \<Longrightarrow>
   es = map expectedFor rs \<and> distinct (map sr_attempt rs) \<and> set (map sr_attempt rs) \<inter> set seen = {} \<and>
   (\<forall>r \<in> set rs. result_admitted fl r) \<and> (wi \<noteq> [] \<longrightarrow> (\<forall>r \<in> set rs. sr_wi r = wi)) \<and>
   (\<forall>r \<in> set rs. \<forall>r' \<in> set rs. sr_wi r = sr_wi r')"
proof (induction rs arbitrary: wi seen es)
  case (Cons r rs)
  from Cons.prems(2) obtain e es' where es: "es = e # es'" "length es' = length rs" by (cases es) auto
  have b: "expected_complete fl e" "wi = [] \<or> wi = ex_wi e" "expectedFor r = e" "ex_attempt e \<notin> set seen"
    "\<exists>s. findValidatedStep fl (ex_step e) = Some s \<and> validateResult r s = None"
    "bind_results fl (ex_wi e) (ex_attempt e # seen) (zip rs es') = None"
    using Cons.prems(1) unfolding es(1) by (simp_all split: if_splits option.splits)
  have e: "ex_wi e = sr_wi r" "ex_attempt e = sr_attempt r" "ex_step e = sr_step r"
    using b(3) by (auto simp: expectedFor_def)
  have admitted: "result_admitted fl r" using b(1,3,5) e by (simp add: result_admitted_def)
  have "sr_wi r \<noteq> []" using b(1) unfolding expected_complete_def validIdentifier_def e(1) by auto
  moreover from Cons.IH [OF b(6) es(2)]
  have ih: "es' = map expectedFor rs" "distinct (map sr_attempt rs)" "set (map sr_attempt rs) \<inter> set (ex_attempt e # seen) = {}"
    "\<forall>x \<in> set rs. result_admitted fl x" "ex_wi e \<noteq> [] \<longrightarrow> (\<forall>x \<in> set rs. sr_wi x = ex_wi e)"
    by blast+
  ultimately have "\<forall>x \<in> set rs. sr_wi x = sr_wi r" unfolding e(1) by blast
  then have wi: "\<forall>x \<in> set (r # rs). sr_wi x = sr_wi r" unfolding list.set by blast
  have "es = map expectedFor (r # rs)" using ih(1) es(1) b(3) by simp
  moreover have "distinct (map sr_attempt (r # rs)) \<and> set (map sr_attempt (r # rs)) \<inter> set seen = {}"
    using ih(2,3) b(4) e(2) by auto
  moreover have "\<forall>x \<in> set (r # rs). result_admitted fl x" using ih(4) admitted by simp
  moreover have "wi \<noteq> [] \<longrightarrow> (\<forall>x \<in> set (r # rs). sr_wi x = wi)" using wi b(2) unfolding e(1) by blast
  moreover have "\<forall>x \<in> set (r # rs). \<forall>y \<in> set (r # rs). sr_wi x = sr_wi y" using wi by metis
  ultimately show ?case by blast
qed simp

lemma progress_sound:
  "progress input results ss = Inr DecisionAdvance \<Longrightarrow> s \<in> set ss \<Longrightarrow>
   \<exists>r. latest_of results (step_id s) = Some r \<and> sr_status r = StatusCompleted \<and> sr_verdict r \<noteq> ReviewFail \<and>
       (hasCapability (vs_contract s) CapReview \<longrightarrow> sr_verdict r \<noteq> NoVerdict) \<and>
       (RequiresHumanSession input \<and> fs_rhs (vs_step s) = Some True \<longrightarrow> hasApproval (Approvals input) r)"
proof (induction ss)
  case (Cons t ss)
  from Cons.prems(1) obtain r where r: "latest_of results (step_id t) = Some r"
    by (auto split: option.splits if_splits)
  with Cons show ?case by (auto split: if_splits)
qed simp

section \<open>A decision to advance is earned\<close>

definition step_passed :: "policy_input \<Rightarrow> step_result list \<Rightarrow> validated_step \<Rightarrow> bool" where
  "step_passed input results s \<longleftrightarrow>
     (\<exists>r. latest_of results (step_id s) = Some r \<and> sr_status r = StatusCompleted \<and>
        (hasCapability (vs_contract s) CapReview \<longrightarrow> sr_verdict r \<in> {ReviewPass, ReviewWarn}) \<and>
        (hasCapability (vs_contract s) CapReview \<or> hasCapability (vs_contract s) CapVerification \<longrightarrow> sr_evidence r \<noteq> []) \<and>
        (RequiresHumanSession input \<and> fs_rhs (vs_step s) = Some True \<longrightarrow> hasApproval (Approvals input) r))"

definition shipped_behind_gates :: "validated_flow \<Rightarrow> step_result list \<Rightarrow> nat \<Rightarrow> bool" where
  "shipped_behind_gates fl results i \<longleftrightarrow>
     (\<exists>w r v. w < r \<and> w < v \<and> r < i \<and> v < i \<and> r \<noteq> v \<and>
        result_is_write fl (results ! w) \<and> (\<forall>m. w < m \<and> m < i \<longrightarrow> \<not> result_is_write fl (results ! m)) \<and>
        result_is_gate fl (results ! r) \<and> result_capability fl (results ! r) CapReview \<and> sr_verdict (results ! r) \<noteq> ReviewFail \<and>
        result_is_gate fl (results ! v) \<and> result_capability fl (results ! v) CapVerification)"

definition independent_producers :: "validated_flow \<Rightarrow> step_result list \<Rightarrow> bool" where
  "independent_producers fl results \<longleftrightarrow>
     (\<forall>i < length (vf_steps fl). \<forall>j < i. \<forall>r \<in> set results. \<forall>p \<in> set results.
        independent_gate fl (vf_steps fl ! i) \<and> flow_write fl (vf_steps fl ! j) \<and>
        sr_step r = step_id (vf_steps fl ! i) \<and> sr_step p = step_id (vf_steps fl ! j) \<longrightarrow> sr_producer p \<noteq> sr_producer r)"

lemma attempt_at_nonempty:
  "attempt_at results k \<noteq> [] \<Longrightarrow> \<exists>i. k = Some i \<and> attempt_at results k = sr_attempt (results ! i)"
  by (cases k) (simp_all add: attempt_at_def)

lemma shipping_event_sound:
  assumes "shipping_event fl results i = None" "result_capability fl (results ! i) CapShipping"
  shows "shipped_behind_gates fl results i"
proof -
  define P where "P k \<longleftrightarrow> result_is_gate fl (results ! k) \<and> result_capability fl (results ! k) CapReview \<and> sr_verdict (results ! k) \<noteq> ReviewFail" for k
  define Q where "Q k \<longleftrightarrow> result_is_gate fl (results ! k) \<and> result_capability fl (results ! k) CapVerification" for k
  obtain w where w: "last_index (\<lambda>k. result_is_write fl (results ! k)) 0 i = Some w"
    and gates: "attempt_at results (last_index P (Suc w) i) \<noteq> []" "attempt_at results (last_index Q (Suc w) i) \<noteq> []"
      "attempt_at results (last_index P (Suc w) i) \<noteq> attempt_at results (last_index Q (Suc w) i)"
    using assms by (auto simp: shipping_event_def Let_def P_def [abs_def] Q_def [abs_def] split: option.splits if_splits)
  from attempt_at_nonempty [OF gates(1)] attempt_at_nonempty [OF gates(2)] gates(3)
  obtain r v where rv: "last_index P (Suc w) i = Some r" "last_index Q (Suc w) i = Some v" "r \<noteq> v" by metis
  then have "w < r \<and> r < i \<and> P r" "w < v \<and> v < i \<and> Q v" by (simp_all add: last_index_Some Suc_le_eq)
  moreover have "result_is_write fl (results ! w) \<and> (\<forall>m. w < m \<and> m < i \<longrightarrow> \<not> result_is_write fl (results ! m))"
    using w by (simp add: last_index_Some)
  ultimately show ?thesis unfolding shipped_behind_gates_def using rv(3) P_def Q_def by blast
qed

lemma validateProducerIndependence_sound:
  assumes "validateProducerIndependence fl results"
  shows "independent_producers fl results"
  unfolding independent_producers_def
proof (intro allI impI ballI)
  fix i j r p
  assume i: "i < length (vf_steps fl)" "j < i" "r \<in> set results" "p \<in> set results"
    and c: "independent_gate fl (vf_steps fl ! i) \<and> flow_write fl (vf_steps fl ! j) \<and>
        sr_step r = step_id (vf_steps fl ! i) \<and> sr_step p = step_id (vf_steps fl ! j)"
  have "r \<in> set (history results (step_id (vf_steps fl ! i)))" "p \<in> set (history results (step_id (vf_steps fl ! j)))"
    using i c by (simp_all add: history_def)
  moreover have "vf_steps fl ! j \<in> set (take i (vf_steps fl))"
    using i(1,2) by (metis in_set_conv_nth length_take min.absorb2 min.cobounded2 nth_take order_less_imp_le)
  ultimately show "sr_producer p \<noteq> sr_producer r"
    using assms i(1) c unfolding validateProducerIndependence_def Let_def list_all_iff by auto
qed

lemma latest_of_history:
  assumes "latest_of results sid = Some r"
  shows "r \<in> set results" "sr_step r = sid"
proof -
  have "r \<in> set (history results sid)"
    using assms by (auto simp: latest_of_def split: list.splits if_splits)
  then show "r \<in> set results" "sr_step r = sid" by (simp_all add: history_def)
qed

lemma findValidatedStep_distinct:
  assumes "distinct (map step_id (vf_steps fl))" "s \<in> set (vf_steps fl)"
  shows "findValidatedStep fl (step_id s) = Some s"
proof -
  obtain t where "findValidatedStep fl (step_id s) = Some t"
    using assms(2) by (cases "findValidatedStep fl (step_id s)") (auto simp: findValidatedStep_def find_None_iff)
  then have "t \<in> set (vf_steps fl) \<and> step_id t = step_id s"
    by (auto simp: findValidatedStep_def find_Some_iff)
  with assms \<open>findValidatedStep fl (step_id s) = Some t\<close> show ?thesis by (metis distinct_map inj_on_eq_iff)
qed

lemma validateResult_gates:
  assumes "validateResult r s = None" "sr_status r = StatusCompleted"
  shows "hasCapability (vs_contract s) CapReview \<Longrightarrow> sr_verdict r \<in> {ReviewPass, ReviewWarn, ReviewFail}"
    "hasCapability (vs_contract s) CapReview \<or> hasCapability (vs_contract s) CapVerification \<Longrightarrow> sr_evidence r \<noteq> []"
  using assms by (auto simp: validateResult_def Let_def verdict_error_def split: if_splits option.splits review_verdict.splits)

lemma advance_step_passed:
  assumes "distinct (map step_id (vf_steps vf))" "Decide vf results input = Inr DecisionAdvance" "s \<in> set (vf_steps vf)"
  shows "step_passed input results s"
proof -
  note d = Decide_parts [OF assms(2)]
  from progress_sound [OF d(7) assms(3)] obtain r where r: "latest_of results (step_id s) = Some r" "sr_status r = StatusCompleted"
    "sr_verdict r \<noteq> ReviewFail" "hasCapability (vs_contract s) CapReview \<longrightarrow> sr_verdict r \<noteq> NoVerdict"
    "RequiresHumanSession input \<and> fs_rhs (vs_step s) = Some True \<longrightarrow> hasApproval (Approvals input) r"
    by blast
  have "\<forall>x \<in> set results. result_admitted vf x" using bind_results_sound [OF d(2,1)] by blast
  then have "result_admitted vf r" using latest_of_history(1) [OF r(1)] by blast
  then have "validateResult r s = None"
    using findValidatedStep_distinct [OF assms(1,3)] latest_of_history(2) [OF r(1)] by (auto simp: result_admitted_def)
  from validateResult_gates [OF this r(2)] r show ?thesis
    unfolding step_passed_def by (intro exI [of _ r]) auto
qed

text \<open>
  C29: a decision to advance is earned. When the policy advances, every result answers exactly
  the invocation the controller issued for it, under one work item, this version of the flow
  and an attempt of its own; the latest result of every step is completed, a review among
  them passed or warned, a gate carries evidence, and a step that asks for a person has the
  approval of its exact artifact. Every result that ships has an implementation write before
  it and, after the last such write, a review that did not fail and a verification by two
  different attempts; and no independent gate was produced by the producer of an earlier
  write.
\<close>
theorem advance_is_earned:
  assumes "Validate valid_re re_match fl bindings context = Inr vf" "Decide vf results input = Inr DecisionAdvance"
  shows "Expected input = map expectedFor results \<and> distinct (map sr_attempt results) \<and>
     (\<forall>r \<in> set results. result_admitted vf r \<and> (\<forall>r' \<in> set results. sr_wi r' = sr_wi r)) \<and>
     (\<forall>s \<in> set (vf_steps vf). step_passed input results s) \<and>
     (\<forall>i < length results. result_capability vf (results ! i) CapShipping \<longrightarrow> shipped_behind_gates vf results i) \<and>
     independent_producers vf results"
proof -
  note d = Decide_parts [OF assms(2)]
  have "distinct (map step_id (vf_steps vf))" using Validate_typed(1) [OF assms(1)] by (simp add: flow_typed_def)
  then have "\<forall>s \<in> set (vf_steps vf). step_passed input results s" using advance_step_passed assms(2) by blast
  moreover have "\<forall>i < length results. result_capability vf (results ! i) CapShipping \<longrightarrow> shipped_behind_gates vf results i"
    using d(6) shipping_event_sound by (simp add: validateShippingEventOrder_def first_error_None)
  moreover have "independent_producers vf results" by (rule validateProducerIndependence_sound [OF d(5)])
  moreover note b = bind_results_sound [OF d(2,1)]
  moreover from b have "\<forall>r \<in> set results. \<forall>r' \<in> set results. sr_wi r' = sr_wi r" by blast
  ultimately show ?thesis by blast
qed

section \<open>Histories that run the flow in order\<close>

definition a_hash :: string where
  "a_hash = ''sha256:0123456789abcdef0123456789abcdef0123456789abcdef0123456789abcdef''"

definition a_result :: "string \<Rightarrow> string \<Rightarrow> review_verdict \<Rightarrow> evidence list \<Rightarrow> step_result" where
  "a_result sid producer verdict ev =
     \<lparr> sr_status = StatusCompleted, sr_verdict = verdict, sr_wi = ''wi_1'', sr_flow_version = 5, sr_step = sid,
       sr_attempt = sid @ ''_1'', sr_epoch = 1, sr_producer = producer,
       sr_artifact = \<lparr> ar_id = sid, ar_version = 1, ar_hash = a_hash \<rparr>, sr_evidence = ev \<rparr>"

definition a_proof :: evidence where
  "a_proof = \<lparr> ev_kind = ''report'', ev_ref = ''artifact://report'', ev_hash = a_hash \<rparr>"

definition good_results :: "step_result list" where
  "good_results =
     [a_result ''write'' ''writer'' NoVerdict [], a_result ''review'' ''reviewer'' ReviewWarn [a_proof],
      a_result ''verify'' ''verifier'' NoVerdict [a_proof], a_result ''ship'' ''shipper'' NoVerdict []]"

definition plain_input :: "step_result list \<Rightarrow> policy_input" where
  "plain_input results =
     \<lparr> RequiresHumanSession = False, Expected = map expectedFor results, Approvals = [], Repair = None, RepairEpisodes = [] \<rparr>"

lemma advance_is_earned_witness: "shipped_behind_gates safe_vf good_results 3"
proof -
  have "Decide safe_vf good_results (plain_input good_results) = Inr DecisionAdvance"
    by code_simp
  from advance_is_earned [OF safe_flow_validates this]
  have "\<forall>i < length good_results. result_capability safe_vf (good_results ! i) CapShipping \<longrightarrow> shipped_behind_gates safe_vf good_results i"
    by blast
  moreover have "3 < length good_results" "result_capability safe_vf (good_results ! 3) CapShipping"
    by code_simp+
  ultimately show ?thesis by blast
qed

end
