(* ===== verification/Workflow_Progress.thy ===== *)
theory Workflow_Progress
  imports Workflow_Decisions
begin

text \<open>
  A run in order (\<open>in_order_run\<close>): the results so far are one completed attempt for each of the
  first steps of the flow, each bound to the hub's expectation, with distinct attempts and
  producers, no failed review and no repair. The lemmas \<open>run_at\<close>, \<open>run_bound\<close>, \<open>run_shipping\<close> and their kin follow \<open>Decide\<close> over such a run
  clause by clause; the property says that the policy never refuses it, waits while steps are
  left and advances at the end.
\<close>

definition in_order_run :: "validated_flow \<Rightarrow> policy_input \<Rightarrow> step_result list \<Rightarrow> bool" where
  "in_order_run vf input results \<longleftrightarrow>
     length results \<le> length (vf_steps vf) \<and>
     (\<forall>i < length results.
        sr_step (results ! i) = step_id (vf_steps vf ! i) \<and> sr_status (results ! i) = StatusCompleted \<and>
        sr_verdict (results ! i) \<noteq> ReviewFail \<and> expected_complete vf (expectedFor (results ! i)) \<and>
        validateResult (results ! i) (vf_steps vf ! i) = None \<and>
        (RequiresHumanSession input \<and> fs_rhs (vs_step (vf_steps vf ! i)) = Some True \<longrightarrow> hasApproval (Approvals input) (results ! i))) \<and>
     distinct (map sr_attempt results) \<and> distinct (map sr_producer results) \<and>
     (\<forall>r \<in> set results. \<forall>r' \<in> set results. sr_wi r = sr_wi r') \<and>
     Expected input = map expectedFor results \<and> Repair input = None \<and> RepairEpisodes input = [] \<and>
     (RequiresHumanSession input \<or> \<not> list_ex (\<lambda>s. Interactive (vs_contract s)) (vf_steps vf))"

lemma bind_results_complete:
  "\<forall>r \<in> set rs. result_admitted fl r \<Longrightarrow> distinct (map sr_attempt rs) \<Longrightarrow> set (map sr_attempt rs) \<inter> set seen = {} \<Longrightarrow>
   \<forall>r \<in> set rs. \<forall>r' \<in> set rs. sr_wi r = sr_wi r' \<Longrightarrow> \<forall>r \<in> set rs. wi = [] \<or> sr_wi r = wi \<Longrightarrow>
   bind_results fl wi seen (zip rs (map expectedFor rs)) = None"
proof (induction rs arbitrary: wi seen)
  case (Cons r rs)
  have e: "ex_wi (expectedFor r) = sr_wi r" "ex_attempt (expectedFor r) = sr_attempt r" "ex_step (expectedFor r) = sr_step r"
    by (simp_all add: expectedFor_def)
  obtain s where s: "expected_complete fl (expectedFor r)" "findValidatedStep fl (sr_step r) = Some s" "validateResult r s = None"
    using Cons.prems(1) by (auto simp: result_admitted_def)
  have "bind_results fl (sr_wi r) (sr_attempt r # seen) (zip rs (map expectedFor rs)) = None"
  proof (rule Cons.IH)
    show "\<forall>x \<in> set rs. result_admitted fl x" using Cons.prems(1) by simp
    show "distinct (map sr_attempt rs)" using Cons.prems(2) by simp
    show "set (map sr_attempt rs) \<inter> set (sr_attempt r # seen) = {}" using Cons.prems(2,3) by auto
    show "\<forall>x \<in> set rs. \<forall>y \<in> set rs. sr_wi x = sr_wi y" using Cons.prems(4) unfolding list.set by blast
    show "\<forall>x \<in> set rs. sr_wi r = [] \<or> sr_wi x = sr_wi r" using Cons.prems(4) unfolding list.set by blast
  qed
  moreover have "wi = [] \<or> wi = sr_wi r" using Cons.prems(5) by auto
  moreover have "sr_attempt r \<notin> set seen" using Cons.prems(3) by simp
  ultimately show ?case using s e by auto
qed simp

lemma stepPosition_nth:
  assumes "distinct (map step_id (vf_steps fl))" "i < length (vf_steps fl)"
  shows "stepPosition fl (step_id (vf_steps fl ! i)) = i"
proof (cases "first_index (\<lambda>k. step_id (vf_steps fl ! k) = step_id (vf_steps fl ! i)) 0 (length (vf_steps fl))")
  case None
  with assms(2) show ?thesis by (auto simp: first_index_None)
next
  case (Some k)
  from first_index_Some [OF this] have "k < length (vf_steps fl)" "step_id (vf_steps fl ! k) = step_id (vf_steps fl ! i)" by auto
  then have "k = i" using assms by (auto simp: distinct_conv_nth)
  with Some show ?thesis by (simp add: stepPosition_def)
qed

lemma ordinary_order_sorted:
  "sorted (map (\<lambda>r. stepPosition fl (sr_step r)) rs) \<Longrightarrow> \<forall>r \<in> set rs. lst \<le> int (stepPosition fl (sr_step r)) \<Longrightarrow>
   ordinary_order fl input lst rs"
  by (induction rs arbitrary: lst) (auto simp: Let_def)

lemma last_index_cong: "(\<And>k. i \<le> k \<Longrightarrow> k < j \<Longrightarrow> P k = Q k) \<Longrightarrow> last_index P i j = last_index Q i j"
  unfolding last_index_def by (rule find_cong) auto

lemma filter_distinct_key:
  assumes "distinct (map f xs)" "i < length xs"
  shows "filter (\<lambda>x. f x = f (xs ! i)) xs = [xs ! i]"
proof -
  have "xs = take i xs @ xs ! i # drop (Suc i) xs" using assms(2) by (rule id_take_nth_drop)
  then obtain ys zs where xs: "xs = ys @ xs ! i # zs" by blast
  with assms(1) have "f (xs ! i) \<notin> f ` set ys" "f (xs ! i) \<notin> f ` set zs"
    by (metis (no_types, lifting) distinct_append disjoint_iff distinct.simps(2) list.set_intros(1) list.simps(9) list.set_map map_append)+
  then have "filter (\<lambda>x. f x = f (xs ! i)) ys = []" "filter (\<lambda>x. f x = f (xs ! i)) zs = []"
    by (auto simp: filter_empty_conv image_iff)
  then show ?thesis by (subst (2) xs) simp
qed

text \<open>What a run in order leaves for each step of a flow whose step names are distinct and whose
  gates are in place.\<close>

definition orderly :: "validated_flow \<Rightarrow> policy_input \<Rightarrow> step_result list \<Rightarrow> bool" where
  "orderly vf input results \<longleftrightarrow> in_order_run vf input results \<and> distinct (map step_id (vf_steps vf)) \<and>
     validateSafetyGates (vf_steps vf) (vf_grants vf) = None"

lemma orderlyD:
  assumes "orderly vf input results"
  shows "in_order_run vf input results" "distinct (map step_id (vf_steps vf))" "validateSafetyGates (vf_steps vf) (vf_grants vf) = None"
  using assms by (simp_all add: orderly_def)


lemma run_length: "orderly vf input results \<Longrightarrow> length results \<le> length (vf_steps vf)"
  by (simp add: orderly_def in_order_run_def)

lemma run_at:
  assumes "orderly vf input results" "i < length results"
  shows "sr_step (results ! i) = step_id (vf_steps vf ! i)" "sr_status (results ! i) = StatusCompleted"
    "sr_verdict (results ! i) \<noteq> ReviewFail" "expected_complete vf (expectedFor (results ! i))"
    "validateResult (results ! i) (vf_steps vf ! i) = None"
    "RequiresHumanSession input \<Longrightarrow> fs_rhs (vs_step (vf_steps vf ! i)) = Some True \<Longrightarrow> hasApproval (Approvals input) (results ! i)"
  using orderlyD(1) [OF assms(1)] assms(2) unfolding in_order_run_def by blast+

lemma run_steps: "orderly vf input results \<Longrightarrow> map sr_step results = take (length results) (map step_id (vf_steps vf))"
  by (rule nth_equalityI) (auto dest: run_length simp: run_at(1))

lemma run_distinct: "orderly vf input results \<Longrightarrow> distinct (map sr_step results)"
  unfolding run_steps by (rule distinct_take) (rule orderlyD(2))

lemma run_find:
  assumes "orderly vf input results" "i < length results"
  shows "findValidatedStep vf (step_id (vf_steps vf ! i)) = Some (vf_steps vf ! i)"
    "findValidatedStep vf (sr_step (results ! i)) = Some (vf_steps vf ! i)"
  using findValidatedStep_distinct [OF orderlyD(2) [OF assms(1)]] run_at(1) [OF assms] run_length [OF assms(1)] assms(2) by simp_all

lemma run_history:
  assumes R: "orderly vf input results" and "i < length (vf_steps vf)"
  shows "history results (step_id (vf_steps vf ! i)) = (if i < length results then [results ! i] else [])"
proof (cases "i < length results")
  case True
  with filter_distinct_key [OF run_distinct [OF R] True] run_at(1) [OF R True] show ?thesis by (simp add: history_def)
next
  case False
  have "sr_step r \<noteq> step_id (vf_steps vf ! i)" if "r \<in> set results" for r
  proof -
    from that obtain k where k: "k < length results" "r = results ! k" by (auto simp: in_set_conv_nth)
    then have "k \<noteq> i" "k < length (vf_steps vf)" using False run_length [OF R] by auto
    with k run_at(1) [OF R k(1)] orderlyD(2) [OF R] assms(2) show ?thesis by (auto simp: distinct_conv_nth)
  qed
  with False show ?thesis by (simp add: history_def filter_empty_conv)
qed

lemma run_latest:
  "orderly vf input results \<Longrightarrow> i < length (vf_steps vf) \<Longrightarrow>
   latest_of results (step_id (vf_steps vf ! i)) = (if i < length results then Some (results ! i) else None)"
  by (simp add: latest_of_def run_history)

lemma run_admitted:
  assumes "orderly vf input results" "r \<in> set results"
  shows "result_admitted vf r"
proof -
  from assms(2) obtain i where i: "i < length results" "r = results ! i" by (auto simp: in_set_conv_nth)
  with run_find(2) [OF assms(1) i(1)] run_at(4,5) [OF assms(1) i(1)] show ?thesis unfolding result_admitted_def by blast
qed

lemma run_bound:
  assumes R: "orderly vf input results"
  shows "bind_results vf [] [] (zip results (Expected input)) = None"
proof -
  have e: "Expected input = map expectedFor results" and d: "distinct (map sr_attempt results)"
    and w: "\<forall>r \<in> set results. \<forall>r' \<in> set results. sr_wi r = sr_wi r'"
    using orderlyD(1) [OF R] unfolding in_order_run_def by blast+
  show ?thesis
    unfolding e by (rule bind_results_complete [OF ballI [OF run_admitted [OF R]] d _ w]) simp_all
qed

lemma run_ordered:
  assumes R: "orderly vf input results"
  shows "ordinary_order vf input (-1) results"
proof (rule ordinary_order_sorted)
  have "map (\<lambda>r. stepPosition vf (sr_step r)) results = [0..<length results]"
    by (rule nth_equalityI) (use run_at(1) [OF R] run_length [OF R] stepPosition_nth [OF orderlyD(2) [OF R]] in auto)
  then show "sorted (map (\<lambda>r. stepPosition vf (sr_step r)) results)" by simp
qed simp

lemma run_no_retry:
  assumes R: "orderly vf input results"
  shows "set ss \<subseteq> set (vf_steps vf) \<Longrightarrow> scan_steps input results None ss = Inr None"
proof (induction ss)
  case (Cons s ss)
  then obtain i where "i < length (vf_steps vf)" "s = vf_steps vf ! i" by (auto simp: in_set_conv_nth)
  with Cons show ?case by (simp add: run_history [OF R])
qed simp

lemma run_no_repair: "orderly vf input results \<Longrightarrow> legacy_repair vf results input None = Inr None"
  by (simp add: legacy_repair_def orderly_def in_order_run_def)

lemma run_independent:
  assumes R: "orderly vf input results"
  shows "validateProducerIndependence vf results"
proof -
  have ne: "sr_producer (results ! j) \<noteq> sr_producer (results ! i)" if "i < length results" "j < i" for i j
    using orderlyD(1) [OF R] that by (auto simp: in_order_run_def distinct_conv_nth)
  have "sr_producer p \<noteq> sr_producer r"
    if i: "i < length (vf_steps vf)" and r: "r \<in> set (history results (step_id (vf_steps vf ! i)))"
      and s: "s \<in> set (take i (vf_steps vf))" and p: "p \<in> set (history results (step_id s))" for i r s p
  proof -
    from s obtain j where "j < i" "s = vf_steps vf ! j" by (auto simp: in_set_conv_nth)
    with i r p ne show ?thesis by (auto simp: run_history [OF R] split: if_splits)
  qed
  then show ?thesis unfolding validateProducerIndependence_def Let_def list_all_iff by auto
qed

lemma run_write: "orderly vf input results \<Longrightarrow> k < length results \<Longrightarrow> result_is_write vf (results ! k) = writes_at vf k"
  by (simp add: result_is_write_def run_find flow_write_def writes_at_def run_at(1))

lemma run_gate:
  assumes "orderly vf input results" "k < length results"
  shows "result_is_gate vf (results ! k) \<and> result_capability vf (results ! k) cap \<longleftrightarrow> gate_of vf cap k"
  using run_find [OF assms] run_at(1) [OF assms] run_at(2) [OF assms]
  by (auto simp: result_is_gate_def result_capability_def gate_of_def read_only_gate_def independent_reader_def
      flow_grant_def step_grant_of_def)

lemma run_attempt: "orderly vf input results \<Longrightarrow> i < length results \<Longrightarrow> sr_attempt (results ! i) \<noteq> []"
  using run_at(4) by (fastforce simp: expected_complete_def expectedFor_def validIdentifier_def)

lemma run_attempts_differ:
  "orderly vf input results \<Longrightarrow> i < length results \<Longrightarrow> j < length results \<Longrightarrow> i \<noteq> j \<Longrightarrow>
   sr_attempt (results ! i) \<noteq> sr_attempt (results ! j)"
  by (auto simp: orderly_def in_order_run_def distinct_conv_nth)

lemma run_shipping:
  assumes R: "orderly vf input results" and i: "i < length results"
  shows "shipping_event vf results i = None"
proof (cases "result_capability vf (results ! i) CapShipping")
  case True
  then have ship: "is_shipping (vf_steps vf ! i)" "i < length (vf_steps vf)"
    using run_find [OF R i] i run_length [OF R] by (simp_all add: result_capability_def is_shipping_def)
  obtain w where w: "last_index (writes_at vf) 0 i = Some w" "distinct_gates (vf_steps vf) (vf_grants vf) (Suc w) i"
    by (rule shipping_gated [OF orderlyD(3) [OF R] ship(2,1)])
  obtain a b where g: "gateIndexes (vf_steps vf) (vf_grants vf) (Suc w) i = (a, b)"
    by (cases "gateIndexes (vf_steps vf) (vf_grants vf) (Suc w) i")
  with w(2) obtain r v where rv: "a = Some r" "b = Some v" "r \<noteq> v" by (cases a; cases b) (simp_all add: distinct_gates_def)
  have lw: "last_index (\<lambda>k. result_is_write vf (results ! k)) 0 i = Some w"
    using w(1) last_index_cong [of 0 i "\<lambda>k. result_is_write vf (results ! k)" "writes_at vf"] run_write [OF R] i by simp
  have "last_index (\<lambda>k. result_is_gate vf (results ! k) \<and> result_capability vf (results ! k) CapReview \<and>
      sr_verdict (results ! k) \<noteq> ReviewFail) (Suc w) i = last_index (gate_of vf CapReview) (Suc w) i"
    by (rule last_index_cong) (use run_gate [OF R, of _ CapReview] run_at(3) [OF R] i in auto)
  then have lr: "last_index (\<lambda>k. result_is_gate vf (results ! k) \<and> result_capability vf (results ! k) CapReview \<and>
      sr_verdict (results ! k) \<noteq> ReviewFail) (Suc w) i = Some r"
    using g rv(1) by (simp add: gateIndexes_def gate_of_def [abs_def])
  have "last_index (\<lambda>k. result_is_gate vf (results ! k) \<and> result_capability vf (results ! k) CapVerification) (Suc w) i =
      last_index (gate_of vf CapVerification) (Suc w) i"
    by (rule last_index_cong) (use run_gate [OF R, of _ CapVerification] i in auto)
  then have lv: "last_index (\<lambda>k. result_is_gate vf (results ! k) \<and> result_capability vf (results ! k) CapVerification) (Suc w) i = Some v"
    using g rv(2) by (simp add: gateIndexes_def gate_of_def [abs_def])
  have "r < length results" "v < length results" using lr lv i by (auto simp: last_index_Some)
  then show ?thesis using lw lr lv run_attempt [OF R] run_attempts_differ [OF R] rv(3)
    by (simp add: shipping_event_def attempt_at_def Let_def)
qed (simp add: shipping_event_def)

lemma run_progress:
  assumes R: "orderly vf input results"
  shows "k \<le> length results \<Longrightarrow> progress input results (drop k (vf_steps vf)) =
    Inr (if length results = length (vf_steps vf) then DecisionAdvance else DecisionWait)"
proof (induction "length results - k" arbitrary: k)
  case 0
  then have k: "k = length results" by simp
  show ?case
  proof (cases "length results = length (vf_steps vf)")
    case False
    with run_length [OF R] have lt: "length results < length (vf_steps vf)" by simp
    have "latest_of results (step_id s) = None" if "s \<in> set (drop (length results) (vf_steps vf))" for s
    proof -
      from that obtain j where "j < length (vf_steps vf) - length results" "s = vf_steps vf ! (length results + j)"
        by (auto simp: in_set_conv_nth)
      then show ?thesis using run_latest [OF R, of "length results + j"] by simp
    qed
    moreover have "drop (length results) (vf_steps vf) = vf_steps vf ! length results # drop (Suc (length results)) (vf_steps vf)"
      using lt by (simp add: Cons_nth_drop_Suc)
    ultimately show ?thesis using k False by (simp add: list_ex_iff)
  qed (use k in simp)
next
  case (Suc n)
  then have k: "k < length results" by simp
  have tail: "progress input results (drop (Suc k) (vf_steps vf)) =
      Inr (if length results = length (vf_steps vf) then DecisionAdvance else DecisionWait)"
    by (rule Suc.hyps(1)) (use Suc.hyps(2) k in auto)
  have "drop k (vf_steps vf) = vf_steps vf ! k # drop (Suc k) (vf_steps vf)"
    using k run_length [OF R] by (simp add: Cons_nth_drop_Suc)
  moreover have "latest_of results (step_id (vf_steps vf ! k)) = Some (results ! k)"
    using run_latest [OF R, of k] k run_length [OF R] by simp
  moreover have "hasCapability (vs_contract (vf_steps vf ! k)) CapReview \<Longrightarrow> sr_verdict (results ! k) \<noteq> NoVerdict"
    using validateResult_gates(1) [OF run_at(5) [OF R k] run_at(2) [OF R k]] by auto
  ultimately show ?case using tail run_at(2,3,6) [OF R k] by auto
qed

lemma run_decided:
  assumes R: "orderly vf input results" and "vf_steps vf \<noteq> []"
  shows "Decide vf results input = Inr (if length results = length (vf_steps vf) then DecisionAdvance else DecisionWait)"
proof -
  have "\<not> (\<not> RequiresHumanSession input \<and> list_ex (\<lambda>s. Interactive (vs_contract s)) (vf_steps vf))"
    "length (Expected input) = length results" "RepairEpisodes input = []"
    using orderlyD(1) [OF R] unfolding in_order_run_def by auto
  moreover have "validateShippingEventOrder vf results = None"
    using run_shipping [OF R] by (simp add: validateShippingEventOrder_def first_error_None)
  moreover have "validateRepairEpisodes vf [] results = None" by (simp add: validateRepairEpisodes_def)
  ultimately show ?thesis
    using assms(2) run_bound [OF R] run_ordered [OF R] run_no_retry [OF R, of "vf_steps vf"] run_no_repair [OF R]
      run_independent [OF R] run_progress [OF R, of 0]
    by (simp add: Decide_def)
qed

lemma validated_orderly:
  assumes "Validate valid_re re_match fl bindings context = Inr vf" "in_order_run vf input results"
  shows "orderly vf input results" "vf_steps vf \<noteq> []"
proof -
  have "distinct (map step_id (vf_steps vf))" "vf_steps vf \<noteq> []"
    using Validate_typed(1) [OF assms(1)] by (simp_all add: flow_typed_def)
  moreover have "validateSafetyGates (vf_steps vf) (vf_grants vf) = None" by (rule Validate_parts [OF assms(1)])
  ultimately show "orderly vf input results" "vf_steps vf \<noteq> []" using assms(2) by (auto simp: orderly_def)
qed

text \<open>
  C30: a validated flow can be run. However many steps a run in order has completed, the policy
  accepts it without an error: the decision is to wait while a step of the flow has no result and
  to advance once every step has one. The gates that validation demands are therefore enough for
  the gates that the decision demands.
\<close>

theorem run_in_order_progresses:
  assumes "Validate valid_re re_match fl bindings context = Inr vf" "in_order_run vf input results"
  shows "Decide vf results input = Inr (if length results = length (vf_steps vf) then DecisionAdvance else DecisionWait)"
  by (rule run_decided) (use validated_orderly [OF assms] in auto)

lemma run_in_order_progresses_witness:
  "Decide safe_vf (take 2 good_results) (plain_input (take 2 good_results)) = Inr DecisionWait"
proof -
  have "in_order_run safe_vf (plain_input (take 2 good_results)) (take 2 good_results)"
    by code_simp
  from run_in_order_progresses [OF safe_flow_validates this]
  show ?thesis by (simp add: safe_vf_steps safe_steps_def good_results_def safe_flow_def safe_bindings_def)
qed

end
