(* ===== verification/Drain_Policy.thy ===== *)
theory Drain_Policy
  imports Prelude "HOL-Library.Multiset" "HOL-Library.List_Lexorder" "HOL-Library.Char_ord" "HOL-Library.Product_Lexorder"
begin

text \<open>
  The pure policy of \<^verbatim>\<open>polyforge drain\<close>, the scheduler that runs an agent's queue unattended
  (\<^verbatim>\<open>internal/drain\<close>: \<^verbatim>\<open>drain.go\<close>, \<^verbatim>\<open>select.go\<close>, \<^verbatim>\<open>converge.go\<close> and the
  counters of \<^verbatim>\<open>snapshot.go\<close>): the order in which candidates are claimed, the frozen set of a
  round, what counts as executed, when a queue diverges, how a run ends and its exit code.
  Go's \<^verbatim>\<open>int\<close> counters stay far below their width and are \<open>nat\<close> or \<open>int\<close>.
\<close>

section \<open>Outcomes (drain.go)\<close>

datatype terminal =
    TerminalCompleted
  | TerminalIdle
  | TerminalBlockedExternal
  | TerminalFailed
  | OtherTerminal string

definition ExitCode :: "terminal \<Rightarrow> nat" where
  "ExitCode t =
     (case t of
        TerminalCompleted \<Rightarrow> 0
      | TerminalIdle \<Rightarrow> 10
      | TerminalBlockedExternal \<Rightarrow> 11
      | TerminalFailed \<Rightarrow> 12
      | OtherTerminal s \<Rightarrow> 2)"

datatype stop_reason =
    StopQueueDrained
  | StopNothingClaimable
  | StopDivergence
  | StopMaxRounds
  | StopMaxWorkItems
  | StopMaxDuration
  | StopCancelled

text \<open>\<open>NoResult\<close> is the empty string an executor may hand back.\<close>

datatype result =
    NoResult
  | ResultWrapped
  | ResultFailed
  | ResultLockBlocked
  | ResultPaused
  | ResultClaimFailed
  | ResultCancelled

definition Executed :: "result \<Rightarrow> bool" where
  "Executed r = (r = ResultWrapped \<or> r = ResultFailed \<or> r = ResultPaused \<or> r = ResultCancelled)"

definition NeedsHuman :: "result \<Rightarrow> bool" where
  "NeedsHuman r = (r = ResultFailed \<or> r = ResultCancelled)"

record candidate =
  cd_id :: string
  cd_slug :: string
  cd_priority :: string
  cd_created :: string
  cd_rhs :: "bool option"

text \<open>Who refused a lock: the holder's work item (its slug) and run attempt, as far as named.\<close>

record blocker =
  bl_work_item :: string
  bl_attempt :: string

record wi_outcome =
  oc_candidate :: candidate
  oc_result :: result
  oc_steps :: nat
  oc_retry :: bool

section \<open>Selection (select.go)\<close>

definition priorityRank :: "string \<Rightarrow> nat" where
  "priorityRank p =
     (if p = ''urgent'' then 0 else if p = ''high'' then 1 else if p = ''normal'' then 2
      else if p = ''low'' then 3 else 4)"

text \<open>The comparison of \<^verbatim>\<open>OrderCandidates\<close>; a missing date sorts last within its priority.\<close>

definition queue_before :: "candidate \<Rightarrow> candidate \<Rightarrow> bool" where
  "queue_before a b =
     (if priorityRank (cd_priority a) \<noteq> priorityRank (cd_priority b)
      then priorityRank (cd_priority a) < priorityRank (cd_priority b)
      else if (cd_created a = []) \<noteq> (cd_created b = []) then cd_created b = []
      else if cd_created a \<noteq> cd_created b then cd_created a < cd_created b
      else cd_id a < cd_id b)"

text \<open>A stable sort by that comparison, written as the stable sort by the key it compares.\<close>

definition queue_key :: "candidate \<Rightarrow> nat \<times> bool \<times> string \<times> string" where
  "queue_key c = (priorityRank (cd_priority c), cd_created c = [], cd_created c, cd_id c)"

lemma queue_before_key: "queue_before a b \<longleftrightarrow> queue_key a < queue_key b"
  by (simp add: queue_before_def queue_key_def) (auto simp: less_le)

definition OrderCandidates :: "candidate list \<Rightarrow> candidate list" where
  "OrderCandidates cs = sort_key queue_key cs"

definition FreezeRound :: "candidate list \<Rightarrow> int \<Rightarrow> candidate list" where
  "FreezeRound candidates limit =
     (let ordered = OrderCandidates candidates in
      if limit > 0 \<and> int (length ordered) > limit then take (nat limit) ordered else ordered)"

definition IDSet :: "candidate list \<Rightarrow> string list" where
  "IDSet cs = map cd_id cs"

definition CountCreatedDuringRound :: "string list \<Rightarrow> candidate list \<Rightarrow> nat" where
  "CountCreatedDuringRound before after = length (filter (\<lambda>c. cd_id c \<notin> set before) after)"

definition filterSkipped :: "candidate list \<Rightarrow> string list \<Rightarrow> candidate list" where
  "filterSkipped cs skipped = filter (\<lambda>c. cd_id c \<notin> set skipped) cs"

section \<open>Convergence (converge.go)\<close>

record round_tally =
  rt_completed :: nat
  rt_failed :: nat
  rt_lock_blocked :: nat
  rt_paused :: nat
  rt_cancelled :: nat
  rt_created :: nat

definition Attempted :: "round_tally \<Rightarrow> nat" where
  "Attempted t = rt_completed t + rt_failed t + rt_lock_blocked t + rt_paused t + rt_cancelled t"

definition Diverging :: "round_tally \<Rightarrow> bool" where
  "Diverging t \<longleftrightarrow> rt_created t > 0 \<and> rt_created t \<ge> rt_completed t"

record blocker_ref =
  br_id :: string
  br_slug :: string

definition Display :: "blocker_ref \<Rightarrow> string" where
  "Display b = (if br_slug b \<noteq> [] then br_slug b else if br_id b \<noteq> [] then br_id b else ''(unnamed blocker)'')"

definition Notifiable :: "blocker_ref \<Rightarrow> bool" where
  "Notifiable b \<longleftrightarrow> br_id b \<noteq> []"

record blocked_item =
  bi_work_item :: string
  bi_slug :: string
  bi_blockers :: "blocker_ref list"

definition BlockerNames :: "blocked_item \<Rightarrow> string list" where
  "BlockerNames b = map Display (bi_blockers b)"

record queue_state =
  qs_executable :: nat
  qs_blocked_by_mine :: nat
  qs_external :: "blocked_item list"
  qs_running :: nat
  qs_paused :: nat
  qs_needs_human :: "candidate list"

definition BlockedByOthers :: "queue_state \<Rightarrow> nat" where
  "BlockedByOthers q = length (qs_external q)"

definition Empty :: "queue_state \<Rightarrow> bool" where
  "Empty q \<longleftrightarrow> qs_executable q = 0 \<and> qs_blocked_by_mine q = 0 \<and> BlockedByOthers q = 0 \<and>
     qs_running q = 0 \<and> qs_paused q = 0 \<and> length (qs_needs_human q) = 0"

definition Classify :: "bool \<Rightarrow> queue_state \<Rightarrow> terminal" where
  "Classify anyFailed q =
     (if anyFailed then TerminalFailed
      else if BlockedByOthers q > 0 \<or> length (qs_needs_human q) > 0 then TerminalBlockedExternal
      else if \<not> Empty q then TerminalIdle
      else TerminalCompleted)"

record budget =
  MaxRounds :: int
  MaxWorkItems :: int
  MaxParallel :: int

definition DefaultMaxParallel :: int where
  "DefaultMaxParallel = 8"

definition Parallelism :: "budget \<Rightarrow> int" where
  "Parallelism b = (if MaxParallel b \<le> 0 then DefaultMaxParallel else MaxParallel b)"

definition RemainingWorkItems :: "budget \<Rightarrow> nat \<Rightarrow> int" where
  "RemainingWorkItems b used =
     (if MaxWorkItems b \<le> 0 then -1 else if int used \<ge> MaxWorkItems b then 0 else MaxWorkItems b - int used)"

section \<open>Counters (snapshot.go)\<close>

record totals =
  tt_wrapped :: nat
  tt_failed :: nat
  tt_lock_blocked :: nat
  tt_paused :: nat
  tt_claim_failed :: nat
  tt_cancelled :: nat
  tt_created :: nat
  tt_rounds :: nat

definition no_totals :: totals where
  "no_totals = \<lparr> tt_wrapped = 0, tt_failed = 0, tt_lock_blocked = 0, tt_paused = 0, tt_claim_failed = 0,
     tt_cancelled = 0, tt_created = 0, tt_rounds = 0 \<rparr>"

definition Add :: "totals \<Rightarrow> result \<Rightarrow> totals" where
  "Add t r =
     (case r of
        ResultWrapped \<Rightarrow> t\<lparr> tt_wrapped := Suc (tt_wrapped t) \<rparr>
      | ResultFailed \<Rightarrow> t\<lparr> tt_failed := Suc (tt_failed t) \<rparr>
      | ResultLockBlocked \<Rightarrow> t\<lparr> tt_lock_blocked := Suc (tt_lock_blocked t) \<rparr>
      | ResultPaused \<Rightarrow> t\<lparr> tt_paused := Suc (tt_paused t) \<rparr>
      | ResultClaimFailed \<Rightarrow> t\<lparr> tt_claim_failed := Suc (tt_claim_failed t) \<rparr>
      | ResultCancelled \<Rightarrow> t\<lparr> tt_cancelled := Suc (tt_cancelled t) \<rparr>
      | NoResult \<Rightarrow> t)"

section \<open>Facts about selection\<close>

lemma set_OrderCandidates [simp]: "set (OrderCandidates cs) = set cs" "length (OrderCandidates cs) = length cs"
  by (simp_all add: OrderCandidates_def)

text \<open>The order is total on candidates with different ids, so it does not depend on the listing.\<close>

lemma queue_key_inj: "inj_on cd_id (set cs) \<Longrightarrow> inj_on queue_key (set cs)"
  by (auto simp: inj_on_def queue_key_def)

lemma OrderCandidates_unique:
  assumes "mset cs = mset ds" "inj_on cd_id (set cs)"
  shows "OrderCandidates cs = OrderCandidates ds"
proof -
  have "sort_key queue_key cs = sort_key queue_key ds"
    by (rule sort_key_inj_key_eq) (use assms queue_key_inj in auto)
  then show ?thesis by (simp add: OrderCandidates_def)
qed

lemma FreezeRound_sublist:
  "FreezeRound cs m = take (length (FreezeRound cs m)) (OrderCandidates cs)"
  "0 < m \<Longrightarrow> int (length (FreezeRound cs m)) \<le> m"
  "set (FreezeRound cs m) \<subseteq> set cs"
  by (auto simp: FreezeRound_def Let_def dest: in_set_takeD)

lemma sorted_FreezeRound: "sorted (map queue_key (FreezeRound cs m))"
  by (simp add: FreezeRound_def Let_def OrderCandidates_def take_map [symmetric] sorted_wrt_take)

lemma FreezeRound_Nil: "m \<noteq> 0 \<Longrightarrow> FreezeRound cs m = [] \<longleftrightarrow> cs = []"
  by (auto simp: FreezeRound_def Let_def) (metis length_0_conv set_OrderCandidates(2))+

lemma set_filterSkipped: "c \<in> set (filterSkipped cs skipped) \<longleftrightarrow> c \<in> set cs \<and> cd_id c \<notin> set skipped"
  by (simp add: filterSkipped_def)

lemma Classify_completed: "Classify f q = TerminalCompleted \<longleftrightarrow> \<not> f \<and> Empty q"
  by (auto simp: Classify_def Empty_def)

lemma ExitCode_0: "ExitCode t = 0 \<longleftrightarrow> t = TerminalCompleted"
  by (cases t) (simp_all add: ExitCode_def)

end
