(* ===== verification/Step_Bracket.thy ===== *)
theory Step_Bracket
  imports Prelude
begin

text \<open>
  What every orchestrator of steps shares (\<^verbatim>\<open>internal/engine\<close>): the calls that end one step
  and start the next (\<^verbatim>\<open>bracket.go\<close>), the verdict marker of a review step
  (\<^verbatim>\<open>review.go\<close>) and the role of a step (\<^verbatim>\<open>role.go\<close>, with the lookups of
  \<^verbatim>\<open>internal/roles\<close>). Strings are the bytes of valid UTF-8.
\<close>

section \<open>The bracket of a step (bracket.go)\<close>

record step_call =
  sl_tool :: string
  sl_step :: string
  sl_status :: string
  sl_step_attempt :: string
  sl_next_step :: string
  sl_next_attempt :: string
  sl_summary :: string
  sl_error_type :: string

record bracket_input =
  bk_step :: string
  bk_step_attempt :: string
  bk_status :: string
  bk_summary :: string
  bk_error_type :: string
  bk_next_step :: string
  bk_next_attempt :: string
  bk_supports_next :: bool

definition PlanStepBracket :: "bracket_input \<Rightarrow> step_call list" where
  "PlanStepBracket b =
     (if bk_status b = ''failed'' then
        [\<lparr> sl_tool = ''pf_update_step'', sl_step = bk_step b, sl_status = ''failed'', sl_step_attempt = bk_step_attempt b,
           sl_next_step = [], sl_next_attempt = [], sl_summary = [], sl_error_type = bk_error_type b \<rparr>]
      else
        (let completing = \<lparr> sl_tool = ''pf_update_step'', sl_step = bk_step b, sl_status = ''completed'',
               sl_step_attempt = bk_step_attempt b, sl_next_step = [], sl_next_attempt = [],
               sl_summary = bk_summary b, sl_error_type = [] \<rparr> in
         if bk_next_step b = [] then [completing]
         else if bk_supports_next b then
           [completing\<lparr> sl_next_step := bk_next_step b, sl_next_attempt := bk_next_attempt b \<rparr>]
         else
           [completing,
            \<lparr> sl_tool = ''pf_update_step'', sl_step = bk_next_step b, sl_status = ''in_progress'',
              sl_step_attempt = bk_next_attempt b, sl_next_step = [], sl_next_attempt = [],
              sl_summary = [], sl_error_type = [] \<rparr>]))"

section \<open>Review steps (review.go, role.go)\<close>

definition IsReviewStep :: "string \<Rightarrow> bool" where
  "IsReviewStep stepID \<longleftrightarrow>
     has_suffix stepID ''_review'' \<or> stepID = ''review'' \<or> stepID = ''code_review'' \<or> stepID = ''release_review''"

datatype marker_result = MarkerPass | MarkerWarn | MarkerFail

text \<open>
  The regular expression \<^verbatim>\<open><!--\s*REVIEW_RESULT:\s*(PASS|WARN|FAIL)\s*-->\<close> at the head of a text.
  A match holds no second \<^verbatim>\<open><\<close>, so the matches are the positions at which it matches.
\<close>

definition regex_space :: "char \<Rightarrow> bool" where
  "regex_space c \<longleftrightarrow> (of_char c :: nat) \<in> {9, 10, 12, 13, 32}"

definition after_prefix :: "string \<Rightarrow> string \<Rightarrow> string option" where
  "after_prefix p s = (if has_prefix s p then Some (drop (length p) s) else None)"

definition marker_word :: "string \<Rightarrow> (marker_result \<times> string) option" where
  "marker_word s =
     (case after_prefix ''PASS'' s of
        Some t \<Rightarrow> Some (MarkerPass, t)
      | None \<Rightarrow>
          (case after_prefix ''WARN'' s of
             Some t \<Rightarrow> Some (MarkerWarn, t)
           | None \<Rightarrow> (case after_prefix ''FAIL'' s of Some t \<Rightarrow> Some (MarkerFail, t) | None \<Rightarrow> None)))"

definition marker_at :: "string \<Rightarrow> marker_result option" where
  "marker_at s =
     (case after_prefix ''<!--'' s of
        None \<Rightarrow> None
      | Some t \<Rightarrow>
          (case after_prefix ''REVIEW_RESULT:'' (dropWhile regex_space t) of
             None \<Rightarrow> None
           | Some u \<Rightarrow>
               (case marker_word (dropWhile regex_space u) of
                  None \<Rightarrow> None
                | Some (r, v) \<Rightarrow> if has_prefix (dropWhile regex_space v) ''-->'' then Some r else None)))"

fun review_markers :: "string \<Rightarrow> marker_result list" where
  "review_markers [] = []"
| "review_markers (c # cs) =
     (case marker_at (c # cs) of Some r \<Rightarrow> r # review_markers cs | None \<Rightarrow> review_markers cs)"

definition ParseReviewResult :: "string \<Rightarrow> marker_result" where
  "ParseReviewResult output =
     (case review_markers output of [] \<Rightarrow> MarkerWarn | matches \<Rightarrow> last matches)"

section \<open>Roles (role.go, roles.go)\<close>

record role =
  rl_name :: string
  rl_read_only :: bool
  rl_step_ids :: "string list"

definition RoleByName :: "role list \<Rightarrow> string \<Rightarrow> role option" where
  "RoleByName roleList name = find (\<lambda>r. rl_name r = name) roleList"

definition RoleForStepID :: "role list \<Rightarrow> string \<Rightarrow> role option" where
  "RoleForStepID roleList stepID = find (\<lambda>r. list_ex (\<lambda>i. i = stepID) (rl_step_ids r)) roleList"

datatype role_source = RoleSourceDeclared | RoleSourceCatalog | RoleSourceHeuristic

text \<open>The role, its source and the declared name when the catalog does not know it; \<open>None\<close> is the error.\<close>

definition ResolveRole :: "role list \<Rightarrow> string \<Rightarrow> string \<Rightarrow> (role \<times> role_source \<times> string) option" where
  "ResolveRole catalog stepID declaredRole =
     (case (if declaredRole = [] then None else RoleByName catalog declaredRole) of
        Some r \<Rightarrow> Some (r, RoleSourceDeclared, [])
      | None \<Rightarrow>
          (case RoleForStepID catalog stepID of
             Some r \<Rightarrow> Some (r, RoleSourceCatalog, declaredRole)
           | None \<Rightarrow>
               (case RoleByName catalog (if IsReviewStep stepID then ''reviewer'' else ''executor'') of
                  Some r \<Rightarrow> Some (r, RoleSourceHeuristic, declaredRole)
                | None \<Rightarrow> None)))"

end
