(* ===== verification/Drain_Item.thy ===== *)
theory Drain_Item
  imports Drain_Policy Step_Bracket
begin

text \<open>
  One work item under \<^verbatim>\<open>polyforge drain\<close> (\<^verbatim>\<open>executeWorkItem\<close> of
  \<^verbatim>\<open>internal/drain/runner.go\<close> after its claim, and what it reads off the text of a step agent).
  What the outside answers is an argument: \<open>item_env\<close> holds the answers to the calls of one work
  item, \<open>dispatch_answer\<close> what a harness process gave back. The calls to the hub are recorded in
  order. Log lines and the snapshot's list of active items are not modelled.
\<close>

section \<open>Reading a step agent's output\<close>

text \<open>
  \<^verbatim>\<open>strings.ToLower\<close> for a search for ASCII text: only two letters outside ASCII have an ASCII
  lower case, the dotted capital I and the Kelvin sign.
\<close>

definition lower_char :: "char \<Rightarrow> char" where
  "lower_char c = (let n = (of_char c :: nat) in if 65 \<le> n \<and> n \<le> 90 then char_of (n + 32) else c)"

fun to_lower :: "string \<Rightarrow> string" where
  "to_lower [] = []"
| "to_lower (a # s) =
     (if of_char a = (196 :: nat) \<and> has_prefix s [char_of (176 :: nat)] then CHR ''i'' # to_lower (drop 1 s)
      else if of_char a = (226 :: nat) \<and> has_prefix s [char_of (132 :: nat), char_of (170 :: nat)] then CHR ''k'' # to_lower (drop 2 s)
      else lower_char a # to_lower s)"

text \<open>
  \<^verbatim>\<open>StripANSI\<close>: the length of the escape sequence at the head of a text, a control sequence, an
  operating system command up to its terminator, or a two-byte escape, tried in that order.
\<close>

definition csi_length :: "string \<Rightarrow> nat option" where
  "csi_length s =
     (if has_prefix s [char_of (27 :: nat), CHR ''['']
      then
        (let params = takeWhile (\<lambda>c. (48 \<le> (of_char c :: nat) \<and> (of_char c :: nat) \<le> 57) \<or> c = CHR '';'' \<or> c = CHR ''?'') (drop 2 s);
             rest = drop (2 + length params) s;
             inter = takeWhile (\<lambda>c. 32 \<le> (of_char c :: nat) \<and> (of_char c :: nat) \<le> 47) rest in
         case drop (length inter) rest of
           c # t \<Rightarrow> if 64 \<le> (of_char c :: nat) \<and> (of_char c :: nat) \<le> 126 then Some (3 + length params + length inter) else None
         | [] \<Rightarrow> None)
      else None)"

definition osc_length :: "string \<Rightarrow> nat option" where
  "osc_length s =
     (if has_prefix s [char_of (27 :: nat), CHR '']'']
      then
        (let body = takeWhile (\<lambda>c. (of_char c :: nat) \<noteq> 7 \<and> (of_char c :: nat) \<noteq> 27) (drop 2 s);
             rest = drop (2 + length body) s in
         if has_prefix rest [char_of (7 :: nat)] then Some (3 + length body)
         else if has_prefix rest [char_of (27 :: nat), CHR 0x5C] then Some (4 + length body)
         else None)
      else None)"

definition esc_length :: "string \<Rightarrow> nat option" where
  "esc_length s =
     (case s of
        a # b # t \<Rightarrow>
          if of_char a = (27 :: nat) \<and> 64 \<le> (of_char b :: nat) \<and> (of_char b :: nat) \<le> 95 \<and> (of_char b :: nat) \<noteq> 91
          then Some 2 else None
      | _ \<Rightarrow> None)"

definition ansi_length :: "string \<Rightarrow> nat option" where
  "ansi_length s =
     (case csi_length s of
        Some n \<Rightarrow> Some n
      | None \<Rightarrow> (case osc_length s of Some n \<Rightarrow> Some n | None \<Rightarrow> esc_length s))"

fun strip_ansi :: "nat \<Rightarrow> string \<Rightarrow> string" where
  "strip_ansi k [] = []"
| "strip_ansi (Suc k) (c # s) = strip_ansi k s"
| "strip_ansi 0 (c # s) =
     (case ansi_length (c # s) of Some n \<Rightarrow> strip_ansi (n - 1) s | None \<Rightarrow> c # strip_ansi 0 s)"

definition StripANSI :: "string \<Rightarrow> string" where
  "StripANSI s = strip_ansi 0 s"

fun split_lines :: "string \<Rightarrow> string list" where
  "split_lines [] = [[]]"
| "split_lines (c # s) =
     (if c = CHR 0x0A then [] # split_lines s
      else (case split_lines s of l # ls \<Rightarrow> (c # l) # ls | [] \<Rightarrow> [[c]]))"

definition lastMeaningfulLine :: "string \<Rightarrow> string" where
  "lastMeaningfulLine s =
     (case find (\<lambda>l. trim_space (StripANSI l) \<noteq> []) (rev (split_lines s)) of None \<Rightarrow> [] | Some l \<Rightarrow> l)"

definition continuation_byte :: "char \<Rightarrow> bool" where
  "continuation_byte c \<longleftrightarrow> (of_char c :: nat) div 64 = 2"

fun take_runes :: "nat \<Rightarrow> string \<Rightarrow> string" where
  "take_runes n [] = []"
| "take_runes n (c # s) =
     (if continuation_byte c then c # take_runes n s
      else (case n of 0 \<Rightarrow> [] | Suc m \<Rightarrow> c # take_runes m s))"

definition SummaryLine :: "string \<Rightarrow> string" where
  "SummaryLine output =
     (let line = trim_space (lastMeaningfulLine output);
          short = (if length line > 500 then take_runes 500 line else line) in
      if short = [] then ''(step produced no summary line)'' else short)"

definition DetectPause :: "string \<Rightarrow> bool" where
  "DetectPause output =
     list_ex (str_contains (to_lower output)) [''pf_pause_attempt'', ''attempt is paused'', ''attempt_paused'']"

definition IsAuthFailure :: "string \<Rightarrow> bool" where
  "IsAuthFailure output =
     list_ex (str_contains (to_lower output))
       [''401'', ''unauthorized'', ''invalid api key'', ''invalid x-api-key'', ''authentication_error'',
        ''missing bearer'', ''oauth token has expired'', ''please run '' @ [CHR 0x60] @ ''claude login'' @ [CHR 0x60]]"

definition IsAgentNotFound :: "string \<Rightarrow> bool" where
  "IsAgentNotFound output =
     list_ex (\<lambda>line. str_contains (to_lower line) ''not found. available agents:'' \<or>
                str_contains (to_lower line) ''--agent'' \<and> str_contains (to_lower line) ''not found'')
       (split_lines (StripANSI output))"

definition AgentFellBackToDefault :: "string \<Rightarrow> bool" where
  "AgentFellBackToDefault output = str_contains (to_lower (StripANSI output)) ''falling back to default agent''"

section \<open>Dispatching a step\<close>

text \<open>What an error wraps, as far as the loop asks.\<close>

datatype fault = NoFault | NoReadOnlyCapability | AuthFault | OtherFault

record dispatch_answer =
  da_output :: string
  da_exit :: fault
  da_err :: fault

datatype step_verdict =
    StepOK
  | StepFailed
  | StepAuthFailure
  | StepSilentRefusal
  | StepChannelUnsuitable
  | StepAgentSelectorRefused

definition ClassifyStepDispatch :: "dispatch_answer \<Rightarrow> step_verdict" where
  "ClassifyStepDispatch a =
     (if da_err a = NoReadOnlyCapability \<or> da_exit a = NoReadOnlyCapability then StepChannelUnsuitable
      else if da_err a \<noteq> NoFault \<or> da_exit a \<noteq> NoFault then
        (if \<not> IsAuthFailure (da_output a) \<and> IsAgentNotFound (da_output a) then StepAgentSelectorRefused
         else if IsAuthFailure (da_output a) \<or> da_err a = AuthFault \<or> da_exit a = AuthFault then StepAuthFailure
         else StepFailed)
      else if trim_space (da_output a) = [] then StepSilentRefusal
      else StepOK)"

text \<open>\<^verbatim>\<open>demoteChannel\<close>: whether a channel is left, and the index of the channel in use.\<close>

definition demoteChannel :: "nat \<Rightarrow> nat \<Rightarrow> nat \<Rightarrow> bool \<times> nat" where
  "demoteChannel channels chanIdx failedIdx =
     (if chanIdx \<noteq> failedIdx then (True, chanIdx)
      else if chanIdx + 1 \<ge> channels then (False, chanIdx)
      else (True, chanIdx + 1))"

text \<open>
  \<^verbatim>\<open>dispatchWithFallback\<close> from the channel in use, as one worker runs it: the answer of the
  harness depends on the channel and on whether the agent selector is suppressed. The result is the
  output that was accepted, if any, and the channel in use afterwards.
\<close>

function dispatchWithFallback ::
  "nat \<Rightarrow> (nat \<Rightarrow> bool \<Rightarrow> dispatch_answer) \<Rightarrow> bool \<Rightarrow> nat \<Rightarrow> bool \<Rightarrow> string option \<times> nat" where
  "dispatchWithFallback channels ask readOnly chanIdx noSelector =
     (let a = ask chanIdx noSelector in
      case ClassifyStepDispatch a of
        StepOK \<Rightarrow> (if AgentFellBackToDefault (da_output a) \<and> readOnly then None else Some (da_output a), chanIdx)
      | StepAgentSelectorRefused \<Rightarrow>
          (if noSelector then (None, chanIdx) else dispatchWithFallback channels ask readOnly chanIdx True)
      | StepSilentRefusal \<Rightarrow> (None, chanIdx)
      | StepFailed \<Rightarrow> (None, chanIdx)
      | _ \<Rightarrow>
          (case demoteChannel channels chanIdx chanIdx of
             (True, next_idx) \<Rightarrow> dispatchWithFallback channels ask readOnly next_idx noSelector
           | (False, _) \<Rightarrow> (None, chanIdx)))"
  by pat_completeness auto
termination
  by (relation "measure (\<lambda>(channels, ask, readOnly, chanIdx, noSelector). 2 * (channels - chanIdx) + (if noSelector then 0 else 1))")
     (auto simp: demoteChannel_def split: if_splits)

declare dispatchWithFallback.simps [simp del]

section \<open>Running a claimed work item\<close>

datatype update_answer = UpdateOk | UpdatePaused | UpdateFailed

datatype workflow_answer =
    NoWorkflowHook
  | WorkflowRefused
  | LegacyWorkflow
  | PinnedWithoutExecutor
  | PinnedFailed nat
  | PinnedDone result nat

record item_env =
  ie_workflow :: workflow_answer
  ie_startup :: "string list option"
  ie_ulid :: "nat \<Rightarrow> string"
  ie_update :: "nat \<Rightarrow> update_answer"
  ie_cancelled :: "nat \<Rightarrow> bool"
  ie_read_only :: "nat \<Rightarrow> bool option"
  ie_channels :: nat
  ie_channel :: "nat \<Rightarrow> nat"
  ie_dispatch :: "nat \<Rightarrow> nat \<Rightarrow> bool \<Rightarrow> dispatch_answer"
  ie_attempt_paused :: "nat \<Rightarrow> bool option option"
  ie_wrap :: bool

datatype hub_call = CallUpdate step_call | CallComplete string

text \<open>\<^verbatim>\<open>confirmPaused\<close>: without the hook, or when the server cannot say, the pause is believed.\<close>

definition confirmPaused :: "item_env \<Rightarrow> nat \<Rightarrow> bool" where
  "confirmPaused e i = (case ie_attempt_paused e i of None \<Rightarrow> True | Some None \<Rightarrow> True | Some (Some paused) \<Rightarrow> paused)"

definition updates_made :: "hub_call list \<Rightarrow> nat" where
  "updates_made calls = length (filter (\<lambda>c. case c of CallUpdate u \<Rightarrow> True | CallComplete s \<Rightarrow> False) calls)"

text \<open>The calls of a plan, in order, up to the first that is refused.\<close>

fun make_calls :: "item_env \<Rightarrow> step_call list \<Rightarrow> hub_call list \<Rightarrow> update_answer \<times> hub_call list" where
  "make_calls e [] calls = (UpdateOk, calls)"
| "make_calls e (u # us) calls =
     (case ie_update e (updates_made calls) of
        UpdateOk \<Rightarrow> make_calls e us (calls @ [CallUpdate u])
      | refused \<Rightarrow> (refused, calls @ [CallUpdate u]))"

definition failAttempt :: "nat \<Rightarrow> hub_call list \<Rightarrow> result \<times> nat \<times> hub_call list" where
  "failAttempt steps calls = (ResultFailed, steps, calls @ [CallComplete ''failed''])"

fun run_steps :: "item_env \<Rightarrow> nat \<Rightarrow> string \<Rightarrow> string list \<Rightarrow> hub_call list \<Rightarrow> result \<times> nat \<times> hub_call list" where
  "run_steps e i sa [] calls =
     (if ie_wrap e then ResultWrapped else ResultFailed, i, calls @ [CallComplete ''wrapped''])"
| "run_steps e i sa (step # steps) calls =
     (if ie_cancelled e i then (ResultCancelled, i, calls)
      else
        (case ie_read_only e i of
           None \<Rightarrow> failAttempt i calls
         | Some readOnly \<Rightarrow>
             (case fst (dispatchWithFallback (ie_channels e) (ie_dispatch e i) readOnly (ie_channel e i) False) of
                None \<Rightarrow> failAttempt i calls
              | Some output \<Rightarrow>
                  (if DetectPause output \<and> confirmPaused e i then (ResultPaused, i, calls)
                   else if IsReviewStep step \<and> ParseReviewResult output = MarkerFail then
                     failAttempt i (calls @ map CallUpdate (PlanStepBracket
                       \<lparr> bk_step = step, bk_step_attempt = sa, bk_status = ''failed'', bk_summary = [],
                         bk_error_type = ''review_fail'', bk_next_step = [], bk_next_attempt = [], bk_supports_next = False \<rparr>))
                   else
                     (let nextID = (case steps of [] \<Rightarrow> [] | s # _ \<Rightarrow> s);
                          nextSA = (case steps of [] \<Rightarrow> [] | s # _ \<Rightarrow> ie_ulid e (Suc i)) in
                      case make_calls e (PlanStepBracket
                             \<lparr> bk_step = step, bk_step_attempt = sa, bk_status = ''completed'',
                               bk_summary = SummaryLine output, bk_error_type = [], bk_next_step = nextID,
                               bk_next_attempt = nextSA, bk_supports_next = True \<rparr>) calls of
                        (UpdateOk, calls') \<Rightarrow> run_steps e (Suc i) nextSA steps calls'
                      | (UpdatePaused, calls') \<Rightarrow> (ResultPaused, i, calls')
                      | (UpdateFailed, calls') \<Rightarrow> failAttempt i calls')))))"

definition run_legacy :: "item_env \<Rightarrow> result \<times> nat \<times> hub_call list" where
  "run_legacy e =
     (case ie_startup e of
        None \<Rightarrow> failAttempt 0 []
      | Some [] \<Rightarrow> failAttempt 0 []
      | Some (step # steps) \<Rightarrow>
          (let saID = ie_ulid e 0;
               opening = \<lparr> sl_tool = ''pf_update_step'', sl_step = step, sl_status = ''in_progress'',
                 sl_step_attempt = saID, sl_next_step = [], sl_next_attempt = [], sl_summary = [], sl_error_type = [] \<rparr> in
           case make_calls e [opening] [] of
             (UpdateOk, calls) \<Rightarrow> run_steps e 0 saID (step # steps) calls
           | (UpdatePaused, calls) \<Rightarrow> (ResultPaused, 0, calls)
           | (UpdateFailed, calls) \<Rightarrow> failAttempt 0 calls))"

text \<open>\<^verbatim>\<open>executeWorkItem\<close> from the moment its claim is granted.\<close>

definition execute_claimed :: "item_env \<Rightarrow> result \<times> nat \<times> hub_call list" where
  "execute_claimed e =
     (case ie_workflow e of
        WorkflowRefused \<Rightarrow> (ResultFailed, 0, [])
      | PinnedWithoutExecutor \<Rightarrow> (ResultFailed, 0, [])
      | PinnedFailed steps \<Rightarrow> (ResultFailed, steps, [])
      | PinnedDone r steps \<Rightarrow> (if r = NoResult then ResultFailed else r, steps, [])
      | _ \<Rightarrow> run_legacy e)"

end
