(* ===== verification/Drain_Run.thy ===== *)
theory Drain_Run
  imports Drain_Item
begin

text \<open>
  The loop of \<^verbatim>\<open>polyforge drain\<close> (\<^verbatim>\<open>Run\<close> and \<^verbatim>\<open>executeRound\<close> of
  \<^verbatim>\<open>internal/drain/runner.go\<close>). The workers of a round run concurrently: a round is a
  sequence of events, each one worker passing from one phase of its work item to the next, and a
  schedule is valid when every event is possible where it stands. The answers of the hub, of the
  harnesses and of the clock are arguments: \<open>claim_answer\<close> and \<open>item_env\<close> for a work item, \<open>round_env\<close>
  for what one pass of the loop asks.
\<close>

section \<open>A round\<close>

datatype claim_answer =
    ClaimLockTaken "blocker option"
  | ClaimNotSupported
  | ClaimRefused
  | ClaimGranted string

datatype phase =
    Waiting
  | Claiming
  | Running string
  | Leaving wi_outcome
  | Finished wi_outcome

record round_state =
  rs_phases :: "phase list"
  rs_live_attempts :: "string list"
  rs_live_candidates :: "string list"

datatype round_event =
    StartNext bool
  | ClaimReturned nat claim_answer
  | ItemExecuted nat item_env
  | WorkerFreed nat

text \<open>\<open>registerCandidate\<close> and \<open>registerAttempt\<close> with the functions they return; the registries are sets of non-empty keys.\<close>

definition candidate_keys :: "candidate \<Rightarrow> string list" where
  "candidate_keys c = filter (\<lambda>k. k \<noteq> []) [cd_id c, cd_slug c]"

definition forget :: "string list \<Rightarrow> string list \<Rightarrow> string list" where
  "forget ks reg = filter (\<lambda>k. k \<notin> set ks) reg"

definition heldByThisRun :: "round_state \<Rightarrow> blocker option \<Rightarrow> bool" where
  "heldByThisRun st b =
     (case b of
        None \<Rightarrow> False
      | Some bl \<Rightarrow>
          bl_attempt bl \<noteq> [] \<and> bl_attempt bl \<in> set (rs_live_attempts st) \<or>
          bl_work_item bl \<noteq> [] \<and> bl_work_item bl \<in> set (rs_live_candidates st))"

definition plain_outcome :: "candidate \<Rightarrow> result \<Rightarrow> wi_outcome" where
  "plain_outcome c r = \<lparr> oc_candidate = c, oc_result = r, oc_steps = 0, oc_retry = False \<rparr>"

definition busy :: "phase \<Rightarrow> bool" where
  "busy p = (case p of Waiting \<Rightarrow> False | Finished oc \<Rightarrow> False | _ \<Rightarrow> True)"

definition next_waiting :: "phase list \<Rightarrow> nat option" where
  "next_waiting ps = find (\<lambda>i. ps ! i = Waiting) [0..<length ps]"

definition enter_phase :: "nat \<Rightarrow> phase \<Rightarrow> round_state \<Rightarrow> round_state" where
  "enter_phase i p st = st\<lparr> rs_phases := (rs_phases st)[i := p] \<rparr>"

text \<open>
  The claim: a refusal is decided with the registries as they are, and the worker still holds its
  candidate's registration until it leaves.
\<close>

definition claim_returned :: "candidate \<Rightarrow> nat \<Rightarrow> claim_answer \<Rightarrow> round_state \<Rightarrow> round_state" where
  "claim_returned c i a st =
     (case a of
        ClaimLockTaken b \<Rightarrow>
          enter_phase i (Leaving ((plain_outcome c ResultLockBlocked)\<lparr> oc_retry := heldByThisRun st b \<rparr>)) st
      | ClaimNotSupported \<Rightarrow> enter_phase i (Leaving (plain_outcome c ResultFailed)) st
      | ClaimRefused \<Rightarrow> enter_phase i (Leaving (plain_outcome c ResultClaimFailed)) st
      | ClaimGranted att \<Rightarrow>
          enter_phase i (Running att)
            (if att = [] then st else st\<lparr> rs_live_attempts := att # rs_live_attempts st \<rparr>))"

definition item_executed :: "candidate \<Rightarrow> nat \<Rightarrow> string \<Rightarrow> item_env \<Rightarrow> round_state \<Rightarrow> round_state" where
  "item_executed c i att e st =
     (let (r, steps, calls) = execute_claimed e in
      enter_phase i (Leaving \<lparr> oc_candidate = c, oc_result = r, oc_steps = steps, oc_retry = False \<rparr>)
        (st\<lparr> rs_live_attempts := forget [att] (rs_live_attempts st) \<rparr>))"

text \<open>
  Workers take the candidates in order. A worker that finds the run cancelled files the
  candidate without claiming it; \<open>None\<close> is an event that is not possible.
\<close>

definition round_event_step :: "int \<Rightarrow> candidate list \<Rightarrow> round_event \<Rightarrow> round_state \<Rightarrow> round_state option" where
  "round_event_step workers frozen ev st =
     (case ev of
        StartNext cancelled \<Rightarrow>
          (case next_waiting (rs_phases st) of
             None \<Rightarrow> None
           | Some i \<Rightarrow>
               (if int (length (filter busy (rs_phases st))) \<ge> workers then None
                else if cancelled then Some (enter_phase i (Finished (plain_outcome (frozen ! i) ResultClaimFailed)) st)
                else Some (enter_phase i Claiming
                       (st\<lparr> rs_live_candidates := candidate_keys (frozen ! i) @ rs_live_candidates st \<rparr>))))
      | ClaimReturned i a \<Rightarrow>
          (if i < length frozen \<and> rs_phases st ! i = Claiming then Some (claim_returned (frozen ! i) i a st) else None)
      | ItemExecuted i e \<Rightarrow>
          (if i < length frozen
           then (case rs_phases st ! i of Running att \<Rightarrow> Some (item_executed (frozen ! i) i att e st) | _ \<Rightarrow> None)
           else None)
      | WorkerFreed i \<Rightarrow>
          (if i < length frozen
           then (case rs_phases st ! i of
                   Leaving oc \<Rightarrow>
                     Some (enter_phase i (Finished oc)
                       (st\<lparr> rs_live_candidates := forget (candidate_keys (frozen ! i)) (rs_live_candidates st) \<rparr>))
                 | _ \<Rightarrow> None)
           else None))"

fun run_events :: "int \<Rightarrow> candidate list \<Rightarrow> round_event list \<Rightarrow> round_state \<Rightarrow> round_state option" where
  "run_events workers frozen [] st = Some st"
| "run_events workers frozen (ev # evs) st =
     (case round_event_step workers frozen ev st of None \<Rightarrow> None | Some st' \<Rightarrow> run_events workers frozen evs st')"

definition finished_outcome :: "phase \<Rightarrow> wi_outcome option" where
  "finished_outcome p = (case p of Finished oc \<Rightarrow> Some oc | _ \<Rightarrow> None)"

definition round_start :: "candidate list \<Rightarrow> round_state" where
  "round_start frozen = \<lparr> rs_phases = replicate (length frozen) Waiting, rs_live_attempts = [], rs_live_candidates = [] \<rparr>"

text \<open>
  The round returns when every worker is done; a schedule that is not valid or leaves a worker
  busy gives no outcomes. An outcome without a candidate id is dropped.
\<close>

definition executeRound :: "budget \<Rightarrow> candidate list \<Rightarrow> round_event list \<Rightarrow> wi_outcome list option" where
  "executeRound b frozen evs =
     (case run_events (Parallelism b) frozen evs (round_start frozen) of
        None \<Rightarrow> None
      | Some st \<Rightarrow>
          (if list_all (\<lambda>p. finished_outcome p \<noteq> None) (rs_phases st)
           then Some (filter (\<lambda>oc. cd_id (oc_candidate oc) \<noteq> []) (List.map_filter finished_outcome (rs_phases st)))
           else None))"

section \<open>The loop\<close>

text \<open>The state of the run's context, and the answer to a listing; a failure says whether its error is the context's.\<close>

datatype ctx_state = CtxLive | CtxDeadline | CtxCancelled

datatype listing = Listed "candidate list" | ListFailed ctx_state bool

record round_env =
  re_ctx :: ctx_state
  re_before :: listing
  re_executable :: listing
  re_events :: "candidate list \<Rightarrow> round_event list"
  re_after :: listing

record loop_state =
  ls_round :: nat
  ls_executed :: nat
  ls_skipped :: "string list"
  ls_any_failed :: bool
  ls_outcomes :: "wi_outcome list"
  ls_totals :: totals

definition loop_start :: loop_state where
  "loop_start = \<lparr> ls_round = 0, ls_executed = 0, ls_skipped = [], ls_any_failed = False, ls_outcomes = [],
     ls_totals = no_totals \<rparr>"

definition cancelStop :: "ctx_state \<Rightarrow> stop_reason" where
  "cancelStop c = (if c = CtxDeadline then StopMaxDuration else StopCancelled)"

definition bailOut :: "ctx_state \<Rightarrow> bool \<Rightarrow> bool" where
  "bailOut c ctxError \<longleftrightarrow> c \<noteq> CtxLive \<or> ctxError"

text \<open>What one pass of the loop ends with: the run stops, fails with an error, does not return, or goes on.\<close>

datatype pass_end =
    PassStop stop_reason loop_state
  | PassError
  | PassHangs
  | PassOn loop_state

text \<open>The tally of a round and what an outcome does to the state of the run.\<close>

definition count_result :: "result \<Rightarrow> wi_outcome list \<Rightarrow> nat" where
  "count_result r ocs = length (filter (\<lambda>oc. oc_result oc = r) ocs)"

definition tally_of :: "wi_outcome list \<Rightarrow> round_tally" where
  "tally_of ocs =
     \<lparr> rt_completed = count_result ResultWrapped ocs, rt_failed = count_result ResultFailed ocs,
       rt_lock_blocked = count_result ResultLockBlocked ocs, rt_paused = count_result ResultPaused ocs,
       rt_cancelled = count_result ResultCancelled ocs, rt_created = 0 \<rparr>"

definition record_outcome :: "wi_outcome \<Rightarrow> loop_state \<Rightarrow> loop_state" where
  "record_outcome oc st =
     (let r = oc_result oc in
      st\<lparr> ls_skipped := (if r = ResultLockBlocked \<and> \<not> oc_retry oc \<or> r = ResultClaimFailed
                         then cd_id (oc_candidate oc) # ls_skipped st else ls_skipped st),
          ls_executed := (if Executed r then Suc (ls_executed st) else ls_executed st),
          ls_any_failed := (ls_any_failed st \<or> NeedsHuman r),
          ls_totals := Add (ls_totals st) r \<rparr>)"

definition begin_round :: "loop_state \<Rightarrow> loop_state" where
  "begin_round st = st\<lparr> ls_round := Suc (ls_round st), ls_totals := (ls_totals st)\<lparr> tt_rounds := Suc (ls_round st) \<rparr> \<rparr>"

definition end_round :: "string list \<Rightarrow> wi_outcome list \<Rightarrow> listing \<Rightarrow> loop_state \<Rightarrow> pass_end" where
  "end_round beforeIDs ocs listed_after st =
     (let st1 = fold record_outcome ocs (st\<lparr> ls_outcomes := ls_outcomes st @ ocs \<rparr>) in
      case listed_after of
        ListFailed c ctxError \<Rightarrow> (if bailOut c ctxError then PassStop (cancelStop c) st1 else PassError)
      | Listed after_items \<Rightarrow>
          (let created = CountCreatedDuringRound beforeIDs after_items;
               tally = (tally_of ocs)\<lparr> rt_created := created \<rparr>;
               st2 = st1\<lparr> ls_totals := (ls_totals st1)\<lparr> tt_created := tt_created (ls_totals st1) + created \<rparr> \<rparr> in
           if Diverging tally then PassStop StopDivergence st2
           else if Attempted tally = 0 then PassStop StopNothingClaimable st2
           else PassOn st2))"

definition play_round :: "budget \<Rightarrow> round_env \<Rightarrow> string list \<Rightarrow> candidate list \<Rightarrow> loop_state \<Rightarrow> pass_end" where
  "play_round b env beforeIDs frozen st =
     (case executeRound b frozen (re_events env frozen) of
        None \<Rightarrow> PassHangs
      | Some ocs \<Rightarrow> end_round beforeIDs ocs (re_after env) (begin_round st))"

definition loop_pass :: "budget \<Rightarrow> round_env \<Rightarrow> loop_state \<Rightarrow> pass_end" where
  "loop_pass b env st =
     (if re_ctx env \<noteq> CtxLive then PassStop (cancelStop (re_ctx env)) st
      else if MaxRounds b > 0 \<and> int (ls_round st) \<ge> MaxRounds b then PassStop StopMaxRounds st
      else
        (case re_before env of
           ListFailed c ctxError \<Rightarrow> (if bailOut c ctxError then PassStop (cancelStop c) st else PassError)
         | Listed before_items \<Rightarrow>
             (case re_executable env of
                ListFailed c ctxError \<Rightarrow> (if bailOut c ctxError then PassStop (cancelStop c) st else PassError)
              | Listed candidates \<Rightarrow>
                  (let budgetLeft = RemainingWorkItems b (ls_executed st) in
                   if budgetLeft = 0 then PassStop StopMaxWorkItems st
                   else
                     (let frozen = FreezeRound (filterSkipped candidates (ls_skipped st)) budgetLeft in
                      if frozen = [] then
                        PassStop (if ls_executed st = 0 \<and> ls_skipped st \<noteq> [] then StopNothingClaimable else StopQueueDrained) st
                      else play_round b env (IDSet before_items) frozen st)))))"

text \<open>
  The loop; \<open>env k\<close> is what the outside answers in its pass \<open>k\<close>. \<open>None\<close> as the value of
  \<open>drain_loop\<close> is a run that does not return, \<open>Inl\<close> one that returns an error.
\<close>

partial_function (option) drain_loop ::
  "budget \<Rightarrow> (nat \<Rightarrow> round_env) \<Rightarrow> nat \<Rightarrow> loop_state \<Rightarrow> (unit + (stop_reason \<times> loop_state)) option" where
  [code]: "drain_loop b env k st =
     (case loop_pass b (env k) st of
        PassStop s st' \<Rightarrow> Some (Inr (s, st'))
      | PassError \<Rightarrow> Some (Inl ())
      | PassHangs \<Rightarrow> None
      | PassOn st' \<Rightarrow> drain_loop b env (Suc k) st')"

record run_report =
  rr_terminal :: terminal
  rr_stop :: stop_reason
  rr_totals :: totals
  rr_queue :: queue_state
  rr_outcomes :: "wi_outcome list"

text \<open>A final observation that failed counts as work left.\<close>

definition assumed_queue :: queue_state where
  "assumed_queue = \<lparr> qs_executable = 1, qs_blocked_by_mine = 0, qs_external = [], qs_running = 0, qs_paused = 0,
     qs_needs_human = [] \<rparr>"

definition finish_run :: "queue_state option \<Rightarrow> stop_reason \<times> loop_state \<Rightarrow> run_report" where
  "finish_run observed = (\<lambda>(s, st).
     (let q = (case observed of None \<Rightarrow> assumed_queue | Some q \<Rightarrow> q) in
      \<lparr> rr_terminal = Classify (ls_any_failed st) q, rr_stop = s, rr_totals = ls_totals st, rr_queue = q,
        rr_outcomes = ls_outcomes st \<rparr>))"

definition Run :: "budget \<Rightarrow> (nat \<Rightarrow> round_env) \<Rightarrow> queue_state option \<Rightarrow> (unit + run_report) option" where
  "Run b env observed =
     (case drain_loop b env 0 loop_start of
        None \<Rightarrow> None
      | Some (Inl e) \<Rightarrow> Some (Inl e)
      | Some (Inr end_state) \<Rightarrow> Some (Inr (finish_run observed end_state)))"

end
