(* ===== verification/Drain_Rounds.thy ===== *)
theory Drain_Rounds
  imports Drain_Run
begin

text \<open>
  What a work item, a round and a pass of the drain loop leave behind: the phases of a round keep
  their candidate and never outnumber the workers, an outcome is one of those the code can give,
  a wrapped item has been through all its steps, and the counters of the loop agree with the
  outcomes it recorded.
\<close>

section \<open>A claimed item\<close>

text \<open>The steps whose completion is among the calls.\<close>

definition completed_steps :: "hub_call list \<Rightarrow> string list" where
  "completed_steps calls =
     List.map_filter (\<lambda>c. case c of
        CallUpdate u \<Rightarrow> (if sl_status u = ''completed'' then Some (sl_step u) else None)
      | CallComplete s \<Rightarrow> None) calls"

definition attempt_ends :: "hub_call list \<Rightarrow> string list" where
  "attempt_ends calls = List.map_filter (\<lambda>c. case c of CallUpdate u \<Rightarrow> None | CallComplete s \<Rightarrow> Some s) calls"

lemma completed_steps_simps [simp]:
  "completed_steps [] = []" "completed_steps (xs @ ys) = completed_steps xs @ completed_steps ys"
  "completed_steps (CallUpdate u # ys) = (if sl_status u = ''completed'' then [sl_step u] else []) @ completed_steps ys"
  "completed_steps (CallComplete s # ys) = completed_steps ys"
  by (simp_all add: completed_steps_def map_filter_def)

lemma attempt_ends_simps [simp]:
  "attempt_ends [] = []" "attempt_ends (xs @ ys) = attempt_ends xs @ attempt_ends ys"
  "attempt_ends (CallUpdate u # ys) = attempt_ends ys" "attempt_ends (CallComplete s # ys) = s # attempt_ends ys"
  by (simp_all add: attempt_ends_def map_filter_def)

lemma attempt_ends_updates [simp]: "attempt_ends (map CallUpdate us) = []"
  by (induction us) simp_all

lemma fused_plan:
  "PlanStepBracket \<lparr> bk_step = s, bk_step_attempt = sa, bk_status = ''completed'', bk_summary = m, bk_error_type = t,
     bk_next_step = n, bk_next_attempt = na, bk_supports_next = True \<rparr> =
   [\<lparr> sl_tool = ''pf_update_step'', sl_step = s, sl_status = ''completed'', sl_step_attempt = sa, sl_next_step = n,
      sl_next_attempt = (if n = [] then [] else na), sl_summary = m, sl_error_type = [] \<rparr>]"
  by (simp add: PlanStepBracket_def Let_def)

lemma make_one_call:
  "make_calls e [u] calls = (ie_update e (updates_made calls), calls @ [CallUpdate u])"
  by (simp split: update_answer.splits)

text \<open>
  What the step loop ends with. It ends the attempt at most once and last: as wrapped exactly when
  every step has been completed, as failed when it reports a failure before that, and not at all
  when the item paused or the run was cancelled.
\<close>

lemma run_steps_ends:
  assumes "run_steps e i sa steps calls = (r, n, calls')"
  shows "(r = ResultWrapped \<longrightarrow> ie_wrap e \<and> n = i + length steps \<and>
       completed_steps calls' = completed_steps calls @ steps \<and> attempt_ends calls' = attempt_ends calls @ [''wrapped'']) \<and>
     (r = ResultPaused \<or> r = ResultCancelled \<longrightarrow> attempt_ends calls' = attempt_ends calls) \<and>
     (r = ResultFailed \<longrightarrow> attempt_ends calls' = attempt_ends calls @ [''failed''] \<or>
       attempt_ends calls' = attempt_ends calls @ [''wrapped''] \<and> \<not> ie_wrap e) \<and>
     r \<in> {ResultWrapped, ResultFailed, ResultPaused, ResultCancelled}"
  using assms
proof (induction steps arbitrary: i sa calls)
  case Nil
  then show ?case by (auto split: if_splits)
next
  case (Cons step steps)
  let ?next = "case steps of [] \<Rightarrow> [] | s # _ \<Rightarrow> s" and ?sa = "case steps of [] \<Rightarrow> [] | s # _ \<Rightarrow> ie_ulid e (Suc i)"
  have "(\<exists>u. sl_status u = ''completed'' \<and> sl_step u = step \<and>
        run_steps e (Suc i) ?sa steps (calls @ [CallUpdate u]) = (r, n, calls')) \<or>
      r = ResultPaused \<and> attempt_ends calls' = attempt_ends calls \<or>
      r = ResultCancelled \<and> attempt_ends calls' = attempt_ends calls \<or>
      r = ResultFailed \<and> attempt_ends calls' = attempt_ends calls @ [''failed'']"
    using Cons.prems
    by (simp add: Let_def fused_plan make_one_call failAttempt_def split: if_splits option.splits update_answer.splits)
       auto
  then show ?case
  proof (elim disjE exE conjE)
    fix u
    assume u: "sl_status u = ''completed''" "sl_step u = step"
      and "run_steps e (Suc i) ?sa steps (calls @ [CallUpdate u]) = (r, n, calls')"
    from Cons.IH [OF this(3)] u show ?thesis by simp
  qed auto
qed

lemma run_legacy_ends:
  assumes "run_legacy e = (r, n, calls)"
  shows "(r = ResultWrapped \<longrightarrow> ie_wrap e \<and> ie_startup e = Some (completed_steps calls) \<and>
       completed_steps calls \<noteq> [] \<and> n = length (completed_steps calls) \<and> attempt_ends calls = [''wrapped'']) \<and>
     (r = ResultPaused \<or> r = ResultCancelled \<longrightarrow> attempt_ends calls = []) \<and>
     (r = ResultFailed \<longrightarrow> attempt_ends calls = [''failed''] \<or> attempt_ends calls = [''wrapped''] \<and> \<not> ie_wrap e) \<and>
     r \<in> {ResultWrapped, ResultFailed, ResultPaused, ResultCancelled}"
proof (cases "ie_startup e")
  case None
  with assms show ?thesis by (auto simp: run_legacy_def failAttempt_def)
next
  case (Some steps)
  show ?thesis
  proof (cases steps)
    case Nil
    with Some assms show ?thesis by (auto simp: run_legacy_def failAttempt_def)
  next
    case (Cons step rest)
    let ?u = "\<lparr> sl_tool = ''pf_update_step'', sl_step = step, sl_status = ''in_progress'',
                 sl_step_attempt = ie_ulid e 0, sl_next_step = [], sl_next_attempt = [], sl_summary = [], sl_error_type = [] \<rparr>"
    show ?thesis
    proof (cases "ie_update e 0")
      case UpdateOk
      then have "run_steps e 0 (ie_ulid e 0) (step # rest) [CallUpdate ?u] = (r, n, calls)"
        using assms Some Cons by (simp add: run_legacy_def make_one_call updates_made_def Let_def del: run_steps.simps)
      from run_steps_ends [OF this] Some Cons show ?thesis by simp
    next
      case UpdatePaused
      with assms Some Cons show ?thesis by (auto simp: run_legacy_def make_one_call updates_made_def)
    next
      case UpdateFailed
      with assms Some Cons show ?thesis by (auto simp: run_legacy_def make_one_call updates_made_def failAttempt_def)
    qed
  qed
qed

lemma execute_claimed_result:
  assumes "execute_claimed e = (r, n, calls)"
  shows "r \<noteq> NoResult"
  using assms run_legacy_ends [of e r n calls] by (auto simp: execute_claimed_def split: workflow_answer.splits if_splits)

text \<open>Why an outcome may say that an item was wrapped.\<close>

definition wrapped_by :: "item_env \<Rightarrow> nat \<Rightarrow> bool" where
  "wrapped_by e n \<longleftrightarrow>
     (case ie_workflow e of
        PinnedDone r m \<Rightarrow> r = ResultWrapped \<and> m = n
      | _ \<Rightarrow> (\<exists>steps calls. execute_claimed e = (ResultWrapped, n, calls) \<and> ie_startup e = Some steps \<and> steps \<noteq> [] \<and>
               n = length steps \<and> completed_steps calls = steps \<and> attempt_ends calls = [''wrapped''] \<and> ie_wrap e))"

lemma execute_claimed_wrapped:
  assumes "execute_claimed e = (ResultWrapped, n, calls)"
  shows "wrapped_by e n"
  using assms run_legacy_ends [of e ResultWrapped n calls]
  by (auto simp: wrapped_by_def execute_claimed_def split: workflow_answer.splits if_splits)

section \<open>A round\<close>

text \<open>An outcome of a candidate, given which executions the candidate went through.\<close>

definition outcome_ok :: "(candidate \<Rightarrow> item_env \<Rightarrow> bool) \<Rightarrow> candidate \<Rightarrow> wi_outcome \<Rightarrow> bool" where
  "outcome_ok went c oc \<longleftrightarrow> oc_candidate oc = c \<and> oc_result oc \<noteq> NoResult \<and>
     (oc_retry oc \<longrightarrow> oc_result oc = ResultLockBlocked) \<and>
     (oc_result oc = ResultWrapped \<longrightarrow> (\<exists>e. went c e \<and> wrapped_by e (oc_steps oc)))"

definition phase_ok :: "(candidate \<Rightarrow> item_env \<Rightarrow> bool) \<Rightarrow> candidate \<Rightarrow> phase \<Rightarrow> bool" where
  "phase_ok went c p = (case p of Leaving oc \<Rightarrow> outcome_ok went c oc | Finished oc \<Rightarrow> outcome_ok went c oc | _ \<Rightarrow> True)"

definition round_ok :: "(candidate \<Rightarrow> item_env \<Rightarrow> bool) \<Rightarrow> int \<Rightarrow> candidate list \<Rightarrow> round_state \<Rightarrow> bool" where
  "round_ok went w frozen st \<longleftrightarrow>
     list_all2 (phase_ok went) frozen (rs_phases st) \<and> int (length (filter busy (rs_phases st))) \<le> w"

lemma busy_update:
  "i < length ps \<Longrightarrow> length (filter busy (ps[i := p])) + (if busy (ps ! i) then 1 else 0) =
     length (filter busy ps) + (if busy p then 1 else 0)"
proof (induction ps arbitrary: i)
  case (Cons q ps)
  then show ?case using Cons.IH [of "i - 1"] by (cases i) (auto split: if_splits)
qed simp

lemma busy_simps [simp]:
  "\<not> busy Waiting" "busy Claiming" "busy (Running att)" "busy (Leaving oc)" "\<not> busy (Finished oc)"
  by (simp_all add: busy_def)

lemma next_waiting_Some: "next_waiting ps = Some i \<Longrightarrow> i < length ps \<and> ps ! i = Waiting"
  by (auto simp: next_waiting_def find_Some_iff)

text \<open>Entering a phase: the candidate's phase must be fitting, and a worker must be free if one is taken.\<close>

lemma round_ok_enter:
  assumes "round_ok went w frozen st" "i < length frozen" "phase_ok went (frozen ! i) p" "rs_phases st' = rs_phases st"
    "busy p \<longrightarrow> busy (rs_phases st ! i) \<or> int (length (filter busy (rs_phases st))) < w"
  shows "round_ok went w frozen (enter_phase i p st')"
proof -
  have "length (rs_phases st) = length frozen" using assms(1) by (auto simp: round_ok_def dest: list_all2_lengthD)
  with busy_update [of i "rs_phases st" p] assms show ?thesis
    by (auto simp: round_ok_def enter_phase_def list_all2_conv_all_nth nth_list_update split: if_splits)
qed

lemma round_ok_step:
  assumes ok: "round_ok went w frozen st" and "round_event_step w frozen ev st = Some st'"
    and went: "\<And>i e. ev = ItemExecuted i e \<Longrightarrow> i < length frozen \<Longrightarrow> went (frozen ! i) e"
  shows "round_ok went w frozen st'"
proof -
  have len: "length (rs_phases st) = length frozen" using ok by (auto simp: round_ok_def dest: list_all2_lengthD)
  have phase: "phase_ok went (frozen ! i) (rs_phases st ! i)" if "i < length frozen" for i
    using ok that by (auto simp: round_ok_def list_all2_conv_all_nth)
  note enter = round_ok_enter [OF ok]
  show ?thesis
  proof (cases ev)
    case (StartNext cancelled)
    with assms(2) obtain i where i: "next_waiting (rs_phases st) = Some i" "int (length (filter busy (rs_phases st))) < w"
      and st': "st' = (if cancelled then enter_phase i (Finished (plain_outcome (frozen ! i) ResultClaimFailed)) st
        else enter_phase i Claiming (st\<lparr> rs_live_candidates := candidate_keys (frozen ! i) @ rs_live_candidates st \<rparr>))"
      by (auto simp: round_event_step_def split: option.splits if_splits)
    with next_waiting_Some [OF i(1)] len show ?thesis
      by (auto intro!: enter simp: phase_ok_def outcome_ok_def plain_outcome_def)
  next
    case (ClaimReturned i a)
    with assms(2) have "i < length frozen" "rs_phases st ! i = Claiming" "st' = claim_returned (frozen ! i) i a st"
      by (auto simp: round_event_step_def split: if_splits)
    then show ?thesis
      by (auto intro!: enter simp: claim_returned_def phase_ok_def outcome_ok_def plain_outcome_def split: claim_answer.splits)
  next
    case (ItemExecuted i e)
    with assms(2) obtain att where i: "i < length frozen" "rs_phases st ! i = Running att" "st' = item_executed (frozen ! i) i att e st"
      by (auto simp: round_event_step_def split: if_splits phase.splits)
    obtain r n calls where e: "execute_claimed e = (r, n, calls)" by (cases "execute_claimed e")
    then have "r = ResultWrapped \<longrightarrow> (\<exists>e. went (frozen ! i) e \<and> wrapped_by e n)"
      using execute_claimed_wrapped went [OF ItemExecuted i(1)] by blast
    with i e execute_claimed_result [OF e] show ?thesis
      by (auto intro!: enter simp: item_executed_def phase_ok_def outcome_ok_def)
  next
    case (WorkerFreed i)
    with assms(2) obtain oc where i: "i < length frozen" "rs_phases st ! i = Leaving oc"
      and st': "st' = enter_phase i (Finished oc) (st\<lparr> rs_live_candidates := forget (candidate_keys (frozen ! i)) (rs_live_candidates st) \<rparr>)"
      by (auto simp: round_event_step_def split: if_splits phase.splits)
    with phase [OF i(1)] show ?thesis by (auto intro!: enter simp: phase_ok_def)
  qed
qed

lemma run_events_ok:
  assumes "run_events w frozen evs st = Some st'" "round_ok went w frozen st"
    and "\<And>i e. ItemExecuted i e \<in> set evs \<Longrightarrow> i < length frozen \<Longrightarrow> went (frozen ! i) e"
  shows "round_ok went w frozen st'"
  using assms
proof (induction evs arbitrary: st)
  case (Cons ev evs)
  then obtain st1 where st1: "round_event_step w frozen ev st = Some st1" "run_events w frozen evs st1 = Some st'"
    by (auto split: option.splits)
  have "round_ok went w frozen st1" using Cons.prems(2) st1(1) by (rule round_ok_step) (use Cons.prems(3) in auto)
  with Cons.IH [OF st1(2)] Cons.prems(3) show ?case by auto
qed simp

lemma Parallelism_pos: "0 < Parallelism b"
  by (simp add: Parallelism_def DefaultMaxParallel_def)

lemma round_ok_start: "0 \<le> w \<Longrightarrow> round_ok went w frozen (round_start frozen)"
  by (simp add: round_ok_def round_start_def list_all2_conv_all_nth phase_ok_def)

lemma executeRound_Some:
  assumes "executeRound b frozen evs = Some ocs"
    and went: "\<And>i e. ItemExecuted i e \<in> set evs \<Longrightarrow> i < length frozen \<Longrightarrow> went (frozen ! i) e"
  shows "map oc_candidate ocs = filter (\<lambda>c. cd_id c \<noteq> []) frozen" "\<forall>oc \<in> set ocs. outcome_ok went (oc_candidate oc) oc"
proof -
  from assms(1) obtain st where st: "run_events (Parallelism b) frozen evs (round_start frozen) = Some st"
    "list_all (\<lambda>p. finished_outcome p \<noteq> None) (rs_phases st)"
    and ocs: "ocs = filter (\<lambda>oc. cd_id (oc_candidate oc) \<noteq> []) (List.map_filter finished_outcome (rs_phases st))"
    by (auto simp: executeRound_def split: option.splits if_splits)
  have "round_ok went (Parallelism b) frozen st"
    by (rule run_events_ok [OF st(1) round_ok_start]) (use Parallelism_pos [of b] went in auto)
  then have "list_all2 (phase_ok went) frozen (rs_phases st)" by (simp add: round_ok_def)
  then have "map oc_candidate (List.map_filter finished_outcome (rs_phases st)) = frozen \<and>
      (\<forall>oc \<in> set (List.map_filter finished_outcome (rs_phases st)). outcome_ok went (oc_candidate oc) oc)"
    using st(2)
  proof (induction rule: list_all2_induct)
    case (Cons c cs p ps)
    then obtain oc where "p = Finished oc" by (auto simp: finished_outcome_def split: phase.splits)
    with Cons show ?case by (auto simp: map_filter_def finished_outcome_def phase_ok_def outcome_ok_def)
  qed (simp add: map_filter_def)
  then show "map oc_candidate ocs = filter (\<lambda>c. cd_id c \<noteq> []) frozen" "\<forall>oc \<in> set ocs. outcome_ok went (oc_candidate oc) oc"
    unfolding ocs by (auto simp: filter_map comp_def)
qed

end
