(* ===== verification/Drain_Queue.thy ===== *)
theory Drain_Queue
  imports Drain_Policy
begin

text \<open>
  What \<^verbatim>\<open>polyforge drain\<close> asks the hub about its queue (\<^verbatim>\<open>drainQueries\<close> of
  \<^verbatim>\<open>internal/cli/drain.go\<close> and \<^verbatim>\<open>Scope\<close> of \<^verbatim>\<open>internal/drain/select.go\<close>): the listings
  of the scope and the classification of what is left. The answers of the hub are an argument,
  \<open>hub_view\<close>, already decoded; \<open>None\<close> is a request that failed.
\<close>

section \<open>The scope and its listings\<close>

record scope =
  sc_all :: bool
  sc_user :: string

definition Mine :: "scope \<Rightarrow> bool" where
  "Mine s \<longleftrightarrow> \<not> sc_all s \<and> sc_user s \<noteq> []"

text \<open>The filters of a listing; every listing asks for one page of 200.\<close>

record list_query =
  lq_ready_only :: bool
  lq_status :: string
  lq_user_id :: "string option"
  lq_claimed_by :: "string option"

datatype edge =
    BareEdge string
  | Edge (ed_kind: string) (ed_slug: string) (ed_ids: "string list") (ed_accessible: "bool option")

record hub_view =
  hv_list :: "list_query \<Rightarrow> candidate list option"
  hv_blocked_by :: "string \<Rightarrow> edge list option"
  hv_status :: "string \<Rightarrow> string option"

definition in_scope_query :: "scope \<Rightarrow> list_query \<Rightarrow> list_query" where
  "in_scope_query s lq = (if Mine s then lq\<lparr> lq_user_id := Some (sc_user s) \<rparr> else lq)"

definition ExecutableItems :: "hub_view \<Rightarrow> scope \<Rightarrow> candidate list option" where
  "ExecutableItems hv s =
     hv_list hv (in_scope_query s \<lparr> lq_ready_only = True, lq_status = [], lq_user_id = None, lq_claimed_by = None \<rparr>)"

fun unionCandidates :: "string list \<Rightarrow> candidate list \<Rightarrow> candidate list" where
  "unionCandidates seen [] = []"
| "unionCandidates seen (c # cs) =
     (if cd_id c = [] \<or> cd_id c \<in> set seen then unionCandidates seen cs
      else c # unionCandidates (cd_id c # seen) cs)"

definition listByStatus :: "hub_view \<Rightarrow> scope \<Rightarrow> string \<Rightarrow> candidate list option" where
  "listByStatus hv s status =
     (let base = \<lparr> lq_ready_only = False, lq_status = status, lq_user_id = None, lq_claimed_by = None \<rparr> in
      if \<not> Mine s then hv_list hv base
      else
        (case hv_list hv (base\<lparr> lq_user_id := Some (sc_user s) \<rparr>) of
           None \<Rightarrow> None
         | Some a \<Rightarrow>
             (case hv_list hv (base\<lparr> lq_claimed_by := Some (sc_user s) \<rparr>) of
                None \<Rightarrow> None
              | Some b \<Rightarrow> Some (unionCandidates [] (a @ b)))))"

definition AllInScope :: "hub_view \<Rightarrow> scope \<Rightarrow> candidate list option" where
  "AllInScope hv s = listByStatus hv s ''queued,running,blocked,paused''"

section \<open>What blocks a work item\<close>

definition blocking_edge :: "edge \<Rightarrow> blocker_ref option" where
  "blocking_edge e =
     (case e of
        BareEdge v \<Rightarrow> (if v = [] then None else Some \<lparr> br_id = v, br_slug = [] \<rparr>)
      | Edge kind slug ids accessible \<Rightarrow>
          (if kind \<noteq> [] \<and> kind \<noteq> ''blocks'' then None
           else
             (let named = (case find (\<lambda>s. s \<noteq> []) ids of None \<Rightarrow> [] | Some s \<Rightarrow> s);
                  address = (if accessible = Some False \<or> named = ''hidden'' then [] else named) in
              if address = [] \<and> slug = [] then None else Some \<lparr> br_id = address, br_slug = slug \<rparr>)))"

definition blockingEdges :: "edge list \<Rightarrow> blocker_ref list" where
  "blockingEdges es = List.map_filter blocking_edge es"

definition isTerminalWIStatus :: "string \<Rightarrow> bool" where
  "isTerminalWIStatus s \<longleftrightarrow> s \<in> {''wrapped'', ''failed'', ''cancelled''}"

text \<open>An unreadable blocker counts as live; the answers of one observation are cached.\<close>

definition blockerIsLive :: "hub_view \<Rightarrow> blocker_ref \<Rightarrow> (string \<times> bool) list \<Rightarrow> bool \<times> (string \<times> bool) list" where
  "blockerIsLive hv ref cache =
     (if br_id ref = [] then (True, cache)
      else
        (case map_of cache (br_id ref) of
           Some live \<Rightarrow> (live, cache)
         | None \<Rightarrow>
             (let live = (case hv_status hv (br_id ref) of None \<Rightarrow> True | Some s \<Rightarrow> \<not> isTerminalWIStatus s) in
              (live, (br_id ref, live) # cache))))"

fun outsiders_of ::
  "hub_view \<Rightarrow> string list \<Rightarrow> blocker_ref list \<Rightarrow> (string \<times> bool) list \<Rightarrow> blocker_ref list \<times> (string \<times> bool) list" where
  "outsiders_of hv inScope [] cache = ([], cache)"
| "outsiders_of hv inScope (ref # refs) cache =
     (if br_id ref \<noteq> [] \<and> br_id ref \<in> set inScope then outsiders_of hv inScope refs cache
      else
        (let (live, cache1) = blockerIsLive hv ref cache;
             (rest, cache2) = outsiders_of hv inScope refs cache1 in
         (if live then ref # rest else rest, cache2)))"

text \<open>A failed lookup counts as blocked from outside; its text is in the slug.\<close>

definition lookup_failed :: blocker_ref where
  "lookup_failed = \<lparr> br_id = [], br_slug = ''(dependency lookup failed)'' \<rparr>"

fun classify_blocked ::
  "hub_view \<Rightarrow> string list \<Rightarrow> candidate list \<Rightarrow> (string \<times> bool) list \<Rightarrow> queue_state \<Rightarrow> queue_state" where
  "classify_blocked hv inScope [] cache st = st"
| "classify_blocked hv inScope (b # bs) cache st =
     (let (outsiders, cache1) =
            (case hv_blocked_by hv (cd_id b) of
               None \<Rightarrow> ([lookup_failed], cache)
             | Some es \<Rightarrow> outsiders_of hv inScope (blockingEdges es) cache) in
      classify_blocked hv inScope bs cache1
        (if outsiders \<noteq> []
         then st\<lparr> qs_external := qs_external st @
                [\<lparr> bi_work_item = cd_id b, bi_slug = cd_slug b, bi_blockers = outsiders \<rparr>] \<rparr>
         else st\<lparr> qs_blocked_by_mine := Suc (qs_blocked_by_mine st) \<rparr>))"

definition ObserveQueue :: "hub_view \<Rightarrow> scope \<Rightarrow> queue_state option" where
  "ObserveQueue hv s =
     (case ExecutableItems hv s of
        None \<Rightarrow> None
      | Some ready \<Rightarrow>
     (case listByStatus hv s ''running'' of
        None \<Rightarrow> None
      | Some running \<Rightarrow>
     (case listByStatus hv s ''paused'' of
        None \<Rightarrow> None
      | Some paused \<Rightarrow>
     (case listByStatus hv s ''blocked'' of
        None \<Rightarrow> None
      | Some blocked \<Rightarrow>
     (case listByStatus hv s ''queued'' of
        None \<Rightarrow> None
      | Some queued \<Rightarrow>
          (let st = \<lparr> qs_executable = length ready, qs_blocked_by_mine = 0, qs_external = [],
                 qs_running = length running, qs_paused = length paused,
                 qs_needs_human = filter (\<lambda>c. cd_rhs c \<noteq> Some False) queued \<rparr> in
           if blocked = [] then Some st
           else
             (case AllInScope hv s of
                None \<Rightarrow> None
              | Some mine \<Rightarrow> Some (classify_blocked hv (IDSet mine) blocked [] st))))))))"

section \<open>Facts\<close>

lemma classify_blocked_counts:
  "qs_blocked_by_mine (classify_blocked hv inScope bs cache st) + BlockedByOthers (classify_blocked hv inScope bs cache st) =
     qs_blocked_by_mine st + BlockedByOthers st + length bs"
  "qs_executable (classify_blocked hv inScope bs cache st) = qs_executable st"
  "qs_running (classify_blocked hv inScope bs cache st) = qs_running st"
  "qs_paused (classify_blocked hv inScope bs cache st) = qs_paused st"
  "qs_needs_human (classify_blocked hv inScope bs cache st) = qs_needs_human st"
  by (induction bs arbitrary: cache st) (auto simp: BlockedByOthers_def Let_def split: prod.splits option.splits)

text \<open>An observation is empty exactly when its listings are, but for queued items that agents may run.\<close>

lemma ObserveQueue_Empty:
  assumes "ObserveQueue hv s = Some q"
  shows "Empty q \<longleftrightarrow> ExecutableItems hv s = Some [] \<and> listByStatus hv s ''running'' = Some [] \<and>
    listByStatus hv s ''paused'' = Some [] \<and> listByStatus hv s ''blocked'' = Some [] \<and>
    (\<forall>c \<in> set (the (listByStatus hv s ''queued'')). cd_rhs c = Some False)"
proof -
  from assms obtain ready running paused blocked queued where
    L: "ExecutableItems hv s = Some ready" "listByStatus hv s ''running'' = Some running"
      "listByStatus hv s ''paused'' = Some paused" "listByStatus hv s ''blocked'' = Some blocked"
      "listByStatus hv s ''queued'' = Some queued"
    by (auto simp: ObserveQueue_def split: option.splits)
  have counts: "qs_executable q = length ready" "qs_running q = length running" "qs_paused q = length paused"
    "qs_needs_human q = filter (\<lambda>c. cd_rhs c \<noteq> Some False) queued"
    "qs_blocked_by_mine q + BlockedByOthers q = length blocked"
    using assms by (auto simp: ObserveQueue_def L Let_def classify_blocked_counts BlockedByOthers_def [of "\<lparr>qs_executable = _, qs_blocked_by_mine = _, qs_external = _, qs_running = _, qs_paused = _, qs_needs_human = _\<rparr>"]
      split: if_splits option.splits)
  have "Empty q \<longleftrightarrow> ready = [] \<and> running = [] \<and> paused = [] \<and> qs_blocked_by_mine q + BlockedByOthers q = 0 \<and>
      filter (\<lambda>c. cd_rhs c \<noteq> Some False) queued = []"
    by (auto simp: Empty_def counts(1-4))
  then show ?thesis by (simp add: counts(5) L filter_empty_conv)
qed

end
