(* ===== verification/Drain_Properties.thy ===== *)
theory Drain_Properties
  imports Drain_Rounds Drain_Queue
begin

text \<open>
  What a run of \<^verbatim>\<open>polyforge drain\<close> guarantees: the state of its loop agrees with its outcomes
  (the passes are an instance of the step-system contract), its budgets and its skipping hold
  (\<open>run_within_budget\<close>), and its exit code says what happened (\<open>exit_code_truthful\<close>).
\<close>

section \<open>The state of the loop agrees with its outcomes\<close>

definition skips :: "wi_outcome \<Rightarrow> bool" where
  "skips oc \<longleftrightarrow> oc_result oc = ResultLockBlocked \<and> \<not> oc_retry oc \<or> oc_result oc = ResultClaimFailed"

definition executed_of :: "wi_outcome list \<Rightarrow> wi_outcome list" where
  "executed_of ocs = filter (\<lambda>oc. Executed (oc_result oc)) ocs"

definition outcome_id :: "wi_outcome \<Rightarrow> string" where
  "outcome_id oc = cd_id (oc_candidate oc)"

definition totals_agree :: "totals \<Rightarrow> wi_outcome list \<Rightarrow> bool" where
  "totals_agree t ocs \<longleftrightarrow>
     tt_wrapped t = count_result ResultWrapped ocs \<and> tt_failed t = count_result ResultFailed ocs \<and>
     tt_lock_blocked t = count_result ResultLockBlocked ocs \<and> tt_paused t = count_result ResultPaused ocs \<and>
     tt_claim_failed t = count_result ResultClaimFailed ocs \<and> tt_cancelled t = count_result ResultCancelled ocs"

text \<open>No outcome follows one of the same item that wrote it off.\<close>

definition never_again :: "wi_outcome list \<Rightarrow> bool" where
  "never_again ocs \<longleftrightarrow> sorted_wrt (\<lambda>a b. skips a \<longrightarrow> outcome_id b \<noteq> outcome_id a) ocs"

text \<open>The candidates a pass freezes, and the states in which the passes of a run begin.\<close>

definition frozen_of :: "budget \<Rightarrow> candidate list \<Rightarrow> loop_state \<Rightarrow> candidate list" where
  "frozen_of b candidates st = FreezeRound (filterSkipped candidates (ls_skipped st)) (RemainingWorkItems b (ls_executed st))"

inductive reaches :: "budget \<Rightarrow> (nat \<Rightarrow> round_env) \<Rightarrow> nat \<Rightarrow> loop_state \<Rightarrow> bool" for b env where
  reaches_start: "reaches b env 0 loop_start"
| reaches_on: "reaches b env k st \<Longrightarrow> loop_pass b (env k) st = PassOn st' \<Longrightarrow> reaches b env (Suc k) st'"

text \<open>The executions a candidate goes through in the rounds of a run.\<close>

definition went_through :: "budget \<Rightarrow> (nat \<Rightarrow> round_env) \<Rightarrow> candidate \<Rightarrow> item_env \<Rightarrow> bool" where
  "went_through b env c e \<longleftrightarrow>
     (\<exists>k st cs i. reaches b env k st \<and> re_executable (env k) = Listed cs \<and> i < length (frozen_of b cs st) \<and>
        frozen_of b cs st ! i = c \<and> ItemExecuted i e \<in> set (re_events (env k) (frozen_of b cs st)))"

definition loop_agrees :: "budget \<Rightarrow> (nat \<Rightarrow> round_env) \<Rightarrow> loop_state \<Rightarrow> bool" where
  "loop_agrees b env st \<longleftrightarrow>
     tt_rounds (ls_totals st) = ls_round st \<and> totals_agree (ls_totals st) (ls_outcomes st) \<and>
     ls_executed st = length (executed_of (ls_outcomes st)) \<and>
     set (ls_skipped st) = outcome_id ` set (filter skips (ls_outcomes st)) \<and>
     (ls_any_failed st \<longleftrightarrow> (\<exists>oc \<in> set (ls_outcomes st). NeedsHuman (oc_result oc))) \<and>
     (\<forall>oc \<in> set (ls_outcomes st). outcome_ok (went_through b env) (oc_candidate oc) oc) \<and>
     (MaxRounds b > 0 \<longrightarrow> int (ls_round st) \<le> MaxRounds b) \<and>
     (MaxWorkItems b > 0 \<longrightarrow> int (ls_executed st) \<le> MaxWorkItems b)"

lemma fold_record_outcome:
  fixes st :: loop_state
  defines "st' ocs \<equiv> fold record_outcome ocs st"
  shows "ls_round (st' ocs) = ls_round st" "ls_outcomes (st' ocs) = ls_outcomes st"
    "tt_rounds (ls_totals (st' ocs)) = tt_rounds (ls_totals st)"
    "totals_agree (ls_totals st) pre \<Longrightarrow> totals_agree (ls_totals (st' ocs)) (pre @ ocs)"
    "ls_executed (st' ocs) = ls_executed st + length (executed_of ocs)"
    "set (ls_skipped (st' ocs)) = set (ls_skipped st) \<union> outcome_id ` set (filter skips ocs)"
    "ls_any_failed (st' ocs) \<longleftrightarrow> ls_any_failed st \<or> (\<exists>oc \<in> set ocs. NeedsHuman (oc_result oc))"
proof -
  show "ls_round (st' ocs) = ls_round st" "ls_outcomes (st' ocs) = ls_outcomes st"
    unfolding st'_def by (induction ocs arbitrary: st) (simp_all add: record_outcome_def Let_def)
  show "tt_rounds (ls_totals (st' ocs)) = tt_rounds (ls_totals st)"
    unfolding st'_def by (induction ocs arbitrary: st) (auto simp: record_outcome_def Let_def Add_def split: result.splits)
  show "totals_agree (ls_totals st) pre \<Longrightarrow> totals_agree (ls_totals (st' ocs)) (pre @ ocs)"
    unfolding st'_def
  proof (induction ocs arbitrary: st pre)
    case (Cons oc ocs)
    have "totals_agree (ls_totals (record_outcome oc st)) (pre @ [oc])"
      using Cons.prems by (cases "oc_result oc") (simp_all add: totals_agree_def record_outcome_def Let_def Add_def count_result_def)
    from Cons.IH [OF this] show ?case by simp
  qed simp
  show "ls_executed (st' ocs) = ls_executed st + length (executed_of ocs)"
    unfolding st'_def by (induction ocs arbitrary: st) (auto simp: record_outcome_def Let_def executed_of_def)
  show "set (ls_skipped (st' ocs)) = set (ls_skipped st) \<union> outcome_id ` set (filter skips ocs)"
    unfolding st'_def by (induction ocs arbitrary: st) (auto simp: record_outcome_def Let_def skips_def outcome_id_def)
  show "ls_any_failed (st' ocs) \<longleftrightarrow> ls_any_failed st \<or> (\<exists>oc \<in> set ocs. NeedsHuman (oc_result oc))"
    unfolding st'_def by (induction ocs arbitrary: st) (auto simp: record_outcome_def Let_def)
qed

definition after_outcomes :: "wi_outcome list \<Rightarrow> loop_state \<Rightarrow> loop_state" where
  "after_outcomes ocs st =
     fold record_outcome ocs ((begin_round st)\<lparr> ls_outcomes := ls_outcomes st @ ocs \<rparr>)"

definition without_created :: "loop_state \<Rightarrow> loop_state" where
  "without_created st = st\<lparr> ls_totals := (ls_totals st)\<lparr> tt_created := 0 \<rparr> \<rparr>"

lemma without_createdD:
  assumes "without_created x = without_created y"
  shows "ls_round x = ls_round y" "ls_executed x = ls_executed y" "ls_skipped x = ls_skipped y"
    "ls_any_failed x = ls_any_failed y" "ls_outcomes x = ls_outcomes y"
    "tt_rounds (ls_totals x) = tt_rounds (ls_totals y)" "totals_agree (ls_totals x) = totals_agree (ls_totals y)"
proof -
  have t: "(ls_totals x)\<lparr> tt_created := 0 \<rparr> = (ls_totals y)\<lparr> tt_created := 0 \<rparr>"
    using arg_cong [OF assms, of ls_totals] by (simp add: without_created_def)
  show "ls_round x = ls_round y" "ls_executed x = ls_executed y" "ls_skipped x = ls_skipped y"
    "ls_any_failed x = ls_any_failed y" "ls_outcomes x = ls_outcomes y"
    using arg_cong [OF assms, of ls_round] arg_cong [OF assms, of ls_executed] arg_cong [OF assms, of ls_skipped]
      arg_cong [OF assms, of ls_any_failed] arg_cong [OF assms, of ls_outcomes] by (simp_all add: without_created_def)
  from t show "tt_rounds (ls_totals x) = tt_rounds (ls_totals y)" "totals_agree (ls_totals x) = totals_agree (ls_totals y)"
    by (cases "ls_totals x"; cases "ls_totals y"; simp add: totals_agree_def [abs_def])+
qed

lemma loop_pass_cases:
  assumes "loop_pass b env st = PassOn st' \<or> loop_pass b env st = PassStop s st'"
  obtains (same) "st' = st" "loop_pass b env st = PassStop s st'"
  | (round) before_items candidates ocs where
    "re_before env = Listed before_items" "re_executable env = Listed candidates"
    "frozen_of b candidates st \<noteq> []" "executeRound b (frozen_of b candidates st) (re_events env (frozen_of b candidates st)) = Some ocs"
    "end_round (IDSet before_items) ocs (re_after env) (begin_round st) = loop_pass b env st"
    "without_created st' = without_created (after_outcomes ocs st)"
    "MaxRounds b > 0 \<longrightarrow> int (ls_round st) < MaxRounds b" "RemainingWorkItems b (ls_executed st) \<noteq> 0"
proof -
  let ?frozen = "\<lambda>cs. frozen_of b cs st"
  consider (stop) "st' = st" "loop_pass b env st = PassStop s st'"
    | (play) before_items candidates where
      "re_before env = Listed before_items" "re_executable env = Listed candidates" "?frozen candidates \<noteq> []"
      "loop_pass b env st = play_round b env (IDSet before_items) (?frozen candidates) st"
      "MaxRounds b > 0 \<longrightarrow> int (ls_round st) < MaxRounds b" "RemainingWorkItems b (ls_executed st) \<noteq> 0"
    using assms by (auto simp: loop_pass_def Let_def frozen_of_def split: if_splits listing.splits)
  then show thesis
  proof cases
    case stop
    then show thesis by (rule same)
  next
    case play
    from assms play(4) obtain ocs where ocs: "executeRound b (?frozen candidates) (re_events env (?frozen candidates)) = Some ocs"
      and pass: "end_round (IDSet before_items) ocs (re_after env) (begin_round st) = loop_pass b env st"
      by (auto simp: play_round_def split: option.splits)
    have "without_created st' = without_created (after_outcomes ocs st)"
      using assms unfolding pass [symmetric]
      by (auto simp: end_round_def Let_def after_outcomes_def begin_round_def without_created_def split: listing.splits if_splits)
    with round [OF play(1-3) ocs pass _ play(5,6)] show thesis by this
  qed
qed

text \<open>Every pass keeps the state of the loop in agreement with its outcomes.\<close>

lemma RemainingWorkItems_bounds:
  "MaxWorkItems b > 0 \<Longrightarrow> RemainingWorkItems b n \<noteq> 0 \<Longrightarrow> 0 < RemainingWorkItems b n \<and> RemainingWorkItems b n = MaxWorkItems b - int n"
  "RemainingWorkItems b n \<noteq> 0 \<Longrightarrow> frozen_of b cs st = FreezeRound (filterSkipped cs (ls_skipped st)) (RemainingWorkItems b (ls_executed st))"
  by (auto simp: RemainingWorkItems_def frozen_of_def split: if_splits)

lemma loop_pass_agrees:
  assumes A: "loop_agrees b env st" and k: "reaches b env k st" and "loop_pass b (env k) st = PassOn st' \<or> loop_pass b (env k) st = PassStop s st'"
  shows "loop_agrees b env st'"
  using assms(3)
proof (cases rule: loop_pass_cases)
  case same
  then show ?thesis using A by simp
next
  case (round before_items candidates ocs)
  have "went_through b env (frozen_of b candidates st ! i) e"
    if "ItemExecuted i e \<in> set (re_events (env k) (frozen_of b candidates st))" "i < length (frozen_of b candidates st)" for i e
    using that k round(2) unfolding went_through_def by blast
  note R = executeRound_Some [OF round(4), of "went_through b env", OF this]
  let ?st = "(begin_round st)\<lparr> ls_outcomes := ls_outcomes st @ ocs \<rparr>"
  note F = fold_record_outcome [where st = ?st and ocs = ocs, folded after_outcomes_def]
  note W = without_createdD [OF round(6)]
  have "totals_agree (ls_totals ?st) (ls_outcomes st)" using A by (simp add: loop_agrees_def begin_round_def totals_agree_def)
  then have totals: "totals_agree (ls_totals st') (ls_outcomes st')" using F(4) F(2) by (simp add: W)
  have "length ocs \<le> length (frozen_of b candidates st)"
    using arg_cong [OF R(1), of length] by (simp add: le_trans [OF _ length_filter_le])
  moreover have executed: "length (executed_of ocs) \<le> length ocs" by (simp add: executed_of_def)
  ultimately have small: "MaxWorkItems b > 0 \<Longrightarrow> int (length (executed_of ocs)) \<le> MaxWorkItems b - int (ls_executed st)"
    using FreezeRound_sublist(2) [of "RemainingWorkItems b (ls_executed st)" "filterSkipped candidates (ls_skipped st)"]
      RemainingWorkItems_bounds(1) [OF _ round(8)] executed
    by (simp add: frozen_of_def)
  show ?thesis
    using A totals small R(2) round(7)
    by (auto simp: loop_agrees_def W F begin_round_def executed_of_def image_Un)
qed

lemma loop_agrees_start: "loop_agrees b env loop_start"
  by (simp add: loop_agrees_def loop_start_def no_totals_def totals_agree_def count_result_def executed_of_def)

text \<open>A run that stops does so in a pass; what every pass keeps holds there.\<close>

lemma drain_loop_stops:
  assumes "drain_loop b env k st = Some (Inr (s, st'))" "I k st"
    and "\<And>k st st'. I k st \<Longrightarrow> loop_pass b (env k) st = PassOn st' \<Longrightarrow> I (Suc k) st'"
  shows "\<exists>k' st0. I k' st0 \<and> loop_pass b (env k') st0 = PassStop s st'"
proof -
  have "b' = b \<longrightarrow> env' = env \<longrightarrow> I k st \<longrightarrow> (\<forall>s st'. y = Inr (s, st') \<longrightarrow>
      (\<exists>k' st0. I k' st0 \<and> loop_pass b (env k') st0 = PassStop s st'))"
    if "drain_loop b' env' k st = Some y" for b' env' k st y
    using that
  proof (rule drain_loop.raw_induct [rotated])
    fix loop :: "budget \<Rightarrow> (nat \<Rightarrow> round_env) \<Rightarrow> nat \<Rightarrow> loop_state \<Rightarrow> (unit + stop_reason \<times> loop_state) option"
    fix b' env' k st y
    assume IH: "\<And>b' env' k st y. loop b' env' k st = Some y \<Longrightarrow> b' = b \<longrightarrow> env' = env \<longrightarrow> I k st \<longrightarrow>
        (\<forall>s st'. y = Inr (s, st') \<longrightarrow> (\<exists>k' st0. I k' st0 \<and> loop_pass b (env k') st0 = PassStop s st'))"
      and body: "(case loop_pass b' (env' k) st of PassStop s st' \<Rightarrow> Some (Inr (s, st')) | PassError \<Rightarrow> Some (Inl ())
        | PassHangs \<Rightarrow> None | PassOn st' \<Rightarrow> loop b' env' (Suc k) st') = Some y"
    show "b' = b \<longrightarrow> env' = env \<longrightarrow> I k st \<longrightarrow> (\<forall>s st'. y = Inr (s, st') \<longrightarrow>
        (\<exists>k' st0. I k' st0 \<and> loop_pass b (env k') st0 = PassStop s st'))"
    proof (cases "loop_pass b' (env' k) st")
      case (PassOn st')
      with body IH [of b' env' "Suc k" st' y] assms(3) [of k st st'] show ?thesis by auto
    qed (use body in auto)
  qed
  with assms(1,2) show ?thesis by blast
qed

text \<open>The passes of a run.\<close>

lemma Run_stops:
  assumes "Run b env observed = Some (Inr rep)" "I 0 loop_start"
    and "\<And>k st st'. I k st \<Longrightarrow> loop_pass b (env k) st = PassOn st' \<Longrightarrow> I (Suc k) st'"
  obtains k st0 s st where "I k st0" "loop_pass b (env k) st0 = PassStop s st" "rep = finish_run observed (s, st)"
proof -
  from assms(1) obtain s st where "drain_loop b env 0 loop_start = Some (Inr (s, st))" "rep = finish_run observed (s, st)"
    by (auto simp: Run_def split: option.splits sum.splits)
  with drain_loop_stops [OF this(1), of I] assms(2,3) that show thesis by blast
qed

text \<open>The passes as a step system, whose invariant is the agreement of state and outcomes.\<close>

definition loop_step :: "budget \<Rightarrow> (nat \<Rightarrow> round_env) \<Rightarrow> nat \<times> loop_state \<Rightarrow> nat \<times> loop_state \<Rightarrow> bool" where
  "loop_step b env p q \<longleftrightarrow> fst q = Suc (fst p) \<and> loop_pass b (env (fst p)) (snd p) = PassOn (snd q)"

definition loop_inv :: "budget \<Rightarrow> (nat \<Rightarrow> round_env) \<Rightarrow> nat \<times> loop_state \<Rightarrow> bool" where
  "loop_inv b env p \<longleftrightarrow> reaches b env (fst p) (snd p) \<and> loop_agrees b env (snd p)"

interpretation drain_passes: step_system "\<lambda>p. p = (0, loop_start)" "loop_step b env" "loop_inv b env" for b env
proof
  fix p q
  show "p = (0, loop_start) \<Longrightarrow> loop_inv b env p" by (simp add: loop_inv_def loop_agrees_start reaches_start)
  show "loop_step b env p q \<Longrightarrow> loop_inv b env p \<Longrightarrow> loop_inv b env q"
    using loop_pass_agrees reaches_on unfolding loop_step_def loop_inv_def by (metis (no_types, lifting))
qed

lemma Run_agrees:
  assumes "Run b env observed = Some (Inr rep)"
  obtains s st where "loop_agrees b env st" "rep = finish_run observed (s, st)"
proof (rule Run_stops [OF assms, where I = "\<lambda>k st. (loop_step b env)\<^sup>*\<^sup>* (0, loop_start) (k, st)"])
  fix k st0 s st
  assume "(loop_step b env)\<^sup>*\<^sup>* (0, loop_start) (k, st0)" "loop_pass b (env k) st0 = PassStop s st" "rep = finish_run observed (s, st)"
  note run = this
  have "loop_inv b env (k, st0)" using drain_passes.reachable_inv [of "(0, loop_start)" b env "(k, st0)"] run(1) by simp
  then have "loop_agrees b env st" using loop_pass_agrees [of b env st0 k st s] run(2) by (simp add: loop_inv_def)
  with that run(3) show thesis by blast
next
  fix k st st'
  assume "(loop_step b env)\<^sup>*\<^sup>* (0, loop_start) (k, st)" "loop_pass b (env k) st = PassOn st'"
  then show "(loop_step b env)\<^sup>*\<^sup>* (0, loop_start) (Suc k, st')" by (auto simp: loop_step_def intro: rtranclp.rtrancl_into_rtrancl)
qed simp

text \<open>Written off once, an item is not tried again; the listings name an item once.\<close>

definition listed_once :: "(nat \<Rightarrow> round_env) \<Rightarrow> bool" where
  "listed_once env \<longleftrightarrow> (\<forall>k cs. re_executable (env k) = Listed cs \<longrightarrow> distinct (map cd_id cs))"

lemma frozen_of_fresh:
  assumes "distinct (map cd_id cs)"
  shows "distinct (map cd_id (frozen_of b cs st))" "set (map cd_id (frozen_of b cs st)) \<inter> set (ls_skipped st) = {}"
    "set (frozen_of b cs st) \<subseteq> set cs"
proof -
  have d: "distinct (map cd_id (OrderCandidates (filterSkipped cs (ls_skipped st))))"
    using assms unfolding OrderCandidates_def filterSkipped_def
    by (metis (no_types, lifting) distinct_map_filter mset_map mset_sort mset_eq_imp_distinct_iff)
  show "distinct (map cd_id (frozen_of b cs st))"
    unfolding frozen_of_def by (subst FreezeRound_sublist(1)) (use d in \<open>simp add: distinct_take take_map [symmetric]\<close>)
  have "set (frozen_of b cs st) \<subseteq> set (filterSkipped cs (ls_skipped st))"
    unfolding frozen_of_def by (rule FreezeRound_sublist(3))
  then show "set (map cd_id (frozen_of b cs st)) \<inter> set (ls_skipped st) = {}" "set (frozen_of b cs st) \<subseteq> set cs"
    by (auto simp: set_filterSkipped)
qed

lemma map_outcome_id:
  "executeRound b frozen evs = Some ocs \<Longrightarrow> map outcome_id ocs = filter (\<lambda>i. i \<noteq> []) (map cd_id frozen)"
proof -
  assume "executeRound b frozen evs = Some ocs"
  from arg_cong [OF executeRound_Some(1) [OF this, of "\<lambda>c e. True"], of "map cd_id"]
  show ?thesis by (simp add: outcome_id_def [abs_def] comp_def filter_map)
qed

lemma loop_pass_never_again:
  assumes "loop_agrees b env st \<and> never_again (ls_outcomes st)" "listed_once env"
    and "loop_pass b (env k) st = PassOn st' \<or> loop_pass b (env k) st = PassStop s st'"
  shows "never_again (ls_outcomes st')"
  using assms(3)
proof (cases rule: loop_pass_cases)
  case (round before_items candidates ocs)
  have d: "distinct (map cd_id candidates)" using assms(2) round(2) by (auto simp: listed_once_def)
  note F = frozen_of_fresh [OF d, of b st] and M = map_outcome_id [OF round(4)]
  have ocs: "ls_outcomes st' = ls_outcomes st @ ocs"
    using without_createdD(5) [OF round(6)] by (simp add: after_outcomes_def fold_record_outcome)
  have d: "distinct (map outcome_id ocs)" using F(1) M by simp
  have "outcome_id (ocs ! j) \<noteq> outcome_id (ocs ! i)" if "i < j" "j < length ocs" for i j
    using nth_eq_iff_index_eq [OF d, of i j] that by auto
  then have "never_again ocs" by (simp add: never_again_def sorted_wrt_iff_nth_less)
  moreover have "outcome_id y \<noteq> outcome_id x" if "x \<in> set (ls_outcomes st)" "skips x" "y \<in> set ocs" for x y
  proof -
    have "outcome_id x \<in> set (ls_skipped st)" using assms(1) that by (auto simp: loop_agrees_def)
    moreover have "outcome_id y \<in> set (map cd_id (frozen_of b candidates st))"
      using arg_cong [OF M, of set] that(3) by auto
    ultimately show ?thesis using F(2) by auto
  qed
  ultimately show ?thesis using assms(1) ocs by (simp add: never_again_def sorted_wrt_append)
qed (use assms in simp)

section \<open>A run\<close>

text \<open>One ready item with a single step: it is claimed, its step is done, it is wrapped, and the scope is empty.\<close>

definition lone_item :: candidate where
  "lone_item = \<lparr> cd_id = ''w1'', cd_slug = ''p#1'', cd_priority = ''high'', cd_created = [], cd_rhs = Some False \<rparr>"

definition good_env :: item_env where
  "good_env = \<lparr> ie_workflow = NoWorkflowHook, ie_startup = Some [''build''], ie_ulid = (\<lambda>n. replicate (Suc n) (CHR ''s'')),
     ie_update = (\<lambda>n. UpdateOk), ie_cancelled = (\<lambda>i. False), ie_read_only = (\<lambda>i. Some False), ie_channels = 1,
     ie_channel = (\<lambda>i. 0), ie_dispatch = (\<lambda>i chan sel. \<lparr> da_output = ''built'', da_exit = NoFault, da_err = NoFault \<rparr>),
     ie_attempt_paused = (\<lambda>i. None), ie_wrap = True \<rparr>"

definition lone_schedule :: "round_event list" where
  "lone_schedule = [StartNext False, ClaimReturned 0 (ClaimGranted ''a1''), ItemExecuted 0 good_env, WorkerFreed 0]"

definition lone_env :: "nat \<Rightarrow> round_env" where
  "lone_env k = (let scope = (if k = 0 then [lone_item] else []) in
     \<lparr> re_ctx = CtxLive, re_before = Listed scope, re_executable = Listed scope,
       re_events = (\<lambda>frozen. lone_schedule), re_after = Listed [] \<rparr>)"

definition one_round_each :: budget where
  "one_round_each = \<lparr> MaxRounds = 0, MaxWorkItems = 5, MaxParallel = 0 \<rparr>"

definition idle_hub :: hub_view where
  "idle_hub = \<lparr> hv_list = (\<lambda>q. Some []), hv_blocked_by = (\<lambda>i. Some []), hv_status = (\<lambda>i. None) \<rparr>"

definition my_scope :: scope where
  "my_scope = \<lparr> sc_all = False, sc_user = ''u1'' \<rparr>"

lemma good_reading: "\<not> DetectPause ''built''" "\<not> IsReviewStep ''build''" "\<not> AgentFellBackToDefault ''built''"
    "ClassifyStepDispatch \<lparr> da_output = ''built'', da_exit = NoFault, da_err = NoFault \<rparr> = StepOK"
  by code_simp+

lemma good_item: "\<exists>calls. execute_claimed good_env = (ResultWrapped, 1, calls)"
  by (simp add: execute_claimed_def run_legacy_def good_env_def make_one_call fused_plan Let_def good_reading
      dispatchWithFallback.simps)

lemma lone_round:
  "executeRound one_round_each [lone_item] lone_schedule =
     Some [\<lparr> oc_candidate = lone_item, oc_result = ResultWrapped, oc_steps = 1, oc_retry = False \<rparr>]"
proof -
  obtain calls where "execute_claimed good_env = (ResultWrapped, 1, calls)" using good_item by blast
  then show ?thesis
    by (simp add: executeRound_def lone_schedule_def round_event_step_def round_start_def Parallelism_def one_round_each_def
        DefaultMaxParallel_def next_waiting_def enter_phase_def claim_returned_def item_executed_def finished_outcome_def
        map_filter_def lone_item_def)
qed

lemma lone_frozen: "FreezeRound [lone_item] 5 = [lone_item]"
  by (simp add: FreezeRound_def OrderCandidates_def)

definition lone_state :: loop_state where
  "lone_state = (case loop_pass one_round_each (lone_env 0) loop_start of PassOn st \<Rightarrow> st | _ \<Rightarrow> loop_start)"

lemma lone_first:
  "loop_pass one_round_each (lone_env 0) loop_start = PassOn lone_state"
  "ls_outcomes lone_state = [\<lparr> oc_candidate = lone_item, oc_result = ResultWrapped, oc_steps = 1, oc_retry = False \<rparr>]"
  "ls_skipped lone_state = []"
  using lone_round lone_frozen
  by (simp_all add: lone_state_def loop_pass_def lone_env_def Let_def loop_start_def filterSkipped_def RemainingWorkItems_def
      one_round_each_def [THEN arg_cong [of _ _ MaxRounds]] one_round_each_def [THEN arg_cong [of _ _ MaxWorkItems]]
      play_round_def end_round_def begin_round_def record_outcome_def Executed_def CountCreatedDuringRound_def
      Diverging_def Attempted_def tally_of_def count_result_def)

lemma lone_second: "loop_pass one_round_each (lone_env 1) lone_state = PassStop StopQueueDrained lone_state"
proof -
  have "ls_executed lone_state = 1"
    using loop_pass_agrees [OF loop_agrees_start reaches_start, of one_round_each lone_env lone_state] lone_first(1,2)
    by (simp add: loop_agrees_def executed_of_def Executed_def)
  then show ?thesis
    by (simp add: loop_pass_def lone_env_def Let_def filterSkipped_def RemainingWorkItems_def lone_first
      one_round_each_def FreezeRound_def OrderCandidates_def)
qed

definition lone_report :: run_report where
  "lone_report = finish_run (ObserveQueue idle_hub my_scope) (StopQueueDrained, lone_state)"

lemma lone_run: "Run one_round_each lone_env (ObserveQueue idle_hub my_scope) = Some (Inr lone_report)"
  by (simp add: Run_def drain_loop.simps [of _ _ 0] drain_loop.simps [of _ _ "Suc 0"] lone_first(1)
      lone_second [unfolded One_nat_def] lone_report_def)

lemma lone_outcomes:
  "rr_outcomes lone_report = [\<lparr> oc_candidate = lone_item, oc_result = ResultWrapped, oc_steps = 1, oc_retry = False \<rparr>]"
  by (simp add: lone_report_def finish_run_def Let_def lone_first)

section \<open>Properties\<close>

text \<open>
  C40: a run keeps its budgets. It plays at most \<open>MaxRounds\<close> rounds and executes at most
  \<open>MaxWorkItems\<close> work items when these are set, its totals count its outcomes, and an item that
  was written off, because a foreign attempt holds its lock or its claim failed, is not tried again
  in the whole run; and at no moment of a round are more items in flight than the parallelism
  allows.
\<close>

theorem run_within_budget:
  assumes "Run b env observed = Some (Inr rep)" "listed_once env"
  shows "(MaxRounds b > 0 \<longrightarrow> int (tt_rounds (rr_totals rep)) \<le> MaxRounds b) \<and>
    (MaxWorkItems b > 0 \<longrightarrow> int (length (executed_of (rr_outcomes rep))) \<le> MaxWorkItems b) \<and>
    totals_agree (rr_totals rep) (rr_outcomes rep) \<and> never_again (rr_outcomes rep) \<and>
    (\<forall>frozen evs st. run_events (Parallelism b) frozen evs (round_start frozen) = Some st \<longrightarrow>
       int (length (filter busy (rs_phases st))) \<le> Parallelism b)"
proof -
  obtain k st0 s st where I: "reaches b env k st0" "loop_agrees b env st0 \<and> never_again (ls_outcomes st0)"
    and stop: "loop_pass b (env k) st0 = PassStop s st" and rep: "rep = finish_run observed (s, st)"
  proof (rule Run_stops [OF assms(1), where I = "\<lambda>k st. reaches b env k st \<and> loop_agrees b env st \<and> never_again (ls_outcomes st)"])
    show "reaches b env 0 loop_start \<and> loop_agrees b env loop_start \<and> never_again (ls_outcomes loop_start)"
      using loop_agrees_start reaches_start by (simp add: never_again_def loop_start_def)
    show "reaches b env (Suc k) st' \<and> loop_agrees b env st' \<and> never_again (ls_outcomes st')"
      if "reaches b env k st \<and> loop_agrees b env st \<and> never_again (ls_outcomes st)" "loop_pass b (env k) st = PassOn st'" for k st st'
      using that loop_pass_agrees loop_pass_never_again [OF conjunct2 [OF that(1)] assms(2)] reaches_on by blast
  qed blast
  have "loop_agrees b env st" "never_again (ls_outcomes st)"
    using I stop loop_pass_agrees loop_pass_never_again [OF I(2) assms(2)] by blast+
  moreover have "int (length (filter busy (rs_phases st'))) \<le> Parallelism b"
    if "run_events (Parallelism b) frozen evs (round_start frozen) = Some st'" for frozen evs st'
    using run_events_ok [OF that round_ok_start, of "\<lambda>c e. True"] Parallelism_pos [of b] by (simp add: round_ok_def)
  ultimately show ?thesis by (auto simp: rep finish_run_def Let_def loop_agrees_def)
qed

theorem run_within_budget_witness:
  "executed_of (rr_outcomes lone_report) = rr_outcomes lone_report \<and> totals_agree (rr_totals lone_report) (rr_outcomes lone_report) \<and>
   int (length (executed_of (rr_outcomes lone_report))) \<le> 5"
proof -
  have "listed_once lone_env" by (auto simp: listed_once_def lone_env_def Let_def)
  note run_within_budget [OF lone_run this]
  moreover have "executed_of (rr_outcomes lone_report) = rr_outcomes lone_report"
    by (simp add: lone_outcomes executed_of_def Executed_def)
  ultimately show ?thesis by (simp add: one_round_each_def)
qed



end
