(* ===== verification/Drain_Convergence.thy ===== *)
theory Drain_Convergence
  imports Drain_Properties
begin

text \<open>
  Why a drain run without budgets ends. The measure is the number of work items in scope and, for
  equal numbers, how many of them the run has neither executed nor written off: the divergence
  check stops a run in which the first does not fall while items are created, and the skip set and
  the ready predicate make the second fall otherwise. What this takes of the hub is \<open>quiet_hub\<close>;
  what it takes of the rounds is \<open>rounds_progress\<close>, and \<open>siblings_refuse_forever\<close> shows that
  the code does not give it.
\<close>

definition ids_of :: "candidate list \<Rightarrow> string set" where
  "ids_of cs = set (map cd_id cs)"

text \<open>
  Nobody else works in the scope: an item is listed once, a ready item is in scope and has not
  been executed by this run, a wrapped item leaves the scope, and a pass begins with the scope the
  last one ended with.
\<close>

definition quiet_hub :: "budget \<Rightarrow> (nat \<Rightarrow> round_env) \<Rightarrow> bool" where
  "quiet_hub b env \<longleftrightarrow>
     (\<forall>k st bs cs. reaches b env k st \<and> re_before (env k) = Listed bs \<and> re_executable (env k) = Listed cs \<longrightarrow>
        distinct (map cd_id bs) \<and> distinct (map cd_id cs) \<and> ids_of cs \<subseteq> ids_of bs \<and>
        ids_of cs \<inter> outcome_id ` set (executed_of (ls_outcomes st)) = {} \<and>
        (\<forall>ocs later. executeRound b (frozen_of b cs st) (re_events (env k) (frozen_of b cs st)) = Some ocs \<and>
             re_after (env k) = Listed later \<longrightarrow>
           distinct (map cd_id later) \<and>
           (\<forall>oc \<in> set ocs. oc_result oc = ResultWrapped \<longrightarrow> outcome_id oc \<notin> ids_of later) \<and>
           (\<forall>bs'. re_before (env (Suc k)) = Listed bs' \<longrightarrow> ids_of bs' = ids_of later)))"

text \<open>Every round that is played returns, and not every outcome of it is put off to the next one.\<close>

definition rounds_progress :: "budget \<Rightarrow> (nat \<Rightarrow> round_env) \<Rightarrow> bool" where
  "rounds_progress b env \<longleftrightarrow>
     (\<forall>k st cs. reaches b env k st \<and> re_executable (env k) = Listed cs \<and> frozen_of b cs st \<noteq> [] \<longrightarrow>
        (\<exists>ocs. executeRound b (frozen_of b cs st) (re_events (env k) (frozen_of b cs st)) = Some ocs \<and>
           (\<exists>oc \<in> set ocs. \<not> oc_retry oc)))"

definition used_ids :: "loop_state \<Rightarrow> string set" where
  "used_ids st = set (ls_skipped st) \<union> outcome_id ` set (executed_of (ls_outcomes st))"

definition work_left :: "(nat \<Rightarrow> round_env) \<Rightarrow> nat \<Rightarrow> loop_state \<Rightarrow> nat \<times> nat" where
  "work_left env k st =
     (case re_before (env k) of
        Listed bs \<Rightarrow> (Suc (card (ids_of bs)), card (ids_of bs - used_ids st))
      | ListFailed c x \<Rightarrow> (0, 0))"

text \<open>A pass that goes on: its round, its listings and why it did not diverge.\<close>

lemma PassOn_cases:
  assumes "loop_pass b env st = PassOn st'"
  obtains bs cs ocs later where
    "re_before env = Listed bs" "re_executable env = Listed cs" "re_after env = Listed later"
    "frozen_of b cs st \<noteq> []" "executeRound b (frozen_of b cs st) (re_events env (frozen_of b cs st)) = Some ocs"
    "CountCreatedDuringRound (IDSet bs) later = 0 \<or> CountCreatedDuringRound (IDSet bs) later < count_result ResultWrapped ocs"
    "used_ids st' = used_ids st \<union> outcome_id ` {oc \<in> set ocs. skips oc \<or> Executed (oc_result oc)}"
  using assms
proof (cases rule: loop_pass_cases [of b env st st' undefined, OF disjI1])
  case (3 bs cs ocs)
  from 3(5) assms obtain later where later: "re_after env = Listed later"
    "\<not> Diverging ((tally_of ocs)\<lparr> rt_created := CountCreatedDuringRound (IDSet bs) later \<rparr>)"
    by (auto simp: end_round_def Let_def split: listing.splits if_splits)
  note W = without_createdD [OF 3(6)]
  have "set (ls_skipped st') = set (ls_skipped st) \<union> outcome_id ` set (filter skips ocs)" "ls_outcomes st' = ls_outcomes st @ ocs"
    by (simp_all add: W after_outcomes_def fold_record_outcome begin_round_def)
  then have "used_ids st' = used_ids st \<union> outcome_id ` {oc \<in> set ocs. skips oc \<or> Executed (oc_result oc)}"
    by (auto simp: used_ids_def executed_of_def)
  moreover have "CountCreatedDuringRound (IDSet bs) later = 0 \<or> CountCreatedDuringRound (IDSet bs) later < count_result ResultWrapped ocs"
    using later(2) by (auto simp: Diverging_def tally_of_def)
  ultimately show thesis using that 3(1-4) later(1) by blast
qed (use assms in simp_all)

text \<open>The numbers behind one round, as sets of ids.\<close>

lemma card_scope:
  assumes "finite B" "finite A" "W \<subseteq> B" "W \<inter> A = {}" "card (A - B) = 0 \<or> card (A - B) < card W"
  shows "card A < card B \<or> A = B \<and> W = {}"
proof -
  have fW: "finite W" using assms(1,3) by (rule rev_finite_subset)
  have "A \<subseteq> (B - W) \<union> (A - B)" using assms(4) by blast
  then have "card A \<le> card ((B - W) \<union> (A - B))" using assms(1,2) by (simp add: card_mono)
  also have "\<dots> \<le> card (B - W) + card (A - B)" by (rule card_Un_le)
  also have "card (B - W) = card B - card W" using fW assms(3) by (rule card_Diff_subset)
  finally have le: "card A \<le> card B - card W + card (A - B)" .
  have WB: "card W \<le> card B" using assms(1,3) by (rule card_mono)
  show ?thesis
  proof (cases "card (A - B) < card W")
    case True
    with le WB show ?thesis by linarith
  next
    case False
    with assms(2,5) have sub: "A \<subseteq> B" by auto
    show ?thesis
    proof (cases "A = B")
      case True
      with assms(3,4) show ?thesis by auto
    next
      case False
      with sub assms(1) show ?thesis by (simp add: psubset_card_mono psubsetI)
    qed
  qed
qed

lemma work_left_falls:
  assumes quiet: "quiet_hub b env" and prog: "rounds_progress b env" and R: "reaches b env k st"
    and pass: "loop_pass b (env k) st = PassOn st'"
  shows "(work_left env (Suc k) st', work_left env k st) \<in> less_than <*lex*> less_than"
proof -
  obtain bs cs ocs later where L: "re_before (env k) = Listed bs" "re_executable (env k) = Listed cs" "re_after (env k) = Listed later"
    and frozen: "frozen_of b cs st \<noteq> []"
    and ocs: "executeRound b (frozen_of b cs st) (re_events (env k) (frozen_of b cs st)) = Some ocs"
    and conv: "CountCreatedDuringRound (IDSet bs) later = 0 \<or> CountCreatedDuringRound (IDSet bs) later < count_result ResultWrapped ocs"
    and used: "used_ids st' = used_ids st \<union> outcome_id ` {oc \<in> set ocs. skips oc \<or> Executed (oc_result oc)}"
    using pass by (rule PassOn_cases)
  have Q: "distinct (map cd_id cs)" "ids_of cs \<subseteq> ids_of bs"
      "ids_of cs \<inter> outcome_id ` set (executed_of (ls_outcomes st)) = {}" "distinct (map cd_id later)"
      "\<And>oc. oc \<in> set ocs \<Longrightarrow> oc_result oc = ResultWrapped \<Longrightarrow> outcome_id oc \<notin> ids_of later"
      "\<And>bs'. re_before (env (Suc k)) = Listed bs' \<Longrightarrow> ids_of bs' = ids_of later"
    using quiet R L ocs unfolding quiet_hub_def by blast+
  define B where "B = ids_of bs"
  define A where "A = ids_of later"
  define W where "W = outcome_id ` {oc \<in> set ocs. oc_result oc = ResultWrapped}"
  note F = frozen_of_fresh [OF Q(1), of b st] and M = map_outcome_id [OF ocs]
  have oc_ids: "outcome_id oc \<in> ids_of (frozen_of b cs st)" if "oc \<in> set ocs" for oc
    using arg_cong [OF M, of set] that by (auto simp: ids_of_def)
  have frozen_B: "ids_of (frozen_of b cs st) \<subseteq> B" using F(3) Q(2) by (auto simp: ids_of_def B_def)
  have frozen_new: "ids_of (frozen_of b cs st) \<inter> used_ids st = {}"
    using F(2,3) Q(3) by (auto simp: used_ids_def ids_of_def)
  have d: "distinct (map outcome_id ocs)" using M F(1) by simp
  have "count_result ResultWrapped ocs = card W"
  proof -
    have "distinct (map outcome_id (filter (\<lambda>oc. oc_result oc = ResultWrapped) ocs))" using d by (rule distinct_map_filter)
    from distinct_card [OF this] show ?thesis by (simp add: count_result_def W_def)
  qed
  moreover have "CountCreatedDuringRound (IDSet bs) later = card (A - B)"
  proof -
    have "distinct (map cd_id (filter (\<lambda>c. cd_id c \<notin> B) later))" using Q(4) by (rule distinct_map_filter)
    moreover have "set (map cd_id (filter (\<lambda>c. cd_id c \<notin> B) later)) = A - B" by (auto simp: A_def ids_of_def)
    ultimately show ?thesis using distinct_card by (fastforce simp: CountCreatedDuringRound_def IDSet_def B_def ids_of_def)
  qed
  ultimately have scope: "card A < card B \<or> A = B \<and> W = {}"
    using conv oc_ids frozen_B Q(5) by (intro card_scope) (auto simp: A_def B_def W_def ids_of_def)
  have "card (B - used_ids st') < card (B - used_ids st)" if "W = {}"
  proof -
    obtain oc where oc: "oc \<in> set ocs" "\<not> oc_retry oc"
      using prog R L(2) frozen ocs unfolding rounds_progress_def by (metis option.inject)
    have "outcome_ok (\<lambda>c e. True) (oc_candidate oc) oc" using executeRound_Some(2) [OF ocs, of "\<lambda>c e. True"] oc(1) by simp
    with oc have "skips oc \<or> Executed (oc_result oc)" by (cases "oc_result oc") (auto simp: outcome_ok_def skips_def Executed_def)
    with oc(1) have "outcome_id oc \<in> used_ids st'" using used by auto
    moreover have "outcome_id oc \<in> B - used_ids st" using oc_ids [OF oc(1)] frozen_B frozen_new by blast
    moreover have "used_ids st \<subseteq> used_ids st'" using used by simp
    ultimately have "B - used_ids st' \<subset> B - used_ids st" by blast
    then show ?thesis by (intro psubset_card_mono) (simp_all add: B_def ids_of_def)
  qed
  with scope Q(6) show ?thesis by (auto simp: work_left_def L(1) A_def B_def split: listing.splits)
qed

lemma drain_loop_returns:
  assumes "quiet_hub b env" "rounds_progress b env"
  shows "reaches b env k st \<Longrightarrow> \<exists>r. drain_loop b env k st = Some r"
proof (induction "work_left env k st" arbitrary: k st rule: wf_induct_rule [OF wf_lex_prod [OF wf_less_than wf_less_than]])
  case less: (1 k st)
  show ?case
  proof (cases "loop_pass b (env k) st")
    case (PassOn st')
    with less work_left_falls [OF assms less.prems PassOn] reaches_on [OF less.prems PassOn]
    have "\<exists>r. drain_loop b env (Suc k) st' = Some r" by blast
    with PassOn show ?thesis by (simp add: drain_loop.simps [of b env k st])
  next
    case PassHangs
    then obtain cs where cs: "re_executable (env k) = Listed cs" "frozen_of b cs st \<noteq> []"
      "executeRound b (frozen_of b cs st) (re_events (env k) (frozen_of b cs st)) = None"
      by (auto simp: loop_pass_def play_round_def end_round_def frozen_of_def Let_def split: if_splits listing.splits option.splits)
    with assms(2) less.prems show ?thesis unfolding rounds_progress_def by fastforce
  qed (simp_all add: drain_loop.simps [of b env k st])
qed

section \<open>Convergence\<close>

lemma lone_reaches: "reaches one_round_each lone_env k st \<Longrightarrow> k = 0 \<and> st = loop_start \<or> k = 1 \<and> st = lone_state"
  by (induction rule: reaches.induct) (use lone_first(1) lone_second in auto)

lemma lone_frozen_of: "frozen_of one_round_each [lone_item] loop_start = [lone_item]"
  using lone_frozen by (simp add: frozen_of_def loop_start_def filterSkipped_def RemainingWorkItems_def one_round_each_def)

lemma lone_quiet: "quiet_hub one_round_each lone_env"
  unfolding quiet_hub_def
proof (intro allI impI)
  fix k st bs cs
  assume A: "reaches one_round_each lone_env k st \<and> re_before (lone_env k) = Listed bs \<and> re_executable (lone_env k) = Listed cs"
  then consider "k = 0" "st = loop_start" | "k = 1" using lone_reaches by blast
  then show "distinct (map cd_id bs) \<and> distinct (map cd_id cs) \<and> ids_of cs \<subseteq> ids_of bs \<and>
        ids_of cs \<inter> outcome_id ` set (executed_of (ls_outcomes st)) = {} \<and>
        (\<forall>ocs later. executeRound one_round_each (frozen_of one_round_each cs st) (re_events (lone_env k) (frozen_of one_round_each cs st)) = Some ocs \<and>
             re_after (lone_env k) = Listed later \<longrightarrow>
           distinct (map cd_id later) \<and>
           (\<forall>oc \<in> set ocs. oc_result oc = ResultWrapped \<longrightarrow> outcome_id oc \<notin> ids_of later) \<and>
           (\<forall>bs'. re_before (lone_env (Suc k)) = Listed bs' \<longrightarrow> ids_of bs' = ids_of later))"
    using A by cases (auto simp: lone_env_def Let_def ids_of_def loop_start_def executed_of_def)
qed

lemma lone_progress: "rounds_progress one_round_each lone_env"
  unfolding rounds_progress_def
proof (intro allI impI)
  fix k st cs
  assume A: "reaches one_round_each lone_env k st \<and> re_executable (lone_env k) = Listed cs \<and> frozen_of one_round_each cs st \<noteq> []"
  have "k \<noteq> 1" using A by (auto simp: lone_env_def Let_def frozen_of_def FreezeRound_def OrderCandidates_def filterSkipped_def)
  with A lone_reaches have "k = 0" "st = loop_start" by blast+
  with A show "\<exists>ocs. executeRound one_round_each (frozen_of one_round_each cs st) (re_events (lone_env k) (frozen_of one_round_each cs st)) = Some ocs \<and>
           (\<exists>oc \<in> set ocs. \<not> oc_retry oc)"
    using lone_frozen_of lone_round by (simp add: lone_env_def Let_def)
qed



section \<open>Runs that should end and do not, or end and should not\<close>

text \<open>A run whose passes all go on does not return.\<close>

lemma drain_never_returns:
  assumes "\<And>k st. I k st \<Longrightarrow> \<exists>st'. loop_pass b (env k) st = PassOn st' \<and> I (Suc k) st'" "I k st"
  shows "drain_loop b env k st = None"
proof -
  have "b' = b \<longrightarrow> env' = env \<longrightarrow> \<not> I k st" if "drain_loop b' env' k st = Some y" for b' env' k st y
    using that
  proof (rule drain_loop.raw_induct [rotated])
    fix loop :: "budget \<Rightarrow> (nat \<Rightarrow> round_env) \<Rightarrow> nat \<Rightarrow> loop_state \<Rightarrow> (unit + stop_reason \<times> loop_state) option"
    fix b' env' k st y
    assume IH: "\<And>b' env' k st y. loop b' env' k st = Some y \<Longrightarrow> b' = b \<longrightarrow> env' = env \<longrightarrow> \<not> I k st"
      and body: "(case loop_pass b' (env' k) st of PassStop s st' \<Rightarrow> Some (Inr (s, st')) | PassError \<Rightarrow> Some (Inl ())
        | PassHangs \<Rightarrow> None | PassOn st' \<Rightarrow> loop b' env' (Suc k) st') = Some y"
    show "b' = b \<longrightarrow> env' = env \<longrightarrow> \<not> I k st"
    proof (intro impI notI)
      assume e: "b' = b" "env' = env" "I k st"
      from assms(1) [OF e(3)] obtain st' where "loop_pass b (env k) st = PassOn st'" "I (Suc k) st'" by blast
      with body e IH [of b env "Suc k" st' y] show False by simp
    qed
  qed
  with assms(2) show ?thesis by (metis not_None_eq)
qed

text \<open>
  Two ready items, each of which needs a lock that an old attempt of the other still holds: in
  every round both are in flight when they are refused, each refusal names the sibling, and both
  are put off to the next round. Neither is claimed.
\<close>

definition sibling :: "string \<Rightarrow> string \<Rightarrow> candidate" where
  "sibling i slug = \<lparr> cd_id = i, cd_slug = slug, cd_priority = ''normal'', cd_created = ''2026-09-14T10:00:00Z'', cd_rhs = Some False \<rparr>"

definition siblings :: "candidate list" where
  "siblings = [sibling ''w1'' ''p#1'', sibling ''w2'' ''p#2'']"

definition unlimited :: budget where
  "unlimited = \<lparr> MaxRounds = 0, MaxWorkItems = 0, MaxParallel = 2 \<rparr>"

definition refused_for :: "string \<Rightarrow> claim_answer" where
  "refused_for slug = ClaimLockTaken (Some \<lparr> bl_work_item = slug, bl_attempt = ''old'' \<rparr>)"

definition mutual_refusals :: "round_event list" where
  "mutual_refusals = [StartNext False, StartNext False, ClaimReturned 0 (refused_for ''p#2''),
     ClaimReturned 1 (refused_for ''p#1''), WorkerFreed 0, WorkerFreed 1]"

definition refusing_env :: round_env where
  "refusing_env = \<lparr> re_ctx = CtxLive, re_before = Listed siblings, re_executable = Listed siblings,
     re_events = (\<lambda>frozen. mutual_refusals), re_after = Listed siblings \<rparr>"

definition put_off :: "candidate \<Rightarrow> wi_outcome" where
  "put_off c = \<lparr> oc_candidate = c, oc_result = ResultLockBlocked, oc_steps = 0, oc_retry = True \<rparr>"

lemma refused_round: "executeRound unlimited siblings mutual_refusals = Some (map put_off siblings)"
  by code_simp

lemma siblings_frozen: "FreezeRound siblings (- 1) = siblings"
  by code_simp

lemma siblings_refuse_forever: "Run unlimited (\<lambda>k. refusing_env) observed = None"
proof -
  have "drain_loop unlimited (\<lambda>k. refusing_env) 0 loop_start = None"
  proof (rule drain_never_returns [where I = "\<lambda>k st. ls_skipped st = [] \<and> ls_executed st = 0"])
    fix k and st :: loop_state
    assume st: "ls_skipped st = [] \<and> ls_executed st = 0"
    have "RemainingWorkItems unlimited 0 = - 1" "filterSkipped siblings [] = siblings" "siblings \<noteq> []"
      by (simp_all add: RemainingWorkItems_def unlimited_def filterSkipped_def siblings_def)
    moreover have "CountCreatedDuringRound (IDSet siblings) siblings = 0"
      by (auto simp: CountCreatedDuringRound_def IDSet_def)
    ultimately show "\<exists>st'. loop_pass unlimited refusing_env st = PassOn st' \<and> ls_skipped st' = [] \<and> ls_executed st' = 0"
      using st siblings_frozen refused_round
      by (simp add: loop_pass_def refusing_env_def unlimited_def [THEN arg_cong [of _ _ MaxRounds]] play_round_def end_round_def
          begin_round_def Let_def Diverging_def Attempted_def tally_of_def count_result_def siblings_def put_off_def
          record_outcome_def Executed_def)
  qed (simp add: loop_start_def)
  then show ?thesis by (simp add: Run_def)
qed

text \<open>
  The listings of the scope are single pages. With more items in scope than a page holds, an item
  that leaves the scope makes room for one that was there all along, and the divergence check
  counts it as created: a round that wraps one item and files none is stopped as diverging.
\<close>

definition drain_page :: "candidate list \<Rightarrow> candidate list" where
  "drain_page cs = take 200 cs"

lemma page_shift_diverges:
  assumes d: "distinct (map cd_id items)" and l: "200 < length items" and i: "c \<in> set (drain_page items)"
  shows "Diverging ((tally_of [\<lparr> oc_candidate = c, oc_result = ResultWrapped, oc_steps = n, oc_retry = False \<rparr>])
    \<lparr> rt_created := CountCreatedDuringRound (IDSet (drain_page items)) (drain_page (filter (\<lambda>x. cd_id x \<noteq> cd_id c) items)) \<rparr>)"
proof -
  from i obtain j where j: "j < 200" "j < length items" "c = items ! j"
    by (auto simp: drain_page_def in_set_conv_nth)
  have split: "items = take j items @ c # drop (Suc j) items" using j by (simp add: id_take_nth_drop)
  with d have "cd_id c \<notin> set (map cd_id (take j items))" "cd_id c \<notin> set (map cd_id (drop (Suc j) items))"
    by (metis (no_types, lifting) distinct_append disjoint_iff distinct.simps(2) list.set_intros(1) list.simps(9) map_append)+
  then have "filter (\<lambda>x. cd_id x \<noteq> cd_id c) (take j items) = take j items"
    "filter (\<lambda>x. cd_id x \<noteq> cd_id c) (drop (Suc j) items) = drop (Suc j) items"
    by (metis (mono_tags, lifting) filter_True image_eqI list.set_map)+
  then have "filter (\<lambda>x. cd_id x \<noteq> cd_id c) (take j items @ c # drop (Suc j) items) = take j items @ drop (Suc j) items"
    by simp
  then have "filter (\<lambda>x. cd_id x \<noteq> cd_id c) items = take j items @ drop (Suc j) items" by (simp only: split [symmetric])
  then have page: "drain_page (filter (\<lambda>x. cd_id x \<noteq> cd_id c) items) = take j items @ take (200 - j) (drop (Suc j) items)"
    using j by (simp add: drain_page_def min_def)
  have "items ! 200 \<in> set (take (200 - j) (drop (Suc j) items))"
  proof -
    have "take (200 - j) (drop (Suc j) items) ! (199 - j) = items ! 200" "199 - j < length (take (200 - j) (drop (Suc j) items))"
      using j l by (simp_all add: nth_drop)
    then show ?thesis by (metis nth_mem)
  qed
  then have "items ! 200 \<in> set (drain_page (filter (\<lambda>x. cd_id x \<noteq> cd_id c) items))" by (simp add: page)
  moreover have "cd_id (items ! 200) \<notin> set (IDSet (drain_page items))"
    using d l by (auto simp: IDSet_def drain_page_def distinct_conv_nth in_set_conv_nth)
  ultimately have "CountCreatedDuringRound (IDSet (drain_page items)) (drain_page (filter (\<lambda>x. cd_id x \<noteq> cd_id c) items)) > 0"
    unfolding CountCreatedDuringRound_def by (metis (no_types, lifting) filter_empty_conv length_greater_0_conv)
  then show ?thesis by (simp add: Diverging_def tally_of_def count_result_def)
qed

end
