(* ===== verification/Step_Calls.thy ===== *)
theory Step_Calls
  imports Step_Bracket Hub_Api
begin

text \<open>
  How a client addresses the step handler: the attempt's local state file
  (\<^verbatim>\<open>internal/config/state.go\<close>), the tool \<^verbatim>\<open>pf_update_step\<close>
  (\<^verbatim>\<open>internal/mcp/tools_step.go\<close>) and the drain scheduler's own call
  (\<^verbatim>\<open>drainQueries.UpdateStep\<close> of \<^verbatim>\<open>internal/cli/drain.go\<close>). A request
  body is the list of its JSON members; the handler binds the members by the names of
  \<^verbatim>\<open>UpdateStepRequest\<close> and ignores every other. Every member here is sent with the type
  its name is bound at.
\<close>

section \<open>Local state files (state.go)\<close>

record state_file =
  sf_wi :: string
  sf_slug :: string
  sf_attempt :: string
  sf_epoch :: int
  sf_secret :: string

text \<open>
  The state directory in the order of its listing: the name of each file without its
  extension, and what it holds, \<open>None\<close> when it cannot be read or parsed.
\<close>

type_synonym state_dir = "(string \<times> state_file option) list"

definition ReadStateFile :: "state_dir \<Rightarrow> string \<Rightarrow> state_file option" where
  "ReadStateFile dir wiID = (case map_of dir wiID of None \<Rightarrow> None | Some s \<Rightarrow> s)"

definition FindStateFiles :: "state_dir \<Rightarrow> state_file list" where
  "FindStateFiles dir = List.map_filter (\<lambda>e. ReadStateFile dir (fst e)) dir"

definition ResolveStateFile :: "state_dir \<Rightarrow> string \<Rightarrow> state_file option" where
  "ResolveStateFile dir idOrSlug =
     (case ReadStateFile dir idOrSlug of
        Some s \<Rightarrow>
          (if sf_attempt s \<noteq> [] then Some s
           else case find (\<lambda>t. sf_slug t = idOrSlug \<and> sf_attempt t \<noteq> []) (FindStateFiles dir) of
             Some t \<Rightarrow> Some t
           | None \<Rightarrow> Some s)
      | None \<Rightarrow> find (\<lambda>t. sf_slug t = idOrSlug \<and> sf_attempt t \<noteq> []) (FindStateFiles dir))"

definition DeleteStateFile :: "string \<Rightarrow> state_dir \<Rightarrow> state_dir" where
  "DeleteStateFile wiID dir = filter (\<lambda>e. fst e \<noteq> wiID) dir"

section \<open>Bodies\<close>

datatype wire = WStr string | WInt int | WBool bool

type_synonym body = "(string \<times> wire) list"

definition str_member :: "body \<Rightarrow> string \<Rightarrow> string option" where
  "str_member b k = (case map_of b k of Some (WStr s) \<Rightarrow> Some s | _ \<Rightarrow> None)"

definition int_member :: "body \<Rightarrow> string \<Rightarrow> int" where
  "int_member b k = (case map_of b k of Some (WInt n) \<Rightarrow> n | _ \<Rightarrow> 0)"

definition bool_member :: "body \<Rightarrow> string \<Rightarrow> bool" where
  "bool_member b k = (case map_of b k of Some (WBool v) \<Rightarrow> v | _ \<Rightarrow> False)"

text \<open>The members that \<^verbatim>\<open>UpdateStepRequest\<close> binds.\<close>

definition bind_step_request :: "body \<Rightarrow> step_request" where
  "bind_step_request b =
     \<lparr>sq_attempt = derefStr (str_member b ''attempt_id''), sq_epoch = int_member b ''claim_epoch'',
      sq_secret = derefStr (str_member b ''session_secret''), sq_status = derefStr (str_member b ''status''),
      sq_step = str_member b ''step'', sq_step_attempt = str_member b ''step_attempt_id'',
      sq_heartbeat = bool_member b ''heartbeat'', sq_summary = str_member b ''artifact_summary'',
      sq_error_type = str_member b ''error_type'', sq_escalated = bool_member b ''escalated'',
      sq_next_step = str_member b ''next_step'', sq_next_attempt = str_member b ''next_step_attempt_id''\<rparr>"

text \<open>\<^verbatim>\<open>Client.UpdateStep\<close>: the PATCH of the body at the handler.\<close>

definition client_UpdateStep ::
    "(string \<Rightarrow> string) \<Rightarrow> int \<Rightarrow> string \<Rightarrow> user_ctx \<Rightarrow> string \<Rightarrow> body \<Rightarrow> hub \<Rightarrow> (hub \<times> step_reply) outcome" where
  "client_UpdateStep sha now scID u wiID b H = handleUpdateStep sha now scID wiID (bind_step_request b) u H"

text \<open>A member that is sent only when it is not empty.\<close>

definition when_set :: "string \<Rightarrow> string \<Rightarrow> body" where
  "when_set k v = (if v \<noteq> [] then [(k, WStr v)] else [])"

section \<open>The tool pf_update_step (tools_step.go)\<close>

record step_args =
  ua_wi :: string
  ua_step :: string
  ua_status :: string
  ua_step_attempt :: string
  ua_summary :: string
  ua_error_type :: string
  ua_escalated :: bool
  ua_heartbeat :: bool
  ua_next_step :: string
  ua_next_attempt :: string

datatype tool_error =
    MissingArgument string
  | InvalidArguments
  | StateFileMissing
  | PausedResumeFirst
  | StaleLocalCredential
  | ServerTooOldForNextStep
  | Refused aihub_error

definition mcp_validateNextStepArgs :: "string \<Rightarrow> string \<Rightarrow> string \<Rightarrow> bool \<Rightarrow> bool" where
  "mcp_validateNextStepArgs nextStep nextStepAttemptID status heartbeat \<longleftrightarrow>
     (if nextStep \<noteq> [] then \<not> heartbeat \<and> status = ''completed'' else nextStepAttemptID = [])"

definition mcp_validateTerminalStepArgs :: "string \<Rightarrow> string \<Rightarrow> bool" where
  "mcp_validateTerminalStepArgs status stepAttemptID \<longleftrightarrow>
     (status \<noteq> ''completed'' \<and> status \<noteq> ''failed'') \<or> trim_space stepAttemptID \<noteq> []"

definition updateStepBody :: "step_args \<Rightarrow> string \<Rightarrow> int \<Rightarrow> string \<Rightarrow> body" where
  "updateStepBody a attemptID claimEpoch sessionSecret =
     [(''step'', WStr (ua_step a)), (''status'', WStr (ua_status a)), (''attempt_id'', WStr attemptID),
      (''claim_epoch'', WInt claimEpoch), (''session_secret'', WStr sessionSecret)] @
     when_set ''step_attempt_id'' (ua_step_attempt a) @ when_set ''artifact_summary'' (ua_summary a) @
     when_set ''error_type'' (ua_error_type a) @ when_set ''next_step'' (ua_next_step a) @
     when_set ''next_step_attempt_id'' (ua_next_attempt a) @
     (if ua_escalated a then [(''escalated'', WBool True)] else [])"

definition heartbeat_body :: "state_file \<Rightarrow> body" where
  "heartbeat_body sf = [(''heartbeat'', WBool True), (''attempt_id'', WStr (sf_attempt sf)),
     (''claim_epoch'', WInt (sf_epoch sf)), (''session_secret'', WStr (sf_secret sf))]"

text \<open>The error the tool shows, and whether the local state file is to be deleted.\<close>

definition classifyStepUpdateErr :: "aihub_error \<Rightarrow> tool_error \<times> bool" where
  "classifyStepUpdateErr e =
     (if err_code e = ErrAttemptPaused then (PausedResumeFirst, False)
      else if err_code e = ErrConflictEpochMismatch \<or> err_code e = ErrAttemptMismatch then (StaleLocalCredential, True)
      else (Refused e, False))"

definition deleteStaleCredential :: "state_file \<Rightarrow> string \<Rightarrow> state_dir \<Rightarrow> state_dir" where
  "deleteStaleCredential sf passedID dir =
     (let d = DeleteStateFile (sf_wi sf) dir
      in if passedID \<noteq> sf_wi sf then DeleteStateFile passedID d else d)"

text \<open>A server that honours a fused advance names the started step in its reply.\<close>

definition checkNextStepHonoured :: "string \<Rightarrow> step_reply \<Rightarrow> bool" where
  "checkNextStepHonoured nextStep reply \<longleftrightarrow>
     nextStep = [] \<or> (case reply of Transitioned st (Some n) \<Rightarrow> True | _ \<Rightarrow> False)"

definition pf_update_step ::
    "(string \<Rightarrow> string) \<Rightarrow> int \<Rightarrow> string \<Rightarrow> user_ctx \<Rightarrow> step_args \<Rightarrow> state_dir \<Rightarrow> hub \<Rightarrow>
     state_dir \<times> hub \<times> (tool_error + step_reply)" where
  "pf_update_step sha now scID u a dir H =
     (if ua_wi a = [] then (dir, H, Inl (MissingArgument ''work_item_id''))
      else if \<not> mcp_validateNextStepArgs (ua_next_step a) (ua_next_attempt a) (ua_status a) (ua_heartbeat a)
      then (dir, H, Inl InvalidArguments)
      else case ResolveStateFile dir (ua_wi a) of
        None \<Rightarrow> (dir, H, Inl StateFileMissing)
      | Some sf \<Rightarrow>
        (let send = (\<lambda>b after. case client_UpdateStep sha now scID u (ua_wi a) b H of
               Inl e \<Rightarrow>
                 (case classifyStepUpdateErr e of (outErr, deleteState) \<Rightarrow>
                    (if deleteState then deleteStaleCredential sf (ua_wi a) dir else dir, H, Inl outErr))
             | Inr (H', reply) \<Rightarrow> (dir, H', after reply))
         in if ua_heartbeat a then send (heartbeat_body sf) Inr
            else if ua_step a = [] then (dir, H, Inl (MissingArgument ''step_id''))
            else if ua_status a = [] then (dir, H, Inl (MissingArgument ''status''))
            else if \<not> mcp_validateTerminalStepArgs (ua_status a) (ua_step_attempt a) then (dir, H, Inl InvalidArguments)
            else send (updateStepBody a (sf_attempt sf) (sf_epoch sf) (sf_secret sf))
              (\<lambda>reply. if checkNextStepHonoured (ua_next_step a) reply then Inr reply else Inl ServerTooOldForNextStep)))"

text \<open>The tool's arguments for one call of a bracket (the JSON names of \<^verbatim>\<open>StepCall\<close>).\<close>

definition args_of_call :: "string \<Rightarrow> step_call \<Rightarrow> step_args" where
  "args_of_call wiID c =
     \<lparr>ua_wi = wiID, ua_step = sl_step c, ua_status = sl_status c, ua_step_attempt = sl_step_attempt c,
      ua_summary = sl_summary c, ua_error_type = sl_error_type c, ua_escalated = False, ua_heartbeat = False,
      ua_next_step = sl_next_step c, ua_next_attempt = sl_next_attempt c\<rparr>"

section \<open>The call of the drain scheduler (drain.go)\<close>

definition attemptCredentials :: "state_dir \<Rightarrow> string \<Rightarrow> body" where
  "attemptCredentials dir wiID =
     (case ResolveStateFile dir wiID of
        None \<Rightarrow> []
      | Some sf \<Rightarrow>
        (if sf_attempt sf = [] then []
         else [(''attempt_id'', WStr (sf_attempt sf)), (''claim_epoch'', WInt (sf_epoch sf)),
               (''session_secret'', WStr (sf_secret sf))]))"

definition drain_body :: "state_dir \<Rightarrow> string \<Rightarrow> step_call \<Rightarrow> body" where
  "drain_body dir wiID c =
     [(''step_id'', WStr (sl_step c)), (''status'', WStr (sl_status c))] @ attemptCredentials dir wiID @
     when_set ''step_attempt_id'' (sl_step_attempt c) @ when_set ''next_step'' (sl_next_step c) @
     when_set ''next_step_attempt_id'' (sl_next_attempt c) @ when_set ''artifact_summary'' (sl_summary c) @
     when_set ''error_type'' (sl_error_type c)"

definition drain_UpdateStep ::
    "(string \<Rightarrow> string) \<Rightarrow> int \<Rightarrow> string \<Rightarrow> user_ctx \<Rightarrow> state_dir \<Rightarrow> string \<Rightarrow> step_call \<Rightarrow> hub \<Rightarrow> (hub \<times> step_reply) outcome" where
  "drain_UpdateStep sha now scID u dir wiID c H = client_UpdateStep sha now scID u wiID (drain_body dir wiID c) H"

end
