(* ===== verification/Bracket_Refinement.thy ===== *)
theory Bracket_Refinement
  imports Step_Calls Step_History
begin

text \<open>
  The two forms of a step bracket, over the hub. The plan of \<^verbatim>\<open>PlanStepBracket\<close> is sent
  call by call through the tool; the fused form sends one call, the degraded form two, and
  both implement the same abstract step machine. The drain scheduler sends the same plans
  under other member names, and its calls do not name their step to the handler.
\<close>

section \<open>Plans\<close>

text \<open>The caller of a plan stops at the first error.\<close>

fun make_plan ::
    "(string \<Rightarrow> string) \<Rightarrow> int \<Rightarrow> string \<Rightarrow> user_ctx \<Rightarrow> string \<Rightarrow> step_call list \<Rightarrow> state_dir \<Rightarrow> hub \<Rightarrow>
     state_dir \<times> hub \<times> tool_error option" where
  "make_plan sha now scID u wiID [] dir H = (dir, H, None)"
| "make_plan sha now scID u wiID (c # cs) dir H =
     (case pf_update_step sha now scID u (args_of_call wiID c) dir H of
        (dir', H', Inl e) \<Rightarrow> (dir', H', Some e)
      | (dir', H', Inr r) \<Rightarrow> make_plan sha now scID u wiID cs dir' H')"

section \<open>The credential, checked again\<close>

lemma update_attempt_again:
  "h_attempts H' = h_attempts (update_attempt i (\<lambda>a. a\<lparr>ra_last_active := now\<rparr>) H) \<Longrightarrow>
   update_attempt i (\<lambda>a. a\<lparr>ra_last_active := now\<rparr>) H' = H'"
  by (auto simp: update_attempt_def update_where_def intro!: hub.equality map_idI)

lemma attempt_by_id_again:
  fixes H H' :: hub
  assumes "h_attempts H' = h_attempts (update_attempt i (\<lambda>a. a\<lparr>ra_last_active := now\<rparr>) H)"
  shows "attempt_by_id H' i = map_option (\<lambda>a. a\<lparr>ra_last_active := now\<rparr>) (attempt_by_id H i)"
  using assms by (simp add: attempt_by_id_def update_attempt_def select_one_update)

lemma verify_again:
  assumes "verifyAttemptCredential sha now wi att e s H = Inr H1" "h_attempts H' = h_attempts H1"
  shows "verifyAttemptCredential sha now wi att e s H' = Inr H'"
proof -
  from assms(1) obtain a where a: "attempt_by_id H att = Some a" and
    H1: "H1 = update_attempt att (\<lambda>a. a\<lparr>ra_last_active := now\<rparr>) H"
    by (auto simp: verifyAttemptCredential_def split: if_splits option.splits)
  note again = assms(2) [unfolded H1]
  show ?thesis
    using assms(1) attempt_by_id_again [OF again] update_attempt_again [OF again] a
    by (auto simp: verifyAttemptCredential_def split: if_splits option.splits)
qed

lemma step_credential_again:
  assumes "step_credential sha now i req H = Inr H1" "h_items H' = h_items H" "h_attempts H' = h_attempts H1"
    "sq_attempt req' = sq_attempt req" "sq_epoch req' = sq_epoch req" "sq_secret req' = sq_secret req"
  shows "step_credential sha now i req' H' = Inr H'"
proof (cases "sq_attempt req \<noteq> [] \<and> sq_secret req \<noteq> []")
  case True
  have "GetWorkItem H' i = GetWorkItem H i" by (simp add: GetWorkItem_def item_by_ref_def assms(2))
  with True assms(1) show ?thesis
    by (auto simp: step_credential_def VerifyAttemptCredentialPool_def assms(4-6)
        intro: verify_again [OF _ assms(3)] split: sum.splits)
qed (use assms in \<open>auto simp: step_credential_def\<close>)

section \<open>One transition and two\<close>

definition step_event_row :: "string \<Rightarrow> string \<Rightarrow> user_ctx \<Rightarrow> step_event \<Rightarrow> hub \<Rightarrow> agent_event" where
  "step_event_row i att u ev H =
     \<lparr>ev_type = se_type ev, ev_wi = i, ev_attempt = nilIfEmpty att, ev_actor = Some (us_id u), ev_display = None,
      ev_payload = Fields ([(''step'', JStr (se_step ev))] @
        (if se_type ev = ''step_completed'' then
           (case se_summary ev of None \<Rightarrow> [] | Some s \<Rightarrow> [(''artifact_summary'', JStr s)]) else [])),
      ev_project = map_option wi_project (item_by_id H i)\<rparr>"

definition event_refused :: "string \<Rightarrow> hub \<Rightarrow> bool" where
  "event_refused att H \<longleftrightarrow> att \<noteq> [] \<and> \<not> row_exists (\<lambda>a. ra_id a = att) (h_attempts H)"

lemma insertStepEvent_eq:
  "insertStepEvent i att u ev H =
     (if event_refused att H then Inl (NewErr ErrBadRequest) else Inr (emit_event (step_event_row i att u ev H) H))"
  by (auto simp: insertStepEvent_def event_refused_def step_event_row_def)

lemma startStep_frame:
  assumes "startStep now i step sa H = (H', b)"
  shows "h_items H' = h_items H" "h_attempts H' = h_attempts H" "event_refused att H' = event_refused att H"
    "step_event_row i att u ev H' = step_event_row i att u ev H"
  using assms by (auto simp: startStep_def event_refused_def step_event_row_def item_by_id_def split: option.splits if_splits)

lemma emit_event_rows [simp]:
  "h_items (emit_event ev H) = h_items H" "h_attempts (emit_event ev H) = h_attempts H" "h_steps (emit_event ev H) = h_steps H"
  "event_refused att (emit_event ev H) = event_refused att H"
  "step_event_row i att u e (emit_event ev H) = step_event_row i att u e H"
  by (simp_all add: emit_event_def event_refused_def step_event_row_def item_by_id_def)

lemma startStep_emit:
  "startStep now i step sa (emit_event ev H) = (emit_event ev (fst (startStep now i step sa H)), snd (startStep now i step sa H))"
  by (auto simp: startStep_def emit_event_def step_of_def split: option.splits)

lemma startStep_idle: "step_idle i H \<Longrightarrow> snd (startStep now i step sa H)"
  by (auto simp: startStep_def step_idle_def split: option.splits)

text \<open>Completing with a successor is completing without one and then starting it.\<close>

lemma step_completed_next:
  assumes "n \<noteq> []"
  shows "step_completed now sc i (req\<lparr>sq_next_step := Some n, sq_next_attempt := na\<rparr>) H =
    (case step_completed now sc i (req\<lparr>sq_next_step := None, sq_next_attempt := None\<rparr>) H of
       Inl e \<Rightarrow> Inl e
     | Inr (H2, evs) \<Rightarrow> Inr (fst (startStep now i (Some n) na H2),
         evs @ [\<lparr>se_type = ''step_started'', se_step = n, se_summary = None\<rparr>]))"
proof (cases "step_completed now sc i (req\<lparr>sq_next_step := None, sq_next_attempt := None\<rparr>) H")
  case (Inl e)
  then show ?thesis
    by (auto simp: step_completed_def mandatory_record_missing_def completion_row_def derefStr_def Let_def
        split: if_splits sum.splits prod.splits)
next
  case (Inr p)
  obtain H2 evs where p: "p = (H2, evs)" by (cases p)
  from Inr p have "step_idle i H2"
    using step_completed_effect(4) [of now sc i "req\<lparr>sq_next_step := None, sq_next_attempt := None\<rparr>" H H2 evs]
    by (simp add: derefStr_def)
  then have "snd (startStep now i (Some n) na H2)" by (rule startStep_idle)
  with Inr p assms show ?thesis
    by (auto simp: step_completed_def mandatory_record_missing_def completion_row_def derefStr_def Let_def
        split: if_splits sum.splits prod.splits)
qed


text \<open>The same at the handler: a fused request, and the two requests it stands for.\<close>

definition alone :: "step_request \<Rightarrow> step_request" where
  "alone req = req\<lparr>sq_next_step := None, sq_next_attempt := None\<rparr>"

definition fused :: "string \<Rightarrow> string option \<Rightarrow> step_request \<Rightarrow> step_request" where
  "fused n na req = req\<lparr>sq_next_step := Some n, sq_next_attempt := na\<rparr>"

definition starting :: "string \<Rightarrow> string option \<Rightarrow> step_request \<Rightarrow> step_request" where
  "starting n na req = (alone req)\<lparr>sq_status := ''in_progress'', sq_step := Some n, sq_step_attempt := na,
     sq_summary := None\<rparr>"

lemmas request_forms = alone_def fused_def starting_def

lemma step_completed_frame:
  assumes "step_completed now sc i req H = Inr (H', evs)"
  shows "h_items H' = h_items H" "h_attempts H' = h_attempts H"
  using step_completed_effect [OF assms] by simp_all

lemma step_completed_events:
  assumes "step_completed now sc i (alone req) H = Inr (H', evs)"
  shows "evs = [\<lparr>se_type = ''step_completed'', se_step = derefStr (sq_step req), se_summary = sq_summary req\<rparr>]"
  using assms by (auto simp: step_completed_def request_forms derefStr_def Let_def split: if_splits sum.splits)

lemma transition_fused:
  assumes "sq_status req = ''completed''" "\<not> sq_heartbeat req" "n \<noteq> []"
  shows "step_transition now sc i (fused n na req) u H =
    (case step_transition now sc i (alone req) u H of
       Inl e \<Rightarrow> Inl e
     | Inr H1 \<Rightarrow> step_transition now sc i (starting n na req) u H1)"
    and "step_transition now sc i (alone req) u H = Inr H1 \<Longrightarrow>
      \<exists>H2. step_transition now sc i (starting n na req) u H1 = Inr H2"
    and "step_transition now sc i (alone req) u H = Inr H1 \<Longrightarrow> h_items H1 = h_items H \<and> h_attempts H1 = h_attempts H"
proof -
  let ?id = "validateStepIdentity ''completed'' False (sq_step req) (case step_of H i of None \<Rightarrow> None | Some s \<Rightarrow> ss_step s)"
  let ?start = "\<lparr>se_type = ''step_started'', se_step = n, se_summary = None\<rparr>"
  let ?ended = "\<lparr>se_type = ''step_completed'', se_step = derefStr (sq_step req), se_summary = sq_summary req\<rparr>"
  have goal: "step_transition now sc i (fused n na req) u H =
      (case step_transition now sc i (alone req) u H of
         Inl e \<Rightarrow> Inl e | Inr H1 \<Rightarrow> step_transition now sc i (starting n na req) u H1) \<and>
    (\<forall>H1. step_transition now sc i (alone req) u H = Inr H1 \<longrightarrow>
      (\<exists>H2. step_transition now sc i (starting n na req) u H1 = Inr H2) \<and>
      h_items H1 = h_items H \<and> h_attempts H1 = h_attempts H)"
  proof (cases "step_completed now sc i (alone req) H")
    case (Inl e)
    then show ?thesis
      using assms step_completed_next [OF assms(3), where now = now and sc = sc and i = i and req = req and na = na and H = H]
      by (simp add: step_transition_def request_forms Let_def split: option.splits)
  next
    case (Inr p)
    obtain H2 evs where p: "p = (H2, evs)" by (cases p)
    note ok = Inr [unfolded p]
    note evs = step_completed_events [OF ok] and frame = step_completed_frame [OF ok]
    have "step_idle i H2" using step_completed_effect(4) [OF ok] by (simp add: alone_def derefStr_def)
    then obtain H3 where st: "startStep now i (Some n) na H2 = (H3, True)"
      using startStep_idle [of i H2] by (metis prod.collapse)
    note sf = startStep_frame [OF st]
    have next_ok: "step_completed now sc i (fused n na req) H = Inr (H3, [?ended, ?start])"
      using step_completed_next [OF assms(3), where now = now and sc = sc and i = i and req = req and na = na and H = H] ok evs st by (simp add: request_forms)
    have s1: "step_transition now sc i (alone req) u H =
      (case ?id of Some e \<Rightarrow> Inl e | None \<Rightarrow>
        if event_refused (sq_attempt req) H2 then Inl (NewErr ErrBadRequest)
        else Inr (emit_event (step_event_row i (sq_attempt req) u ?ended H2) H2))"
      using assms ok evs by (simp add: step_transition_def alone_def Let_def insertStepEvent_eq split: option.splits)
    have s2: "step_transition now sc i (fused n na req) u H =
      (case ?id of Some e \<Rightarrow> Inl e | None \<Rightarrow>
        if event_refused (sq_attempt req) H2 then Inl (NewErr ErrBadRequest)
        else Inr (emit_event (step_event_row i (sq_attempt req) u ?start H2)
          (emit_event (step_event_row i (sq_attempt req) u ?ended H2) H3)))"
      using assms next_ok sf by (simp add: step_transition_def fused_def Let_def insertStepEvent_eq split: option.splits)
    have s3: "step_transition now sc i (starting n na req) u (emit_event (step_event_row i (sq_attempt req) u ?ended H2) H2) =
      (if event_refused (sq_attempt req) H2 then Inl (NewErr ErrBadRequest)
       else Inr (emit_event (step_event_row i (sq_attempt req) u ?start H2)
          (emit_event (step_event_row i (sq_attempt req) u ?ended H2) H3)))"
      using st sf by (simp add: step_transition_def starting_def alone_def Let_def validateStepIdentity_def step_in_progress_def
          startStep_emit insertStepEvent_eq derefStr_def)
    show ?thesis using s1 s2 s3 frame by (auto split: option.splits)
  qed
  show "step_transition now sc i (fused n na req) u H =
    (case step_transition now sc i (alone req) u H of
       Inl e \<Rightarrow> Inl e | Inr H1 \<Rightarrow> step_transition now sc i (starting n na req) u H1)"
    using goal by blast
  show "step_transition now sc i (alone req) u H = Inr H1 \<Longrightarrow> \<exists>H2. step_transition now sc i (starting n na req) u H1 = Inr H2"
    using goal by blast
  show "step_transition now sc i (alone req) u H = Inr H1 \<Longrightarrow> h_items H1 = h_items H \<and> h_attempts H1 = h_attempts H"
    using goal by blast
qed

lemma handle_fused:
  assumes "sq_status req = ''completed''" "\<not> sq_heartbeat req" "n \<noteq> []"
  shows "(\<exists>e. handleUpdateStep sha now sc ref (alone req) u H = Inl e \<and> handleUpdateStep sha now sc ref (fused n na req) u H = Inl e) \<or>
    (\<exists>H1 H2. handleUpdateStep sha now sc ref (alone req) u H = Inr (H1, Transitioned ''completed'' None) \<and>
       handleUpdateStep sha now sc ref (starting n na req) u H1 = Inr (H2, Transitioned ''in_progress'' None) \<and>
       handleUpdateStep sha now sc ref (fused n na req) u H = Inr (H2, Transitioned ''completed'' (Some n)))"
proof (cases "load_for H ref u ''writer''")
  case (Inr wi)
  note load = Inr
  have same: "step_credential sha now (wi_id wi) (alone req) H = step_credential sha now (wi_id wi) req H"
    "step_credential sha now (wi_id wi) (fused n na req) H = step_credential sha now (wi_id wi) req H"
    by (simp_all add: step_credential_def request_forms)
  show ?thesis
  proof (cases "step_credential sha now (wi_id wi) req H")
    case (Inr H0)
    note cred = Inr
    note C = step_credential_rows [OF cred]
    let ?long = "step_summary_too_long req" and ?ended_ok = "validateTerminalStepArgs ''completed'' (sq_step_attempt req) False"
    have a: "handleUpdateStep sha now sc ref (alone req) u H =
      (if ?long then Inl (NewErr ErrPayloadTooLarge) else case ?ended_ok of Some e \<Rightarrow> Inl e | None \<Rightarrow>
        (case step_transition now sc (wi_id wi) (alone req) u H0 of Inl e \<Rightarrow> Inl e
         | Inr H1 \<Rightarrow> Inr (H1, Transitioned ''completed'' None)))"
      using load same cred assms
      by (auto simp: handleUpdateStep_def alone_def validateNextStepArgs_def derefStr_def step_summary_too_long_def
          split: option.splits sum.splits)
    have f: "handleUpdateStep sha now sc ref (fused n na req) u H =
      (if ?long then Inl (NewErr ErrPayloadTooLarge) else case ?ended_ok of Some e \<Rightarrow> Inl e | None \<Rightarrow>
        (case step_transition now sc (wi_id wi) (fused n na req) u H0 of Inl e \<Rightarrow> Inl e
         | Inr H2 \<Rightarrow> Inr (H2, Transitioned ''completed'' (Some n))))"
      using load same cred assms
      by (auto simp: handleUpdateStep_def fused_def validateNextStepArgs_def derefStr_def step_summary_too_long_def
          split: option.splits sum.splits)
    show ?thesis
    proof (cases "step_transition now sc (wi_id wi) (alone req) u H0")
      case (Inl e)
      then show ?thesis using a f transition_fused(1) [OF assms] by (auto split: option.splits)
    next
      case (Inr H1)
      note T = transition_fused(3) [OF assms Inr]
      obtain H2 where H2: "step_transition now sc (wi_id wi) (starting n na req) u H1 = Inr H2"
        using transition_fused(2) [OF assms Inr] by blast
      have "load_for H1 ref u ''writer'' = Inr wi"
        using load T C(3) by (simp add: load_for_def GetWorkItem_def item_by_ref_def)
      moreover have "step_credential sha now (wi_id wi) (starting n na req) H1 = Inr H1"
        using T C(3) by (intro step_credential_again [OF cred]) (simp_all add: request_forms)
      ultimately have "handleUpdateStep sha now sc ref (starting n na req) u H1 = Inr (H2, Transitioned ''in_progress'' None)"
        using H2 assms(2)
        by (simp add: handleUpdateStep_def starting_def alone_def validateNextStepArgs_def validateTerminalStepArgs_def
            derefStr_def step_summary_too_long_def)
      then show ?thesis using a f Inr H2 transition_fused(1) [OF assms, where now = now and sc = sc and i = "wi_id wi" and na = na and u = u and H = H0]
        by (cases ?long; cases ?ended_ok) auto
    qed
  qed (use load same in \<open>simp add: handleUpdateStep_def\<close>)
qed (simp add: handleUpdateStep_def)


section \<open>What the bodies bind to\<close>

lemma bind_update_body:
  "bind_step_request (updateStepBody (args_of_call wiID c) att e s) =
     \<lparr>sq_attempt = att, sq_epoch = e, sq_secret = s, sq_status = sl_status c, sq_step = Some (sl_step c),
      sq_step_attempt = nilIfEmpty (sl_step_attempt c), sq_heartbeat = False, sq_summary = nilIfEmpty (sl_summary c),
      sq_error_type = nilIfEmpty (sl_error_type c), sq_escalated = False, sq_next_step = nilIfEmpty (sl_next_step c),
      sq_next_attempt = nilIfEmpty (sl_next_attempt c)\<rparr>"
  by (simp add: bind_step_request_def updateStepBody_def args_of_call_def str_member_def int_member_def bool_member_def
      when_set_def nilIfEmpty_def derefStr_def)

lemma derefStr_nilIfEmpty [simp]: "derefStr (nilIfEmpty s) = s"
  by (simp add: derefStr_def nilIfEmpty_def)

text \<open>A call of a bracket, past the tool's own checks.\<close>

definition tool_answer ::
    "state_dir \<Rightarrow> hub \<Rightarrow> state_file \<Rightarrow> string \<Rightarrow> string \<Rightarrow> (hub \<times> step_reply) outcome \<Rightarrow> state_dir \<times> hub \<times> (tool_error + step_reply)" where
  "tool_answer dir H sf ref nxt res =
     (case res of
        Inl e \<Rightarrow> (case classifyStepUpdateErr e of (outErr, deleteState) \<Rightarrow>
          (if deleteState then deleteStaleCredential sf ref dir else dir, H, Inl outErr))
      | Inr (H', reply) \<Rightarrow> (dir, H', if checkNextStepHonoured nxt reply then Inr reply else Inl ServerTooOldForNextStep))"

definition call_request :: "state_file \<Rightarrow> step_call \<Rightarrow> step_request" where
  "call_request sf c =
     \<lparr>sq_attempt = sf_attempt sf, sq_epoch = sf_epoch sf, sq_secret = sf_secret sf, sq_status = sl_status c,
      sq_step = Some (sl_step c), sq_step_attempt = nilIfEmpty (sl_step_attempt c), sq_heartbeat = False,
      sq_summary = nilIfEmpty (sl_summary c), sq_error_type = nilIfEmpty (sl_error_type c), sq_escalated = False,
      sq_next_step = nilIfEmpty (sl_next_step c), sq_next_attempt = nilIfEmpty (sl_next_attempt c)\<rparr>"

lemma call_request_sent:
  "bind_step_request (updateStepBody (args_of_call ref c) (sf_attempt sf) (sf_epoch sf) (sf_secret sf)) = call_request sf c"
  by (simp add: bind_update_body call_request_def)

lemma args_of_call_members:
  "ua_wi (args_of_call ref c) = ref" "ua_step (args_of_call ref c) = sl_step c" "ua_status (args_of_call ref c) = sl_status c"
  "ua_step_attempt (args_of_call ref c) = sl_step_attempt c" "ua_heartbeat (args_of_call ref c) = False"
  "ua_next_step (args_of_call ref c) = sl_next_step c" "ua_next_attempt (args_of_call ref c) = sl_next_attempt c"
  by (simp_all add: args_of_call_def)

lemma pf_update_step_call:
  "pf_update_step sha now sc u (args_of_call ref c) dir H =
     (if ref = [] then (dir, H, Inl (MissingArgument ''work_item_id''))
      else if \<not> mcp_validateNextStepArgs (sl_next_step c) (sl_next_attempt c) (sl_status c) False
      then (dir, H, Inl InvalidArguments)
      else case ResolveStateFile dir ref of
        None \<Rightarrow> (dir, H, Inl StateFileMissing)
      | Some sf \<Rightarrow>
        if sl_step c = [] then (dir, H, Inl (MissingArgument ''step_id''))
        else if sl_status c = [] then (dir, H, Inl (MissingArgument ''status''))
        else if \<not> mcp_validateTerminalStepArgs (sl_status c) (sl_step_attempt c) then (dir, H, Inl InvalidArguments)
        else tool_answer dir H sf ref (sl_next_step c) (handleUpdateStep sha now sc ref (call_request sf c) u H))"
  by (simp add: pf_update_step_def client_UpdateStep_def tool_answer_def args_of_call_members call_request_sent Let_def
      split del: if_split cong: if_cong option.case_cong sum.case_cong prod.case_cong)

section \<open>The abstract step machine\<close>

text \<open>The step that is running, with its attempt, and the history of the item.\<close>

type_synonym step_view = "(string option \<times> string option) option \<times> (string \<times> string \<times> string) list"

definition step_view :: "string \<Rightarrow> hub \<Rightarrow> step_view" where
  "step_view i H =
     (case step_of H i of
        None \<Rightarrow> None
      | Some st \<Rightarrow> if ss_status st = SInProgress then Some (ss_step st, ss_attempt st) else None,
      map (\<lambda>c. (sc_step c, sc_step_attempt c, sc_status c)) (filter (\<lambda>c. sc_wi c = i) (h_completions H)))"

definition bracket_view :: "bracket_input \<Rightarrow> step_view \<Rightarrow> step_view" where
  "bracket_view b v =
     (if bk_status b = ''failed'' \<or> bk_next_step b = [] then None
      else Some (Some (bk_next_step b), nilIfEmpty (bk_next_attempt b)),
      snd v @ [(bk_step b, bk_step_attempt b, if bk_status b = ''failed'' then ''failed'' else ''completed'')])"

lemma step_view_idle: "step_idle i H \<Longrightarrow> fst (step_view i H) = None"
  by (auto simp: step_view_def step_idle_def split: option.splits)

lemma step_view_started: "step_started i step sa H \<Longrightarrow> fst (step_view i H) = Some (step, sa)"
  by (auto simp: step_view_def step_started_def)

lemma step_view_history:
  "h_completions H' = h_completions H @ [completion_row sc i req st et esc] \<Longrightarrow>
   snd (step_view i H') = snd (step_view i H) @ [(derefStr (sq_step req), derefStr (sq_step_attempt req), st)]"
  by (simp add: step_view_def completion_row_def)

lemma handle_terminal_view:
  assumes "handleUpdateStep sha now sc ref req u H = Inr (H', r)" "sq_status req \<in> {''completed'', ''failed''}" "\<not> sq_heartbeat req"
  obtains wi where "load_for H ref u ''writer'' = Inr wi" "h_items H' = h_items H \<or> sq_escalated req"
    "h_completions H' = h_completions H @ [completion_row sc (wi_id wi) req (sq_status req)
       (if sq_status req = ''failed'' then sq_error_type req else None) (sq_status req = ''failed'' \<and> sq_escalated req)]"
    "if derefStr (sq_next_step req) = [] then step_idle (wi_id wi) H'
     else step_started (wi_id wi) (sq_next_step req) (sq_next_attempt req) H'"
    "sq_status req = ''failed'' \<Longrightarrow> derefStr (sq_next_step req) = []"
  using assms(1)
proof (cases rule: handleUpdateStep_Inr)
  case (transition wi H1)
  note C = step_credential_rows [OF transition(2)]
  have next_ok: "derefStr (sq_next_step req) = []" if "sq_status req = ''failed''"
    using transition(5) that by (auto simp: validateNextStepArgs_def split: if_splits)
  from transition(7) show ?thesis
  proof (cases rule: step_transition_Inr)
    case (1 H2 evs)
    note E = insert_step_events_rows [OF 1(3)]
    have cong: "step_idle (wi_id wi) H' = step_idle (wi_id wi) H2" "step_started (wi_id wi) n na H' = step_started (wi_id wi) n na H2" for n na
      using E step_idle_cong [of H' H2] step_started_cong [of H' H2] by simp_all
    from 1(2) assms(2) consider
        (c) "sq_status req = ''completed''" "step_completed now sc (wi_id wi) req H1 = Inr (H2, evs)"
      | (f) "sq_status req = ''failed''" "step_failed sc (wi_id wi) req u H1 = Inr (H2, evs)" by auto
    then show ?thesis
    proof cases
      case c
      then show ?thesis
        using that [OF transition(1)] step_completed_effect [OF c(2)] E C cong by (simp split: if_splits)
    next
      case f
      then show ?thesis
        using that [OF transition(1)] step_failed_effect [OF f(2)] E C cong next_ok by (simp split: if_splits)
    qed
  qed
qed (use assms(3) in simp)


section \<open>Both forms\<close>

lemma call_requests_of_bracket:
  fixes b :: bracket_input
  assumes "c = \<lparr>sl_tool = t, sl_step = s, sl_status = ''completed'', sl_step_attempt = sa, sl_next_step = [], sl_next_attempt = [],
      sl_summary = y, sl_error_type = []\<rparr>" "n \<noteq> []"
  shows "alone (call_request sf c) = call_request sf c"
    "call_request sf (c\<lparr>sl_next_step := n, sl_next_attempt := na\<rparr>) = fused n (nilIfEmpty na) (call_request sf c)"
    "call_request sf \<lparr>sl_tool = t, sl_step = n, sl_status = ''in_progress'', sl_step_attempt = na, sl_next_step = [],
      sl_next_attempt = [], sl_summary = [], sl_error_type = []\<rparr> = starting n (nilIfEmpty na) (call_request sf c)"
  using assms by (simp_all add: call_request_def request_forms nilIfEmpty_def)

lemma bracket_forms_agree:
  "make_plan sha now sc u ref (PlanStepBracket (b\<lparr>bk_supports_next := True\<rparr>)) dir H =
   make_plan sha now sc u ref (PlanStepBracket (b\<lparr>bk_supports_next := False\<rparr>)) dir H"
proof (cases "bk_status b = ''failed'' \<or> bk_next_step b = []")
  case True
  then show ?thesis by (auto simp: PlanStepBracket_def)
next
  case False
  define n na where n: "n = bk_next_step b" "na = bk_next_attempt b"
  define c where c: "c = \<lparr>sl_tool = ''pf_update_step'', sl_step = bk_step b, sl_status = ''completed'', sl_step_attempt = bk_step_attempt b,
    sl_next_step = [], sl_next_attempt = [], sl_summary = bk_summary b, sl_error_type = []\<rparr>"
  define st where st: "st = \<lparr>sl_tool = ''pf_update_step'', sl_step = n, sl_status = ''in_progress'', sl_step_attempt = na, sl_next_step = [],
    sl_next_attempt = [], sl_summary = [], sl_error_type = []\<rparr>"
  let ?f = "c\<lparr>sl_next_step := n, sl_next_attempt := na\<rparr>"
  have plans: "PlanStepBracket (b\<lparr>bk_supports_next := True\<rparr>) = [?f]" "PlanStepBracket (b\<lparr>bk_supports_next := False\<rparr>) = [c, st]"
    using False by (simp_all add: PlanStepBracket_def c st n)
  have "n \<noteq> []" using False n by simp
  have R: "alone (call_request sf c) = call_request sf c" "call_request sf ?f = fused n (nilIfEmpty na) (call_request sf c)"
    "call_request sf st = starting n (nilIfEmpty na) (call_request sf c)" for sf
    using call_requests_of_bracket [OF c \<open>n \<noteq> []\<close>] by (simp_all add: st)
  have members: "sl_step c = bk_step b" "sl_status c = ''completed''" "sl_step_attempt c = bk_step_attempt b" "sl_next_step c = []"
    "sl_next_attempt c = []" "sl_step st = n" "sl_status st = ''in_progress''" "sl_next_step st = []" "sl_next_attempt st = []"
    by (simp_all add: c st)
  note checks = members \<open>n \<noteq> []\<close> mcp_validateNextStepArgs_def mcp_validateTerminalStepArgs_def
  note call = pf_update_step_call [of sha now sc u ref]
  show ?thesis
  proof (cases "ref = [] \<or> ResolveStateFile dir ref = None \<or> bk_step b = [] \<or> trim_space (bk_step_attempt b) = []")
    case True
    then show ?thesis by (auto simp: plans call checks split: option.splits)
  next
    case ok: False
    then obtain sf where sf: "ResolveStateFile dir ref = Some sf" by auto
    let ?q = "call_request sf c" and ?h = "\<lambda>q H. handleUpdateStep sha now sc ref q u H"
    have first: "pf_update_step sha now sc u (args_of_call ref c) dir H = tool_answer dir H sf ref [] (?h ?q H)"
      "pf_update_step sha now sc u (args_of_call ref ?f) dir H = tool_answer dir H sf ref n (?h (fused n (nilIfEmpty na) ?q) H)"
      using ok sf by (simp_all add: call R(2) checks)
    have second: "pf_update_step sha now sc u (args_of_call ref st) dir H1 =
        tool_answer dir H1 sf ref [] (?h (starting n (nilIfEmpty na) ?q) H1)" for H1
      using ok sf by (simp add: call R(3) checks)
    have "sq_status ?q = ''completed''" "\<not> sq_heartbeat ?q" by (simp_all add: call_request_def c)
    from handle_fused [OF this \<open>n \<noteq> []\<close>, where sha = sha and now = now and sc = sc and ref = ref and u = u and H = H and na = "nilIfEmpty na"] R(1)
    show ?thesis
      by (auto simp: plans first second tool_answer_def checkNextStepHonoured_def split: prod.splits)
  qed
qed

lemma bracket_either_form:
  "make_plan sha now sc u ref (PlanStepBracket b) dir H =
   make_plan sha now sc u ref (PlanStepBracket (b\<lparr>bk_supports_next := True\<rparr>)) dir H"
proof (cases "bk_supports_next b")
  case True
  then have "b\<lparr>bk_supports_next := True\<rparr> = b" by simp
  then show ?thesis by simp
next
  case False
  then have "b\<lparr>bk_supports_next := False\<rparr> = b" by simp
  then show ?thesis by (simp add: bracket_forms_agree)
qed

text \<open>The one call that a bracket is when the server can fuse it.\<close>

definition fused_call :: "bracket_input \<Rightarrow> step_call" where
  "fused_call b = hd (PlanStepBracket (b\<lparr>bk_supports_next := True\<rparr>))"

lemma plan_of_fused_call: "PlanStepBracket (b\<lparr>bk_supports_next := True\<rparr>) = [fused_call b]"
  by (simp add: fused_call_def PlanStepBracket_def Let_def)

lemma fused_call_request:
  "sq_status (call_request sf (fused_call b)) = (if bk_status b = ''failed'' then ''failed'' else ''completed'')"
  "\<not> sq_heartbeat (call_request sf (fused_call b))" "\<not> sq_escalated (call_request sf (fused_call b))"
  "derefStr (sq_step (call_request sf (fused_call b))) = bk_step b"
  "derefStr (sq_step_attempt (call_request sf (fused_call b))) = bk_step_attempt b"
  "sq_next_step (call_request sf (fused_call b)) = (if bk_status b = ''failed'' then None else nilIfEmpty (bk_next_step b))"
  "sq_next_attempt (call_request sf (fused_call b)) =
     (if bk_status b = ''failed'' \<or> bk_next_step b = [] then None else nilIfEmpty (bk_next_attempt b))"
  by (simp_all add: call_request_def fused_call_def PlanStepBracket_def Let_def derefStr_def nilIfEmpty_def)

text \<open>
  C36: The two forms of a step bracket implement one abstract step machine. Sending the plan
  through the tool, call by call, does the same in the fused form (one call) and in the
  degraded form (two calls): the same hub, the same local state files and the same error, if
  any. When the plan goes through, the history of the item has gained exactly the finished
  step with its attempt and status, and the step that runs is the named next one, under its
  own attempt, or none.
\<close>

theorem bracket_refines:
  "make_plan sha now sc u ref (PlanStepBracket (b\<lparr>bk_supports_next := True\<rparr>)) dir H =
     make_plan sha now sc u ref (PlanStepBracket (b\<lparr>bk_supports_next := False\<rparr>)) dir H \<and>
   (\<forall>dir' H'. make_plan sha now sc u ref (PlanStepBracket b) dir H = (dir', H', None) \<longrightarrow>
      dir' = dir \<and> h_items H' = h_items H \<and>
      (\<exists>wi. load_for H ref u ''writer'' = Inr wi \<and> step_view (wi_id wi) H' = bracket_view b (step_view (wi_id wi) H)))"
proof (intro conjI allI impI)
  show "make_plan sha now sc u ref (PlanStepBracket (b\<lparr>bk_supports_next := True\<rparr>)) dir H =
     make_plan sha now sc u ref (PlanStepBracket (b\<lparr>bk_supports_next := False\<rparr>)) dir H" by (rule bracket_forms_agree)
next
  fix dir' H'
  assume "make_plan sha now sc u ref (PlanStepBracket b) dir H = (dir', H', None)"
  then have "make_plan sha now sc u ref [fused_call b] dir H = (dir', H', None)"
    unfolding bracket_either_form [of sha now sc u ref b] plan_of_fused_call .
  then obtain sf r where "handleUpdateStep sha now sc ref (call_request sf (fused_call b)) u H = Inr (H', r)" and dir: "dir' = dir"
    by (auto simp: pf_update_step_call tool_answer_def split: if_splits option.splits sum.splits prod.splits)
  note call = this(1) and Q = fused_call_request [of sf b]
  have "sq_status (call_request sf (fused_call b)) \<in> {''completed'', ''failed''}" by (simp add: Q(1))
  from handle_terminal_view [OF call this Q(2)] obtain wi where
    T: "load_for H ref u ''writer'' = Inr wi" "h_items H' = h_items H \<or> sq_escalated (call_request sf (fused_call b))"
      "h_completions H' = h_completions H @ [completion_row sc (wi_id wi) (call_request sf (fused_call b))
         (sq_status (call_request sf (fused_call b)))
         (if sq_status (call_request sf (fused_call b)) = ''failed'' then sq_error_type (call_request sf (fused_call b)) else None)
         (sq_status (call_request sf (fused_call b)) = ''failed'' \<and> sq_escalated (call_request sf (fused_call b)))]"
      "if derefStr (sq_next_step (call_request sf (fused_call b))) = [] then step_idle (wi_id wi) H'
       else step_started (wi_id wi) (sq_next_step (call_request sf (fused_call b))) (sq_next_attempt (call_request sf (fused_call b))) H'"
    by blast
  have wi: "load_for H ref u ''writer'' = Inr wi" "h_items H' = h_items H"
    "snd (step_view (wi_id wi) H') = snd (step_view (wi_id wi) H) @
       [(bk_step b, bk_step_attempt b, if bk_status b = ''failed'' then ''failed'' else ''completed'')]"
    "if bk_status b = ''failed'' \<or> bk_next_step b = [] then step_idle (wi_id wi) H'
     else step_started (wi_id wi) (Some (bk_next_step b)) (nilIfEmpty (bk_next_attempt b)) H'"
    using T(1,2,4) step_view_history [OF T(3)] Q by (auto simp: derefStr_def nilIfEmpty_def split: if_splits)
  from wi(3,4) have "step_view (wi_id wi) H' = bracket_view b (step_view (wi_id wi) H)"
    by (auto simp: bracket_view_def prod_eq_iff step_view_idle step_view_started split: if_splits)
  with wi dir show "dir' = dir" "h_items H' = h_items H"
    "\<exists>wi. load_for H ref u ''writer'' = Inr wi \<and> step_view (wi_id wi) H' = bracket_view b (step_view (wi_id wi) H)" by blast+
qed


definition ann_dir :: state_dir where
  "ann_dir = [(''w1'', Some \<lparr>sf_wi = ''w1'', sf_slug = ''p-1'', sf_attempt = ''r2'', sf_epoch = 2, sf_secret = ''pw''\<rparr>)]"

definition ann_bracket :: "bool \<Rightarrow> bracket_input" where
  "ann_bracket fuse = \<lparr>bk_step = ''build'', bk_step_attempt = ''s1'', bk_status = ''completed'', bk_summary = ''ok'', bk_error_type = [],
     bk_next_step = ''test'', bk_next_attempt = ''s2'', bk_supports_next = fuse\<rparr>"

definition ann_plan :: "bool \<Rightarrow> state_dir \<times> hub \<times> tool_error option" where
  "ann_plan fuse = make_plan (\<lambda>s. s) 60 ''c1'' ann_user ''p-1'' (PlanStepBracket (ann_bracket fuse)) ann_dir
     (stepped 50 (a_step ''in_progress'') ex_hub2)"

theorem bracket_refines_witness:
  "fst (step_view ''w1'' (fst (snd (ann_plan False)))) = Some (Some ''test'', Some ''s2'') \<and> ann_plan True = ann_plan False"
proof -
  let ?H = "stepped 50 (a_step ''in_progress'') ex_hub2"
  note P = bracket_refines [of "\<lambda>s. s" 60 "''c1''" ann_user "''p-1''" "ann_bracket False" ann_dir ?H]
  have "snd (snd (ann_plan False)) = None" by code_simp
  then obtain dir' H' where go: "ann_plan False = (dir', H', None)" by (metis prod.collapse)
  have "(case load_for ?H ''p-1'' ann_user ''writer'' of Inl e \<Rightarrow> [] | Inr w \<Rightarrow> wi_id w) = ''w1''" by code_simp
  then have "step_view ''w1'' H' = bracket_view (ann_bracket False) (step_view ''w1'' ?H)"
    using P go [unfolded ann_plan_def] by auto
  moreover have "ann_plan True = ann_plan False" using P by (simp add: ann_plan_def ann_bracket_def)
  ultimately show ?thesis using go by (simp add: bracket_view_def ann_bracket_def nilIfEmpty_def)
qed

section \<open>The drain scheduler's calls\<close>

lemma attemptCredentials_members:
  "k \<in> {''step'', ''status'', ''step_attempt_id'', ''next_step'', ''next_step_attempt_id'', ''heartbeat'', ''escalated''} \<Longrightarrow>
   map_of (attemptCredentials dir wiID) k = None"
  by (auto simp: attemptCredentials_def split: option.splits)

lemma bind_drain_body:
  "sq_step (bind_step_request (drain_body dir ref c)) = None" "sq_status (bind_step_request (drain_body dir ref c)) = sl_status c"
  "\<not> sq_heartbeat (bind_step_request (drain_body dir ref c))" "\<not> sq_escalated (bind_step_request (drain_body dir ref c))"
  "sq_next_step (bind_step_request (drain_body dir ref c)) = nilIfEmpty (sl_next_step c)"
  "sq_step_attempt (bind_step_request (drain_body dir ref c)) = nilIfEmpty (sl_step_attempt c)"
  by (simp_all add: bind_step_request_def drain_body_def str_member_def bool_member_def when_set_def nilIfEmpty_def derefStr_def
      map_add_def attemptCredentials_members)

text \<open>A terminal request that names no step is refused while the item is at a named one.\<close>

lemma unnamed_terminal_refused:
  assumes "load_for H ref u ''writer'' = Inr wi" "step_of H (wi_id wi) = Some st" "ss_step st = Some n" "n \<noteq> []"
    and "sq_status req \<in> {''completed'', ''failed''}" "\<not> sq_heartbeat req" "derefStr (sq_step req) = []"
  shows "isl (handleUpdateStep sha now sc ref req u H)"
proof (rule ccontr)
  assume "\<not> isl (handleUpdateStep sha now sc ref req u H)"
  then obtain H' r where "handleUpdateStep sha now sc ref req u H = Inr (H', r)"
    by (cases "handleUpdateStep sha now sc ref req u H") auto
  then show False
  proof (cases rule: handleUpdateStep_Inr)
    case (transition wi' H1)
    have "step_of H1 (wi_id wi) = Some st" using step_credential_rows(2) [OF transition(2)] assms(2) by (simp add: step_of_def)
    with transition(7) assms show False
      by (cases rule: step_transition_Inr) (auto simp: validateStepIdentity_def transition(1) split: if_splits)
  qed (use assms in simp)
qed

text \<open>
  C37: The drain scheduler does not name its steps to the hub. It sends the step under the
  member step_id, and the handler binds the member step. So a fused completion that is
  accepted is recorded in the history under the empty name, and after it every call that
  would end the next step of that item, completed or failed, is refused: a workflow of two
  steps never gets past its second step in the scheduler, whatever its agents do.
\<close>

theorem drain_second_step_refused:
  assumes "drain_UpdateStep sha now sc u dir ref c H = Inr (H', r)" "sl_status c = ''completed''" "sl_next_step c \<noteq> []"
  shows "(\<exists>row. h_completions H' = h_completions H @ [row] \<and> sc_step row = [] \<and> sc_step_attempt row = sl_step_attempt c) \<and>
    (\<forall>sha' now' sc' dir' c'. sl_status c' \<in> {''completed'', ''failed''} \<longrightarrow> isl (drain_UpdateStep sha' now' sc' u dir' ref c' H'))"
proof -
  let ?q = "bind_step_request (drain_body dir ref c)"
  note B = bind_drain_body [of dir ref c]
  have call: "handleUpdateStep sha now sc ref ?q u H = Inr (H', r)"
    using assms(1) by (simp add: drain_UpdateStep_def client_UpdateStep_def)
  have "sq_status ?q \<in> {''completed'', ''failed''}" using assms(2) B(2) by simp
  from handle_terminal_view [OF call this B(3)] obtain wi where
    wi: "load_for H ref u ''writer'' = Inr wi" "h_items H' = h_items H \<or> sq_escalated ?q"
      "h_completions H' = h_completions H @ [completion_row sc (wi_id wi) ?q (sq_status ?q)
         (if sq_status ?q = ''failed'' then sq_error_type ?q else None) (sq_status ?q = ''failed'' \<and> sq_escalated ?q)]"
      "if derefStr (sq_next_step ?q) = [] then step_idle (wi_id wi) H'
       else step_started (wi_id wi) (sq_next_step ?q) (sq_next_attempt ?q) H'" by blast
  from wi(4) assms(3) B(5) obtain st where st: "step_of H' (wi_id wi) = Some st" "ss_step st = Some (sl_next_step c)"
    by (auto simp: step_started_def nilIfEmpty_def derefStr_def)
  have load: "load_for H' ref u ''writer'' = Inr wi" using wi(1,2) B(4) by (simp add: load_for_def GetWorkItem_def item_by_ref_def)
  have "isl (drain_UpdateStep sha' now' sc' u dir' ref c' H')" if "sl_status c' \<in> {''completed'', ''failed''}" for sha' now' sc' dir' c'
    unfolding drain_UpdateStep_def client_UpdateStep_def using that assms(3) bind_drain_body [of dir' ref c']
    by (intro unnamed_terminal_refused [OF load st]) (simp_all add: derefStr_def)
  moreover have "sc_step (completion_row sc i ?q x y z) = []" "sc_step_attempt (completion_row sc i ?q x y z) = sl_step_attempt c" for i x y z
    by (simp_all add: completion_row_def B)
      (simp_all add: derefStr_def)
  ultimately show ?thesis using wi(3) by blast
qed

definition drain_call :: "string \<Rightarrow> string \<Rightarrow> string \<Rightarrow> string \<Rightarrow> string \<Rightarrow> step_call" where
  "drain_call s st sa n na = \<lparr>sl_tool = ''pf_update_step'', sl_step = s, sl_status = st, sl_step_attempt = sa, sl_next_step = n,
     sl_next_attempt = na, sl_summary = [], sl_error_type = []\<rparr>"

definition drained :: "int \<Rightarrow> step_call \<Rightarrow> hub \<Rightarrow> hub" where
  "drained now c H = (case drain_UpdateStep (\<lambda>s. s) now ''c1'' ann_user ann_dir ''w1'' c H of Inl e \<Rightarrow> H | Inr (H', r) \<Rightarrow> H')"

theorem drain_second_step_refused_witness:
  "isl (drain_UpdateStep (\<lambda>s. s) 70 ''c2'' ann_user ann_dir ''w1'' (drain_call ''test'' ''completed'' ''s2'' [] [])
     (drained 60 (drain_call ''build'' ''completed'' ''s1'' ''test'' ''s2'') (drained 50 (drain_call ''build'' ''in_progress'' ''s1'' [] []) ex_hub2)))"
proof -
  let ?c = "drain_call ''build'' ''completed'' ''s1'' ''test'' ''s2''" and ?H = "drained 50 (drain_call ''build'' ''in_progress'' ''s1'' [] []) ex_hub2"
  have "\<not> isl (drain_UpdateStep (\<lambda>s. s) 60 ''c1'' ann_user ann_dir ''w1'' ?c ?H)" by code_simp
  then obtain r where "drain_UpdateStep (\<lambda>s. s) 60 ''c1'' ann_user ann_dir ''w1'' ?c ?H = Inr (drained 60 ?c ?H, r)"
    by (cases "drain_UpdateStep (\<lambda>s. s) 60 ''c1'' ann_user ann_dir ''w1'' ?c ?H") (auto simp: drained_def)
  from drain_second_step_refused [OF this] show ?thesis by (simp add: drain_call_def)
qed

end
