(* ===== verification/Skill_Registry.thy ===== *)
theory Skill_Registry
  imports Skill_Schema Hub_Tables
begin

text \<open>
  The registry of published skills as the workflow service reads it: the strict decoding of
  a stored contract (\<^verbatim>\<open>internal/skillregistry/contract.go\<close>), the predicate that says
  which versions a caller may read (\<^verbatim>\<open>skillVersionAccessSQL\<close> of
  \<^verbatim>\<open>internal/domain/skill_registry.go\<close>) and the resolution of a reference to an exact
  version (\<^verbatim>\<open>internal/domain/workflow.go\<close>). The tables of this theory are read and never
  written by the workflow service.
\<close>

section \<open>Stored contracts\<close>

definition capability_of :: "string \<Rightarrow> capability" where
  "capability_of s =
     (if s = ''authoring'' then CapAuthoring
      else if s = ''review'' then CapReview
      else if s = ''verification'' then CapVerification
      else if s = ''shipping'' then CapShipping
      else if s = ''deterministic_operation'' then CapDeterministicOperation
      else UnknownCapability s)"

definition contractKeys :: "string list" where
  "contractKeys = [''capabilities'', ''input_schema'', ''params_schema'', ''output_schema'', ''runtime'']"

definition read_capabilities :: "json \<Rightarrow> capability list option" where
  "read_capabilities j =
     (case j of
        JNull \<Rightarrow> Some []
      | JArr js \<Rightarrow> traverse (\<lambda>e. map_option capability_of (read_string e)) js
      | _ \<Rightarrow> None)"

text \<open>The nested struct \<^verbatim>\<open>RuntimeSpec\<close>: one known key, and no null.\<close>

definition read_runtime :: "json \<Rightarrow> bool option" where
  "read_runtime j =
     (case j of
        JObj ms \<Rightarrow>
          (if \<not> set (map fst ms) \<subseteq> {''interactive''} then None
           else (case map_of ms ''interactive'' of None \<Rightarrow> Some False | Some v \<Rightarrow> read_bool v))
      | _ \<Rightarrow> None)"

definition DecodeContract :: "(string \<Rightarrow> bool) \<Rightarrow> json \<Rightarrow> skill_contract option" where
  "DecodeContract valid_re raw =
     (case canonicalizeJSON (Some raw) of
        Inr (JObj ms) \<Rightarrow>
          (if \<not> floats_finite (JObj ms) \<or> \<not> set (map fst ms) \<subseteq> set contractKeys then None
           else
             do {
               capabilities \<leftarrow> (case map_of ms ''capabilities'' of None \<Rightarrow> Some [] | Some j \<Rightarrow> read_capabilities j);
               interactive \<leftarrow> (case map_of ms ''runtime'' of None \<Rightarrow> Some False | Some j \<Rightarrow> read_runtime j);
               let c = \<lparr> Capabilities = capabilities, InputSchema = map_of ms ''input_schema'',
                         ParamsSchema = map_of ms ''params_schema'', OutputSchema = map_of ms ''output_schema'',
                         Interactive = interactive \<rparr> in
               if list_ex (\<lambda>field. map_of ms field = Some JNull)
                    [''input_schema'', ''params_schema'', ''output_schema'', ''runtime''] then None
               else if ValidateContract valid_re c then Some c
               else None
             })
      | _ \<Rightarrow> None)"

section \<open>Tables the workflow service reads\<close>

record user_record =
  ur_id :: string
  ur_role :: string
  ur_scope :: "string option"

record skill_version =
  sv_skill :: string
  sv_version :: int
  sv_visibility :: string
  sv_contract :: json

text \<open>A project with its owner and the user ids of its members; a user with the keys' scopes.\<close>

record project_row =
  pr_name :: string
  pr_owner :: string
  pr_members :: "string list"

record user_row =
  u_id :: string
  u_role :: string
  u_keys :: "(string \<times> string option) list"

text \<open>The columns of \<^verbatim>\<open>memories\<close> a cited artifact is checked against.\<close>

record artifact_row =
  am_id :: string
  am_wi :: "string option"
  am_type :: string
  am_status :: string
  am_attrs :: raw_json
  am_visibility :: string
  am_author :: string

record reference_data =
  rd_versions :: "skill_version list"
  rd_skills :: "(string \<times> string) list"
  rd_grants :: "(string \<times> int \<times> string) list"
  rd_projects :: "project_row list"
  rd_users :: "user_row list"
  rd_artifacts :: "artifact_row list"

section \<open>Access\<close>

definition skillRequireReadCaller :: "user_record \<Rightarrow> aihub_error option" where
  "skillRequireReadCaller caller =
     (if ur_id caller = [] then Some (NewErr ErrUnauthorized)
      else if ur_role caller \<noteq> ''writer'' \<and> ur_role caller \<noteq> ''admin'' then Some (NewErr ErrForbidden)
      else None)"

definition skillGrantExists :: "reference_data \<Rightarrow> user_record \<Rightarrow> bool \<Rightarrow> skill_version \<Rightarrow> bool" where
  "skillGrantExists D caller withScope sv =
     list_ex (\<lambda>(skill, version, project).
       skill = sv_skill sv \<and> version = sv_version sv \<and>
       row_exists (\<lambda>p. pr_name p = project \<and>
         (pr_owner p = ur_id caller \<or> ur_id caller \<in> set (pr_members p) \<or> ur_role caller = ''admin'')) (rd_projects D) \<and>
       (withScope \<longrightarrow> ur_scope caller = Some project)) (rd_grants D)"

definition skillVersionAccess :: "reference_data \<Rightarrow> user_record \<Rightarrow> skill_version \<Rightarrow> bool" where
  "skillVersionAccess D caller sv =
     (if ur_role caller = ''admin'' \<and> ur_scope caller = None then True
      else if ur_scope caller \<noteq> None then skillGrantExists D caller True sv
      else sv_visibility sv = ''public'' \<or> (sv_skill sv, ur_id caller) \<in> set (rd_skills D) \<or>
           skillGrantExists D caller False sv)"

section \<open>Resolution\<close>

record resolved_ref =
  rr_version :: int
  rr_contract :: skill_contract

definition newest_version :: "skill_version list \<Rightarrow> skill_version option" where
  "newest_version svs = (case sort_key sv_version svs of [] \<Rightarrow> None | s \<Rightarrow> Some (last s))"

definition resolve_contract :: "(string \<Rightarrow> bool) \<Rightarrow> skill_version \<Rightarrow> resolved_ref outcome" where
  "resolve_contract valid_re sv =
     (case DecodeContract valid_re (sv_contract sv) of
        None \<Rightarrow> Inl (NewErr ErrInternalError)
      | Some c \<Rightarrow> Inr \<lparr> rr_version = sv_version sv, rr_contract = c \<rparr>)"

text \<open>An exact version, or the newest accessible one when none is named.\<close>

definition resolveWorkflowSkillRef ::
  "(string \<Rightarrow> bool) \<Rightarrow> reference_data \<Rightarrow> user_record \<Rightarrow> string \<Rightarrow> int \<Rightarrow> resolved_ref outcome" where
  "resolveWorkflowSkillRef valid_re D caller skillID version =
     (case skillRequireReadCaller caller of
        Some e \<Rightarrow> Inl e
      | None \<Rightarrow>
          (case (if 0 < version
                 then select_one (\<lambda>sv. sv_skill sv = skillID \<and> sv_version sv = version \<and> skillVersionAccess D caller sv) (rd_versions D)
                 else newest_version (filter (\<lambda>sv. sv_skill sv = skillID \<and> skillVersionAccess D caller sv) (rd_versions D))) of
             None \<Rightarrow> Inl (NewErr ErrNotFound)
           | Some sv \<Rightarrow> resolve_contract valid_re sv))"

definition resolvePinnedSkillRefTrusted ::
  "(string \<Rightarrow> bool) \<Rightarrow> reference_data \<Rightarrow> string \<Rightarrow> int \<Rightarrow> resolved_ref outcome" where
  "resolvePinnedSkillRefTrusted valid_re D skillID version =
     (case select_one (\<lambda>sv. sv_skill sv = skillID \<and> sv_version sv = version) (rd_versions D) of
        None \<Rightarrow> Inl (NewErr ErrInternalError)
      | Some sv \<Rightarrow> resolve_contract valid_re sv)"

section \<open>What a resolution says\<close>

lemma DecodeContract_valid: "DecodeContract valid_re raw = Some c \<Longrightarrow> ValidateContract valid_re c"
  by (auto simp: DecodeContract_def Let_def bind_eq_Some_conv split: sum.splits json.splits if_splits)

lemma newest_version_Some:
  assumes "newest_version svs = Some sv"
  shows "sv \<in> set svs \<and> (\<forall>x \<in> set svs. sv_version x \<le> sv_version sv)"
proof -
  from assms have last: "sv = last (sort_key sv_version svs)" "sort_key sv_version svs \<noteq> []"
    by (auto simp: newest_version_def split: list.splits)
  then have "sv \<in> set svs" using last_in_set [of "sort_key sv_version svs"] by simp
  moreover have "sv_version x \<le> sv_version sv" if "x \<in> set svs" for x
  proof -
    let ?s = "sort_key sv_version svs"
    from that obtain i where i: "i < length ?s" "?s ! i = x" by (metis in_set_conv_nth set_sort)
    have "map sv_version ?s ! i \<le> map sv_version ?s ! (length ?s - 1)"
      by (rule sorted_nth_mono [OF sorted_sort_key]) (use i in auto)
    with i last show ?thesis by (simp add: last_conv_nth)
  qed
  ultimately show ?thesis by blast
qed

text \<open>A reference is resolved to a version the caller may read, with its own valid contract.\<close>

lemma resolveWorkflowSkillRef_Inr:
  assumes "resolveWorkflowSkillRef valid_re D caller skillID version = Inr ref"
  obtains sv where "sv \<in> set (rd_versions D)" "sv_skill sv = skillID" "sv_version sv = rr_version ref"
    "skillVersionAccess D caller sv" "0 < version \<Longrightarrow> rr_version ref = version"
    "DecodeContract valid_re (sv_contract sv) = Some (rr_contract ref)"
  using assms
  by (fastforce simp: resolveWorkflowSkillRef_def resolve_contract_def
        split: option.splits if_splits dest!: select_one_Some newest_version_Some)

end
