(* ===== verification/Workflow_Pin.thy ===== *)
theory Workflow_Pin
  imports Skill_Registry Workflow_Properties
begin

text \<open>
  Pinning a workflow generation (\<^verbatim>\<open>internal/domain/workflow.go\<close>): the references of the
  caller's step specifications are resolved through the registry, every step gets the grant
  its resolved contract stands for, and the composition is validated. A caller sends no
  grant. The last section says what a pinned generation guarantees; it rests on the facts of
  \<open>Workflow_Properties\<close> on validated flows.
\<close>

section \<open>Specifications and grants\<close>

record step_spec =
  sp_id :: string
  sp_skill :: string
  sp_version :: int
  sp_rhs :: "bool option"
  sp_models :: "model_candidate list"
  sp_params :: raw_json
  sp_inputs :: "input_ref list"

record step_meta =
  sm_capabilities :: "capability list"
  sm_interactive :: bool

definition is_gate_capability :: "capability \<Rightarrow> bool" where
  "is_gate_capability c \<longleftrightarrow> c = CapReview \<or> c = CapVerification"

definition is_producer_capability :: "capability \<Rightarrow> bool" where
  "is_producer_capability c \<longleftrightarrow> c = CapShipping \<or> c = CapAuthoring \<or> c = CapDeterministicOperation"

text \<open>The server's capability policy; \<open>None\<close> refuses a contract on both sides of a gate.\<close>

definition workflowGrantForContract :: "skill_contract \<Rightarrow> step_grant option" where
  "workflowGrantForContract c =
     (let gate = list_ex is_gate_capability (Capabilities c);
          producer = list_ex is_producer_capability (Capabilities c) in
      if gate \<and> producer then None
      else if gate then Some \<lparr> Authority = AuthorityReadOnly, ProducerIsolation = IsolationRequired \<rparr>
      else if hasCapability c CapShipping \<or> hasCapability c CapAuthoring
      then Some \<lparr> Authority = AuthorityWrite, ProducerIsolation = IsolationShared \<rparr>
      else Some \<lparr> Authority = AuthorityReadOnly, ProducerIsolation = IsolationShared \<rparr>)"

record pin_input =
  pi_caller :: user_record
  pi_rhs :: bool
  pi_steps :: "step_spec list"

text \<open>
  A Go map is the list of its entries, the last written first, so that \<open>map_of\<close> reads what
  was written last.
\<close>

record pin_outcome =
  po_validated :: validated_flow
  po_grants :: "(string \<times> step_grant) list"
  po_meta :: "(string \<times> step_meta) list"

section \<open>Pinning\<close>

text \<open>Every distinct reference is resolved once; its key is the pair the string spells.\<close>

fun resolve_refs ::
  "(string \<Rightarrow> bool) \<Rightarrow> reference_data \<Rightarrow> user_record \<Rightarrow> (string \<times> int \<rightharpoonup> resolved_ref) \<Rightarrow> step_spec list \<Rightarrow>
   (string \<times> int \<rightharpoonup> resolved_ref) outcome" where
  "resolve_refs valid_re D caller resolved [] = Inr resolved"
| "resolve_refs valid_re D caller resolved (s # ss) =
     (if sp_skill s = [] then Inl (NewErr ErrBadRequest)
      else if resolved (sp_skill s, sp_version s) \<noteq> None then resolve_refs valid_re D caller resolved ss
      else
        (case resolveWorkflowSkillRef valid_re D caller (sp_skill s) (sp_version s) of
           Inl e \<Rightarrow> Inl e
         | Inr r \<Rightarrow> resolve_refs valid_re D caller (resolved((sp_skill s, sp_version s) \<mapsto> r)) ss))"

definition resolved_of :: "(string \<times> int \<rightharpoonup> resolved_ref) \<Rightarrow> step_spec \<Rightarrow> resolved_ref" where
  "resolved_of resolved s = the (resolved (sp_skill s, sp_version s))"

definition pinned_step :: "(string \<times> int \<rightharpoonup> resolved_ref) \<Rightarrow> step_spec \<Rightarrow> flow_step" where
  "pinned_step resolved s =
     \<lparr> fs_id = sp_id s, fs_skill = sp_skill s, fs_skill_version = rr_version (resolved_of resolved s),
       fs_rhs = sp_rhs s, fs_models = sp_models s, fs_params = sp_params s, fs_inputs = sp_inputs s \<rparr>"

definition binding_of_spec :: "(string \<times> int \<rightharpoonup> resolved_ref) \<Rightarrow> step_spec \<Rightarrow> skill_binding" where
  "binding_of_spec resolved s =
     \<lparr> sb_skill = sp_skill s, sb_version = rr_version (resolved_of resolved s),
       sb_contract = rr_contract (resolved_of resolved s) \<rparr>"

definition spec_meta :: "(string \<times> int \<rightharpoonup> resolved_ref) \<Rightarrow> step_spec \<Rightarrow> step_meta" where
  "spec_meta resolved s =
     \<lparr> sm_capabilities = Capabilities (rr_contract (resolved_of resolved s)),
       sm_interactive = Interactive (rr_contract (resolved_of resolved s)) \<rparr>"

definition spec_grant :: "(string \<times> int \<rightharpoonup> resolved_ref) \<Rightarrow> step_spec \<Rightarrow> step_grant option" where
  "spec_grant resolved s = workflowGrantForContract (rr_contract (resolved_of resolved s))"

definition pinWorkflowGeneration ::
  "(string \<Rightarrow> bool) \<Rightarrow> (string \<Rightarrow> string \<Rightarrow> bool) \<Rightarrow> reference_data \<Rightarrow> int \<Rightarrow> pin_input \<Rightarrow> pin_outcome outcome" where
  "pinWorkflowGeneration valid_re re_match D stepsVersion input =
     (let specs = pi_steps input in
      if ur_id (pi_caller input) = [] then Inl (NewErr ErrInternalError)
      else if stepsVersion < 1 then Inl (NewErr ErrInternalError)
      else if specs = [] then Inl (NewErr ErrBadRequest)
      else
        (case resolve_refs valid_re D (pi_caller input) Map.empty specs of
           Inl e \<Rightarrow> Inl e
         | Inr resolved \<Rightarrow>
             (case traverse (spec_grant resolved) specs of
                None \<Rightarrow> Inl (NewErr ErrBadRequest)
              | Some derived \<Rightarrow>
                  (let flow = \<lparr> fl_version = stepsVersion, fl_steps = map (pinned_step resolved) specs \<rparr>;
                       grants = rev (zip (map sp_id specs) derived);
                       meta = rev (map (\<lambda>s. (sp_id s, spec_meta resolved s)) specs) in
                   case Validate valid_re re_match flow (map (binding_of_spec resolved) specs) grants of
                     Inl e \<Rightarrow> Inl (NewErr ErrBadRequest)
                   | Inr validated \<Rightarrow>
                       (if \<not> pi_rhs input \<and>
                           list_ex (\<lambda>s. map_option sm_interactive (map_of meta (sp_id s)) = Some True) specs
                        then Inl (NewErr ErrBadRequest)
                        else Inr \<lparr> po_validated = validated, po_grants = grants, po_meta = meta \<rparr>)))))"

section \<open>Composition at creation\<close>

definition WorkflowModeValues :: "string list" where
  "WorkflowModeValues = [''legacy'', ''db'', ''pending'']"

definition composeFailed :: "string \<Rightarrow> aihub_error" where
  "composeFailed reason = NewErrDetails ErrComposeFailed (ComposeReason reason)"

definition resolveCreateWorkflowMode :: "string \<Rightarrow> bool \<Rightarrow> string outcome" where
  "resolveCreateWorkflowMode requested hasSteps =
     (if requested \<noteq> [] \<and> requested \<notin> set WorkflowModeValues then Inl (composeFailed ''invalid_workflow_mode'')
      else if hasSteps then
        (if requested = [] \<or> requested = ''db'' then Inr ''db''
         else if requested = ''legacy'' then Inl (composeFailed ''steps_with_legacy_mode'')
         else Inl (composeFailed ''steps_with_pending_mode''))
      else if requested = [] \<or> requested = ''legacy'' then Inr ''legacy''
      else if requested = ''pending'' then Inr ''pending''
      else Inl (composeFailed ''db_mode_requires_steps''))"

text \<open>The reason of a refused pin is its message, which is not modelled.\<close>

definition composeFailedFromPin :: "aihub_error \<Rightarrow> aihub_error" where
  "composeFailedFromPin e =
     (if err_code e = ErrBadRequest \<or> err_code e = ErrNotFound then NewErrDetails ErrComposeFailed (ComposeReason [])
      else e)"

section \<open>What a resolved reference is\<close>

definition readable_as :: "(string \<Rightarrow> bool) \<Rightarrow> reference_data \<Rightarrow> user_record \<Rightarrow> string \<Rightarrow> resolved_ref \<Rightarrow> bool" where
  "readable_as valid_re D caller skill r \<longleftrightarrow>
     (\<exists>sv \<in> set (rd_versions D). sv_skill sv = skill \<and> sv_version sv = rr_version r \<and> skillVersionAccess D caller sv \<and>
        DecodeContract valid_re (sv_contract sv) = Some (rr_contract r))"

lemma resolved_readable:
  "resolveWorkflowSkillRef valid_re D caller skill version = Inr r \<Longrightarrow> readable_as valid_re D caller skill r"
  unfolding readable_as_def by (elim resolveWorkflowSkillRef_Inr) blast

lemma resolve_refs_sound:
  assumes "resolve_refs valid_re D caller resolved specs = Inr res"
    and "\<And>k r. resolved k = Some r \<Longrightarrow> readable_as valid_re D caller (fst k) r"
  shows "(\<forall>k r. resolved k = Some r \<longrightarrow> res k = Some r) \<and>
     (\<forall>s \<in> set specs. \<exists>r. res (sp_skill s, sp_version s) = Some r \<and> readable_as valid_re D caller (sp_skill s) r)"
  using assms
proof (induction specs arbitrary: resolved)
  case (Cons s specs)
  let ?k = "(sp_skill s, sp_version s)"
  show ?case
  proof (cases "resolved ?k")
    case (Some r)
    with Cons.prems(1) have "resolve_refs valid_re D caller resolved specs = Inr res" by (simp split: if_splits)
    from Cons.IH [OF this Cons.prems(2)] Some Cons.prems(2) [OF Some] show ?thesis by simp
  next
    case None
    with Cons.prems(1) obtain r where r: "resolveWorkflowSkillRef valid_re D caller (sp_skill s) (sp_version s) = Inr r"
      "resolve_refs valid_re D caller (resolved(?k \<mapsto> r)) specs = Inr res"
      by (auto split: if_splits sum.splits)
    have ok: "readable_as valid_re D caller (fst k) r'" if "(resolved(?k \<mapsto> r)) k = Some r'" for k r'
      using that Cons.prems(2) [of k r'] resolved_readable [OF r(1)] by (cases "k = ?k") simp_all
    from Cons.IH [OF r(2) ok] have rest: "\<forall>k r'. (resolved(?k \<mapsto> r)) k = Some r' \<longrightarrow> res k = Some r'"
      "\<forall>s \<in> set specs. \<exists>r. res (sp_skill s, sp_version s) = Some r \<and> readable_as valid_re D caller (sp_skill s) r" by blast+
    have "res ?k = Some r" using rest(1) by simp
    moreover have "res k = Some r'" if "resolved k = Some r'" for k r'
    proof -
      have "(resolved(?k \<mapsto> r)) k = Some r'" using that None by auto
      with rest(1) show ?thesis by blast
    qed
    ultimately show ?thesis using rest(2) resolved_readable [OF r(1)] by auto
  qed
qed simp

lemma traverse_length: "traverse f xs = Some ys \<Longrightarrow> length ys = length xs"
  by (induction xs arbitrary: ys) (auto split: option.splits)

lemma traverse_nth: "traverse f xs = Some ys \<Longrightarrow> i < length xs \<Longrightarrow> f (xs ! i) = Some (ys ! i)"
  by (induction xs arbitrary: ys i) (auto simp: nth_Cons split: option.splits nat.splits)

lemma bind_skills_exact:
  assumes "bind_skills valid_re bound bs = Inr bound'"
  shows "distinct (map (\<lambda>b. (sb_skill b, sb_version b)) bs) \<and>
     (\<forall>b \<in> set bs. bound (sb_skill b, sb_version b) = None)"
  using assms
proof (induction bs arbitrary: bound)
  case (Cons b bs)
  let ?k = "(sb_skill b, sb_version b)"
  from Cons.prems have fresh: "bound ?k = None"
    and rest: "bind_skills valid_re (bound(?k \<mapsto> sb_contract b)) bs = Inr bound'"
    by (auto split: if_splits)
  from Cons.IH [OF rest] have IH: "distinct (map (\<lambda>b. (sb_skill b, sb_version b)) bs)"
    "\<forall>b' \<in> set bs. (bound(?k \<mapsto> sb_contract b)) (sb_skill b', sb_version b') = None" by blast+
  have other: "bound (sb_skill b', sb_version b') = None \<and> (sb_skill b', sb_version b') \<noteq> ?k" if "b' \<in> set bs" for b'
    using bspec [OF IH(2) that] by (simp split: if_splits)
  then have "?k \<notin> (\<lambda>b. (sb_skill b, sb_version b)) ` set bs" by force
  with IH(1) fresh other show ?case by simp
qed simp

lemma map_of_rev_zip:
  assumes "distinct ks" "length vs = length ks" "i < length ks"
  shows "map_of (rev (zip ks vs)) (ks ! i) = Some (vs ! i)"
proof -
  have "distinct (map fst (rev (zip ks vs)))" using assms(1,2) by (simp add: rev_map [symmetric])
  moreover have "(ks ! i, vs ! i) \<in> set (rev (zip ks vs))" using assms by (auto simp: set_zip)
  ultimately show ?thesis by (rule map_of_is_SomeI)
qed

section \<open>What a pinned generation is\<close>

lemma pin_parts:
  assumes "pinWorkflowGeneration valid_re re_match D v input = Inr po"
  obtains resolved gs where "resolve_refs valid_re D (pi_caller input) Map.empty (pi_steps input) = Inr resolved"
    "traverse (spec_grant resolved) (pi_steps input) = Some gs" "po_grants po = rev (zip (map sp_id (pi_steps input)) gs)"
    "po_meta po = rev (map (\<lambda>s. (sp_id s, spec_meta resolved s)) (pi_steps input))"
    "Validate valid_re re_match \<lparr> fl_version = v, fl_steps = map (pinned_step resolved) (pi_steps input) \<rparr>
       (map (binding_of_spec resolved) (pi_steps input)) (po_grants po) = Inr (po_validated po)"
    "\<not> pi_rhs input \<Longrightarrow> \<not> list_ex (\<lambda>s. map_option sm_interactive (map_of (po_meta po) (sp_id s)) = Some True) (pi_steps input)"
  using assms by (auto simp: pinWorkflowGeneration_def Let_def split: if_splits sum.splits option.splits)

text \<open>The step at a position of a pinned flow: what was asked for, resolved, with the policy's grant.\<close>

definition pinned_at ::
  "(string \<Rightarrow> bool) \<Rightarrow> reference_data \<Rightarrow> pin_input \<Rightarrow> pin_outcome \<Rightarrow> nat \<Rightarrow> bool" where
  "pinned_at valid_re D input po i \<longleftrightarrow>
     (let s = vf_steps (po_validated po) ! i; spec = pi_steps input ! i in
      step_id s = sp_id spec \<and> fs_skill (vs_step s) = sp_skill spec \<and> fs_rhs (vs_step s) = sp_rhs spec \<and>
      readable_as valid_re D (pi_caller input) (sp_skill spec)
        \<lparr> rr_version = fs_skill_version (vs_step s), rr_contract = vs_contract s \<rparr> \<and>
      workflowGrantForContract (vs_contract s) = Some (grant_in (vf_grants (po_validated po)) (step_id s)) \<and>
      map_of (po_grants po) (step_id s) = vf_grants (po_validated po) (step_id s) \<and>
      map_of (po_meta po) (step_id s) =
        Some \<lparr> sm_capabilities = Capabilities (vs_contract s), sm_interactive = Interactive (vs_contract s) \<rparr>)"

lemma pinned_steps:
  assumes "pinWorkflowGeneration valid_re re_match D v input = Inr po"
  shows "length (vf_steps (po_validated po)) = length (pi_steps input)"
    "fl_version (vf_flow (po_validated po)) = v"
    "map vs_step (vf_steps (po_validated po)) = fl_steps (vf_flow (po_validated po))"
    "distinct (map (\<lambda>s. (fs_skill s, fs_skill_version s)) (fl_steps (vf_flow (po_validated po))))"
    "distinct (map fs_id (fl_steps (vf_flow (po_validated po))))"
    "i < length (pi_steps input) \<Longrightarrow> pinned_at valid_re D input po i"
    "validateSafetyGates (vf_steps (po_validated po)) (vf_grants (po_validated po)) = None"
proof -
  let ?specs = "pi_steps input" and ?vf = "po_validated po"
  obtain resolved gs where res: "resolve_refs valid_re D (pi_caller input) Map.empty ?specs = Inr resolved"
    and gs: "traverse (spec_grant resolved) ?specs = Some gs" "po_grants po = rev (zip (map sp_id ?specs) gs)"
    and meta: "po_meta po = rev (map (\<lambda>s. (sp_id s, spec_meta resolved s)) ?specs)"
    and val: "Validate valid_re re_match \<lparr> fl_version = v, fl_steps = map (pinned_step resolved) ?specs \<rparr>
       (map (binding_of_spec resolved) ?specs) (po_grants po) = Inr ?vf"
    by (rule pin_parts [OF assms])
  note typed = Validate_typed(1) [OF val, unfolded flow_typed_def] and flow = Validate_typed(2) [OF val]
  obtain bound where bound: "bind_skills valid_re Map.empty (map (binding_of_spec resolved) ?specs) = Inr bound"
    and gates: "validateSafetyGates (vf_steps ?vf) (vf_grants ?vf) = None"
    by (rule Validate_parts [OF val])
  show steps: "map vs_step (vf_steps ?vf) = fl_steps (vf_flow ?vf)" using typed by blast
  then have vs: "map vs_step (vf_steps ?vf) = map (pinned_step resolved) ?specs" using flow by simp
  then show len: "length (vf_steps ?vf) = length ?specs" by (metis length_map)
  have nth: "vs_step (vf_steps ?vf ! i) = pinned_step resolved (?specs ! i)" if "i < length ?specs" for i
    using arg_cong [OF vs, where f = "\<lambda>l. l ! i"] that len by simp
  show "fl_version (vf_flow ?vf) = v" using flow by simp
  have keys: "distinct (map (\<lambda>b. (sb_skill b, sb_version b)) (map (binding_of_spec resolved) ?specs))"
    using bind_skills_exact [OF bound] by blast
  then show "distinct (map (\<lambda>s. (fs_skill s, fs_skill_version s)) (fl_steps (vf_flow ?vf)))"
    using flow by (simp add: o_def binding_of_spec_def pinned_step_def)
  have ids: "distinct (map step_id (vf_steps ?vf))" using typed by blast
  then show "distinct (map fs_id (fl_steps (vf_flow ?vf)))" using steps by (simp add: o_def flip: steps)
  show "validateSafetyGates (vf_steps ?vf) (vf_grants ?vf) = None" by (rule gates)
  show "pinned_at valid_re D input po i" if i: "i < length ?specs"
  proof -
    let ?s = "vf_steps ?vf ! i" and ?spec = "?specs ! i"
    have ids': "distinct (map sp_id ?specs)"
      using ids arg_cong [OF vs, where f = "map fs_id"] by (simp add: o_def pinned_step_def)
    from resolve_refs_sound [OF res] i obtain r where r: "resolved (sp_skill ?spec, sp_version ?spec) = Some r"
      "readable_as valid_re D (pi_caller input) (sp_skill ?spec) r" by force
    then have ro: "resolved_of resolved ?spec = r" by (simp add: resolved_of_def)
    have "bound_to valid_re (map (binding_of_spec resolved) ?specs) ?s" and "granted (po_grants po) (vf_grants ?vf) ?s"
      using typed i len unfolding step_typed_def by auto
    then obtain b g where b: "b \<in> set (map (binding_of_spec resolved) ?specs)" "sb_skill b = fs_skill (vs_step ?s)"
        "sb_version b = fs_skill_version (vs_step ?s)" "sb_contract b = vs_contract ?s"
      and g: "vf_grants ?vf (step_id ?s) = Some g" "map_of (po_grants po) (step_id ?s) = Some g"
      unfolding bound_to_def granted_def by blast
    from b obtain j where j: "j < length ?specs" "sp_skill (?specs ! j) = fs_skill (vs_step ?s)"
        "rr_version (resolved_of resolved (?specs ! j)) = fs_skill_version (vs_step ?s)"
        "rr_contract (resolved_of resolved (?specs ! j)) = vs_contract ?s"
      by (auto simp: in_set_conv_nth binding_of_spec_def)
    let ?keys = "map (\<lambda>b. (sb_skill b, sb_version b)) (map (binding_of_spec resolved) ?specs)"
    have "?keys ! j = ?keys ! i" using j(1-3) i nth [OF i] by (simp add: binding_of_spec_def pinned_step_def)
    with keys i j(1) have "j = i" by (subst (asm) nth_eq_iff_index_eq) simp_all
    with j(4) ro have contract: "vs_contract ?s = rr_contract r" by simp
    have sid: "step_id ?s = map sp_id ?specs ! i" using nth [OF i] i by (simp add: pinned_step_def)
    have glen: "length gs = length ?specs" by (rule traverse_length [OF gs(1)])
    have "map_of (po_grants po) (step_id ?s) = Some (gs ! i)"
      unfolding gs(2) sid by (rule map_of_rev_zip [OF ids']) (use glen i in simp_all)
    with g traverse_nth [OF gs(1) i] contract ro
    have "workflowGrantForContract (vs_contract ?s) = Some (grant_in (vf_grants ?vf) (step_id ?s))"
      by (simp add: spec_grant_def grant_in_def)
    moreover have "map_of (po_meta po) (step_id ?s) = Some (map (spec_meta resolved) ?specs ! i)"
      unfolding meta sid using map_of_rev_zip [OF ids', of "map (spec_meta resolved) ?specs" i] i
      by (simp add: zip_map_map zip_same_conv_map o_def)
    ultimately show ?thesis
      using nth [OF i] r(2) ro contract g i
      by (simp add: pinned_at_def pinned_step_def spec_meta_def readable_as_def)
  qed
qed

lemma gate_or_producer:
  "list_ex is_gate_capability (Capabilities c) \<longleftrightarrow> hasCapability c CapReview \<or> hasCapability c CapVerification"
  "list_ex is_producer_capability (Capabilities c) \<longleftrightarrow>
     hasCapability c CapShipping \<or> hasCapability c CapAuthoring \<or> hasCapability c CapDeterministicOperation"
  unfolding hasCapability_def list_ex_iff is_gate_capability_def is_producer_capability_def by blast+

lemma workflowGrant_policy:
  assumes "workflowGrantForContract c = Some g"
  shows "hasCapability c CapReview \<or> hasCapability c CapVerification \<Longrightarrow>
       Authority g = AuthorityReadOnly \<and> ProducerIsolation g = IsolationRequired"
    "Authority g = AuthorityWrite \<longleftrightarrow> hasCapability c CapShipping \<or> hasCapability c CapAuthoring"
  using assms
  unfolding workflowGrantForContract_def Let_def gate_or_producer by (auto split: if_splits)

text \<open>
  C16: a generation is pinned only over versions the caller may read, one step per requested
  step, no version twice. The grants are the server's: a review or verification step is an
  independent reader, exactly the shipping and authoring steps may write, and every shipping
  step comes after a write with distinct independent gates between the two. A flow pinned for
  unattended work has no interactive step.
\<close>

theorem pinned_generation_sound:
  assumes "pinWorkflowGeneration valid_re re_match D v input = Inr po"
  shows "length (vf_steps (po_validated po)) = length (pi_steps input) \<and> fl_version (vf_flow (po_validated po)) = v \<and>
    distinct (map (\<lambda>s. (fs_skill s, fs_skill_version s)) (fl_steps (vf_flow (po_validated po)))) \<and>
    (\<forall>i < length (pi_steps input).
       pinned_at valid_re D input po i \<and>
       (let s = vf_steps (po_validated po) ! i; c = vs_contract s; grants = vf_grants (po_validated po) in
        (hasCapability c CapReview \<or> hasCapability c CapVerification \<longrightarrow> independent_reader grants s) \<and>
        (Authority (step_grant_of grants s) = AuthorityWrite \<longleftrightarrow> hasCapability c CapShipping \<or> hasCapability c CapAuthoring) \<and>
        (is_shipping s \<longrightarrow> (\<exists>w < i. writes_at (po_validated po) w \<and> gated_between (po_validated po) w i)) \<and>
        (\<not> pi_rhs input \<longrightarrow> \<not> Interactive c)))"
proof -
  note p = pinned_steps [OF assms]
  have "(let s = vf_steps (po_validated po) ! i; c = vs_contract s; grants = vf_grants (po_validated po) in
        (hasCapability c CapReview \<or> hasCapability c CapVerification \<longrightarrow> independent_reader grants s) \<and>
        (Authority (step_grant_of grants s) = AuthorityWrite \<longleftrightarrow> hasCapability c CapShipping \<or> hasCapability c CapAuthoring) \<and>
        (is_shipping s \<longrightarrow> (\<exists>w < i. writes_at (po_validated po) w \<and> gated_between (po_validated po) w i)) \<and>
        (\<not> pi_rhs input \<longrightarrow> \<not> Interactive c))"
    if i: "i < length (pi_steps input)" for i
  proof -
    let ?s = "vf_steps (po_validated po) ! i"
    from p(6) [OF i] have at: "step_id ?s = sp_id (pi_steps input ! i)"
      "workflowGrantForContract (vs_contract ?s) = Some (step_grant_of (vf_grants (po_validated po)) ?s)"
      "map_of (po_meta po) (sp_id (pi_steps input ! i)) =
        Some \<lparr> sm_capabilities = Capabilities (vs_contract ?s), sm_interactive = Interactive (vs_contract ?s) \<rparr>"
      unfolding pinned_at_def Let_def step_grant_of_def by metis+
    have "\<exists>w < i. writes_at (po_validated po) w \<and> gated_between (po_validated po) w i" if "is_shipping ?s"
    proof -
      from shipping_gated [OF p(7) _ that] i p(1) obtain w where
        "last_index (writes_at (po_validated po)) 0 i = Some w"
        "distinct_gates (vf_steps (po_validated po)) (vf_grants (po_validated po)) (Suc w) i" by auto
      then show ?thesis using distinct_gates_between by (auto simp: last_index_Some)
    qed
    moreover have "\<not> Interactive (vs_contract ?s)" if "\<not> pi_rhs input"
    proof -
      have "\<not> list_ex (\<lambda>s. map_option sm_interactive (map_of (po_meta po) (sp_id s)) = Some True) (pi_steps input)"
        by (rule pin_parts [OF assms]) (use that in blast)
      with nth_mem [OF i] at(3) show ?thesis by (auto simp: list_ex_iff)
    qed
    ultimately show ?thesis
      using workflowGrant_policy [OF at(2)] by (auto simp: Let_def independent_reader_def)
  qed
  with p show ?thesis by blast
qed

text \<open>
  C35: two steps that name the same version of a skill are never pinned: the bindings are
  collected per step and the validation refuses the second one. The witness also shows such
  a flow that the validation accepts when each version is bound once.
\<close>

theorem repeated_skill_never_pins:
  assumes "i < j" "j < length (pi_steps input)"
    "sp_skill (pi_steps input ! i) = sp_skill (pi_steps input ! j)"
    "sp_version (pi_steps input ! i) = sp_version (pi_steps input ! j)"
  shows "\<exists>e. pinWorkflowGeneration valid_re re_match D v input = Inl e"
proof (rule ccontr)
  assume "\<not> ?thesis"
  then obtain po where po: "pinWorkflowGeneration valid_re re_match D v input = Inr po" by (metis old.sum.exhaust)
  obtain resolved where val: "Validate valid_re re_match \<lparr> fl_version = v, fl_steps = map (pinned_step resolved) (pi_steps input) \<rparr>
       (map (binding_of_spec resolved) (pi_steps input)) (po_grants po) = Inr (po_validated po)"
    by (rule pin_parts [OF po])
  obtain bound where "bind_skills valid_re Map.empty (map (binding_of_spec resolved) (pi_steps input)) = Inr bound"
    by (rule Validate_parts [OF val])
  then have "distinct (map (\<lambda>b. (sb_skill b, sb_version b)) (map (binding_of_spec resolved) (pi_steps input)))"
    (is "distinct ?keys") using bind_skills_exact by blast
  moreover have "?keys ! i = ?keys ! j" using assms by (simp add: binding_of_spec_def resolved_of_def)
  ultimately have "i = j" using assms(1,2) by (subst (asm) nth_eq_iff_index_eq) simp_all
  then show False using assms(1) by simp
qed

section \<open>A registry, and flows pinned over it\<close>

definition contract_json :: "string \<Rightarrow> (string \<times> json) list \<Rightarrow> json" where
  "contract_json capability schemas = JObj ((''capabilities'', JArr [JStr capability]) # schemas)"

definition public_version :: "string \<Rightarrow> json \<Rightarrow> skill_version" where
  "public_version name contract = \<lparr> sv_skill = name, sv_version = 1, sv_visibility = ''public'', sv_contract = contract \<rparr>"

definition safe_registry :: reference_data where
  "safe_registry = \<lparr> rd_versions =
     [public_version ''write'' (contract_json ''authoring'' [(''output_schema'', text_schema ''patch'')]),
      public_version ''review'' (contract_json ''review'' [(''input_schema'', text_schema ''change'')]),
      public_version ''verify'' (contract_json ''verification'' []),
      public_version ''ship'' (contract_json ''shipping'' [])],
     rd_skills = [], rd_grants = [], rd_projects = [],
     rd_users = [\<lparr> u_id = ''u1'', u_role = ''writer'', u_keys = [] \<rparr>], rd_artifacts = [] \<rparr>"

definition spec_of :: "string \<Rightarrow> flow_step \<Rightarrow> step_spec" where
  "spec_of sid s = \<lparr> sp_id = sid, sp_skill = fs_skill s, sp_version = 0, sp_rhs = fs_rhs s, sp_models = fs_models s,
     sp_params = fs_params s, sp_inputs = fs_inputs s \<rparr>"

definition safe_input :: pin_input where
  "safe_input = \<lparr> pi_caller = \<lparr> ur_id = ''u1'', ur_role = ''writer'', ur_scope = None \<rparr>, pi_rhs = False,
     pi_steps = map (\<lambda>s. spec_of (fs_id s) s) (fl_steps safe_flow) \<rparr>"

definition shared_input :: pin_input where
  "shared_input = safe_input\<lparr> pi_steps := spec_of ''write_again'' (hd (fl_steps safe_flow)) # pi_steps safe_input \<rparr>"

definition safe_pin :: pin_outcome where
  "safe_pin = projr (pinWorkflowGeneration no_patterns never_matches safe_registry 1 safe_input)"

lemma safe_input_pinned: "pinWorkflowGeneration no_patterns never_matches safe_registry 1 safe_input = Inr safe_pin"
proof -
  have "\<not> isl (pinWorkflowGeneration no_patterns never_matches safe_registry 1 safe_input)" by code_simp
  then show ?thesis by (simp add: safe_pin_def)
qed

lemma pinned_generation_sound_witness:
  "independent_reader (vf_grants (po_validated safe_pin)) (vf_steps (po_validated safe_pin) ! 1) \<and>
   (\<exists>w < 3. writes_at (po_validated safe_pin) w \<and> gated_between (po_validated safe_pin) w 3)"
proof -
  have "1 < length (pi_steps safe_input)" "3 < length (pi_steps safe_input)"
    "hasCapability (vs_contract (vf_steps (po_validated safe_pin) ! 1)) CapReview"
    "is_shipping (vf_steps (po_validated safe_pin) ! 3)" by code_simp+
  then show ?thesis using pinned_generation_sound [OF safe_input_pinned] unfolding Let_def by blast
qed

lemma repeated_skill_never_pins_witness:
  "(\<exists>e. pinWorkflowGeneration no_patterns never_matches safe_registry 1 shared_input = Inl e) \<and>
   \<not> isl (Validate no_patterns never_matches
     \<lparr> fl_version = 1, fl_steps = (hd (fl_steps safe_flow))\<lparr> fs_id := ''write_again'' \<rparr> # fl_steps safe_flow \<rparr>
     safe_bindings ((''write_again'', writer_grant) # safe_context))"
proof
  have "1 < length (pi_steps shared_input)" "sp_skill (pi_steps shared_input ! 0) = sp_skill (pi_steps shared_input ! 1)"
    "sp_version (pi_steps shared_input ! 0) = sp_version (pi_steps shared_input ! 1)" by code_simp+
  then show "\<exists>e. pinWorkflowGeneration no_patterns never_matches safe_registry 1 shared_input = Inl e"
    by (intro repeated_skill_never_pins [where i = 0 and j = 1]) simp_all
  show "\<not> isl (Validate no_patterns never_matches
     \<lparr> fl_version = 1, fl_steps = (hd (fl_steps safe_flow))\<lparr> fs_id := ''write_again'' \<rparr> # fl_steps safe_flow \<rparr>
     safe_bindings ((''write_again'', writer_grant) # safe_context))" by code_simp
qed

end
