(* ===== verification/Step_Envelope.thy ===== *)
theory Step_Envelope
  imports Workflow_Policy Attempts
begin

text \<open>
  The envelope of a worker result (\<^verbatim>\<open>StepResult.UnmarshalJSON\<close> of
  \<^verbatim>\<open>internal/workflow/contract.go\<close>): duplicate keys are refused at every depth, the keys
  of the envelope, of the artifact and of every piece of evidence are closed. The keys of the
  envelope are compared exactly; those of the two sub-objects are matched by
  \<^verbatim>\<open>encoding/json\<close> to the fields of a struct, which ignores case. A document is the tree
  it spells.
\<close>

section \<open>Duplicate keys\<close>

fun rejectDuplicateKeys :: "json \<Rightarrow> bool" where
  "rejectDuplicateKeys (JObj ms) = (\<not> distinct (map fst ms) \<or> list_ex (\<lambda>(k, v). rejectDuplicateKeys v) ms)"
| "rejectDuplicateKeys (JArr js) = list_ex rejectDuplicateKeys js"
| "rejectDuplicateKeys j = False"

section \<open>Members of a struct\<close>

text \<open>
  The folding of field names: ASCII letters by case, and the two other runes whose simple
  folding is an ASCII letter, U+017F and U+212A.
\<close>

definition upper_char :: "char \<Rightarrow> char" where
  "upper_char c = (if is_lower c then char_of ((of_char c :: nat) - 32) else c)"

function fold_name :: "string \<Rightarrow> string" where
  "fold_name s =
     (case s of
        [] \<Rightarrow> []
      | c # cs \<Rightarrow>
          (if has_prefix s [CHR 0xC5, CHR 0xBF] then CHR ''S'' # fold_name (drop 2 s)
           else if has_prefix s [CHR 0xE2, CHR 0x84, CHR 0xAA] then CHR ''K'' # fold_name (drop 3 s)
           else upper_char c # fold_name cs))"
  by pat_completeness auto
termination
  by (relation "measure length") auto

declare fold_name.simps [simp del]

text \<open>Every member that names the field writes it, in order; null leaves it as it is.\<close>

definition field_values :: "(string \<times> json) list \<Rightarrow> string \<Rightarrow> json list" where
  "field_values ms name = filter (\<lambda>v. v \<noteq> JNull) (map snd (filter (\<lambda>m. fold_name (fst m) = fold_name name) ms))"

definition struct_string :: "(string \<times> json) list \<Rightarrow> string \<Rightarrow> string option" where
  "struct_string ms name =
     map_option (\<lambda>ss. if ss = [] then [] else last ss)
       (traverse (\<lambda>v. case v of JStr s \<Rightarrow> Some s | _ \<Rightarrow> None) (field_values ms name))"

definition struct_int :: "(string \<times> json) list \<Rightarrow> string \<Rightarrow> int option" where
  "struct_int ms name =
     map_option (\<lambda>is. if is = [] then 0 else last is)
       (traverse (\<lambda>v. case v of JNum l \<Rightarrow> parseInt64 l | _ \<Rightarrow> None) (field_values ms name))"

definition closed_fields :: "string list \<Rightarrow> (string \<times> json) list \<Rightarrow> bool" where
  "closed_fields names ms = list_all (\<lambda>m. fold_name (fst m) \<in> set (map fold_name names)) ms"

section \<open>Artifact and evidence\<close>

definition zero_artifact :: artifact_ref where
  "zero_artifact = \<lparr> ar_id = [], ar_version = 0, ar_hash = [] \<rparr>"

definition decode_artifact :: "json \<Rightarrow> artifact_ref option" where
  "decode_artifact j =
     (case j of
        JNull \<Rightarrow> Some zero_artifact
      | JObj ms \<Rightarrow>
          (if \<not> closed_fields [''id'', ''version'', ''hash''] ms then None
           else
             do {
               i \<leftarrow> struct_string ms ''id'';
               v \<leftarrow> struct_int ms ''version'';
               h \<leftarrow> struct_string ms ''hash'';
               Some \<lparr> ar_id = i, ar_version = v, ar_hash = h \<rparr>
             })
      | _ \<Rightarrow> None)"

definition decode_evidence :: "json \<Rightarrow> evidence option" where
  "decode_evidence j =
     (case j of
        JNull \<Rightarrow> Some \<lparr> ev_kind = [], ev_ref = [], ev_hash = [] \<rparr>
      | JObj ms \<Rightarrow>
          (if \<not> closed_fields [''kind'', ''ref'', ''hash''] ms then None
           else
             do {
               k \<leftarrow> struct_string ms ''kind'';
               r \<leftarrow> struct_string ms ''ref'';
               h \<leftarrow> struct_string ms ''hash'';
               Some \<lparr> ev_kind = k, ev_ref = r, ev_hash = h \<rparr>
             })
      | _ \<Rightarrow> None)"

definition decode_evidence_list :: "json \<Rightarrow> evidence list option" where
  "decode_evidence_list j =
     (case j of JNull \<Rightarrow> Some [] | JArr js \<Rightarrow> traverse decode_evidence js | _ \<Rightarrow> None)"

section \<open>The envelope\<close>

definition stepResultKeys :: "string list" where
  "stepResultKeys =
     [''status'', ''review_verdict'', ''work_item_id'', ''flow_version'', ''step_id'', ''step_attempt_id'',
      ''epoch'', ''producer_id'', ''artifact'', ''evidence'', ''output'']"

definition status_of :: "string \<Rightarrow> result_status" where
  "status_of s =
     (if s = ''completed'' then StatusCompleted
      else if s = ''incomplete'' then StatusIncomplete
      else if s = ''blocked'' then StatusBlocked
      else if s = ''provider_error'' then StatusProviderError
      else if s = ''invalid_result'' then StatusInvalidResult
      else OtherStatus s)"

definition verdict_of :: "string \<Rightarrow> review_verdict" where
  "verdict_of s =
     (if s = [] then NoVerdict
      else if s = ''pass'' then ReviewPass
      else if s = ''warn'' then ReviewWarn
      else if s = ''fail'' then ReviewFail
      else OtherVerdict s)"

text \<open>A top-level member, whose key is exact and occurs once.\<close>

definition top_field :: "(json \<Rightarrow> 'a option) \<Rightarrow> 'a \<Rightarrow> (string \<times> json) list \<Rightarrow> string \<Rightarrow> 'a option" where
  "top_field read zero ms k =
     (case map_of ms k of None \<Rightarrow> Some zero | Some JNull \<Rightarrow> Some zero | Some j \<Rightarrow> read j)"

definition read_output :: "json \<Rightarrow> unit option" where
  "read_output j = (case j of JObj ms \<Rightarrow> Some () | _ \<Rightarrow> None)"

definition zero_result :: step_result where
  "zero_result =
     \<lparr> sr_status = status_of [], sr_verdict = NoVerdict, sr_wi = [], sr_flow_version = 0, sr_step = [], sr_attempt = [],
       sr_epoch = 0, sr_producer = [], sr_artifact = zero_artifact, sr_evidence = [] \<rparr>"

definition UnmarshalStepResult :: "json \<Rightarrow> step_result option" where
  "UnmarshalStepResult j =
     (if rejectDuplicateKeys j then None
      else
        (case j of
           JNull \<Rightarrow> Some zero_result
         | JObj ms \<Rightarrow>
             (if ''approval'' \<in> set (map fst ms) then None
              else if \<not> set (map fst ms) \<subseteq> set stepResultKeys then None
              else
                do {
                  artifact \<leftarrow> top_field decode_artifact zero_artifact ms ''artifact'';
                  evidence \<leftarrow> top_field decode_evidence_list [] ms ''evidence'';
                  status \<leftarrow> top_field read_string [] ms ''status'';
                  verdict \<leftarrow> top_field read_string [] ms ''review_verdict'';
                  wi \<leftarrow> top_field read_string [] ms ''work_item_id'';
                  version \<leftarrow> top_field read_int 0 ms ''flow_version'';
                  step \<leftarrow> top_field read_string [] ms ''step_id'';
                  attempt \<leftarrow> top_field read_string [] ms ''step_attempt_id'';
                  epoch \<leftarrow> top_field read_int 0 ms ''epoch'';
                  producer \<leftarrow> top_field read_string [] ms ''producer_id'';
                  output \<leftarrow> top_field read_output () ms ''output'';
                  Some \<lparr> sr_status = status_of status, sr_verdict = verdict_of verdict, sr_wi = wi,
                    sr_flow_version = version, sr_step = step, sr_attempt = attempt, sr_epoch = epoch,
                    sr_producer = producer, sr_artifact = artifact, sr_evidence = evidence \<rparr>
                })
         | _ \<Rightarrow> None))"

section \<open>Writing an envelope\<close>

definition status_text :: "result_status \<Rightarrow> string" where
  "status_text s =
     (case s of
        StatusCompleted \<Rightarrow> ''completed'' | StatusIncomplete \<Rightarrow> ''incomplete'' | StatusBlocked \<Rightarrow> ''blocked''
      | StatusProviderError \<Rightarrow> ''provider_error'' | StatusInvalidResult \<Rightarrow> ''invalid_result'' | OtherStatus t \<Rightarrow> t)"

definition verdict_text :: "review_verdict \<Rightarrow> string" where
  "verdict_text v =
     (case v of
        NoVerdict \<Rightarrow> [] | ReviewPass \<Rightarrow> ''pass'' | ReviewWarn \<Rightarrow> ''warn'' | ReviewFail \<Rightarrow> ''fail'' | OtherVerdict t \<Rightarrow> t)"

definition artifact_json :: "artifact_ref \<Rightarrow> json" where
  "artifact_json a = JObj [(''id'', JStr (ar_id a)), (''version'', json_int (ar_version a)), (''hash'', JStr (ar_hash a))]"

definition evidence_json :: "evidence \<Rightarrow> json" where
  "evidence_json e = JObj [(''kind'', JStr (ev_kind e)), (''ref'', JStr (ev_ref e)), (''hash'', JStr (ev_hash e))]"

text \<open>\<^verbatim>\<open>json.Marshal\<close> of a result, whose empty optional fields are left out, around the document of its artifact.\<close>

definition envelope_with :: "json \<Rightarrow> step_result \<Rightarrow> json" where
  "envelope_with artifact r =
     JObj ([(''status'', JStr (status_text (sr_status r)))] @
       (if verdict_text (sr_verdict r) = [] then [] else [(''review_verdict'', JStr (verdict_text (sr_verdict r)))]) @
       [(''work_item_id'', JStr (sr_wi r)), (''flow_version'', json_int (sr_flow_version r)),
        (''step_id'', JStr (sr_step r)), (''step_attempt_id'', JStr (sr_attempt r)), (''epoch'', json_int (sr_epoch r)),
        (''producer_id'', JStr (sr_producer r)), (''artifact'', artifact)] @
       (if sr_evidence r = [] then [] else [(''evidence'', JArr (map evidence_json (sr_evidence r)))]))"

definition MarshalStepResult :: "step_result \<Rightarrow> json" where
  "MarshalStepResult r = envelope_with (artifact_json (sr_artifact r)) r"

section \<open>Numbers read back\<close>

definition int64 :: "int \<Rightarrow> bool" where
  "int64 n \<longleftrightarrow> - (2 ^ 63) \<le> n \<and> n < 2 ^ 63"

lemma digit_char:
  assumes "n < 10"
  shows "is_digit (char_of (48 + n))" "digit_val (char_of (48 + n)) = n"
  using assms by (simp_all add: is_digit_def digit_val_def)

lemma nat_digits_read: "nat_digits n \<noteq> [] \<and> list_all is_digit (nat_digits n) \<and> digits_nat (nat_digits n) = n"
proof (induction n rule: nat_digits.induct)
  case (1 n)
  show ?case
  proof (cases "n < 10")
    case True
    then show ?thesis by (subst (1 2 3) nat_digits.simps) (simp add: digit_char digits_nat_def)
  next
    case False
    from 1 [OF this] have "list_all is_digit (nat_digits (n div 10))" "digits_nat (nat_digits (n div 10)) = n div 10" by blast+
    with False show ?thesis
      by (subst (1 2 3) nat_digits.simps) (simp add: digit_char digits_nat_def foldl_append)
  qed
qed

lemma digits_unsigned: "ds \<noteq> [] \<Longrightarrow> list_all is_digit ds \<Longrightarrow> \<not> has_prefix ds ''-'' \<and> \<not> has_prefix ds ''+''"
  by (cases ds) (auto simp: has_prefix_def is_digit_def)

lemma signed_digits:
  assumes "ds \<noteq> []" "list_all is_digit ds"
  shows "signed_int ds = Some (int (digits_nat ds))" "signed_int (CHR ''-'' # ds) = Some (- int (digits_nat ds))"
proof -
  show "signed_int ds = Some (int (digits_nat ds))" using assms digits_unsigned [OF assms] by (simp add: signed_int_def)
  have "has_prefix (CHR ''-'' # ds) ''-''" by (simp add: has_prefix_def)
  then show "signed_int (CHR ''-'' # ds) = Some (- int (digits_nat ds))" using assms by (simp add: signed_int_def)
qed

lemma read_json_int:
  assumes "int64 n"
  obtains l where "json_int n = JNum l" "parseInt64 l = Some n"
proof
  let ?ds = "nat_digits (nat \<bar>n\<bar>)"
  let ?l = "if n < 0 then CHR ''-'' # ?ds else ?ds"
  show "json_int n = JNum ?l" by (auto simp: json_int_def)
  have d: "?ds \<noteq> []" "list_all is_digit ?ds" "digits_nat ?ds = nat \<bar>n\<bar>" using nat_digits_read by blast+
  have "signed_int ?l = Some n" using signed_digits [OF d(1,2)] d(3) by (cases "n < 0") simp_all
  with assms show "parseInt64 ?l = Some n" by (simp add: parseInt64_def int64_def)
qed

section \<open>What is written is read back\<close>

lemma traverse_map: "(\<And>x. x \<in> set xs \<Longrightarrow> f (g x) = Some x) \<Longrightarrow> traverse f (map g xs) = Some xs"
  by (induction xs) simp_all

lemmas folded_names = fold_name.simps upper_char_def is_lower_def has_prefix_def

lemma folded:
  "fold_name ''id'' = ''ID''" "fold_name ''version'' = ''VERSION''" "fold_name ''hash'' = ''HASH''" "fold_name ''HASH'' = ''HASH''"
  "fold_name ''kind'' = ''KIND''" "fold_name ''ref'' = ''REF''"
  by code_simp+

lemma decode_artifact_json:
  assumes "int64 (ar_version a)"
  shows "decode_artifact (artifact_json a) = Some a"
  by (rule read_json_int [OF assms])
     (simp add: artifact_json_def decode_artifact_def closed_fields_def struct_string_def struct_int_def field_values_def folded)

lemma decode_shadowed_artifact:
  assumes "int64 (ar_version a)"
  shows "decode_artifact (JObj [(''id'', JStr (ar_id a)), (''version'', json_int (ar_version a)), (''hash'', JStr (ar_hash a)),
           (''HASH'', JStr h)]) = Some (a\<lparr>ar_hash := h\<rparr>)"
  by (rule read_json_int [OF assms])
     (simp add: decode_artifact_def closed_fields_def struct_string_def struct_int_def field_values_def folded)

lemma decode_evidence_json: "decode_evidence (evidence_json e) = Some e"
  by (simp add: evidence_json_def decode_evidence_def closed_fields_def struct_string_def field_values_def folded)

definition writable :: "step_result \<Rightarrow> bool" where
  "writable r \<longleftrightarrow>
     int64 (sr_flow_version r) \<and> int64 (sr_epoch r) \<and> int64 (ar_version (sr_artifact r)) \<and>
     status_of (status_text (sr_status r)) = sr_status r \<and> verdict_of (verdict_text (sr_verdict r)) = sr_verdict r"

lemma top_field_present: "map_of ms k = Some j \<Longrightarrow> j \<noteq> JNull \<Longrightarrow> top_field read zero ms k = read j"
  by (cases j) (simp_all add: top_field_def)

lemma top_field_absent: "map_of ms k = None \<Longrightarrow> top_field read zero ms k = Some zero"
  by (simp add: top_field_def)

lemma json_int_flat: "\<not> rejectDuplicateKeys (json_int n)"
  by (simp add: json_int_def)

lemma envelope_read:
  assumes "writable r" "decode_artifact artifact = Some a" "\<not> rejectDuplicateKeys artifact" "artifact \<noteq> JNull"
  shows "UnmarshalStepResult (envelope_with artifact r) = Some (r\<lparr>sr_artifact := a\<rparr>)"
proof -
  obtain fv where fv: "json_int (sr_flow_version r) = JNum fv" "parseInt64 fv = Some (sr_flow_version r)"
    using assms(1) by (auto simp: writable_def elim: read_json_int)
  obtain ep where ep: "json_int (sr_epoch r) = JNum ep" "parseInt64 ep = Some (sr_epoch r)"
    using assms(1) by (auto simp: writable_def elim: read_json_int)
  have ev: "traverse decode_evidence (map evidence_json (sr_evidence r)) = Some (sr_evidence r)"
    by (rule traverse_map) (rule decode_evidence_json)
  have flat: "\<not> list_ex rejectDuplicateKeys (map evidence_json es)" for es
    by (induction es) (simp_all add: evidence_json_def)
  show ?thesis
  proof (cases "verdict_text (sr_verdict r) = []")
    case True
    with assms(1) have "verdict_of [] = sr_verdict r" by (simp add: writable_def)
    with True show ?thesis
      using assms fv ep ev flat
      by (simp add: UnmarshalStepResult_def envelope_with_def stepResultKeys_def top_field_present top_field_absent
          read_string_def read_int_def decode_evidence_list_def writable_def)
  next
    case False
    then show ?thesis
      using assms fv ep ev flat
      by (simp add: UnmarshalStepResult_def envelope_with_def stepResultKeys_def top_field_present top_field_absent
          read_string_def read_int_def decode_evidence_list_def writable_def)
  qed
qed


text \<open>
  C34: an artifact with two spellings of the digest's key passes the check for duplicate keys
  and the closed vocabulary, and the last spelling is the one recorded: a reader of
  \<^verbatim>\<open>hash\<close> sees another digest than the server does.
\<close>

theorem shadowed_digest_accepted:
  assumes "writable r"
  shows "UnmarshalStepResult (envelope_with (JObj [(''id'', JStr (ar_id (sr_artifact r))),
       (''version'', json_int (ar_version (sr_artifact r))), (''hash'', JStr (ar_hash (sr_artifact r))), (''HASH'', JStr h)]) r) =
     Some (r\<lparr>sr_artifact := (sr_artifact r)\<lparr>ar_hash := h\<rparr>\<rparr>)"
  by (rule envelope_read [OF assms decode_shadowed_artifact]) (use assms in \<open>auto simp: writable_def json_int_flat\<close>)

definition sample_result :: step_result where
  "sample_result = zero_result\<lparr> sr_status := StatusCompleted, sr_verdict := ReviewPass, sr_wi := ''wi_1'', sr_flow_version := 1,
     sr_step := ''review'', sr_attempt := ''sa_1'', sr_epoch := 2, sr_producer := ''wfp_1'',
     sr_artifact := \<lparr> ar_id = ''mem_1'', ar_version = 1, ar_hash = ''sha256:aa'' \<rparr>,
     sr_evidence := [\<lparr> ev_kind = ''log'', ev_ref = ''ci'', ev_hash = ''sha256:bb'' \<rparr>] \<rparr>"

lemma sample_writable: "writable sample_result"
  by code_simp


lemma shadowed_digest_accepted_witness:
  "\<exists>j. map_option (\<lambda>r. ar_hash (sr_artifact r)) (UnmarshalStepResult (envelope_with j sample_result)) = Some ''sha256:cc'' \<and>
       (\<exists>ms. j = JObj ms \<and> map_of ms ''hash'' = Some (JStr ''sha256:aa''))"
  using shadowed_digest_accepted [OF sample_writable, of "''sha256:cc''"]
  by (intro exI conjI) (auto simp: sample_result_def)

end
