(* ===== verification/Workflow_Tables.thy ===== *)
theory Workflow_Tables
  imports Workflow_Pin Step_Envelope Hub_Api "HOL-Library.Product_Lexorder"
begin

text \<open>
  The tables of the workflow service (migration 0044) and the reads
  \<^verbatim>\<open>internal/domain/workflow_run.go\<close> makes on them: the latest result of a step, the
  human decision on an artifact, the roles of a repair episode with the retries that stand in
  for them, and the view of a work item's workflow. The record \<open>workflow_hub\<close> adds these tables
  to the hub; the columns \<^verbatim>\<open>steps\<close> and \<^verbatim>\<open>steps_version\<close> of a work item are its
  pointer, the front entry of a list under the item's id. Stored flows, grants and metadata are the values that were written, and a Go map is
  the list of its entries. Columns no statement reads (the digest of a generation, the raw
  envelope, the times of recording and closing) are left out.
\<close>

section \<open>Rows\<close>

record workflow_pointer =
  wp_steps :: "flow option"
  wp_version :: int

record generation =
  gn_wi :: string
  gn_version :: int
  gn_flow :: flow
  gn_grants :: "(string \<times> step_grant) list"
  gn_meta :: "(string \<times> step_meta) list"
  gn_rhs :: bool
  gn_created_by :: string
  gn_created :: int

datatype invocation_status = InvOpen | InvRecorded | InvSuperseded

record invocation =
  iv_id :: string
  iv_wi :: string
  iv_version :: int
  iv_step :: string
  iv_attempt :: string
  iv_run :: string
  iv_epoch :: int
  iv_producer :: string
  iv_grant :: step_grant
  iv_status :: invocation_status
  iv_repair :: "string option"
  iv_created :: int

record workflow_result =
  wr_id :: string
  wr_wi :: string
  wr_invocation :: string
  wr_version :: int
  wr_step :: string
  wr_attempt :: string
  wr_run :: string
  wr_epoch :: int
  wr_producer :: string
  wr_status :: result_status
  wr_verdict :: review_verdict
  wr_artifact :: artifact_ref
  wr_evidence :: "evidence list"
  wr_created :: int

record approval_row =
  ap_id :: string
  ap_wi :: string
  ap_version :: int
  ap_step :: string
  ap_artifact :: artifact_ref
  ap_decision :: approval_decision
  ap_actor :: string
  ap_display :: string
  ap_created :: int

datatype repair_kind = KindRetry | KindEpisode | OtherKind string

record repair_row =
  rp_id :: string
  rp_wi :: string
  rp_kind :: repair_kind
  rp_version :: int
  rp_step :: string
  rp_attempt :: string
  rp_reason :: string
  rp_run :: string
  rp_epoch :: int
  rp_by :: string
  rp_open :: bool
  rp_parent :: "string option"
  rp_created :: int

record workflow_hub =
  wh_hub :: hub
  wh_pointers :: "(string \<times> workflow_pointer) list"
  wh_generations :: "generation list"
  wh_invocations :: "invocation list"
  wh_results :: "workflow_result list"
  wh_approvals :: "approval_row list"
  wh_repairs :: "repair_row list"

definition pointer_of :: "workflow_hub \<Rightarrow> string \<Rightarrow> workflow_pointer" where
  "pointer_of W wi = (case map_of (wh_pointers W) wi of None \<Rightarrow> \<lparr> wp_steps = None, wp_version = 0 \<rparr> | Some p \<Rightarrow> p)"

definition generation_of :: "workflow_hub \<Rightarrow> string \<Rightarrow> int \<Rightarrow> generation option" where
  "generation_of W wi v = select_one (\<lambda>g. gn_wi g = wi \<and> gn_version g = v) (wh_generations W)"

section \<open>Results and decisions\<close>

text \<open>\<^verbatim>\<open>ORDER BY created_at DESC, id DESC LIMIT 1\<close>.\<close>

definition result_order :: "workflow_result \<Rightarrow> int \<times> string" where
  "result_order r = (wr_created r, wr_id r)"

definition latest_row :: "workflow_result list \<Rightarrow> workflow_result option" where
  "latest_row rs = (case sort_key result_order rs of [] \<Rightarrow> None | s \<Rightarrow> Some (last s))"

definition latestWorkflowResult :: "workflow_hub \<Rightarrow> string \<Rightarrow> int \<Rightarrow> string \<Rightarrow> workflow_result option" where
  "latestWorkflowResult W wi v step =
     latest_row (filter (\<lambda>r. wr_wi r = wi \<and> wr_version r = v \<and> wr_step r = step) (wh_results W))"

definition decision_on :: "workflow_hub \<Rightarrow> string \<Rightarrow> int \<Rightarrow> string \<Rightarrow> artifact_ref \<Rightarrow> approval_row option" where
  "decision_on W wi v step artifact =
     select_one (\<lambda>a. ap_wi a = wi \<and> ap_version a = v \<and> ap_step a = step \<and> ap_artifact a = artifact) (wh_approvals W)"

text \<open>The latest result joined with the decision on its exact artifact.\<close>

definition latest_decision :: "workflow_hub \<Rightarrow> string \<Rightarrow> int \<Rightarrow> string \<Rightarrow> approval_decision option" where
  "latest_decision W wi v step =
     (case latestWorkflowResult W wi v step of
        None \<Rightarrow> None
      | Some r \<Rightarrow> map_option ap_decision (decision_on W wi v step (wr_artifact r)))"

section \<open>Steps of a stored flow\<close>

definition flow_step_of :: "flow \<Rightarrow> string \<Rightarrow> flow_step option" where
  "flow_step_of fl sid = find (\<lambda>s. fs_id s = sid) (fl_steps fl)"

definition workflowStepIndex :: "flow \<Rightarrow> string \<Rightarrow> nat" where
  "workflowStepIndex fl sid =
     (case first_index (\<lambda>i. fs_id (fl_steps fl ! i) = sid) 0 (length (fl_steps fl)) of
        None \<Rightarrow> length (fl_steps fl) | Some i \<Rightarrow> i)"

definition workflowStepFeeds :: "flow \<Rightarrow> string \<Rightarrow> string \<Rightarrow> bool" where
  "workflowStepFeeds fl producer consumer =
     list_ex (\<lambda>s. fs_id s = consumer \<and> list_ex (\<lambda>i. in_step i = producer) (fs_inputs s)) (fl_steps fl)"

definition stepHasCapability :: "(string \<times> step_meta) list \<Rightarrow> string \<Rightarrow> capability \<Rightarrow> bool" where
  "stepHasCapability meta sid want =
     (case map_of meta sid of None \<Rightarrow> False | Some m \<Rightarrow> list_ex (\<lambda>c. c = want) (sm_capabilities m))"

text \<open>The shapes of the roles of a repair episode.\<close>

definition feeding_writer :: "flow \<Rightarrow> (string \<times> step_grant) list \<Rightarrow> string \<Rightarrow> string \<Rightarrow> bool" where
  "feeding_writer fl grants failed sid \<longleftrightarrow>
     Authority (grant_in (map_of grants) sid) = AuthorityWrite \<and>
     ProducerIsolation (grant_in (map_of grants) sid) = IsolationShared \<and>
     workflowStepIndex fl sid < workflowStepIndex fl failed \<and> workflowStepFeeds fl sid failed"

definition gate_with :: "(string \<times> step_grant) list \<Rightarrow> (string \<times> step_meta) list \<Rightarrow> capability \<Rightarrow> string \<Rightarrow> bool" where
  "gate_with grants meta cap sid \<longleftrightarrow>
     Authority (grant_in (map_of grants) sid) = AuthorityReadOnly \<and>
     ProducerIsolation (grant_in (map_of grants) sid) = IsolationRequired \<and> stepHasCapability meta sid cap"

section \<open>Roles of an episode\<close>

text \<open>
  A row of \<^verbatim>\<open>episodeResultRow\<close>; an invocation without a result has the empty status and the
  zero time, here in nanoseconds since the Unix epoch.
\<close>

record role_row =
  ro_step :: string
  ro_attempt :: string
  ro_status :: result_status
  ro_created :: int
  ro_id :: string

definition zero_time :: int where
  "zero_time = - 62135596800 * 1000000000"

record role_rows =
  el_repair :: "role_row list"
  el_verify :: "role_row list"
  el_review :: "role_row list"

definition result_of_invocation :: "workflow_hub \<Rightarrow> string \<Rightarrow> workflow_result option" where
  "result_of_invocation W i = select_one (\<lambda>r. wr_invocation r = i) (wh_results W)"

definition role_row_of :: "workflow_hub \<Rightarrow> invocation \<Rightarrow> role_row" where
  "role_row_of W i =
     (case result_of_invocation W (iv_id i) of
        None \<Rightarrow> \<lparr> ro_step = iv_step i, ro_attempt = iv_attempt i, ro_status = OtherStatus [], ro_created = zero_time, ro_id = [] \<rparr>
      | Some r \<Rightarrow> \<lparr> ro_step = iv_step i, ro_attempt = iv_attempt i, ro_status = wr_status r, ro_created = wr_created r, ro_id = wr_id r \<rparr>)"

text \<open>The live invocations bound to an authorization; \<^verbatim>\<open>ORDER BY\<close> puts those without a result last.\<close>

definition bound_invocations :: "workflow_hub \<Rightarrow> string \<Rightarrow> invocation list" where
  "bound_invocations W repair = filter (\<lambda>i. iv_repair i = Some repair \<and> iv_status i \<noteq> InvSuperseded) (wh_invocations W)"

definition has_result :: "workflow_hub \<Rightarrow> invocation \<Rightarrow> bool" where
  "has_result W i \<longleftrightarrow> result_of_invocation W (iv_id i) \<noteq> None"

definition role_order :: "role_row \<Rightarrow> int \<times> string" where
  "role_order r = (ro_created r, ro_id r)"

definition bound_rows :: "workflow_hub \<Rightarrow> string \<Rightarrow> role_row list" where
  "bound_rows W repair =
     sort_key role_order (map (role_row_of W) (filter (has_result W) (bound_invocations W repair))) @
     map (role_row_of W) (filter (\<lambda>i. \<not> has_result W i) (bound_invocations W repair))"

text \<open>
  The replacements under the retries of an episode: from the failed step attempt to the row of
  the live replacement. The entries are in the order of the statement, the last of a key
  counts.
\<close>

definition retry_entries :: "workflow_hub \<Rightarrow> string \<Rightarrow> (string \<times> invocation) list" where
  "retry_entries W episode =
     [(rp_attempt p, i). p \<leftarrow> filter (\<lambda>p. rp_parent p = Some episode) (wh_repairs W), i \<leftarrow> bound_invocations W (rp_id p)]"

definition loadEpisodeRetryReplacements :: "workflow_hub \<Rightarrow> string \<Rightarrow> (string \<times> role_row) list" where
  "loadEpisodeRetryReplacements W episode =
     (let entries = map (\<lambda>(failed, i). (failed, role_row_of W i));
          live = filter (\<lambda>(failed, i). iv_attempt i \<noteq> []) (retry_entries W episode) in
      rev (sort_key (\<lambda>(failed, r). role_order r) (entries (filter (\<lambda>(failed, i). has_result W i) live)) @
           entries (filter (\<lambda>(failed, i). \<not> has_result W i) live)))"

text \<open>
  The overlay follows the chain of replacements to its end. The fuel is the number of entries;
  in a reachable state it reaches the end of the chain.
\<close>

fun chain_end :: "nat \<Rightarrow> (string \<times> role_row) list \<Rightarrow> role_row \<Rightarrow> role_row" where
  "chain_end 0 replacements r = r"
| "chain_end (Suc n) replacements r =
     (case map_of replacements (ro_attempt r) of
        None \<Rightarrow> r
      | Some node \<Rightarrow> chain_end n replacements (node\<lparr>ro_step := ro_step r\<rparr>))"

definition overlay :: "(string \<times> role_row) list \<Rightarrow> role_row list \<Rightarrow> role_row list" where
  "overlay replacements rows = map (chain_end (length replacements) replacements) rows"

definition loadEpisodeRoleRows ::
  "workflow_hub \<Rightarrow> string \<Rightarrow> flow \<Rightarrow> (string \<times> step_grant) list \<Rightarrow> (string \<times> step_meta) list \<Rightarrow> string \<Rightarrow> role_rows" where
  "loadEpisodeRoleRows W episode fl grants meta failed =
     (let rows = bound_rows W episode; replacements = loadEpisodeRetryReplacements W episode in
      \<lparr> el_repair = overlay replacements (filter (\<lambda>r. feeding_writer fl grants failed (ro_step r) \<and>
          \<not> stepHasCapability meta (ro_step r) CapShipping \<and> ro_step r \<noteq> failed) rows),
        el_verify = overlay replacements (filter (\<lambda>r. gate_with grants meta CapVerification (ro_step r)) rows),
        el_review = overlay replacements (filter (\<lambda>r. gate_with grants meta CapReview (ro_step r)) rows) \<rparr>)"

definition episodeRoleRowsCompleted :: "role_row list \<Rightarrow> bool" where
  "episodeRoleRowsCompleted rows \<longleftrightarrow> rows \<noteq> [] \<and> list_all (\<lambda>r. ro_status r = StatusCompleted) rows"

definition episodeRoleSetComplete :: "workflow_hub \<Rightarrow> string \<Rightarrow> string \<Rightarrow> int \<Rightarrow> string \<Rightarrow> string \<Rightarrow> bool outcome" where
  "episodeRoleSetComplete W episode wi v failed failedAttempt =
     (case generation_of W wi v of
        None \<Rightarrow> Inl (NewErr ErrInternalError)
      | Some g \<Rightarrow>
          (case select_one (\<lambda>r. wr_wi r = wi \<and> wr_version r = v \<and> wr_attempt r = failedAttempt) (wh_results W) of
             None \<Rightarrow> Inr False
           | Some f \<Rightarrow>
               (if wr_verdict f \<noteq> ReviewFail \<or> \<not> stepHasCapability (gn_meta g) failed CapReview then Inr False
                else
                  (let roles = loadEpisodeRoleRows W episode (gn_flow g) (gn_grants g) (gn_meta g) failed in
                   Inr (episodeRoleRowsCompleted (el_repair roles) \<and> episodeRoleRowsCompleted (el_verify roles) \<and>
                        episodeRoleRowsCompleted (el_review roles) \<and>
                        result_order f < role_order (hd (el_repair roles)) \<and>
                        role_order (hd (el_repair roles)) < role_order (hd (el_verify roles)) \<and>
                        role_order (hd (el_verify roles)) < role_order (hd (el_review roles)))))))"

end
