(* ===== verification/Workflow_Start.thy ===== *)
theory Workflow_Start
  imports Workflow_Tables
begin

text \<open>
  Revising a workflow and starting its steps (\<^verbatim>\<open>internal/domain/workflow_run.go\<close>): the
  edit gate of a work item, the transaction that pins the next generation, the checks in front
  of a start (credential, registry, open invocations, recoveries, order, human approvals) and
  the minted invocation. The regular expressions and SHA-256 are the record \<open>libs\<close>; the
  registry and the other tables these operations only read are \<open>reference_data\<close>. Clock
  readings and fresh ids are arguments.
\<close>

record libs =
  lib_valid_re :: "string \<Rightarrow> bool"
  lib_match :: "string \<Rightarrow> string \<Rightarrow> bool"
  lib_sha :: "string \<Rightarrow> string"

section \<open>Shared reads and writes\<close>

definition attemptActor :: "workflow_hub \<Rightarrow> string \<Rightarrow> (string \<times> string) outcome" where
  "attemptActor W attempt =
     (case attempt_by_id (wh_hub W) attempt of
        None \<Rightarrow> Inl (NewErr ErrInternalError) | Some a \<Rightarrow> Inr (ra_actor a, ra_display a))"

definition insertWorkflowEvent ::
  "work_item \<Rightarrow> string \<Rightarrow> string \<Rightarrow> string \<Rightarrow> (string \<times> json) list \<Rightarrow> workflow_hub \<Rightarrow> workflow_hub" where
  "insertWorkflowEvent wi actor display eventType payload W =
     W\<lparr>wh_hub := emit_event \<lparr> ev_type = eventType, ev_wi = wi_id wi, ev_attempt = None, ev_actor = Some actor,
         ev_display = nilIfEmpty display, ev_payload = Fields payload, ev_project = Some (wi_project wi) \<rparr> (wh_hub W)\<rparr>"

text \<open>The credential check of a workflow route; its heartbeat stays when the route succeeds.\<close>

definition verify_workflow_attempt ::
  "libs \<Rightarrow> int \<Rightarrow> work_item \<Rightarrow> string \<Rightarrow> int \<Rightarrow> string \<Rightarrow> workflow_hub \<Rightarrow> workflow_hub outcome" where
  "verify_workflow_attempt L now wi attempt epoch secret W =
     (case verifyAttemptCredential (lib_sha L) now wi attempt epoch secret (wh_hub W) of
        Inl e \<Rightarrow> Inl e | Inr H \<Rightarrow> Inr (W\<lparr>wh_hub := H\<rparr>))"

definition userRecordForAttempt :: "reference_data \<Rightarrow> workflow_hub \<Rightarrow> string \<Rightarrow> user_record outcome" where
  "userRecordForAttempt D W attempt =
     (case attempt_by_id (wh_hub W) attempt of
        None \<Rightarrow> Inl (NewErr ErrInternalError)
      | Some a \<Rightarrow>
          (case select_one (\<lambda>u. u_id u = ra_actor a) (rd_users D) of
             None \<Rightarrow> Inl (NewErr ErrInternalError)
           | Some u \<Rightarrow>
               Inr \<lparr> ur_id = ra_actor a, ur_role = u_role u,
                     ur_scope = (if ra_api_key a = [] then None
                                 else (case map_of (u_keys u) (ra_api_key a) of None \<Rightarrow> None | Some scope \<Rightarrow> scope)) \<rparr>))"

section \<open>Revision\<close>

datatype wi_edit_tier = TierRecord | TierWorking | TierContract

datatype wi_status_class = StatusOpen | StatusLive | StatusClosed

definition wiStatusClassOf :: "wi_status \<Rightarrow> wi_status_class" where
  "wiStatusClassOf s =
     (if s \<in> {Queued, Paused, Blocked} then StatusOpen else if s = Running then StatusLive else StatusClosed)"

definition updateGate :: "wi_status \<Rightarrow> wi_edit_tier \<Rightarrow> bool \<Rightarrow> string \<Rightarrow> string \<Rightarrow> aihub_error option" where
  "updateGate status tier isReporter callerRole projectRole =
     (if tier = TierRecord then None
      else if wiStatusClassOf status = StatusLive \<and> tier = TierContract then Some (NewErr ErrConflictWIAlreadyClaimed)
      else if wiStatusClassOf status = StatusClosed then Some (NewErr ErrConflictTerminalState)
      else if tier = TierContract \<and> \<not> (callerRole = ''admin'' \<or> projectRole = ''maintainer'' \<or> isReporter)
      then Some (NewErr ErrForbidden)
      else None)"

text \<open>
  \<^verbatim>\<open>UpdateWorkItem\<close> on a request whose only field is \<^verbatim>\<open>requires_human_session\<close>, which
  is of the working tier.
\<close>

definition UpdateWorkItem_rhs ::
  "string \<Rightarrow> string \<Rightarrow> string \<Rightarrow> (string \<Rightarrow> string) \<Rightarrow> bool \<Rightarrow> hub \<Rightarrow> hub outcome" where
  "UpdateWorkItem_rhs ref user role roles rhs H =
     (case GetWorkItem H ref of
        Inl e \<Rightarrow> Inl e
      | Inr wi \<Rightarrow>
          (case updateGate (wi_status wi) TierWorking (wi_reporter wi = user) role (roles (wi_project wi)) of
             Some e \<Rightarrow> Inl e
           | None \<Rightarrow> Inr (update_item (wi_id wi) (\<lambda>w. w\<lparr>wi_rhs := Some rhs\<rparr>) H)))"

record revision_request =
  rv_expected :: int
  rv_rhs :: "bool option"
  rv_steps :: "step_spec list"

text \<open>The primary key of a generation is its work item with its number.\<close>

definition insert_generation :: "generation \<Rightarrow> workflow_hub \<Rightarrow> workflow_hub outcome" where
  "insert_generation g W =
     (if row_exists (\<lambda>x. gn_wi x = gn_wi g \<and> gn_version x = gn_version g) (wh_generations W)
      then Inl (NewErr ErrInternalError)
      else Inr (W\<lparr>wh_generations := wh_generations W @ [g]\<rparr>))"

definition new_generation :: "string \<Rightarrow> int \<Rightarrow> pin_outcome \<Rightarrow> bool \<Rightarrow> string \<Rightarrow> int \<Rightarrow> generation" where
  "new_generation wi v pin rhs user now =
     \<lparr> gn_wi = wi, gn_version = v, gn_flow = vf_flow (po_validated pin), gn_grants = po_grants pin, gn_meta = po_meta pin,
       gn_rhs = rhs, gn_created_by = user, gn_created = now \<rparr>"

definition move_pointer :: "string \<Rightarrow> flow \<Rightarrow> int \<Rightarrow> workflow_hub \<Rightarrow> workflow_hub" where
  "move_pointer wi fl v W =
     W\<lparr>wh_pointers := (wi, \<lparr> wp_steps = Some fl, wp_version = v \<rparr>) # wh_pointers W,
       wh_hub := update_item wi (\<lambda>w. w\<lparr>wi_workflow_mode := ''db''\<rparr>) (wh_hub W)\<rparr>"

definition revisionEventPayload :: "int \<Rightarrow> int option \<Rightarrow> bool \<Rightarrow> nat \<Rightarrow> (string \<times> json) list" where
  "revisionEventPayload v expected rhs steps =
     [(''steps_version'', json_int v)] @
     (case expected of None \<Rightarrow> [] | Some e \<Rightarrow> [(''expected_steps_version'', json_int e)]) @
     [(''requires_human_session'', JBool rhs), (''steps'', json_int (int steps))]"

definition UpdateWorkItemWorkflow ::
  "libs \<Rightarrow> reference_data \<Rightarrow> int \<Rightarrow> string \<Rightarrow> user_record \<Rightarrow> string \<Rightarrow> string \<Rightarrow> (string \<Rightarrow> string) \<Rightarrow>
   revision_request \<Rightarrow> workflow_hub \<Rightarrow> workflow_hub outcome" where
  "UpdateWorkItemWorkflow L D now ref caller callerUserID callerRole callerProjectRoles req W =
     (case rv_rhs req of
        None \<Rightarrow> Inl (NewErr ErrBadRequest)
      | Some rhs \<Rightarrow>
          (if rv_steps req = [] then Inl (NewErr ErrBadRequest)
           else
             (case GetWorkItem (wh_hub W) ref of
                Inl e \<Rightarrow> Inl e
              | Inr w \<Rightarrow>
                  (case updateGate (wi_status w) TierContract (wi_reporter w = callerUserID) callerRole
                          (callerProjectRoles (wi_project w)) of
                     Some e \<Rightarrow> Inl e
                   | None \<Rightarrow>
                       (if (case step_of (wh_hub W) (wi_id w) of None \<Rightarrow> False | Some s \<Rightarrow> 0 < ss_version s)
                        then Inl (NewErr ErrConflictTerminalState)
                        else
                          (let current = wp_version (pointer_of W (wi_id w)) in
                           if rv_expected req \<noteq> current
                           then Inl (NewErrDetails ErrConflictCASFailed (StepsVersions (rv_expected req) current))
                           else
                             (case pinWorkflowGeneration (lib_valid_re L) (lib_match L) D (current + 1)
                                     \<lparr> pi_caller = caller, pi_rhs = rhs, pi_steps = rv_steps req \<rparr> of
                                Inl e \<Rightarrow> Inl e
                              | Inr pin \<Rightarrow>
                                  (case insert_generation (new_generation (wi_id w) (current + 1) pin rhs callerUserID now) W of
                                     Inl e \<Rightarrow> Inl e
                                   | Inr W1 \<Rightarrow>
                                       (let W2 = move_pointer (wi_id w) (vf_flow (po_validated pin)) (current + 1) W1;
                                            W3 = W2\<lparr>wh_hub := update_item (wi_id w) (\<lambda>w. w\<lparr>wi_rhs := Some rhs\<rparr>) (wh_hub W2)\<rparr> in
                                        Inr (insertWorkflowEvent w callerUserID [] ''workflow_revision''
                                          (revisionEventPayload (current + 1) (Some current) rhs (length (rv_steps req))) W3)))))))))
     )"

text \<open>The create-time twin: generation 1 of a work item that was just inserted.\<close>

definition pinFirstWorkflowGenerationInTx ::
  "libs \<Rightarrow> reference_data \<Rightarrow> int \<Rightarrow> work_item \<Rightarrow> string \<Rightarrow> pin_input \<Rightarrow> workflow_hub \<Rightarrow> workflow_hub outcome" where
  "pinFirstWorkflowGenerationInTx L D now w callerUserID input W =
     (case pinWorkflowGeneration (lib_valid_re L) (lib_match L) D 1 input of
        Inl e \<Rightarrow> Inl e
      | Inr pin \<Rightarrow>
          (case insert_generation (new_generation (wi_id w) 1 pin (pi_rhs input) callerUserID now) W of
             Inl e \<Rightarrow> Inl e
           | Inr W1 \<Rightarrow>
               Inr (insertWorkflowEvent w callerUserID [] ''workflow_revision''
                 (revisionEventPayload 1 None (pi_rhs input) (length (pi_steps input)))
                 (move_pointer (wi_id w) (vf_flow (po_validated pin)) 1 W1))))"

section \<open>Checks in front of a start\<close>

definition spec_of_step :: "flow_step \<Rightarrow> step_spec" where
  "spec_of_step s =
     \<lparr> sp_id = fs_id s, sp_skill = fs_skill s, sp_version = fs_skill_version s, sp_rhs = fs_rhs s, sp_models = fs_models s,
       sp_params = fs_params s, sp_inputs = fs_inputs s \<rparr>"

definition revalidateWorkflowGeneration ::
  "libs \<Rightarrow> reference_data \<Rightarrow> workflow_hub \<Rightarrow> int \<Rightarrow> string \<Rightarrow> bool \<Rightarrow> (flow \<times> pin_outcome) outcome" where
  "revalidateWorkflowGeneration L D W v attempt wiRHS =
     (case attempt_by_id (wh_hub W) attempt of
        None \<Rightarrow> Inl (NewErr ErrInternalError)
      | Some a \<Rightarrow>
          (case wp_steps (pointer_of W (ra_wi a)) of
             None \<Rightarrow> Inl (NewErr ErrInternalError)
           | Some fl \<Rightarrow>
               (case userRecordForAttempt D W attempt of
                  Inl e \<Rightarrow> Inl e
                | Inr actor \<Rightarrow>
                    (case pinWorkflowGeneration (lib_valid_re L) (lib_match L) D v
                            \<lparr> pi_caller = actor, pi_rhs = wiRHS, pi_steps = map spec_of_step (fl_steps fl) \<rparr> of
                       Inl e \<Rightarrow> Inl e
                     | Inr pin \<Rightarrow> Inr (fl, pin)))))"

definition is_open_invocation :: "string \<Rightarrow> int \<Rightarrow> string \<Rightarrow> invocation \<Rightarrow> bool" where
  "is_open_invocation wi v step i \<longleftrightarrow> iv_wi i = wi \<and> iv_version i = v \<and> iv_step i = step \<and> iv_status i = InvOpen"

text \<open>The statement joins the attempt's row.\<close>

definition open_invocation_gap :: "workflow_hub \<Rightarrow> string \<Rightarrow> int \<Rightarrow> string \<Rightarrow> aihub_error option" where
  "open_invocation_gap W wi v step =
     (if row_exists (\<lambda>i. is_open_invocation wi v step i \<and> attempt_by_id (wh_hub W) (iv_run i) \<noteq> None) (wh_invocations W)
      then Some (NewErr ErrConflictStepInProgress) else None)"

text \<open>The human gate: whose latest artifact has no approval. The refusals differ in their message only.\<close>

definition approval_gap :: "workflow_hub \<Rightarrow> string \<Rightarrow> int \<Rightarrow> string \<Rightarrow> string \<Rightarrow> flow_step \<Rightarrow> aihub_error option" where
  "approval_gap W wi v target exclude s =
     (if fs_id s = target \<or> (exclude \<noteq> [] \<and> fs_id s = exclude) \<or> fs_rhs s \<noteq> Some True then None
      else if latestWorkflowResult W wi v (fs_id s) = None then None
      else if latest_decision W wi v (fs_id s) = Some ApprovalGranted then None
      else Some (NewErr ErrConflictStepInProgress))"

definition checkWorkflowStartApprovals ::
  "workflow_hub \<Rightarrow> string \<Rightarrow> int \<Rightarrow> flow \<Rightarrow> bool \<Rightarrow> string \<Rightarrow> string \<Rightarrow> aihub_error option" where
  "checkWorkflowStartApprovals W wi v fl wiRHS target exclude =
     (if \<not> wiRHS then None else first_error (approval_gap W wi v target exclude) (fl_steps fl))"

definition targetStepRejectsLatest :: "workflow_hub \<Rightarrow> string \<Rightarrow> int \<Rightarrow> flow_step \<Rightarrow> bool" where
  "targetStepRejectsLatest W wi v s \<longleftrightarrow> fs_rhs s = Some True \<and> latest_decision W wi v (fs_id s) = Some ApprovalDenied"

definition checkEpisodeRolePrerequisites ::
  "workflow_hub \<Rightarrow> string \<Rightarrow> flow \<Rightarrow> (string \<times> step_grant) list \<Rightarrow> (string \<times> step_meta) list \<Rightarrow> string \<Rightarrow> string \<Rightarrow>
   aihub_error option" where
  "checkEpisodeRolePrerequisites W episode fl grants meta failed target =
     (let roles = loadEpisodeRoleRows W episode fl grants meta failed;
          repairDone = episodeRoleRowsCompleted (el_repair roles) in
      if target \<noteq> failed \<and> feeding_writer fl grants failed target then None
      else if target \<noteq> failed \<and> gate_with grants meta CapVerification target then
        (if repairDone then None else Some (NewErr ErrConflictStepInProgress))
      else if repairDone \<and> episodeRoleRowsCompleted (el_verify roles) then None
      else Some (NewErr ErrConflictStepInProgress))"

definition bindable_role ::
  "flow \<Rightarrow> (string \<times> step_grant) list \<Rightarrow> (string \<times> step_meta) list \<Rightarrow> string \<Rightarrow> string \<Rightarrow> bool" where
  "bindable_role fl grants meta failed target \<longleftrightarrow>
     target = failed \<or> feeding_writer fl grants failed target \<or> gate_with grants meta CapVerification target \<or>
     gate_with grants meta CapReview target"

text \<open>The bounds of an authorization by its kind, on the failed result it names.\<close>

definition repair_binding_gap ::
  "workflow_hub \<Rightarrow> flow \<Rightarrow> (string \<times> step_grant) list \<Rightarrow> (string \<times> step_meta) list \<Rightarrow> string \<Rightarrow> repair_row \<Rightarrow>
   workflow_result \<Rightarrow> aihub_error option" where
  "repair_binding_gap W fl grants meta step p failed =
     (case rp_kind p of
        KindRetry \<Rightarrow>
          (if step \<noteq> rp_step p then Some (NewErr ErrBadRequest)
           else if bound_invocations W (rp_id p) \<noteq> [] then Some (NewErr ErrConflictDuplicate)
           else None)
      | KindEpisode \<Rightarrow>
          (if wr_verdict failed \<noteq> ReviewFail then Some (NewErr ErrBadRequest)
           else if \<not> stepHasCapability meta (rp_step p) CapReview then Some (NewErr ErrBadRequest)
           else if list_ex (\<lambda>i. iv_step i = step) (bound_invocations W (rp_id p)) then Some (NewErr ErrConflictDuplicate)
           else if \<not> bindable_role fl grants meta (rp_step p) step then Some (NewErr ErrBadRequest)
           else checkEpisodeRolePrerequisites W (rp_id p) fl grants meta (rp_step p) step)
      | OtherKind _ \<Rightarrow> Some (NewErr ErrBadRequest))"

definition repair_start_check ::
  "workflow_hub \<Rightarrow> string \<Rightarrow> int \<Rightarrow> flow \<Rightarrow> (string \<times> step_grant) list \<Rightarrow> (string \<times> step_meta) list \<Rightarrow> string \<Rightarrow>
   string \<Rightarrow> bool \<Rightarrow> aihub_error option" where
  "repair_start_check W wi v fl grants meta step repairID wiRHS =
     (case select_one (\<lambda>p. rp_id p = repairID \<and> rp_wi p = wi) (wh_repairs W) of
        None \<Rightarrow> Some (NewErr ErrNotFound)
      | Some p \<Rightarrow>
          (if \<not> rp_open p then Some (NewErr ErrConflictTerminalState)
           else if rp_version p \<noteq> v then Some (NewErr ErrConflictStepAttemptMismatch)
           else
             (case latestWorkflowResult W wi v (rp_step p) of
                None \<Rightarrow> Some (NewErr ErrConflictStepAttemptMismatch)
              | Some failed \<Rightarrow>
                  (if wr_attempt failed \<noteq> rp_attempt p then Some (NewErr ErrConflictStepAttemptMismatch)
                   else
                     (case repair_binding_gap W fl grants meta step p failed of
                        Some e \<Rightarrow> Some e
                      | None \<Rightarrow> checkWorkflowStartApprovals W wi v fl wiRHS step (rp_step p))))))"

text \<open>An open authorization of the generation whose bounded set is incomplete.\<close>

definition count_bound :: "workflow_hub \<Rightarrow> string \<Rightarrow> invocation_status \<Rightarrow> nat" where
  "count_bound W repair st = length (filter (\<lambda>i. iv_repair i = Some repair \<and> iv_status i = st) (wh_invocations W))"

definition retry_recorded :: "workflow_hub \<Rightarrow> string \<Rightarrow> bool" where
  "retry_recorded W repair \<longleftrightarrow> count_bound W repair InvOpen = 0 \<and> 0 < count_bound W repair InvRecorded"

definition recovery_gap :: "workflow_hub \<Rightarrow> string \<Rightarrow> int \<Rightarrow> repair_row \<Rightarrow> aihub_error option" where
  "recovery_gap W wi v p =
     (case rp_kind p of
        KindRetry \<Rightarrow> (if retry_recorded W (rp_id p) then None else Some (NewErr ErrConflictStepInProgress))
      | KindEpisode \<Rightarrow>
          (case episodeRoleSetComplete W (rp_id p) wi v (rp_step p) (rp_attempt p) of
             Inl e \<Rightarrow> Some e
           | Inr done_set \<Rightarrow> (if done_set then None else Some (NewErr ErrConflictStepInProgress)))
      | OtherKind _ \<Rightarrow> Some (NewErr ErrInternalError))"

definition open_recoveries :: "workflow_hub \<Rightarrow> string \<Rightarrow> int \<Rightarrow> repair_row list" where
  "open_recoveries W wi v =
     sort_key (\<lambda>p. (rp_created p, rp_id p)) (filter (\<lambda>p. rp_wi p = wi \<and> rp_version p = v \<and> rp_open p) (wh_repairs W))"

definition order_gap :: "workflow_hub \<Rightarrow> string \<Rightarrow> int \<Rightarrow> flow_step \<Rightarrow> aihub_error option" where
  "order_gap W wi v s =
     (case latestWorkflowResult W wi v (fs_id s) of
        None \<Rightarrow> Some (NewErr ErrConflictStepInProgress)
      | Some r \<Rightarrow>
          (if wr_status r \<noteq> StatusCompleted \<or> wr_verdict r = ReviewFail then Some (NewErr ErrConflictStepInProgress) else None))"

definition ordinary_start_check ::
  "workflow_hub \<Rightarrow> string \<Rightarrow> int \<Rightarrow> flow \<Rightarrow> flow_step \<Rightarrow> nat \<Rightarrow> bool \<Rightarrow> aihub_error option" where
  "ordinary_start_check W wi v fl target index wiRHS =
     (if latestWorkflowResult W wi v (fs_id target) \<noteq> None \<and> \<not> (wiRHS \<and> targetStepRejectsLatest W wi v target)
      then Some (NewErr ErrConflictDuplicate)
      else
        (case first_error (recovery_gap W wi v) (open_recoveries W wi v) of
           Some e \<Rightarrow> Some e
         | None \<Rightarrow>
             (case first_error (order_gap W wi v) (take index (fl_steps fl)) of
                Some e \<Rightarrow> Some e
              | None \<Rightarrow> checkWorkflowStartApprovals W wi v fl wiRHS (fs_id target) [])))"

definition checkWorkflowStartOrdering ::
  "workflow_hub \<Rightarrow> string \<Rightarrow> int \<Rightarrow> flow \<Rightarrow> (string \<times> step_grant) list \<Rightarrow> (string \<times> step_meta) list \<Rightarrow> flow_step \<Rightarrow> nat \<Rightarrow>
   string \<Rightarrow> bool \<Rightarrow> aihub_error option" where
  "checkWorkflowStartOrdering W wi v fl grants meta target index repairID wiRHS =
     (if repairID \<noteq> [] then repair_start_check W wi v fl grants meta (fs_id target) repairID wiRHS
      else ordinary_start_check W wi v fl target index wiRHS)"

section \<open>The start\<close>

record start_request =
  st_attempt :: string
  st_epoch :: int
  st_secret :: string
  st_step :: string
  st_repair :: string

text \<open>The fresh ids of a start, of the step attempt, the producer and the invocation.\<close>

record start_ids =
  si_attempt :: string
  si_producer :: string
  si_invocation :: string

record start_response =
  so_invocation :: invocation
  so_step :: flow_step
  so_effective_rhs :: bool

text \<open>The primary key, the unique step attempt and the reference to the generation.\<close>

definition insert_invocation :: "invocation \<Rightarrow> workflow_hub \<Rightarrow> workflow_hub outcome" where
  "insert_invocation i W =
     (if row_exists (\<lambda>x. iv_id x = iv_id i \<or> iv_attempt x = iv_attempt i) (wh_invocations W) \<or>
         generation_of W (iv_wi i) (iv_version i) = None
      then Inl (NewErr ErrInternalError)
      else Inr (W\<lparr>wh_invocations := wh_invocations W @ [i]\<rparr>))"

definition startedEventPayload :: "invocation \<Rightarrow> string \<Rightarrow> (string \<times> json) list" where
  "startedEventPayload i repair =
     [(''steps_version'', json_int (iv_version i)), (''step_id'', JStr (iv_step i)), (''step_attempt_id'', JStr (iv_attempt i)),
      (''producer_id'', JStr (iv_producer i)), (''run_attempt_id'', JStr (iv_run i)), (''claim_epoch'', json_int (iv_epoch i)),
      (''repair_episode_id'', JStr repair)]"

definition mint_invocation ::
  "int \<Rightarrow> start_ids \<Rightarrow> work_item \<Rightarrow> start_request \<Rightarrow> int \<Rightarrow> flow_step \<Rightarrow> pin_outcome \<Rightarrow> bool \<Rightarrow> workflow_hub \<Rightarrow>
   (workflow_hub \<times> start_response) outcome" where
  "mint_invocation now ids w req v target pin wiRHS W =
     (let i = \<lparr> iv_id = si_invocation ids, iv_wi = wi_id w, iv_version = v, iv_step = fs_id target,
                iv_attempt = si_attempt ids, iv_run = st_attempt req, iv_epoch = st_epoch req, iv_producer = si_producer ids,
                iv_grant = grant_in (map_of (po_grants pin)) (fs_id target), iv_status = InvOpen,
                iv_repair = nilIfEmpty (st_repair req), iv_created = now \<rparr> in
      case insert_invocation i W of
        Inl e \<Rightarrow> Inl e
      | Inr W1 \<Rightarrow>
          (case attemptActor W1 (st_attempt req) of
             Inl e \<Rightarrow> Inl e
           | Inr (actor, display) \<Rightarrow>
               Inr (insertWorkflowEvent w actor display ''workflow_invocation_started'' (startedEventPayload i (st_repair req)) W1,
                    \<lparr> so_invocation = i, so_step = target, so_effective_rhs = (wiRHS \<and> fs_rhs target = Some True) \<rparr>)))"

definition StartWorkflowStep ::
  "libs \<Rightarrow> reference_data \<Rightarrow> int \<Rightarrow> start_ids \<Rightarrow> string \<Rightarrow> start_request \<Rightarrow> workflow_hub \<Rightarrow>
   (workflow_hub \<times> start_response) outcome" where
  "StartWorkflowStep L D now ids ref req W =
     (if st_step req = [] then Inl (NewErr ErrBadRequest)
      else
        (case GetWorkItem (wh_hub W) ref of
           Inl e \<Rightarrow> Inl e
         | Inr w \<Rightarrow>
             (case verify_workflow_attempt L now w (st_attempt req) (st_epoch req) (st_secret req) W of
                Inl e \<Rightarrow> Inl e
              | Inr W1 \<Rightarrow>
                  (let v = wp_version (pointer_of W1 (wi_id w)); wiRHS = (wi_rhs w = Some True) in
                   if v = 0 then Inl (NewErr ErrNotFound)
                   else if wi_status w \<noteq> Running then Inl (NewErr ErrConflictTerminalState)
                   else
                     (case revalidateWorkflowGeneration L D W1 v (st_attempt req) wiRHS of
                        Inl e \<Rightarrow> Inl e
                      | Inr (fl, pin) \<Rightarrow>
                          (case flow_step_of fl (st_step req) of
                             None \<Rightarrow> Inl (NewErr ErrNotFound)
                           | Some target \<Rightarrow>
                               (case open_invocation_gap W1 (wi_id w) v (fs_id target) of
                                  Some e \<Rightarrow> Inl e
                                | None \<Rightarrow>
                                    (case checkWorkflowStartOrdering W1 (wi_id w) v fl (po_grants pin) (po_meta pin) target
                                            (workflowStepIndex fl (st_step req)) (st_repair req) wiRHS of
                                       Some e \<Rightarrow> Inl e
                                     | None \<Rightarrow> mint_invocation now ids w req v target pin wiRHS W1))))))))"

end
