(* ===== verification/Workflow_Result.thy ===== *)
theory Workflow_Result
  imports Workflow_Start
begin

text \<open>
  Recording a worker's result (\<^verbatim>\<open>RecordWorkflowResult\<close> of
  \<^verbatim>\<open>internal/domain/workflow_run.go\<close>): the fence against stale and forged results, the
  check of the result's shape, the resolution of a completed result's artifact to the stored
  methodology artifact with its digest and schema, the pause a failed review causes, and the
  closing of repair authorizations whose bounded set is complete.
\<close>

section \<open>The digest of an artifact\<close>

text \<open>
  \<^verbatim>\<open>json.Marshal\<close> of a decoded value: sorted keys (\<open>decodeOneValue\<close>), numbers as they are
  spelled, strings with the HTML-safe escapes. Text of a JSONB column is valid UTF-8.
\<close>

definition escape_char :: "char \<Rightarrow> string" where
  "escape_char c =
     (let n = of_char c :: nat; bs = CHR 0x5C in
      if c = CHR 0x22 \<or> c = bs then [bs, c]
      else if n = 8 then [bs, CHR ''b''] else if n = 12 then [bs, CHR ''f'']
      else if n = 10 then [bs, CHR ''n''] else if n = 13 then [bs, CHR ''r''] else if n = 9 then [bs, CHR ''t'']
      else if n < 32 \<or> c = CHR ''<'' \<or> c = CHR ''>'' \<or> c = CHR 0x26
      then [bs, CHR ''u'', CHR ''0'', CHR ''0'', hex_char (n div 16), hex_char (n mod 16)]
      else [c])"

function escape_string :: "string \<Rightarrow> string" where
  "escape_string s =
     (case s of
        [] \<Rightarrow> []
      | c # cs \<Rightarrow>
          (if has_prefix s [CHR 0xE2, CHR 0x80, CHR 0xA8] then CHR 0x5C # ''u2028'' @ escape_string (drop 3 s)
           else if has_prefix s [CHR 0xE2, CHR 0x80, CHR 0xA9] then CHR 0x5C # ''u2029'' @ escape_string (drop 3 s)
           else escape_char c @ escape_string cs))"
  by pat_completeness auto
termination
  by (relation "measure length") auto

declare escape_string.simps [simp del]

fun join_comma :: "string list \<Rightarrow> string" where
  "join_comma [] = []"
| "join_comma [s] = s"
| "join_comma (s # ss) = s @ '','' @ join_comma ss"

definition quote_string :: "string \<Rightarrow> string" where
  "quote_string s = CHR 0x22 # escape_string s @ [CHR 0x22]"

fun write_json :: "json \<Rightarrow> string" where
  "write_json JNull = ''null''"
| "write_json (JBool b) = (if b then ''true'' else ''false'')"
| "write_json (JNum l) = l"
| "write_json (JStr s) = quote_string s"
| "write_json (JArr js) = ''['' @ join_comma (map write_json js) @ '']''"
| "write_json (JObj ms) = ''{'' @ join_comma (map (\<lambda>(k, v). quote_string k @ '':'' @ write_json v) ms) @ ''}''"

definition workflowArtifactDigest :: "(string \<Rightarrow> string) \<Rightarrow> json \<Rightarrow> string" where
  "workflowArtifactDigest sha payload = ''sha256:'' @ hex_encode (sha (write_json payload))"

section \<open>The shape of a result\<close>

definition has_upper :: "string \<Rightarrow> bool" where
  "has_upper s = list_ex (\<lambda>c. 65 \<le> (of_char c :: nat) \<and> (of_char c :: nat) \<le> 90) s"

definition isSHA256Digest :: "string \<Rightarrow> bool" where
  "isSHA256Digest s \<longleftrightarrow>
     has_prefix s ''sha256:'' \<and> length s = 7 + 64 \<and> \<not> has_upper (drop 7 s) \<and> hex_decode (drop 7 s) \<noteq> None"

definition evidence_shape :: "evidence \<Rightarrow> bool" where
  "evidence_shape e \<longleftrightarrow> ev_kind e \<noteq> [] \<and> trim_space (ev_ref e) \<noteq> [] \<and> isSHA256Digest (ev_hash e)"

definition meta_capability :: "step_meta \<Rightarrow> capability \<Rightarrow> bool" where
  "meta_capability m want = list_ex (\<lambda>c. c = want) (sm_capabilities m)"

text \<open>The server's check against the frozen metadata; \<open>None\<close> accepts.\<close>

definition validateWorkflowResultShape :: "step_result \<Rightarrow> step_meta \<Rightarrow> policy_error option" where
  "validateWorkflowResultShape r m =
     (if sr_status r \<notin> {StatusCompleted, StatusIncomplete, StatusBlocked, StatusProviderError, StatusInvalidResult}
      then Some UnknownStatus
      else if ar_id (sr_artifact r) = [] \<or> ar_version (sr_artifact r) \<le> 0 \<or> \<not> isSHA256Digest (ar_hash (sr_artifact r))
      then Some ArtifactInvalid
      else if \<not> list_all evidence_shape (sr_evidence r) then Some EvidenceInvalid
      else
        (let review = meta_capability m CapReview in
         case verdict_error r review of
           Some e \<Rightarrow> Some e
         | None \<Rightarrow>
             (if (review \<or> meta_capability m CapVerification) \<and> sr_status r = StatusCompleted \<and> sr_evidence r = []
              then Some GateWithoutEvidence else None)))"

section \<open>The fence\<close>

definition loadOpenInvocation :: "workflow_hub \<Rightarrow> string \<Rightarrow> int \<Rightarrow> string \<Rightarrow> string \<Rightarrow> invocation outcome" where
  "loadOpenInvocation W wi v step attempt =
     (case select_one (\<lambda>i. iv_wi i = wi \<and> iv_version i = v \<and> iv_attempt i = attempt) (wh_invocations W) of
        None \<Rightarrow> Inl (NewErr ErrConflictStepAttemptMismatch)
      | Some i \<Rightarrow>
          (if iv_step i \<noteq> step then Inl (NewErr ErrConflictStepAttemptMismatch)
           else if iv_status i = InvSuperseded then Inl (NewErr ErrConflictStepAttemptMismatch)
           else if iv_status i \<noteq> InvOpen then Inl (NewErr ErrConflictStepAttemptMismatch)
           else Inr i))"

definition workflowStepMetaFor :: "workflow_hub \<Rightarrow> string \<Rightarrow> int \<Rightarrow> string \<Rightarrow> step_meta outcome" where
  "workflowStepMetaFor W wi v step =
     (case generation_of W wi v of
        None \<Rightarrow> Inl (NewErr ErrInternalError)
      | Some g \<Rightarrow> (case map_of (gn_meta g) step of None \<Rightarrow> Inl (NewErr ErrInternalError) | Some m \<Rightarrow> Inr m))"

section \<open>The artifact of a completed result\<close>

definition memoryVisibility :: "user_record \<Rightarrow> artifact_row \<Rightarrow> bool" where
  "memoryVisibility u m \<longleftrightarrow>
     ur_role u = ''admin'' \<or>
     (am_visibility m \<noteq> ''private'' \<or> am_author m = ur_id u) \<and> am_visibility m \<noteq> ''admin''"

text \<open>\<^verbatim>\<open>attrs.structured_payload\<close>, decoded; the error is a document that is no object.\<close>

definition structured_payload :: "raw_json \<Rightarrow> json option outcome" where
  "structured_payload attrs =
     (case attrs of
        None \<Rightarrow> Inr None
      | Some j \<Rightarrow>
          (case decodeOneValue j of
             JNull \<Rightarrow> Inr None
           | JObj ms \<Rightarrow> (case map_of ms ''structured_payload'' of Some (JObj p) \<Rightarrow> Inr (Some (JObj p)) | _ \<Rightarrow> Inr None)
           | _ \<Rightarrow> Inl (NewErr ErrInternalError)))"

definition check_output_schema :: "libs \<Rightarrow> skill_contract \<Rightarrow> json \<Rightarrow> aihub_error option" where
  "check_output_schema L c payload =
     (case OutputSchema c of
        None \<Rightarrow> None
      | Some sc \<Rightarrow>
          (case CompileSchema (lib_valid_re L) (Some sc) of
             None \<Rightarrow> Some (NewErr ErrInternalError)
           | Some compiled \<Rightarrow> (if check (lib_match L) compiled payload then None else Some (NewErr ErrBadRequest))))"

definition artifact_contract_check ::
  "libs \<Rightarrow> reference_data \<Rightarrow> flow option \<Rightarrow> step_result \<Rightarrow> json \<Rightarrow> aihub_error option" where
  "artifact_contract_check L D stored r payload =
     (case stored of
        None \<Rightarrow> Some (NewErr ErrInternalError)
      | Some fl \<Rightarrow>
          (case flow_step_of fl (sr_step r) of
             None \<Rightarrow> Some (NewErr ErrInternalError)
           | Some s \<Rightarrow>
               (case resolvePinnedSkillRefTrusted (lib_valid_re L) D (fs_skill s) (fs_skill_version s) of
                  Inl e \<Rightarrow> Some e
                | Inr ref \<Rightarrow> check_output_schema L (rr_contract ref) payload)))"

definition resolveCompletedResultArtifact ::
  "libs \<Rightarrow> reference_data \<Rightarrow> workflow_hub \<Rightarrow> work_item \<Rightarrow> string \<Rightarrow> step_result \<Rightarrow> aihub_error option" where
  "resolveCompletedResultArtifact L D W w attempt r =
     (case userRecordForAttempt D W attempt of
        Inl e \<Rightarrow> Some e
      | Inr actor \<Rightarrow>
          (case select_one (\<lambda>m. am_id m = ar_id (sr_artifact r)) (rd_artifacts D) of
             None \<Rightarrow> Some (NewErr ErrBadRequest)
           | Some m \<Rightarrow>
               (if am_wi m \<noteq> Some (wi_id w) then Some (NewErr ErrBadRequest)
                else if \<not> has_prefix (am_type m) ''methodology.'' then Some (NewErr ErrBadRequest)
                else if am_status m = ''redacted'' then Some (NewErr ErrBadRequest)
                else if ar_version (sr_artifact r) \<noteq> 1 then Some (NewErr ErrBadRequest)
                else if \<not> memoryVisibility actor m then Some (NewErr ErrForbidden)
                else
                  (case structured_payload (am_attrs m) of
                     Inl e \<Rightarrow> Some e
                   | Inr None \<Rightarrow> Some (NewErr ErrBadRequest)
                   | Inr (Some payload) \<Rightarrow>
                       (if workflowArtifactDigest (lib_sha L) payload \<noteq> ar_hash (sr_artifact r) then Some (NewErr ErrBadRequest)
                        else artifact_contract_check L D (wp_steps (pointer_of W (wi_id w))) r payload)))))"

section \<open>The pause of a failed review\<close>

definition review_fail_reason :: "step_result \<Rightarrow> string" where
  "review_fail_reason r =
     ''review FAIL on workflow step '' @ quote_string (sr_step r) @ '' (generation '' @
     (case json_int (sr_flow_version r) of JNum l \<Rightarrow> l | _ \<Rightarrow> []) @ '', step attempt '' @ sr_attempt r @ '')''"

definition pauseAttemptForReviewFail :: "int \<Rightarrow> work_item \<Rightarrow> string \<Rightarrow> step_result \<Rightarrow> workflow_hub \<Rightarrow> workflow_hub" where
  "pauseAttemptForReviewFail now w attempt r W =
     (let reason = review_fail_reason r;
          H1 = update_attempt attempt (\<lambda>a. a\<lparr>ra_status := APaused, ra_ended := Some now, ra_pause_reason := Some reason\<rparr>) (wh_hub W);
          op = withExtra (newLockOp ''attempt_paused'' [] [] [])
                 [(''retained_types'', JStr ''git_branch, deploy_env, worktree, tcp_port''), (''reason'', JStr reason)];
          H2 = fst (releaseLocks (acquireLocksReleasePaused attempt) op H1);
          H3 = update_item (wi_id w) (\<lambda>x. x\<lparr>wi_status := Paused\<rparr>) H2 in
      insertWorkflowEvent w (wi_reporter w) [] ''attempt_completed''
        [(''status'', JStr ''paused''), (''pause_reason'', JStr reason), (''step_attempt_id'', JStr (sr_attempt r)),
         (''review_verdict'', JStr (verdict_text (sr_verdict r)))] (W\<lparr>wh_hub := H3\<rparr>))"

section \<open>Closing authorizations\<close>

definition close_repair :: "string \<Rightarrow> workflow_hub \<Rightarrow> workflow_hub" where
  "close_repair repair W =
     W\<lparr>wh_repairs := update_where (\<lambda>p. rp_id p = repair \<and> rp_open p) (\<lambda>p. p\<lparr>rp_open := False\<rparr>) (wh_repairs W)\<rparr>"

definition repair_set_complete :: "workflow_hub \<Rightarrow> repair_row \<Rightarrow> bool outcome" where
  "repair_set_complete W p =
     (case rp_kind p of
        KindRetry \<Rightarrow> Inr (retry_recorded W (rp_id p))
      | KindEpisode \<Rightarrow> episodeRoleSetComplete W (rp_id p) (rp_wi p) (rp_version p) (rp_step p) (rp_attempt p)
      | OtherKind _ \<Rightarrow> Inl (NewErr ErrInternalError))"

definition closeRepairEpisodeIfComplete :: "string \<Rightarrow> workflow_hub \<Rightarrow> workflow_hub outcome" where
  "closeRepairEpisodeIfComplete repair W =
     (case select_one (\<lambda>p. rp_id p = repair) (wh_repairs W) of
        None \<Rightarrow> Inl (NewErr ErrInternalError)
      | Some p \<Rightarrow>
          (if \<not> rp_open p then Inr W
           else
             (case repair_set_complete W p of
                Inl e \<Rightarrow> Inl e
              | Inr c \<Rightarrow> Inr (if c then close_repair repair W else W))))"

definition closeParentEpisodeAfterRetry :: "string \<Rightarrow> workflow_hub \<Rightarrow> workflow_hub outcome" where
  "closeParentEpisodeAfterRetry retry W =
     (case select_one (\<lambda>p. rp_id p = retry) (wh_repairs W) of
        None \<Rightarrow> Inr W
      | Some p \<Rightarrow>
          (case rp_parent p of
             None \<Rightarrow> Inr W
           | Some parent \<Rightarrow> (if parent = [] then Inr W else closeRepairEpisodeIfComplete parent W)))"

definition close_bound_repair :: "string option \<Rightarrow> workflow_hub \<Rightarrow> workflow_hub outcome" where
  "close_bound_repair repair W =
     (case repair of
        None \<Rightarrow> Inr W
      | Some p \<Rightarrow>
          (if p = [] then Inr W
           else (case closeRepairEpisodeIfComplete p W of Inl e \<Rightarrow> Inl e | Inr W1 \<Rightarrow> closeParentEpisodeAfterRetry p W1)))"

section \<open>Recording\<close>

record result_request =
  rs_attempt :: string
  rs_epoch :: int
  rs_secret :: string
  rs_result :: raw_json

record recorded_response =
  rc_result :: workflow_result
  rc_paused :: bool

text \<open>The primary key, one result per invocation and one per step attempt.\<close>

definition insert_result :: "workflow_result \<Rightarrow> workflow_hub \<Rightarrow> workflow_hub outcome" where
  "insert_result r W =
     (if row_exists (\<lambda>x. wr_id x = wr_id r \<or> wr_invocation x = wr_invocation r \<or> wr_attempt x = wr_attempt r) (wh_results W)
      then Inl (NewErr ErrInternalError)
      else Inr (W\<lparr>wh_results := wh_results W @ [r]\<rparr>))"

definition mark_recorded :: "string \<Rightarrow> workflow_hub \<Rightarrow> workflow_hub" where
  "mark_recorded invID W =
     W\<lparr>wh_invocations := update_where (\<lambda>i. iv_id i = invID) (\<lambda>i. i\<lparr>iv_status := InvRecorded\<rparr>) (wh_invocations W)\<rparr>"

definition result_row :: "int \<Rightarrow> string \<Rightarrow> string \<Rightarrow> string \<Rightarrow> int \<Rightarrow> string \<Rightarrow> int \<Rightarrow> step_result \<Rightarrow> workflow_result" where
  "result_row now resID wi invID v attempt epoch r =
     \<lparr> wr_id = resID, wr_wi = wi, wr_invocation = invID, wr_version = v, wr_step = sr_step r, wr_attempt = sr_attempt r,
       wr_run = attempt, wr_epoch = epoch, wr_producer = sr_producer r, wr_status = sr_status r, wr_verdict = sr_verdict r,
       wr_artifact = sr_artifact r, wr_evidence = sr_evidence r, wr_created = now \<rparr>"

definition resultEventPayload :: "int \<Rightarrow> step_result \<Rightarrow> (string \<times> json) list" where
  "resultEventPayload v r =
     [(''step'', JStr (sr_step r)), (''steps_version'', json_int v), (''step_attempt_id'', JStr (sr_attempt r)),
      (''status'', JStr (status_text (sr_status r))), (''review_verdict'', JStr (verdict_text (sr_verdict r))),
      (''artifact'', artifact_json (sr_artifact r))]"

text \<open>The checks between the credential and the first write; a success is the fenced invocation.\<close>

definition result_fence ::
  "libs \<Rightarrow> reference_data \<Rightarrow> work_item \<Rightarrow> result_request \<Rightarrow> step_result \<Rightarrow> workflow_hub \<Rightarrow> invocation outcome" where
  "result_fence L D w req r W =
     (let v = wp_version (pointer_of W (wi_id w)) in
      if v = 0 then Inl (NewErr ErrConflictStepAttemptMismatch)
      else if sr_wi r \<noteq> wi_id w then Inl (NewErr ErrConflictStepAttemptMismatch)
      else if sr_flow_version r \<noteq> v
      then Inl (NewErrDetails ErrConflictStepAttemptMismatch (StepsVersions (sr_flow_version r) v))
      else
        (case loadOpenInvocation W (wi_id w) v (sr_step r) (sr_attempt r) of
           Inl e \<Rightarrow> Inl e
         | Inr i \<Rightarrow>
             (if iv_run i \<noteq> rs_attempt req then Inl (NewErr ErrConflictEpochMismatch)
              else if iv_epoch i \<noteq> rs_epoch req \<or> sr_epoch r \<noteq> rs_epoch req then Inl (NewErr ErrConflictEpochMismatch)
              else if sr_producer r \<noteq> iv_producer i then Inl (NewErr ErrAttemptMismatch)
              else
                (case workflowStepMetaFor W (wi_id w) v (sr_step r) of
                   Inl e \<Rightarrow> Inl e
                 | Inr m \<Rightarrow>
                     (if validateWorkflowResultShape r m \<noteq> None then Inl (NewErr ErrBadRequest)
                      else if sr_status r = StatusCompleted then
                        (case resolveCompletedResultArtifact L D W w (rs_attempt req) r of Some e \<Rightarrow> Inl e | None \<Rightarrow> Inr i)
                      else Inr i)))))"

definition write_result ::
  "int \<Rightarrow> string \<Rightarrow> work_item \<Rightarrow> result_request \<Rightarrow> step_result \<Rightarrow> invocation \<Rightarrow> workflow_hub \<Rightarrow>
   (workflow_hub \<times> recorded_response) outcome" where
  "write_result now resID w req r i W =
     (let v = wp_version (pointer_of W (wi_id w));
          row = result_row now resID (wi_id w) (iv_id i) v (rs_attempt req) (rs_epoch req) r in
      case insert_result row W of
        Inl e \<Rightarrow> Inl e
      | Inr W1 \<Rightarrow>
          (let W2 = mark_recorded (iv_id i) W1 in
           case attemptActor W2 (rs_attempt req) of
             Inl e \<Rightarrow> Inl e
           | Inr (actor, display) \<Rightarrow>
               (let W3 = insertWorkflowEvent w actor display
                      (if sr_status r = StatusCompleted then ''step_completed'' else ''step_failed'') (resultEventPayload v r) W2;
                    paused = (sr_verdict r = ReviewFail);
                    W4 = (if paused then pauseAttemptForReviewFail now w (rs_attempt req) r W3 else W3) in
                case close_bound_repair (iv_repair i) W4 of
                  Inl e \<Rightarrow> Inl e
                | Inr W5 \<Rightarrow> Inr (W5, \<lparr> rc_result = row, rc_paused = paused \<rparr>))))"

definition RecordWorkflowResult ::
  "libs \<Rightarrow> reference_data \<Rightarrow> int \<Rightarrow> string \<Rightarrow> string \<Rightarrow> result_request \<Rightarrow> workflow_hub \<Rightarrow>
   (workflow_hub \<times> recorded_response) outcome" where
  "RecordWorkflowResult L D now resID ref req W =
     (case rs_result req of
        None \<Rightarrow> Inl (NewErr ErrBadRequest)
      | Some j \<Rightarrow>
          (case UnmarshalStepResult j of
             None \<Rightarrow> Inl (NewErr ErrBadRequest)
           | Some r \<Rightarrow>
               (case GetWorkItem (wh_hub W) ref of
                  Inl e \<Rightarrow> Inl e
                | Inr w \<Rightarrow>
                    (case verify_workflow_attempt L now w (rs_attempt req) (rs_epoch req) (rs_secret req) W of
                       Inl e \<Rightarrow> Inl e
                     | Inr W1 \<Rightarrow>
                         (case result_fence L D w req r W1 of
                            Inl e \<Rightarrow> Inl e
                          | Inr i \<Rightarrow> write_result now resID w req r i W1)))))"

end
