(* ===== verification/Workflow_Recovery.thy ===== *)
theory Workflow_Recovery
  imports Workflow_Result
begin

text \<open>
  Human decisions and recoveries (\<^verbatim>\<open>internal/domain/workflow_run.go\<close>): the approval of the
  exact artifact of a step, the authorization of a retry or of a repair episode with the walk
  up the lineage of a retry, the reconciliation of a dead attempt's open invocations; and the
  handlers of \<^verbatim>\<open>internal/server/routes_workflows.go\<close> in front of the operations.
\<close>

section \<open>Approval\<close>

record approve_request =
  aq_version :: int
  aq_step :: string
  aq_artifact :: artifact_ref
  aq_decision :: string

definition decision_of :: "string \<Rightarrow> approval_decision option" where
  "decision_of s =
     (if s = ''approved'' then Some ApprovalGranted else if s = ''rejected'' then Some ApprovalDenied else None)"

definition artifact_details :: "artifact_ref \<Rightarrow> string \<times> int \<times> string" where
  "artifact_details a = (ar_id a, ar_version a, ar_hash a)"

text \<open>The gates in front of the writes; a success is the step's latest result.\<close>

definition approval_target :: "workflow_hub \<Rightarrow> work_item \<Rightarrow> approve_request \<Rightarrow> workflow_result outcome" where
  "approval_target W w req =
     (let p = pointer_of W (wi_id w) in
      if wp_version p = 0 then Inl (NewErr ErrNotFound)
      else if aq_version req \<noteq> wp_version p
      then Inl (NewErrDetails ErrConflictStepAttemptMismatch (StepsVersions (aq_version req) (wp_version p)))
      else
        (case wp_steps p of
           None \<Rightarrow> Inl (NewErr ErrInternalError)
         | Some fl \<Rightarrow>
             (case flow_step_of fl (aq_step req) of
                None \<Rightarrow> Inl (NewErr ErrNotFound)
              | Some s \<Rightarrow>
                  (if wi_rhs w \<noteq> Some True \<or> fs_rhs s \<noteq> Some True then Inl (NewErr ErrBadRequest)
                   else
                     (case latestWorkflowResult W (wi_id w) (wp_version p) (aq_step req) of
                        None \<Rightarrow> Inl (NewErr ErrConflictStepAttemptMismatch)
                      | Some r \<Rightarrow>
                          (if wr_artifact r \<noteq> aq_artifact req
                           then Inl (NewErrDetails ErrConflictStepAttemptMismatch
                                  (ArtifactMismatch (artifact_details (aq_artifact req)) (artifact_details (wr_artifact r))))
                           else Inr r))))))"

text \<open>
  The columns of an approval: a four-byte version and a lower-case digest. The row lock held
  since the read of the work item keeps the unique key from firing.
\<close>

definition insert_approval :: "approval_row \<Rightarrow> workflow_hub \<Rightarrow> workflow_hub outcome" where
  "insert_approval a W =
     (if ar_version (ap_artifact a) < 1 \<or> \<not> isSHA256Digest (ar_hash (ap_artifact a)) then Inl (NewErr ErrInternalError)
      else if row_exists (\<lambda>x. ap_id x = ap_id a) (wh_approvals W) \<or>
         decision_on W (ap_wi a) (ap_version a) (ap_step a) (ap_artifact a) \<noteq> None
      then Inl (NewErr ErrConflictDuplicate)
      else Inr (W\<lparr>wh_approvals := wh_approvals W @ [a]\<rparr>))"

definition approvalEventPayload :: "approve_request \<Rightarrow> (string \<times> json) list" where
  "approvalEventPayload req =
     [(''steps_version'', json_int (aq_version req)), (''step_id'', JStr (aq_step req)),
      (''artifact'', artifact_json (aq_artifact req)), (''decision'', JStr (aq_decision req))]"

definition record_decision ::
  "int \<Rightarrow> string \<Rightarrow> work_item \<Rightarrow> user_record \<Rightarrow> string \<Rightarrow> approve_request \<Rightarrow> approval_decision \<Rightarrow> workflow_hub \<Rightarrow>
   (workflow_hub \<times> approval_row) outcome" where
  "record_decision now newID w actor display req decision W =
     (if 2147483647 < ar_version (aq_artifact req) then Inl (NewErr ErrInternalError)
      else
        (case decision_on W (wi_id w) (aq_version req) (aq_step req) (aq_artifact req) of
           Some a \<Rightarrow> (if ap_decision a \<noteq> decision then Inl (NewErr ErrConflictDuplicate) else Inr (W, a))
         | None \<Rightarrow>
             (let a = \<lparr> ap_id = newID, ap_wi = wi_id w, ap_version = aq_version req, ap_step = aq_step req,
                        ap_artifact = aq_artifact req, ap_decision = decision, ap_actor = ur_id actor,
                        ap_display = display, ap_created = now \<rparr> in
              case insert_approval a W of
                Inl e \<Rightarrow> Inl e
              | Inr W1 \<Rightarrow>
                  Inr (insertWorkflowEvent w (ur_id actor) display ''workflow_approval'' (approvalEventPayload req) W1, a))))"

definition ApproveWorkflowStep ::
  "int \<Rightarrow> string \<Rightarrow> string \<Rightarrow> user_record option \<Rightarrow> string \<Rightarrow> string \<Rightarrow> approve_request \<Rightarrow> workflow_hub \<Rightarrow>
   (workflow_hub \<times> approval_row) outcome" where
  "ApproveWorkflowStep now newID ref actor display actorType req W =
     (case decision_of (aq_decision req) of
        None \<Rightarrow> Inl (NewErr ErrBadRequest)
      | Some decision \<Rightarrow>
          (if actorType \<noteq> ''human'' then Inl (NewErr ErrForbidden)
           else
             (case actor of
                None \<Rightarrow> Inl (NewErr ErrUnauthorized)
              | Some u \<Rightarrow>
                  (if ur_id u = [] then Inl (NewErr ErrUnauthorized)
                   else
                     (case GetWorkItem (wh_hub W) ref of
                        Inl e \<Rightarrow> Inl e
                      | Inr w \<Rightarrow>
                          (case approval_target W w req of
                             Inl e \<Rightarrow> Inl e
                           | Inr r \<Rightarrow> record_decision now newID w u display req decision W))))))"

section \<open>The lineage of a retry\<close>

definition maxOpenRepairAuthorizations :: nat where
  "maxOpenRepairAuthorizations = 8"

definition maxRetryChainDepth :: nat where
  "maxRetryChainDepth = 3"

definition invocation_of_attempt :: "workflow_hub \<Rightarrow> string \<Rightarrow> string \<Rightarrow> invocation option" where
  "invocation_of_attempt W wi attempt =
     select_one (\<lambda>i. iv_wi i = wi \<and> iv_attempt i = attempt) (wh_invocations W)"

definition repair_of :: "workflow_hub \<Rightarrow> string \<Rightarrow> string \<Rightarrow> repair_row option" where
  "repair_of W wi repair = select_one (\<lambda>p. rp_id p = repair \<and> rp_wi p = wi) (wh_repairs W)"

definition nearest_parent :: "repair_row \<Rightarrow> string option \<Rightarrow> string option" where
  "nearest_parent p parent = (if rp_parent p \<noteq> None \<and> rp_parent p \<noteq> Some [] then rp_parent p else parent)"

text \<open>
  The walk, a hop a call; the fuel is the bound on the hops that the code checks at the head
  of its loop. A result is the episode at the root, if any, and the number of retries.
\<close>

fun lineage_walk ::
  "workflow_hub \<Rightarrow> string \<Rightarrow> nat \<Rightarrow> string \<Rightarrow> string option \<Rightarrow> nat \<Rightarrow> (string option \<times> nat) outcome" where
  "lineage_walk W wi 0 cur parent depth = Inl (NewErr ErrInternalError)"
| "lineage_walk W wi (Suc hops) cur parent depth =
     (case invocation_of_attempt W wi cur of
        None \<Rightarrow> Inl (NewErr ErrInternalError)
      | Some i \<Rightarrow>
          (if iv_repair i = None \<or> iv_repair i = Some [] then Inr (parent, depth)
           else
             (let bind = the (iv_repair i) in
              case repair_of W wi bind of
                None \<Rightarrow> Inl (NewErr ErrInternalError)
              | Some p \<Rightarrow>
                  (case rp_kind p of
                     KindEpisode \<Rightarrow> Inr (Some bind, depth)
                   | KindRetry \<Rightarrow>
                       lineage_walk W wi hops (rp_attempt p) (nearest_parent p parent) (Suc depth)
                   | OtherKind _ \<Rightarrow> Inl (NewErr ErrInternalError)))))"

definition resolveRetryLineage :: "workflow_hub \<Rightarrow> string \<Rightarrow> string \<Rightarrow> (string option \<times> nat) outcome" where
  "resolveRetryLineage W wi attempt = lineage_walk W wi (maxRetryChainDepth + 2) attempt None 0"

section \<open>Authorization\<close>

record repair_request =
  pq_attempt :: string
  pq_epoch :: int
  pq_secret :: string
  pq_failed :: string
  pq_kind :: string
  pq_reason :: string

definition repair_validate :: "repair_request \<Rightarrow> repair_kind outcome" where
  "repair_validate req =
     (if pq_kind req \<noteq> ''retry'' \<and> pq_kind req \<noteq> ''episode'' then Inl (NewErr ErrBadRequest)
      else
        (let reason = trim_space (pq_reason req) in
         if length reason < 10 \<or> 2000 < length reason then Inl (NewErr ErrBadRequest)
         else if pq_failed req = [] then Inl (NewErr ErrBadRequest)
         else Inr (if pq_kind req = ''retry'' then KindRetry else KindEpisode)))"

definition stepMetaIsReview :: "step_meta \<Rightarrow> bool" where
  "stepMetaIsReview m = list_ex (\<lambda>c. c = CapReview) (sm_capabilities m)"

text \<open>What a kind demands of the failed result; a success is the parent lineage.\<close>

definition repair_kind_check ::
  "workflow_hub \<Rightarrow> string \<Rightarrow> repair_kind \<Rightarrow> workflow_result \<Rightarrow> step_meta \<Rightarrow> string option outcome" where
  "repair_kind_check W wi kind failed m =
     (case kind of
        KindEpisode \<Rightarrow>
          (if wr_verdict failed \<noteq> ReviewFail then Inl (NewErr ErrBadRequest)
           else if \<not> stepMetaIsReview m then Inl (NewErr ErrBadRequest)
           else Inr None)
      | KindRetry \<Rightarrow>
          (if wr_status failed \<noteq> StatusProviderError \<or> wr_verdict failed = ReviewFail then Inl (NewErr ErrBadRequest)
           else
             (case resolveRetryLineage W wi (wr_attempt failed) of
                Inl e \<Rightarrow> Inl e
              | Inr (parent, depth) \<Rightarrow>
                  (if maxRetryChainDepth \<le> depth then Inl (NewErr ErrConflictDuplicate) else Inr parent)))
      | OtherKind _ \<Rightarrow> Inl (NewErr ErrBadRequest))"

definition repair_target ::
  "workflow_hub \<Rightarrow> work_item \<Rightarrow> repair_kind \<Rightarrow> string \<Rightarrow> (workflow_result \<times> string option) outcome" where
  "repair_target W w kind failedAttempt =
     (let v = wp_version (pointer_of W (wi_id w)) in
      if v = 0 then Inl (NewErr ErrNotFound)
      else
        (case select_one (\<lambda>r. wr_wi r = wi_id w \<and> wr_attempt r = failedAttempt) (wh_results W) of
           None \<Rightarrow> Inl (NewErr ErrNotFound)
         | Some failed \<Rightarrow>
             (if wr_version failed \<noteq> v then Inl (NewErr ErrConflictStepAttemptMismatch)
              else
                (case workflowStepMetaFor W (wi_id w) v (wr_step failed) of
                   Inl e \<Rightarrow> Inl e
                 | Inr m \<Rightarrow>
                     (case repair_kind_check W (wi_id w) kind failed m of
                        Inl e \<Rightarrow> Inl e | Inr parent \<Rightarrow> Inr (failed, parent))))))"

definition open_repairs :: "workflow_hub \<Rightarrow> string \<Rightarrow> nat" where
  "open_repairs W wi = length (filter (\<lambda>p. rp_wi p = wi \<and> rp_open p) (wh_repairs W))"

text \<open>The unique keys, then the CHECK on the reason, which counts characters.\<close>

definition insert_repair :: "repair_row \<Rightarrow> workflow_hub \<Rightarrow> workflow_hub outcome" where
  "insert_repair p W =
     (if rune_count (rp_reason p) < 10 \<or> 2000 < rune_count (rp_reason p) then Inl (NewErr ErrInternalError)
      else if row_exists (\<lambda>x. rp_id x = rp_id p \<or> rp_kind x = rp_kind p \<and> rp_attempt x = rp_attempt p) (wh_repairs W)
      then Inl (NewErr ErrConflictDuplicate)
      else Inr (W\<lparr>wh_repairs := wh_repairs W @ [p]\<rparr>))"

definition repairEventPayload :: "repair_row \<Rightarrow> string \<Rightarrow> (string \<times> json) list" where
  "repairEventPayload p kind =
     [(''repair_id'', JStr (rp_id p)), (''kind'', JStr kind), (''failed_step_id'', JStr (rp_step p)),
      (''failed_step_attempt_id'', JStr (rp_attempt p)), (''steps_version'', json_int (rp_version p)),
      (''reason'', JStr (rp_reason p))] @
     (case rp_parent p of None \<Rightarrow> [] | Some q \<Rightarrow> [(''parent_episode_id'', JStr q)])"

definition open_repair ::
  "int \<Rightarrow> string \<Rightarrow> work_item \<Rightarrow> repair_request \<Rightarrow> repair_kind \<Rightarrow> workflow_result \<Rightarrow> string option \<Rightarrow> workflow_hub \<Rightarrow>
   (workflow_hub \<times> repair_row) outcome" where
  "open_repair now newID w req kind failed parent W =
     (if maxOpenRepairAuthorizations \<le> open_repairs W (wi_id w) then Inl (NewErr ErrConflictDuplicate)
      else
        (case attemptActor W (pq_attempt req) of
           Inl e \<Rightarrow> Inl e
         | Inr (actor, display) \<Rightarrow>
             (let p = \<lparr> rp_id = newID, rp_wi = wi_id w, rp_kind = kind, rp_version = wp_version (pointer_of W (wi_id w)),
                        rp_step = wr_step failed, rp_attempt = pq_failed req, rp_reason = trim_space (pq_reason req),
                        rp_run = pq_attempt req, rp_epoch = pq_epoch req, rp_by = actor, rp_open = True,
                        rp_parent = (if parent = Some [] then None else parent), rp_created = now \<rparr> in
              case insert_repair p W of
                Inl e \<Rightarrow> Inl e
              | Inr W1 \<Rightarrow>
                  Inr (insertWorkflowEvent w actor [] ''workflow_repair_authorized'' (repairEventPayload p (pq_kind req)) W1, p))))"

definition AuthorizeWorkflowRepair ::
  "libs \<Rightarrow> int \<Rightarrow> string \<Rightarrow> string \<Rightarrow> repair_request \<Rightarrow> workflow_hub \<Rightarrow> (workflow_hub \<times> repair_row) outcome" where
  "AuthorizeWorkflowRepair L now newID ref req W =
     (case repair_validate req of
        Inl e \<Rightarrow> Inl e
      | Inr kind \<Rightarrow>
          (case GetWorkItem (wh_hub W) ref of
             Inl e \<Rightarrow> Inl e
           | Inr w \<Rightarrow>
               (case verify_workflow_attempt L now w (pq_attempt req) (pq_epoch req) (pq_secret req) W of
                  Inl e \<Rightarrow> Inl e
                | Inr W1 \<Rightarrow>
                    (case repair_target W1 w kind (pq_failed req) of
                       Inl e \<Rightarrow> Inl e
                     | Inr (failed, parent) \<Rightarrow> open_repair now newID w req kind failed parent W1))))"

section \<open>Reconciliation\<close>

record reconcile_request =
  xq_attempt :: string
  xq_epoch :: int
  xq_secret :: string
  xq_supersede :: string

definition reconcile_check :: "workflow_hub \<Rightarrow> work_item \<Rightarrow> string \<Rightarrow> aihub_error option" where
  "reconcile_check W w named =
     (case attempt_by_id (wh_hub W) named of
        None \<Rightarrow> Some (NewErr ErrNotFound)
      | Some a \<Rightarrow>
          (if ra_wi a \<noteq> wi_id w then Some (NewErr ErrConflictStepAttemptMismatch)
           else if wi_current w = Some named then Some (NewErr ErrConflictStepInProgress)
           else if ra_status a = ARunning then Some (NewErr ErrConflictStepInProgress)
           else None))"

definition left_open :: "string \<Rightarrow> string \<Rightarrow> invocation \<Rightarrow> bool" where
  "left_open wi named i \<longleftrightarrow> iv_wi i = wi \<and> iv_run i = named \<and> iv_status i = InvOpen"

definition supersede_invocations :: "string \<Rightarrow> string \<Rightarrow> workflow_hub \<Rightarrow> workflow_hub" where
  "supersede_invocations wi named W =
     W\<lparr>wh_invocations := update_where (left_open wi named) (\<lambda>i. i\<lparr>iv_status := InvSuperseded\<rparr>) (wh_invocations W)\<rparr>"

definition supersededEventPayload :: "string \<Rightarrow> string \<Rightarrow> invocation \<Rightarrow> (string \<times> json) list" where
  "supersededEventPayload named attempt i =
     [(''steps_version'', json_int (iv_version i)), (''step_id'', JStr (iv_step i)), (''step_attempt_id'', JStr (iv_attempt i)),
      (''invocation_id'', JStr (iv_id i)), (''superseded_attempt_id'', JStr named), (''run_attempt_id'', JStr attempt)] @
     (case iv_repair i of None \<Rightarrow> [] | Some p \<Rightarrow> (if p = [] then [] else [(''repair_episode_id'', JStr p)]))"

definition ReconcileWorkflowInvocations ::
  "libs \<Rightarrow> int \<Rightarrow> string \<Rightarrow> reconcile_request \<Rightarrow> workflow_hub \<Rightarrow> (workflow_hub \<times> string list) outcome" where
  "ReconcileWorkflowInvocations L now ref req W =
     (if xq_supersede req = [] then Inl (NewErr ErrBadRequest)
      else
        (case GetWorkItem (wh_hub W) ref of
           Inl e \<Rightarrow> Inl e
         | Inr w \<Rightarrow>
             (case verify_workflow_attempt L now w (xq_attempt req) (xq_epoch req) (xq_secret req) W of
                Inl e \<Rightarrow> Inl e
              | Inr W1 \<Rightarrow>
                  (if wp_version (pointer_of W1 (wi_id w)) = 0 then Inl (NewErr ErrNotFound)
                   else
                     (case reconcile_check W1 w (xq_supersede req) of
                        Some e \<Rightarrow> Inl e
                      | None \<Rightarrow>
                          (let hit = filter (left_open (wi_id w) (xq_supersede req)) (wh_invocations W1) in
                           case attemptActor W1 (xq_attempt req) of
                             Inl e \<Rightarrow> Inl e
                           | Inr (actor, display) \<Rightarrow>
                               Inr (fold (\<lambda>i. insertWorkflowEvent w actor display ''workflow_invocation_superseded''
                                            (supersededEventPayload (xq_supersede req) (xq_attempt req) i))
                                      hit (supersede_invocations (wi_id w) (xq_supersede req) W1),
                                    map iv_id hit)))))))"

section \<open>Handlers\<close>

text \<open>
  Every route loads the work item, demands the role of a writer in its project and passes the
  resolved id on.
\<close>

definition workflowCallerRecord :: "user_ctx \<Rightarrow> user_record" where
  "workflowCallerRecord u = \<lparr> ur_id = us_id u, ur_role = us_role u, ur_scope = us_scope u \<rparr>"

definition handlePutWorkflow ::
  "libs \<Rightarrow> reference_data \<Rightarrow> int \<Rightarrow> string \<Rightarrow> user_ctx \<Rightarrow> revision_request \<Rightarrow> workflow_hub \<Rightarrow> workflow_hub outcome" where
  "handlePutWorkflow L D now ref u req W =
     (case load_for (wh_hub W) ref u ''writer'' of
        Inl e \<Rightarrow> Inl e
      | Inr w \<Rightarrow> UpdateWorkItemWorkflow L D now (wi_id w) (workflowCallerRecord u) (us_id u) (us_role u) (us_project_roles u) req W)"

definition handleWorkflowStart ::
  "libs \<Rightarrow> reference_data \<Rightarrow> int \<Rightarrow> start_ids \<Rightarrow> string \<Rightarrow> user_ctx \<Rightarrow> start_request \<Rightarrow> workflow_hub \<Rightarrow>
   (workflow_hub \<times> start_response) outcome" where
  "handleWorkflowStart L D now ids ref u req W =
     (case load_for (wh_hub W) ref u ''writer'' of Inl e \<Rightarrow> Inl e | Inr w \<Rightarrow> StartWorkflowStep L D now ids (wi_id w) req W)"

definition handleWorkflowResult ::
  "libs \<Rightarrow> reference_data \<Rightarrow> int \<Rightarrow> string \<Rightarrow> string \<Rightarrow> user_ctx \<Rightarrow> result_request \<Rightarrow> workflow_hub \<Rightarrow>
   (workflow_hub \<times> recorded_response) outcome" where
  "handleWorkflowResult L D now newID ref u req W =
     (case load_for (wh_hub W) ref u ''writer'' of Inl e \<Rightarrow> Inl e | Inr w \<Rightarrow> RecordWorkflowResult L D now newID (wi_id w) req W)"

definition handleWorkflowApprove ::
  "int \<Rightarrow> string \<Rightarrow> string \<Rightarrow> user_ctx \<Rightarrow> string \<Rightarrow> approve_request \<Rightarrow> workflow_hub \<Rightarrow> (workflow_hub \<times> approval_row) outcome" where
  "handleWorkflowApprove now newID ref u userType req W =
     (case load_for (wh_hub W) ref u ''writer'' of
        Inl e \<Rightarrow> Inl e
      | Inr w \<Rightarrow> ApproveWorkflowStep now newID (wi_id w) (Some (workflowCallerRecord u)) (us_display u) userType req W)"

definition handleWorkflowRepair ::
  "libs \<Rightarrow> int \<Rightarrow> string \<Rightarrow> string \<Rightarrow> user_ctx \<Rightarrow> repair_request \<Rightarrow> workflow_hub \<Rightarrow> (workflow_hub \<times> repair_row) outcome" where
  "handleWorkflowRepair L now newID ref u req W =
     (case load_for (wh_hub W) ref u ''writer'' of Inl e \<Rightarrow> Inl e | Inr w \<Rightarrow> AuthorizeWorkflowRepair L now newID (wi_id w) req W)"

definition handleWorkflowReconcile ::
  "libs \<Rightarrow> int \<Rightarrow> string \<Rightarrow> user_ctx \<Rightarrow> reconcile_request \<Rightarrow> workflow_hub \<Rightarrow> (workflow_hub \<times> string list) outcome" where
  "handleWorkflowReconcile L now ref u req W =
     (case load_for (wh_hub W) ref u ''writer'' of Inl e \<Rightarrow> Inl e | Inr w \<Rightarrow> ReconcileWorkflowInvocations L now (wi_id w) req W)"

end
