(* ===== verification/Workflow_System.thy ===== *)
theory Workflow_System
  imports Workflow_Recovery Hub_System
begin

text \<open>
  The workflow service as a transition system on top of the hub's: every workflow operation is
  a transaction, every transition of the hub is one of the whole. The registry and the other
  tables the service only reads may change between any two transactions. What an operation
  writes is one of seven forms; the invariant is proved on the forms.
\<close>

section \<open>Transitions\<close>

inductive workflow_tx :: "libs \<Rightarrow> workflow_hub \<Rightarrow> workflow_hub \<Rightarrow> bool" for L :: libs where
  wtx_revise: "UpdateWorkItemWorkflow L D now ref caller user role roles req W = Inr W' \<Longrightarrow> workflow_tx L W W'"
| wtx_first: "w \<in> set (h_items (wh_hub W)) \<Longrightarrow> pinFirstWorkflowGenerationInTx L D now w user input W = Inr W' \<Longrightarrow>
    workflow_tx L W W'"
| wtx_rhs: "UpdateWorkItem_rhs ref user role roles rhs (wh_hub W) = Inr H \<Longrightarrow> workflow_tx L W (W\<lparr>wh_hub := H\<rparr>)"
| wtx_start: "StartWorkflowStep L D now ids ref sreq W = Inr (W', so) \<Longrightarrow> workflow_tx L W W'"
| wtx_result: "RecordWorkflowResult L D now newID ref rreq W = Inr (W', rc) \<Longrightarrow> workflow_tx L W W'"
| wtx_approve: "ApproveWorkflowStep now newID ref actor display actorType areq W = Inr (W', ap) \<Longrightarrow> workflow_tx L W W'"
| wtx_repair: "AuthorizeWorkflowRepair L now newID ref preq W = Inr (W', rp) \<Longrightarrow> workflow_tx L W W'"
| wtx_reconcile: "ReconcileWorkflowInvocations L now ref xreq W = Inr (W', n) \<Longrightarrow> workflow_tx L W W'"

record workflow_sys =
  ws_state :: workflow_hub
  ws_takeovers :: "(takeover_ctx \<times> takeover_request \<times> caller) list"
  ws_edges :: "(dependency_request \<times> string) list"

definition hub_side :: "workflow_sys \<Rightarrow> hub_sys" where
  "hub_side s = \<lparr> hs_hub = wh_hub (ws_state s), hs_takeovers = ws_takeovers s, hs_edges = ws_edges s \<rparr>"

inductive wf_step :: "libs \<Rightarrow> (claim_request \<Rightarrow> bool) \<Rightarrow> workflow_sys \<Rightarrow> workflow_sys \<Rightarrow> bool"
  for L :: libs and ok :: "claim_request \<Rightarrow> bool"
where
  wf_hub_step: "sys_step (lib_sha L) ok (hub_side s) t \<Longrightarrow>
    wf_step L ok s (s\<lparr>ws_state := (ws_state s)\<lparr>wh_hub := hs_hub t\<rparr>, ws_takeovers := hs_takeovers t, ws_edges := hs_edges t\<rparr>)"
| wf_workflow_step: "workflow_tx L (ws_state s) W \<Longrightarrow> wf_step L ok s (s\<lparr>ws_state := W\<rparr>)"

definition wf_init :: "workflow_sys \<Rightarrow> bool" where
  "wf_init s \<longleftrightarrow>
     sys_init (hub_side s) \<and> wh_pointers (ws_state s) = [] \<and> wh_generations (ws_state s) = [] \<and>
     wh_invocations (ws_state s) = [] \<and> wh_results (ws_state s) = [] \<and> wh_approvals (ws_state s) = [] \<and>
     wh_repairs (ws_state s) = []"

section \<open>Steps of the hub's side\<close>

lemma insertWorkflowEvent_edits: "edits (wh_hub W) (wh_hub (insertWorkflowEvent w actor display t payload W))"
  unfolding insertWorkflowEvent_def by (simp add: edits_emit [OF edits_refl])

lemma insertWorkflowEvent_rows:
  "insertWorkflowEvent w actor display t payload W = W\<lparr>wh_hub := wh_hub (insertWorkflowEvent w actor display t payload W)\<rparr>"
  by (simp add: insertWorkflowEvent_def)

lemma verify_workflow_Inr:
  assumes "verify_workflow_attempt L now w att e secret W = Inr W1"
  obtains H where "W1 = W\<lparr>wh_hub := H\<rparr>" "edits (wh_hub W) H"
    "verifyAttemptCredential (lib_sha L) now w att e secret (wh_hub W) = Inr H"
  using assms verify_edits [OF _ edits_refl]
  by (auto simp: verify_workflow_attempt_def split: sum.splits)

lemma pauseAttemptForReviewFail_hub:
  "\<exists>H. pauseAttemptForReviewFail now w att r W = W\<lparr>wh_hub := H\<rparr> \<and> keeps_cores (wh_hub W) H"
proof -
  let ?H1 = "update_attempt att (\<lambda>a. a\<lparr>ra_status := APaused, ra_ended := Some now, ra_pause_reason := Some (review_fail_reason r)\<rparr>) (wh_hub W)"
  let ?H2 = "\<lambda>op. fst (releaseLocks (acquireLocksReleasePaused att) op ?H1)"
  have "keeps_cores (wh_hub W) ?H1" by (rule keeps_cores_update_attempt) simp
  moreover have "keeps_cores ?H1 (?H2 op)" for op by (rule keeps_cores_release)
  moreover have "keeps_cores (?H2 op) (update_item (wi_id w) (\<lambda>x. x\<lparr>wi_status := Paused\<rparr>) (?H2 op))" for op
    by (rule keeps_cores_update_item) simp
  ultimately have "keeps_cores (wh_hub W) (update_item (wi_id w) (\<lambda>x. x\<lparr>wi_status := Paused\<rparr>) (?H2 op))" for op
    by (blast intro: keeps_cores_trans)
  then have "keeps_cores (wh_hub W) (wh_hub (pauseAttemptForReviewFail now w att r W))"
    by (simp add: pauseAttemptForReviewFail_def insertWorkflowEvent_def Let_def keeps_cores_trans [OF _ keeps_cores_emit])
  moreover have "pauseAttemptForReviewFail now w att r W = W\<lparr>wh_hub := wh_hub (pauseAttemptForReviewFail now w att r W)\<rparr>"
    by (simp add: pauseAttemptForReviewFail_def insertWorkflowEvent_def Let_def)
  ultimately show ?thesis by blast
qed

lemma attemptActor_Inr:
  "attemptActor W att = Inr u \<Longrightarrow> attempt_by_id (wh_hub W) att \<noteq> None"
  by (auto simp: attemptActor_def split: option.splits)

lemma attempt_known_iff: "attempt_by_id H x \<noteq> None \<longleftrightarrow> x \<in> fst ` set (map attempt_core (h_attempts H))"
  by (force simp: attempt_by_id_def select_one_None)

lemma keeps_cores_attempt_known:
  "keeps_cores H H' \<Longrightarrow> attempt_by_id H' x \<noteq> None \<longleftrightarrow> attempt_by_id H x \<noteq> None"
  unfolding attempt_known_iff by (simp add: keeps_cores_def)

lemma keeps_cores_open_gap:
  assumes "keeps_cores (wh_hub W) H"
  shows "open_invocation_gap (W\<lparr>wh_hub := H\<rparr>) wi v step = open_invocation_gap W wi v step"
  unfolding open_invocation_gap_def using keeps_cores_attempt_known [OF assms] by simp

lemma GetWorkItem_Inr: "GetWorkItem H ref = Inr w \<Longrightarrow> w \<in> set (h_items H)"
  by (auto simp: GetWorkItem_def split: option.splits dest: item_by_ref_Some)

section \<open>The forms\<close>

text \<open>A revision appends the next generation (a first pin: generation 1) and moves the pointer.\<close>

definition adds_generation :: "workflow_hub \<Rightarrow> workflow_hub \<Rightarrow> bool" where
  "adds_generation W W' \<longleftrightarrow>
     (\<exists>g H. W' = W\<lparr>wh_generations := wh_generations W @ [g],
          wh_pointers := (gn_wi g, \<lparr> wp_steps = Some (gn_flow g), wp_version = gn_version g \<rparr>) # wh_pointers W, wh_hub := H\<rparr> \<and>
        \<not> row_exists (\<lambda>x. gn_wi x = gn_wi g \<and> gn_version x = gn_version g) (wh_generations W) \<and>
        (gn_version g = wp_version (pointer_of W (gn_wi g)) + 1 \<or> gn_version g = 1) \<and> keeps_cores (wh_hub W) H)"

text \<open>A start appends an open invocation of the current generation.\<close>

definition adds_invocation :: "workflow_hub \<Rightarrow> workflow_hub \<Rightarrow> bool" where
  "adds_invocation W W' \<longleftrightarrow>
     (\<exists>i H. W' = W\<lparr>wh_invocations := wh_invocations W @ [i], wh_hub := H\<rparr> \<and>
        \<not> row_exists (\<lambda>x. iv_id x = iv_id i \<or> iv_attempt x = iv_attempt i) (wh_invocations W) \<and>
        iv_status i = InvOpen \<and> iv_version i = wp_version (pointer_of W (iv_wi i)) \<and>
        generation_of W (iv_wi i) (iv_version i) \<noteq> None \<and> attempt_by_id H (iv_run i) \<noteq> None \<and>
        open_invocation_gap (W\<lparr>wh_hub := H\<rparr>) (iv_wi i) (iv_version i) (iv_step i) = None \<and>
        iv_repair i \<noteq> Some [] \<and>
        (\<forall>q. iv_repair i = Some q \<longrightarrow>
           (\<exists>p \<in> set (wh_repairs W). rp_id p = q \<and> rp_wi p = iv_wi i \<and> rp_open p \<and> rp_version p = iv_version i \<and>
              list_all (\<lambda>j. rp_kind p \<noteq> KindRetry \<and> iv_step j \<noteq> iv_step i) (bound_invocations W q))) \<and>
        keeps_cores (wh_hub W) H)"

text \<open>A result appends the answer to an open invocation, which is recorded, and may close authorizations.\<close>

definition closings :: "repair_row list \<Rightarrow> repair_row list \<Rightarrow> bool" where
  "closings = list_all2 (\<lambda>p p'. p' = p \<or> p' = p\<lparr>rp_open := False\<rparr>)"

definition adds_result :: "workflow_hub \<Rightarrow> workflow_hub \<Rightarrow> bool" where
  "adds_result W W' \<longleftrightarrow>
     (\<exists>i r repairs H. W' = W\<lparr>wh_invocations := update_where (\<lambda>x. iv_id x = iv_id i) (\<lambda>x. x\<lparr>iv_status := InvRecorded\<rparr>)
          (wh_invocations W), wh_results := wh_results W @ [r], wh_repairs := repairs, wh_hub := H\<rparr> \<and>
        \<not> row_exists (\<lambda>x. wr_id x = wr_id r \<or> wr_invocation x = wr_invocation r \<or> wr_attempt x = wr_attempt r) (wh_results W) \<and>
        i \<in> set (wh_invocations W) \<and> iv_status i = InvOpen \<and>
        (wr_invocation r, wr_wi r, wr_version r, wr_step r, wr_attempt r, wr_run r, wr_epoch r, wr_producer r) =
        (iv_id i, iv_wi i, iv_version i, iv_step i, iv_attempt i, iv_run i, iv_epoch i, iv_producer i) \<and>
        closings (wh_repairs W) repairs \<and> keeps_cores (wh_hub W) H)"

definition adds_approval :: "workflow_hub \<Rightarrow> workflow_hub \<Rightarrow> bool" where
  "adds_approval W W' \<longleftrightarrow>
     (\<exists>a H r. W' = W\<lparr>wh_approvals := wh_approvals W @ [a], wh_hub := H\<rparr> \<and>
        \<not> row_exists (\<lambda>x. ap_id x = ap_id a) (wh_approvals W) \<and>
        decision_on W (ap_wi a) (ap_version a) (ap_step a) (ap_artifact a) = None \<and>
        r \<in> set (wh_results W) \<and>
        (wr_wi r, wr_version r, wr_step r, wr_artifact r) = (ap_wi a, ap_version a, ap_step a, ap_artifact a) \<and>
        keeps_cores (wh_hub W) H)"

definition adds_repair :: "workflow_hub \<Rightarrow> workflow_hub \<Rightarrow> bool" where
  "adds_repair W W' \<longleftrightarrow>
     (\<exists>p H r. W' = W\<lparr>wh_repairs := wh_repairs W @ [p], wh_hub := H\<rparr> \<and>
        \<not> row_exists (\<lambda>x. rp_id x = rp_id p \<or> rp_kind x = rp_kind p \<and> rp_attempt x = rp_attempt p) (wh_repairs W) \<and>
        open_repairs W (rp_wi p) < maxOpenRepairAuthorizations \<and> rp_open p \<and>
        r \<in> set (wh_results W) \<and> (wr_wi r, wr_version r, wr_step r, wr_attempt r) = (rp_wi p, rp_version p, rp_step p, rp_attempt p) \<and>
        (rp_kind p = KindEpisode \<and> wr_verdict r = ReviewFail \<and> rp_parent p = None \<or>
         rp_kind p = KindRetry \<and> wr_status r = StatusProviderError \<and> wr_verdict r \<noteq> ReviewFail \<and>
         (\<exists>parent depth. resolveRetryLineage W (rp_wi p) (rp_attempt p) = Inr (parent, depth) \<and> depth < maxRetryChainDepth)) \<and>
        keeps_cores (wh_hub W) H)"

definition abandons :: "workflow_hub \<Rightarrow> workflow_hub \<Rightarrow> bool" where
  "abandons W W' \<longleftrightarrow>
     (\<exists>wi named H. W' = W\<lparr>wh_invocations := update_where (left_open wi named) (\<lambda>i. i\<lparr>iv_status := InvSuperseded\<rparr>) (wh_invocations W),
          wh_hub := H\<rparr> \<and> keeps_cores (wh_hub W) H)"

definition edits_hub :: "workflow_hub \<Rightarrow> workflow_hub \<Rightarrow> bool" where
  "edits_hub W W' \<longleftrightarrow> (\<exists>H. W' = W\<lparr>wh_hub := H\<rparr> \<and> keeps_cores (wh_hub W) H)"

definition workflow_form :: "workflow_hub \<Rightarrow> workflow_hub \<Rightarrow> bool" where
  "workflow_form W W' \<longleftrightarrow>
     adds_generation W W' \<or> adds_invocation W W' \<or> adds_result W W' \<or> adds_approval W W' \<or> adds_repair W W' \<or>
     abandons W W' \<or> edits_hub W W'"

section \<open>Every operation has a form\<close>

lemma insert_generation_Inr:
  "insert_generation g W = Inr W1 \<Longrightarrow>
   W1 = W\<lparr>wh_generations := wh_generations W @ [g]\<rparr> \<and>
   \<not> row_exists (\<lambda>x. gn_wi x = gn_wi g \<and> gn_version x = gn_version g) (wh_generations W)"
  by (auto simp: insert_generation_def split: if_splits)

lemma move_pointer_generation:
  assumes "insert_generation g W = Inr W1" "gn_version g = wp_version (pointer_of W (gn_wi g)) + 1 \<or> gn_version g = 1"
    and "keeps_cores (wh_hub (move_pointer (gn_wi g) (gn_flow g) (gn_version g) W1)) H"
  shows "adds_generation W ((move_pointer (gn_wi g) (gn_flow g) (gn_version g) W1)\<lparr>wh_hub := H\<rparr>)"
proof -
  note W1 = insert_generation_Inr [OF assms(1)]
  have "keeps_cores (wh_hub W) (update_item (gn_wi g) (\<lambda>w. w\<lparr>wi_workflow_mode := ''db''\<rparr>) (wh_hub W))"
    by (rule keeps_cores_update_item) simp
  with assms(3) W1 have "keeps_cores (wh_hub W) H" by (auto simp: move_pointer_def intro: keeps_cores_trans)
  with W1 assms(2) show ?thesis
    unfolding adds_generation_def by (intro exI [of _ g] exI [of _ H]) (simp add: move_pointer_def)
qed

lemma revise_form:
  assumes "UpdateWorkItemWorkflow L D now ref caller user role roles req W = Inr W'"
  shows "adds_generation W W'"
proof -
  from assms obtain w rhs pin W1 where
    ins: "insert_generation (new_generation (wi_id w) (wp_version (pointer_of W (wi_id w)) + 1) pin rhs user now) W = Inr W1"
    and W': "W' = (let v = wp_version (pointer_of W (wi_id w)) + 1;
        W2 = move_pointer (wi_id w) (vf_flow (po_validated pin)) v W1;
        W3 = W2\<lparr>wh_hub := update_item (wi_id w) (\<lambda>w. w\<lparr>wi_rhs := Some rhs\<rparr>) (wh_hub W2)\<rparr> in
        insertWorkflowEvent w user [] ''workflow_revision''
          (revisionEventPayload v (Some (v - 1)) rhs (length (rv_steps req))) W3)"
    unfolding UpdateWorkItemWorkflow_def Let_def
    by (clarsimp split: option.splits sum.splits if_splits)
  let ?g = "new_generation (wi_id w) (wp_version (pointer_of W (wi_id w)) + 1) pin rhs user now"
  let ?W2 = "move_pointer (gn_wi ?g) (gn_flow ?g) (gn_version ?g) W1"
  let ?H = "update_item (wi_id w) (\<lambda>w. w\<lparr>wi_rhs := Some rhs\<rparr>) (wh_hub ?W2)"
  have "edits ?H (wh_hub W')"
    unfolding W' Let_def using insertWorkflowEvent_edits [of "?W2\<lparr>wh_hub := ?H\<rparr>"] by (simp add: new_generation_def)
  moreover have "keeps_cores (wh_hub ?W2) ?H" by (rule keeps_cores_update_item) simp
  ultimately have "adds_generation W (?W2\<lparr>wh_hub := wh_hub W'\<rparr>)"
    by (intro move_pointer_generation [OF ins]) (auto simp: new_generation_def intro: keeps_cores_trans edits_keeps_cores)
  moreover have "W' = ?W2\<lparr>wh_hub := wh_hub W'\<rparr>"
    unfolding W' Let_def by (simp add: insertWorkflowEvent_def new_generation_def)
  ultimately show ?thesis by simp
qed

lemma first_form:
  assumes "pinFirstWorkflowGenerationInTx L D now w user input W = Inr W'"
  shows "adds_generation W W'"
proof -
  from assms obtain pin W1 where
    ins: "insert_generation (new_generation (wi_id w) 1 pin (pi_rhs input) user now) W = Inr W1"
    and W': "W' = insertWorkflowEvent w user [] ''workflow_revision''
        (revisionEventPayload 1 None (pi_rhs input) (length (pi_steps input)))
        (move_pointer (wi_id w) (vf_flow (po_validated pin)) 1 W1)"
    unfolding pinFirstWorkflowGenerationInTx_def by (clarsimp split: sum.splits)
  let ?g = "new_generation (wi_id w) 1 pin (pi_rhs input) user now"
  let ?W2 = "move_pointer (gn_wi ?g) (gn_flow ?g) (gn_version ?g) W1"
  have "edits (wh_hub ?W2) (wh_hub W')"
    unfolding W' using insertWorkflowEvent_edits [of ?W2] by (simp add: new_generation_def)
  then have "adds_generation W (?W2\<lparr>wh_hub := wh_hub W'\<rparr>)"
    by (intro move_pointer_generation [OF ins]) (auto simp: new_generation_def intro: edits_keeps_cores)
  moreover have "W' = ?W2\<lparr>wh_hub := wh_hub W'\<rparr>"
    unfolding W' by (simp add: insertWorkflowEvent_def new_generation_def)
  ultimately show ?thesis by simp
qed

lemma rhs_form:
  assumes "UpdateWorkItem_rhs ref user role roles rhs (wh_hub W) = Inr H"
  shows "edits_hub W (W\<lparr>wh_hub := H\<rparr>)"
proof -
  have "keeps_cores (wh_hub W) (update_item i (\<lambda>w. w\<lparr>wi_rhs := Some rhs\<rparr>) (wh_hub W))" for i
    by (rule keeps_cores_update_item) simp
  with assms have "keeps_cores (wh_hub W) H"
    unfolding UpdateWorkItem_rhs_def by (auto split: sum.splits option.splits)
  then show ?thesis unfolding edits_hub_def by blast
qed

text \<open>A start that binds a repair passed the check of the authorization.\<close>

lemma repair_binding_gap_None:
  assumes "repair_binding_gap W fl grants meta step p failed = None"
  shows "list_all (\<lambda>j. rp_kind p \<noteq> KindRetry \<and> iv_step j \<noteq> step) (bound_invocations W (rp_id p))"
  using assms
  by (cases "rp_kind p") (auto simp: repair_binding_gap_def list_all_iff list_ex_iff split: if_splits)

lemma repair_start_check_None:
  assumes "repair_start_check W wi v fl grants meta step repair wiRHS = None"
  obtains p failed where "select_one (\<lambda>p. rp_id p = repair \<and> rp_wi p = wi) (wh_repairs W) = Some p"
    "rp_open p" "rp_version p = v" "latestWorkflowResult W wi v (rp_step p) = Some failed" "wr_attempt failed = rp_attempt p"
    "repair_binding_gap W fl grants meta step p failed = None"
    "checkWorkflowStartApprovals W wi v fl wiRHS step (rp_step p) = None"
  using assms unfolding repair_start_check_def by (auto split: option.splits if_splits)

lemma mint_invocation_Inr:
  assumes "mint_invocation now ids w req v target pin wiRHS W = Inr (W', so)"
  obtains H where "edits (wh_hub W) H"
    "W' = W\<lparr>wh_invocations := wh_invocations W @ [so_invocation so], wh_hub := H\<rparr>"
    "iv_wi (so_invocation so) = wi_id w" "iv_version (so_invocation so) = v" "iv_step (so_invocation so) = fs_id target"
    "iv_run (so_invocation so) = st_attempt req" "iv_epoch (so_invocation so) = st_epoch req"
    "iv_status (so_invocation so) = InvOpen" "iv_repair (so_invocation so) = nilIfEmpty (st_repair req)"
    "iv_grant (so_invocation so) = grant_in (map_of (po_grants pin)) (fs_id target)"
    "\<not> row_exists (\<lambda>x. iv_id x = iv_id (so_invocation so) \<or> iv_attempt x = iv_attempt (so_invocation so)) (wh_invocations W)"
    "generation_of W (wi_id w) v \<noteq> None" "attempt_by_id (wh_hub W) (st_attempt req) \<noteq> None"
    "so_step so = target" "so_effective_rhs so = (wiRHS \<and> fs_rhs target = Some True)"
proof -
  let ?i = "\<lparr> iv_id = si_invocation ids, iv_wi = wi_id w, iv_version = v, iv_step = fs_id target,
                iv_attempt = si_attempt ids, iv_run = st_attempt req, iv_epoch = st_epoch req, iv_producer = si_producer ids,
                iv_grant = grant_in (map_of (po_grants pin)) (fs_id target), iv_status = InvOpen,
                iv_repair = nilIfEmpty (st_repair req), iv_created = now \<rparr>"
  let ?W1 = "W\<lparr>wh_invocations := wh_invocations W @ [?i]\<rparr>"
  from assms obtain actor display where
    ins: "insert_invocation ?i W = Inr ?W1" "attemptActor ?W1 (st_attempt req) = Inr (actor, display)"
    and W': "W' = insertWorkflowEvent w actor display ''workflow_invocation_started'' (startedEventPayload ?i (st_repair req)) ?W1"
    and so: "so = \<lparr> so_invocation = ?i, so_step = target, so_effective_rhs = (wiRHS \<and> fs_rhs target = Some True) \<rparr>"
    unfolding mint_invocation_def Let_def insert_invocation_def by (clarsimp split: sum.splits if_splits)
  have H: "W' = ?W1\<lparr>wh_hub := wh_hub W'\<rparr>" "edits (wh_hub ?W1) (wh_hub W')"
    unfolding W' by (rule insertWorkflowEvent_rows, rule insertWorkflowEvent_edits)
  show thesis
  proof (rule that [of "wh_hub W'"])
    show "\<not> row_exists (\<lambda>x. iv_id x = iv_id (so_invocation so) \<or> iv_attempt x = iv_attempt (so_invocation so)) (wh_invocations W)"
      "generation_of W (wi_id w) v \<noteq> None"
      using ins(1) unfolding so by (simp_all add: insert_invocation_def split: if_splits)
    show "attempt_by_id (wh_hub W) (st_attempt req) \<noteq> None" using attemptActor_Inr [OF ins(2)] by simp
  qed (use H in \<open>simp_all add: so\<close>)
qed

lemma start_Inr:
  assumes "StartWorkflowStep L D now ids ref req W = Inr (W', so)"
  obtains w W1 v fl pin target where "GetWorkItem (wh_hub W) ref = Inr w"
    "verify_workflow_attempt L now w (st_attempt req) (st_epoch req) (st_secret req) W = Inr W1"
    "v = wp_version (pointer_of W1 (wi_id w))" "v \<noteq> 0" "wi_status w = Running"
    "revalidateWorkflowGeneration L D W1 v (st_attempt req) (wi_rhs w = Some True) = Inr (fl, pin)"
    "flow_step_of fl (st_step req) = Some target" "open_invocation_gap W1 (wi_id w) v (fs_id target) = None"
    "checkWorkflowStartOrdering W1 (wi_id w) v fl (po_grants pin) (po_meta pin) target
       (workflowStepIndex fl (st_step req)) (st_repair req) (wi_rhs w = Some True) = None"
    "mint_invocation now ids w req v target pin (wi_rhs w = Some True) W1 = Inr (W', so)"
proof -
  from assms obtain w W1 fl pin target where *: "GetWorkItem (wh_hub W) ref = Inr w"
    "verify_workflow_attempt L now w (st_attempt req) (st_epoch req) (st_secret req) W = Inr W1"
    "wp_version (pointer_of W1 (wi_id w)) \<noteq> 0" "wi_status w = Running"
    "revalidateWorkflowGeneration L D W1 (wp_version (pointer_of W1 (wi_id w))) (st_attempt req) (wi_rhs w = Some True) =
     Inr (fl, pin)"
    "flow_step_of fl (st_step req) = Some target"
    "open_invocation_gap W1 (wi_id w) (wp_version (pointer_of W1 (wi_id w))) (fs_id target) = None"
    "checkWorkflowStartOrdering W1 (wi_id w) (wp_version (pointer_of W1 (wi_id w))) fl (po_grants pin) (po_meta pin) target
       (workflowStepIndex fl (st_step req)) (st_repair req) (wi_rhs w = Some True) = None"
    "mint_invocation now ids w req (wp_version (pointer_of W1 (wi_id w))) target pin (wi_rhs w = Some True) W1 = Inr (W', so)"
    unfolding StartWorkflowStep_def Let_def
    by (clarsimp split: if_splits sum.splits option.splits prod.splits)
  show thesis by (rule that [OF *(1,2) refl *(3-9)])
qed

lemma start_form:
  assumes "StartWorkflowStep L D now ids ref req W = Inr (W', so)"
  shows "adds_invocation W W'"
  using assms
proof (cases rule: start_Inr)
  case (1 w W1 v fl pin target)
  let ?i = "so_invocation so"
  from 1(2) obtain H1 where W1: "W1 = W\<lparr>wh_hub := H1\<rparr>" "edits (wh_hub W) H1" by (rule verify_workflow_Inr)
  from 1(10) obtain H where H: "edits (wh_hub W1) H" "W' = W1\<lparr>wh_invocations := wh_invocations W1 @ [?i], wh_hub := H\<rparr>"
    and i: "iv_wi ?i = wi_id w" "iv_version ?i = v" "iv_step ?i = fs_id target" "iv_run ?i = st_attempt req"
      "iv_status ?i = InvOpen" "iv_repair ?i = nilIfEmpty (st_repair req)"
    and new: "\<not> row_exists (\<lambda>x. iv_id x = iv_id ?i \<or> iv_attempt x = iv_attempt ?i) (wh_invocations W1)"
      "generation_of W1 (wi_id w) v \<noteq> None" "attempt_by_id (wh_hub W1) (st_attempt req) \<noteq> None"
    by (rule mint_invocation_Inr)
  have bound: "\<exists>p \<in> set (wh_repairs W). rp_id p = q \<and> rp_wi p = iv_wi ?i \<and> rp_open p \<and> rp_version p = iv_version ?i \<and>
      list_all (\<lambda>j. rp_kind p \<noteq> KindRetry \<and> iv_step j \<noteq> iv_step ?i) (bound_invocations W q)"
    if "iv_repair ?i = Some q" for q
  proof -
    from that have q: "st_repair req = q" "q \<noteq> []" by (auto simp: i nilIfEmpty_def split: if_splits)
    with 1(9) obtain fl' grants meta wiRHS where "repair_start_check W1 (wi_id w) v fl' grants meta (fs_id target) q wiRHS = None"
      by (auto simp: checkWorkflowStartOrdering_def split: if_splits)
    then obtain p failed where p: "select_one (\<lambda>p. rp_id p = q \<and> rp_wi p = wi_id w) (wh_repairs W1) = Some p"
      "rp_open p" "rp_version p = v" "repair_binding_gap W1 fl' grants meta (fs_id target) p failed = None"
      by (rule repair_start_check_None)
    from select_one_Some [OF p(1)] repair_binding_gap_None [OF p(4)] p(2,3) show ?thesis
      by (intro bexI [of _ p]) (auto simp: i W1 bound_invocations_def)
  qed
  have k: "keeps_cores (wh_hub W1) H" by (rule edits_keeps_cores [OF H(1)])
  have known: "attempt_by_id H (iv_run ?i) \<noteq> None"
    using new(3) keeps_cores_attempt_known [OF k] by (simp add: i)
  have gap: "open_invocation_gap (W\<lparr>wh_hub := H\<rparr>) (iv_wi ?i) (iv_version ?i) (iv_step ?i) = None"
    using keeps_cores_open_gap [OF k] 1(8) by (simp add: W1 i)
  show ?thesis
    unfolding adds_invocation_def
  proof (intro exI conjI)
    show "W' = W\<lparr>wh_invocations := wh_invocations W @ [?i], wh_hub := H\<rparr>" using H(2) by (simp add: W1)
    show "keeps_cores (wh_hub W) H" 
      using keeps_cores_trans [OF edits_keeps_cores [OF W1(2)], of H] k by (simp add: W1(1))
    show "\<not> row_exists (\<lambda>x. iv_id x = iv_id ?i \<or> iv_attempt x = iv_attempt ?i) (wh_invocations W)" using new(1) by (simp add: W1)
    show "iv_repair ?i \<noteq> Some []" by (simp add: i nilIfEmpty_def)
    show "iv_version ?i = wp_version (pointer_of W (iv_wi ?i))" using 1(3) by (simp add: i W1 pointer_of_def)
    show "generation_of W (iv_wi ?i) (iv_version ?i) \<noteq> None" using new(2) by (simp add: i W1 generation_of_def)
    show "\<forall>q. iv_repair ?i = Some q \<longrightarrow>
      (\<exists>p \<in> set (wh_repairs W). rp_id p = q \<and> rp_wi p = iv_wi ?i \<and> rp_open p \<and> rp_version p = iv_version ?i \<and>
         list_all (\<lambda>j. rp_kind p \<noteq> KindRetry \<and> iv_step j \<noteq> iv_step ?i) (bound_invocations W q))"
      using bound by blast
  qed (fact known gap i(5))+
qed

subsection \<open>Recording\<close>

lemma closings_refl: "closings ps ps"
  unfolding closings_def by (rule list_all2_refl) simp

lemma closings_trans: "closings ps qs \<Longrightarrow> closings qs rs \<Longrightarrow> closings ps rs"
  unfolding closings_def
  by (rule list_all2_trans [of "\<lambda>p p'. p' = p \<or> p' = p\<lparr>rp_open := False\<rparr>" "\<lambda>p p'. p' = p \<or> p' = p\<lparr>rp_open := False\<rparr>"]) auto

lemma close_repair_closings: "closings (wh_repairs W) (wh_repairs (close_repair p W))"
  unfolding closings_def close_repair_def update_where_def by (auto simp: list_all2_map2 intro: list_all2_refl)

lemma closeRepairEpisodeIfComplete_Inr:
  assumes "closeRepairEpisodeIfComplete p W = Inr W'"
  shows "W' = W\<lparr>wh_repairs := wh_repairs W'\<rparr> \<and> closings (wh_repairs W) (wh_repairs W')"
proof -
  from assms have "W' = W \<or> W' = close_repair p W"
    unfolding closeRepairEpisodeIfComplete_def by (auto split: option.splits if_splits sum.splits)
  then show ?thesis using close_repair_closings [of W p] by (auto simp: closings_refl close_repair_def)
qed

lemma close_bound_repair_Inr:
  assumes "close_bound_repair q W = Inr W'"
  shows "W' = W\<lparr>wh_repairs := wh_repairs W'\<rparr> \<and> closings (wh_repairs W) (wh_repairs W')"
proof -
  have parent: "W2 = W1\<lparr>wh_repairs := wh_repairs W2\<rparr> \<and> closings (wh_repairs W1) (wh_repairs W2)"
    if "closeParentEpisodeAfterRetry p W1 = Inr W2" for p W1 W2
    using that closeRepairEpisodeIfComplete_Inr unfolding closeParentEpisodeAfterRetry_def
    by (auto simp: closings_refl split: option.splits if_splits)
  show ?thesis
  proof (cases "q = None \<or> q = Some []")
    case True
    with assms have "W' = W" by (auto simp: close_bound_repair_def)
    then show ?thesis by (simp add: closings_refl)
  next
    case False
    with assms obtain p W1 where "closeRepairEpisodeIfComplete p W = Inr W1" "closeParentEpisodeAfterRetry p W1 = Inr W'"
      by (auto simp: close_bound_repair_def split: sum.splits if_splits)
    from closeRepairEpisodeIfComplete_Inr [OF this(1)] parent [OF this(2)]
    have "closings (wh_repairs W) (wh_repairs W')" "W' = W\<lparr>wh_repairs := wh_repairs W1, wh_repairs := wh_repairs W'\<rparr>"
      by (auto intro: closings_trans)
    then show ?thesis by simp
  qed
qed

lemma result_fence_Inr:
  assumes "result_fence L D w req r W = Inr i"
  obtains "i \<in> set (wh_invocations W)" "iv_wi i = wi_id w" "iv_version i = wp_version (pointer_of W (wi_id w))"
    "sr_flow_version r = iv_version i" "sr_wi r = wi_id w"
    "iv_step i = sr_step r" "iv_attempt i = sr_attempt r" "iv_run i = rs_attempt req" "iv_epoch i = rs_epoch req"
    "iv_epoch i = sr_epoch r" "iv_producer i = sr_producer r" "iv_status i = InvOpen"
    "\<exists>m. workflowStepMetaFor W (wi_id w) (iv_version i) (sr_step r) = Inr m \<and> validateWorkflowResultShape r m = None"
    "sr_status r = StatusCompleted \<Longrightarrow> resolveCompletedResultArtifact L D W w (rs_attempt req) r = None"
proof -
  let ?v = "wp_version (pointer_of W (wi_id w))"
  from assms obtain m where load: "loadOpenInvocation W (wi_id w) ?v (sr_step r) (sr_attempt r) = Inr i"
    and r: "sr_flow_version r = ?v" "sr_wi r = wi_id w" "iv_run i = rs_attempt req" "iv_epoch i = rs_epoch req"
      "iv_epoch i = sr_epoch r" "iv_producer i = sr_producer r"
    and m: "workflowStepMetaFor W (wi_id w) ?v (sr_step r) = Inr m" "validateWorkflowResultShape r m = None"
    and a: "sr_status r = StatusCompleted \<Longrightarrow> resolveCompletedResultArtifact L D W w (rs_attempt req) r = None"
    unfolding result_fence_def Let_def by (auto split: if_splits sum.splits option.splits)
  from load have "select_one (\<lambda>i. iv_wi i = wi_id w \<and> iv_version i = ?v \<and> iv_attempt i = sr_attempt r) (wh_invocations W) = Some i"
    "iv_step i = sr_step r" "iv_status i = InvOpen"
    by (auto simp: loadOpenInvocation_def split: option.splits if_splits)
  with select_one_Some [OF this(1)] r m a show thesis by (intro that) auto
qed

lemma record_Inr:
  assumes "RecordWorkflowResult L D now newID ref req W = Inr (W', rc)"
  obtains j r w W1 i where "rs_result req = Some j" "UnmarshalStepResult j = Some r" "GetWorkItem (wh_hub W) ref = Inr w"
    "verify_workflow_attempt L now w (rs_attempt req) (rs_epoch req) (rs_secret req) W = Inr W1"
    "result_fence L D w req r W1 = Inr i" "write_result now newID w req r i W1 = Inr (W', rc)"
  using assms that unfolding RecordWorkflowResult_def
  by (simp split: option.splits sum.splits)

lemma optional_pause_hub:
  "\<exists>H. (if c then pauseAttemptForReviewFail now w att r W else W) = W\<lparr>wh_hub := H\<rparr> \<and> keeps_cores (wh_hub W) H"
proof (cases c)
  case False
  have "W = W\<lparr>wh_hub := wh_hub W\<rparr>" by simp
  with False show ?thesis by (simp only: if_False) blast
qed (use pauseAttemptForReviewFail_hub in simp)

lemma write_result_Inr:
  assumes "write_result now newID w req r i W = Inr (W', rc)"
  obtains H where "keeps_cores (wh_hub W) H"
    "W' = W\<lparr>wh_invocations := update_where (\<lambda>x. iv_id x = iv_id i) (\<lambda>x. x\<lparr>iv_status := InvRecorded\<rparr>) (wh_invocations W),
       wh_results := wh_results W @ [rc_result rc], wh_repairs := wh_repairs W', wh_hub := H\<rparr>"
    "rc_result rc = result_row now newID (wi_id w) (iv_id i) (wp_version (pointer_of W (wi_id w))) (rs_attempt req) (rs_epoch req) r"
    "\<not> row_exists (\<lambda>x. wr_id x = wr_id (rc_result rc) \<or> wr_invocation x = wr_invocation (rc_result rc) \<or>
        wr_attempt x = wr_attempt (rc_result rc)) (wh_results W)"
    "closings (wh_repairs W) (wh_repairs W')" "rc_paused rc \<longleftrightarrow> sr_verdict r = ReviewFail"
proof -
  let ?row = "result_row now newID (wi_id w) (iv_id i) (wp_version (pointer_of W (wi_id w))) (rs_attempt req) (rs_epoch req) r"
  let ?W2 = "mark_recorded (iv_id i) (W\<lparr>wh_results := wh_results W @ [?row]\<rparr>)"
  from assms obtain actor display t where
    new: "\<not> row_exists (\<lambda>x. wr_id x = wr_id ?row \<or> wr_invocation x = wr_invocation ?row \<or> wr_attempt x = wr_attempt ?row)
            (wh_results W)"
    and close: "close_bound_repair (iv_repair i)
        ((\<lambda>W3. if sr_verdict r = ReviewFail then pauseAttemptForReviewFail now w (rs_attempt req) r W3 else W3)
          (insertWorkflowEvent w actor display t (resultEventPayload (wp_version (pointer_of W (wi_id w))) r) ?W2)) = Inr W'"
    and rc: "rc = \<lparr> rc_result = ?row, rc_paused = (sr_verdict r = ReviewFail) \<rparr>"
    unfolding write_result_def Let_def insert_result_def by (auto split: if_splits sum.splits prod.splits)
  let ?W3 = "insertWorkflowEvent w actor display t (resultEventPayload (wp_version (pointer_of W (wi_id w))) r) ?W2"
  let ?W4 = "if sr_verdict r = ReviewFail then pauseAttemptForReviewFail now w (rs_attempt req) r ?W3 else ?W3"
  have k3: "keeps_cores (wh_hub W) (wh_hub ?W3)"
    using edits_keeps_cores [OF insertWorkflowEvent_edits [of ?W2]] by (simp add: mark_recorded_def)
  obtain H where H: "?W4 = ?W3\<lparr>wh_hub := H\<rparr>" "keeps_cores (wh_hub ?W3) H"
    using optional_pause_hub by blast
  from close have c: "W' = ?W4\<lparr>wh_repairs := wh_repairs W'\<rparr>" "closings (wh_repairs ?W4) (wh_repairs W')"
    using close_bound_repair_Inr by blast+
  have rows: "?W4 = W\<lparr>wh_invocations := wh_invocations ?W2, wh_results := wh_results W @ [?row], wh_hub := H\<rparr>"
    unfolding H(1) by (subst insertWorkflowEvent_rows) (simp add: mark_recorded_def)
  show thesis
  proof (rule that)
    show "keeps_cores (wh_hub W) H" using k3 H(2) by (rule keeps_cores_trans)
    show "W' = W\<lparr>wh_invocations := update_where (\<lambda>x. iv_id x = iv_id i) (\<lambda>x. x\<lparr>iv_status := InvRecorded\<rparr>) (wh_invocations W),
       wh_results := wh_results W @ [rc_result rc], wh_repairs := wh_repairs W', wh_hub := H\<rparr>"
      by (subst c(1), subst rows) (simp add: rc mark_recorded_def)
    show "closings (wh_repairs W) (wh_repairs W')" using c(2) unfolding rows by simp
  qed (use new in \<open>simp_all add: rc\<close>)
qed

lemma record_form:
  assumes "RecordWorkflowResult L D now newID ref req W = Inr (W', rc)"
  shows "adds_result W W'"
  using assms
proof (cases rule: record_Inr)
  case (1 j r w W1 i)
  from 1(4) obtain H1 where W1: "W1 = W\<lparr>wh_hub := H1\<rparr>" "edits (wh_hub W) H1" by (rule verify_workflow_Inr)
  from 1(5) have i: "i \<in> set (wh_invocations W1)" "iv_wi i = wi_id w" "iv_version i = wp_version (pointer_of W1 (wi_id w))"
    "iv_step i = sr_step r" "iv_attempt i = sr_attempt r" "iv_run i = rs_attempt req" "iv_epoch i = rs_epoch req"
    "iv_producer i = sr_producer r" "iv_status i = InvOpen"
    using result_fence_Inr [of L D w req r W1 i] by blast+
  from 1(6) show ?thesis
  proof (rule write_result_Inr)
    fix H
    assume H: "keeps_cores (wh_hub W1) H"
      "W' = W1\<lparr>wh_invocations := update_where (\<lambda>x. iv_id x = iv_id i) (\<lambda>x. x\<lparr>iv_status := InvRecorded\<rparr>) (wh_invocations W1),
         wh_results := wh_results W1 @ [rc_result rc], wh_repairs := wh_repairs W', wh_hub := H\<rparr>"
      "rc_result rc = result_row now newID (wi_id w) (iv_id i) (wp_version (pointer_of W1 (wi_id w))) (rs_attempt req) (rs_epoch req) r"
      "\<not> row_exists (\<lambda>x. wr_id x = wr_id (rc_result rc) \<or> wr_invocation x = wr_invocation (rc_result rc) \<or>
          wr_attempt x = wr_attempt (rc_result rc)) (wh_results W1)"
      "closings (wh_repairs W1) (wh_repairs W')"
    have "keeps_cores (wh_hub W) H"
      using keeps_cores_trans [OF edits_keeps_cores [OF W1(2)], of H] H(1) by (simp add: W1(1))
    moreover have "W' = W\<lparr>wh_invocations := update_where (\<lambda>x. iv_id x = iv_id i) (\<lambda>x. x\<lparr>iv_status := InvRecorded\<rparr>) (wh_invocations W),
         wh_results := wh_results W @ [rc_result rc], wh_repairs := wh_repairs W', wh_hub := H\<rparr>"
      using H(2) by (simp add: W1(1))
    moreover have "(wr_invocation (rc_result rc), wr_wi (rc_result rc), wr_version (rc_result rc), wr_step (rc_result rc),
         wr_attempt (rc_result rc), wr_run (rc_result rc), wr_epoch (rc_result rc), wr_producer (rc_result rc)) =
       (iv_id i, iv_wi i, iv_version i, iv_step i, iv_attempt i, iv_run i, iv_epoch i, iv_producer i)"
      using i unfolding H(3) result_row_def by simp
    moreover have "i \<in> set (wh_invocations W)" "closings (wh_repairs W) (wh_repairs W')"
      "\<not> row_exists (\<lambda>x. wr_id x = wr_id (rc_result rc) \<or> wr_invocation x = wr_invocation (rc_result rc) \<or>
          wr_attempt x = wr_attempt (rc_result rc)) (wh_results W)"
      using i(1) H(4,5) by (simp_all add: W1(1))
    ultimately show ?thesis unfolding adds_result_def using i(9) by blast
  qed
qed

subsection \<open>Decisions and recoveries\<close>

lemma latest_row_Some:
  assumes "latest_row rs = Some r"
  shows "r \<in> set rs"
proof -
  from assms have "sort_key result_order rs \<noteq> []" "r = last (sort_key result_order rs)"
    unfolding latest_row_def by (simp_all split: list.splits)
  from last_in_set [OF this(1)] this(2) show ?thesis by simp
qed

lemma latestWorkflowResult_Some:
  "latestWorkflowResult W wi v step = Some r \<Longrightarrow> r \<in> set (wh_results W) \<and> wr_wi r = wi \<and> wr_version r = v \<and> wr_step r = step"
  unfolding latestWorkflowResult_def by (drule latest_row_Some) simp

lemma approval_target_Inr:
  assumes "approval_target W w req = Inr r"
  obtains fl s where "wp_version (pointer_of W (wi_id w)) \<noteq> 0" "aq_version req = wp_version (pointer_of W (wi_id w))"
    "wp_steps (pointer_of W (wi_id w)) = Some fl" "flow_step_of fl (aq_step req) = Some s"
    "wi_rhs w = Some True" "fs_rhs s = Some True"
    "latestWorkflowResult W (wi_id w) (aq_version req) (aq_step req) = Some r" "wr_artifact r = aq_artifact req"
  using assms unfolding approval_target_def Let_def by (auto split: if_splits option.splits)

lemma approve_Inr:
  assumes "ApproveWorkflowStep now newID ref actor display actorType req W = Inr (W', a)"
  obtains u w r decision where "decision_of (aq_decision req) = Some decision" "actorType = ''human''"
    "actor = Some u" "ur_id u \<noteq> []" "GetWorkItem (wh_hub W) ref = Inr w" "approval_target W w req = Inr r"
    "record_decision now newID w u display req decision W = Inr (W', a)"
  using assms unfolding ApproveWorkflowStep_def by (auto split: if_splits option.splits sum.splits)

lemma record_decision_Inr:
  assumes "record_decision now newID w u display req decision W = Inr (W', a)"
  shows "ap_wi a = wi_id w \<and> ap_version a = aq_version req \<and> ap_step a = aq_step req \<and> ap_artifact a = aq_artifact req \<and>
     ap_decision a = decision \<and>
     (W' = W \<and> decision_on W (wi_id w) (aq_version req) (aq_step req) (aq_artifact req) = Some a \<or>
      W' = W\<lparr>wh_approvals := wh_approvals W @ [a], wh_hub := wh_hub W'\<rparr> \<and> edits (wh_hub W) (wh_hub W') \<and>
      ap_actor a = ur_id u \<and> decision_on W (wi_id w) (aq_version req) (aq_step req) (aq_artifact req) = None \<and>
      \<not> row_exists (\<lambda>x. ap_id x = ap_id a) (wh_approvals W))"
proof (cases "decision_on W (wi_id w) (aq_version req) (aq_step req) (aq_artifact req)")
  case None
  let ?a = "\<lparr> ap_id = newID, ap_wi = wi_id w, ap_version = aq_version req, ap_step = aq_step req,
      ap_artifact = aq_artifact req, ap_decision = decision, ap_actor = ur_id u, ap_display = display, ap_created = now \<rparr>"
  let ?W1 = "W\<lparr>wh_approvals := wh_approvals W @ [?a]\<rparr>"
  from assms None have a: "a = ?a" "\<not> row_exists (\<lambda>x. ap_id x = newID) (wh_approvals W)"
    and W': "W' = insertWorkflowEvent w (ur_id u) display ''workflow_approval'' (approvalEventPayload req) ?W1"
    unfolding record_decision_def Let_def insert_approval_def by (auto split: if_splits sum.splits)
  have "edits (wh_hub ?W1) (wh_hub W')" unfolding W' by (rule insertWorkflowEvent_edits)
  moreover have "W' = ?W1\<lparr>wh_hub := wh_hub W'\<rparr>" unfolding W' by (rule insertWorkflowEvent_rows)
  ultimately show ?thesis using None a by simp
next
  case (Some b)
  with assms have "a = b" "W' = W" "ap_decision b = decision" by (auto simp: record_decision_def split: if_splits)
  with Some select_one_Some [OF Some [unfolded decision_on_def]] show ?thesis by simp
qed

lemma approve_form:
  assumes "ApproveWorkflowStep now newID ref actor display actorType req W = Inr (W', a)"
  shows "adds_approval W W' \<or> edits_hub W W'"
  using assms
proof (cases rule: approve_Inr)
  case (1 u w r decision)
  from 1(6) have r: "aq_version req = wp_version (pointer_of W (wi_id w))"
    "latestWorkflowResult W (wi_id w) (aq_version req) (aq_step req) = Some r" "wr_artifact r = aq_artifact req"
    by (auto elim: approval_target_Inr)
  from record_decision_Inr [OF 1(7)] have a: "ap_wi a = wi_id w" "ap_version a = aq_version req" "ap_step a = aq_step req"
    "ap_artifact a = aq_artifact req"
    and w: "W' = W \<or> W' = W\<lparr>wh_approvals := wh_approvals W @ [a], wh_hub := wh_hub W'\<rparr> \<and> edits (wh_hub W) (wh_hub W') \<and>
      decision_on W (ap_wi a) (ap_version a) (ap_step a) (ap_artifact a) = None \<and> \<not> row_exists (\<lambda>x. ap_id x = ap_id a) (wh_approvals W)"
    by auto
  from w show ?thesis
  proof
    assume "W' = W"
    then have "W' = W\<lparr>wh_hub := wh_hub W\<rparr>" by simp
    then have "edits_hub W W'" unfolding edits_hub_def by blast
    then show ?thesis ..
  next
    assume *: "W' = W\<lparr>wh_approvals := wh_approvals W @ [a], wh_hub := wh_hub W'\<rparr> \<and> edits (wh_hub W) (wh_hub W') \<and>
      decision_on W (ap_wi a) (ap_version a) (ap_step a) (ap_artifact a) = None \<and> \<not> row_exists (\<lambda>x. ap_id x = ap_id a) (wh_approvals W)"
    have "r \<in> set (wh_results W)" "(wr_wi r, wr_version r, wr_step r, wr_artifact r) = (ap_wi a, ap_version a, ap_step a, ap_artifact a)"
      using latestWorkflowResult_Some [OF r(2)] r(3) a by auto
    with * have "adds_approval W W'" unfolding adds_approval_def by (blast intro: edits_keeps_cores)
    then show ?thesis ..
  qed
qed

lemma repair_target_Inr:
  assumes "repair_target W w kind att = Inr (failed, parent)"
  obtains m where "failed \<in> set (wh_results W)" "wr_wi failed = wi_id w" "wr_attempt failed = att"
    "wr_version failed = wp_version (pointer_of W (wi_id w))"
    "workflowStepMetaFor W (wi_id w) (wr_version failed) (wr_step failed) = Inr m"
    "repair_kind_check W (wi_id w) kind failed m = Inr parent"
proof -
  from assms obtain m where "select_one (\<lambda>r. wr_wi r = wi_id w \<and> wr_attempt r = att) (wh_results W) = Some failed"
    "wr_version failed = wp_version (pointer_of W (wi_id w))"
    "workflowStepMetaFor W (wi_id w) (wr_version failed) (wr_step failed) = Inr m"
    "repair_kind_check W (wi_id w) kind failed m = Inr parent"
    unfolding repair_target_def Let_def by (auto split: if_splits option.splits sum.splits)
  with select_one_Some [OF this(1)] show thesis by (intro that) auto
qed

lemma repair_kind_check_Inr:
  assumes "repair_kind_check W wi kind failed m = Inr parent"
  shows "kind = KindEpisode \<and> wr_verdict failed = ReviewFail \<and> stepMetaIsReview m \<and> parent = None \<or>
     kind = KindRetry \<and> wr_status failed = StatusProviderError \<and> wr_verdict failed \<noteq> ReviewFail \<and>
     (\<exists>depth. resolveRetryLineage W wi (wr_attempt failed) = Inr (parent, depth) \<and> depth < maxRetryChainDepth)"
  using assms unfolding repair_kind_check_def
  by (cases kind) (auto split: if_splits sum.splits prod.splits)

lemma open_repair_Inr:
  assumes "open_repair now newID w req kind failed parent W = Inr (W', p)"
  shows "W' = W\<lparr>wh_repairs := wh_repairs W @ [p], wh_hub := wh_hub W'\<rparr>" and "edits (wh_hub W) (wh_hub W')"
    and "\<not> row_exists (\<lambda>x. rp_id x = rp_id p \<or> rp_kind x = rp_kind p \<and> rp_attempt x = rp_attempt p) (wh_repairs W)"
    and "open_repairs W (wi_id w) < maxOpenRepairAuthorizations" and "rp_wi p = wi_id w" and "rp_kind p = kind"
    and "rp_version p = wp_version (pointer_of W (wi_id w))" and "rp_step p = wr_step failed" and "rp_attempt p = pq_failed req"
    and "rp_open p" and "rp_parent p = (if parent = Some [] then None else parent)" and "rp_run p = pq_attempt req"
proof -
  from assms obtain actor where
    p: "\<not> row_exists (\<lambda>x. rp_id x = rp_id p \<or> rp_kind x = rp_kind p \<and> rp_attempt x = rp_attempt p) (wh_repairs W)"
      "open_repairs W (wi_id w) < maxOpenRepairAuthorizations"
      "p = \<lparr> rp_id = newID, rp_wi = wi_id w, rp_kind = kind, rp_version = wp_version (pointer_of W (wi_id w)),
          rp_step = wr_step failed, rp_attempt = pq_failed req, rp_reason = trim_space (pq_reason req),
          rp_run = pq_attempt req, rp_epoch = pq_epoch req, rp_by = actor, rp_open = True,
          rp_parent = (if parent = Some [] then None else parent), rp_created = now \<rparr>"
    and W': "W' = insertWorkflowEvent w actor [] ''workflow_repair_authorized'' (repairEventPayload p (pq_kind req))
        (W\<lparr>wh_repairs := wh_repairs W @ [p]\<rparr>)"
    unfolding open_repair_def Let_def insert_repair_def by (auto split: if_splits sum.splits prod.splits)
  let ?W1 = "W\<lparr>wh_repairs := wh_repairs W @ [p]\<rparr>"
  have "edits (wh_hub ?W1) (wh_hub W')" unfolding W' by (rule insertWorkflowEvent_edits)
  moreover have "W' = ?W1\<lparr>wh_hub := wh_hub W'\<rparr>" unfolding W' by (rule insertWorkflowEvent_rows)
  ultimately show "W' = W\<lparr>wh_repairs := wh_repairs W @ [p], wh_hub := wh_hub W'\<rparr>" "edits (wh_hub W) (wh_hub W')" by simp_all
  show "\<not> row_exists (\<lambda>x. rp_id x = rp_id p \<or> rp_kind x = rp_kind p \<and> rp_attempt x = rp_attempt p) (wh_repairs W)"
    by (rule p(1))
qed (use assms in \<open>auto simp: open_repair_def Let_def insert_repair_def split: if_splits sum.splits prod.splits\<close>)

lemma repair_Inr:
  assumes "AuthorizeWorkflowRepair L now newID ref req W = Inr (W', p)"
  obtains kind w W1 failed parent where "repair_validate req = Inr kind" "GetWorkItem (wh_hub W) ref = Inr w"
    "verify_workflow_attempt L now w (pq_attempt req) (pq_epoch req) (pq_secret req) W = Inr W1"
    "repair_target W1 w kind (pq_failed req) = Inr (failed, parent)"
    "open_repair now newID w req kind failed parent W1 = Inr (W', p)"
  using assms unfolding AuthorizeWorkflowRepair_def by (auto split: sum.splits prod.splits)

lemma lineage_walk_invocations:
  "wh_invocations W' = wh_invocations W \<Longrightarrow> wh_repairs W' = wh_repairs W \<Longrightarrow>
   lineage_walk W' wi n cur parent depth = lineage_walk W wi n cur parent depth"
  by (induction n arbitrary: cur parent depth)
     (simp_all add: invocation_of_attempt_def repair_of_def cong: if_cong option.case_cong repair_kind.case_cong)

lemma repair_form:
  assumes "AuthorizeWorkflowRepair L now newID ref req W = Inr (W', p)"
  shows "adds_repair W W'"
  using assms
proof (cases rule: repair_Inr)
  case (1 kind w W1 failed parent)
  from 1(3) obtain H1 where W1: "W1 = W\<lparr>wh_hub := H1\<rparr>" "edits (wh_hub W) H1" by (rule verify_workflow_Inr)
  from 1(4) obtain m where f: "failed \<in> set (wh_results W1)" "wr_wi failed = wi_id w" "wr_attempt failed = pq_failed req"
    "wr_version failed = wp_version (pointer_of W1 (wi_id w))" "repair_kind_check W1 (wi_id w) kind failed m = Inr parent"
    by (rule repair_target_Inr)
  note p = open_repair_Inr [OF 1(5)]
  have lin: "resolveRetryLineage W1 wi att = resolveRetryLineage W wi att" for wi att
    unfolding resolveRetryLineage_def by (rule lineage_walk_invocations) (simp_all add: W1(1))
  have kind: "rp_kind p = KindEpisode \<and> wr_verdict failed = ReviewFail \<and> rp_parent p = None \<or>
     rp_kind p = KindRetry \<and> wr_status failed = StatusProviderError \<and> wr_verdict failed \<noteq> ReviewFail \<and>
     (\<exists>parent depth. resolveRetryLineage W (rp_wi p) (rp_attempt p) = Inr (parent, depth) \<and> depth < maxRetryChainDepth)"
    using repair_kind_check_Inr [OF f(5)] p(5,6,9,11) f(3) by (auto simp: lin)
  have "keeps_cores (wh_hub W) (wh_hub W')"
    using edits_keeps_cores [OF W1(2)] edits_keeps_cores [OF p(2)] by (auto simp: W1(1) intro: keeps_cores_trans)
  moreover have "W' = W\<lparr>wh_repairs := wh_repairs W @ [p], wh_hub := wh_hub W'\<rparr>" using p(1) by (simp add: W1(1))
  moreover have "\<not> row_exists (\<lambda>x. rp_id x = rp_id p \<or> rp_kind x = rp_kind p \<and> rp_attempt x = rp_attempt p) (wh_repairs W)"
    "open_repairs W (rp_wi p) < maxOpenRepairAuthorizations"
    using p(3,4,5) by (simp_all add: W1(1) open_repairs_def)
  moreover have "failed \<in> set (wh_results W)"
    "(wr_wi failed, wr_version failed, wr_step failed, wr_attempt failed) = (rp_wi p, rp_version p, rp_step p, rp_attempt p)"
    using f(1-4) p(5,7,8,9) by (simp_all add: W1(1))
  ultimately show ?thesis unfolding adds_repair_def using kind p(10) by blast
qed

lemma reconcile_Inr:
  assumes "ReconcileWorkflowInvocations L now ref req W = Inr (W', ids)"
  obtains w W1 actor display where "xq_supersede req \<noteq> []" "GetWorkItem (wh_hub W) ref = Inr w"
    "verify_workflow_attempt L now w (xq_attempt req) (xq_epoch req) (xq_secret req) W = Inr W1"
    "wp_version (pointer_of W1 (wi_id w)) \<noteq> 0" "reconcile_check W1 w (xq_supersede req) = None"
    "attemptActor W1 (xq_attempt req) = Inr (actor, display)"
    "ids = map iv_id (filter (left_open (wi_id w) (xq_supersede req)) (wh_invocations W1))"
    "W' = fold (\<lambda>i. insertWorkflowEvent w actor display ''workflow_invocation_superseded''
            (supersededEventPayload (xq_supersede req) (xq_attempt req) i))
          (filter (left_open (wi_id w) (xq_supersede req)) (wh_invocations W1))
          (supersede_invocations (wi_id w) (xq_supersede req) W1)"
  using assms unfolding ReconcileWorkflowInvocations_def Let_def
  by (auto split: if_splits option.splits sum.splits prod.splits)

lemma insert_events_edits:
  "edits (wh_hub W) (wh_hub (fold (\<lambda>x. insertWorkflowEvent w actor display t (f x)) xs W))"
proof (induction xs arbitrary: W)
  case (Cons x xs)
  have "edits (wh_hub W) (wh_hub (insertWorkflowEvent w actor display t (f x) W))" by (rule insertWorkflowEvent_edits)
  also note Cons.IH
  finally show ?case by simp
qed simp

lemma insert_events_rows:
  "fold (\<lambda>x. insertWorkflowEvent w actor display t (f x)) xs W =
   W\<lparr>wh_hub := wh_hub (fold (\<lambda>x. insertWorkflowEvent w actor display t (f x)) xs W)\<rparr>"
proof (induction xs arbitrary: W)
  case (Cons x xs)
  let ?W1 = "insertWorkflowEvent w actor display t (f x) W"
  let ?H = "wh_hub (fold (\<lambda>x. insertWorkflowEvent w actor display t (f x)) xs ?W1)"
  have "fold (\<lambda>x. insertWorkflowEvent w actor display t (f x)) (x # xs) W = ?W1\<lparr>wh_hub := ?H\<rparr>"
    using Cons.IH [of ?W1] by simp
  also have "\<dots> = W\<lparr>wh_hub := ?H\<rparr>" by (simp add: insertWorkflowEvent_def)
  finally show ?case by simp
qed simp

lemma reconcile_form:
  assumes "ReconcileWorkflowInvocations L now ref req W = Inr (W', ids)"
  shows "abandons W W'"
  using assms
proof (cases rule: reconcile_Inr)
  case (1 w W1 actor display)
  from 1(3) obtain H1 where W1: "W1 = W\<lparr>wh_hub := H1\<rparr>" "edits (wh_hub W) H1" by (rule verify_workflow_Inr)
  let ?W2 = "supersede_invocations (wi_id w) (xq_supersede req) W1"
  have "edits (wh_hub ?W2) (wh_hub W')" unfolding 1(8) by (rule insert_events_edits)
  then have "keeps_cores (wh_hub W) (wh_hub W')"
    using edits_keeps_cores [OF W1(2)] by (auto simp: W1(1) supersede_invocations_def intro: keeps_cores_trans edits_keeps_cores)
  moreover have "W' = ?W2\<lparr>wh_hub := wh_hub W'\<rparr>" unfolding 1(8) by (rule insert_events_rows)
  then have "W' = W\<lparr>wh_invocations := update_where (left_open (wi_id w) (xq_supersede req))
      (\<lambda>i. i\<lparr>iv_status := InvSuperseded\<rparr>) (wh_invocations W), wh_hub := wh_hub W'\<rparr>"
    by (simp add: supersede_invocations_def W1(1))
  ultimately show ?thesis unfolding abandons_def by blast
qed

section \<open>The forms cover the system\<close>

lemma workflow_tx_form: "workflow_tx L W W' \<Longrightarrow> workflow_form W W'"
  unfolding workflow_form_def
  by (cases rule: workflow_tx.cases)
     (blast dest: revise_form first_form rhs_form start_form record_form approve_form repair_form reconcile_form)+

end
