(* ===== verification/Workflow_Invariant.thy ===== *)
theory Workflow_Invariant
  imports Workflow_System
begin

text \<open>
  The invariant of the workflow service: generations are numbered without gap up to the
  pointer, which holds the newest one's flow; an invocation belongs to a generation and to a
  run attempt; results and recorded invocations answer each other one to one with the same
  identity; a step has at most one open invocation; an artifact has at most one decision; an
  authorization names a recorded failure, a work item has at most eight open ones, and the
  lineage of a retry is bounded. Every transition of the service and of the hub keeps it.
\<close>

section \<open>Tables that grow\<close>

lemma select_one_snoc:
  "select_one P (xs @ ys) = (case select_one P xs of None \<Rightarrow> select_one P ys | Some x \<Rightarrow> Some x)"
  unfolding select_one_def by (induction xs) auto

lemma select_one_single: "select_one P [x] = (if P x then Some x else None)"
  by (simp add: select_one_def)

lemma select_one_update_where:
  "(\<And>r. P (f r) = P r) \<Longrightarrow>
   select_one P (update_where Q f rows) = map_option (\<lambda>r. if Q r then f r else r) (select_one P rows)"
  unfolding select_one_def update_where_def by (induction rows) auto

lemma map_update_same: "(\<And>r. g (f r) = g r) \<Longrightarrow> map g (update_where P f rows) = map g rows"
  by (rule map_update_where_frame)

lemma closings_map: "closings ps qs \<Longrightarrow> (\<And>p. g (p\<lparr>rp_open := False\<rparr>) = g p) \<Longrightarrow> map g qs = map g ps"
  unfolding closings_def by (induction rule: list_all2_induct) auto

lemma closings_set: "closings ps qs \<Longrightarrow> q \<in> set qs \<Longrightarrow> \<exists>p \<in> set ps. q = p \<or> q = p\<lparr>rp_open := False\<rparr>"
  unfolding closings_def by (induction rule: list_all2_induct) auto

lemma closings_set': "closings ps qs \<Longrightarrow> p \<in> set ps \<Longrightarrow> \<exists>q \<in> set qs. q = p \<or> q = p\<lparr>rp_open := False\<rparr>"
  unfolding closings_def by (induction rule: list_all2_induct) auto

lemma closings_select:
  "closings ps qs \<Longrightarrow> (\<And>p. P (p\<lparr>rp_open := False\<rparr>) = P p) \<Longrightarrow> select_one P ps = Some p \<Longrightarrow>
   \<exists>q. select_one P qs = Some q \<and> (q = p \<or> q = p\<lparr>rp_open := False\<rparr>)"
  unfolding closings_def select_one_def by (induction rule: list_all2_induct) (auto split: if_splits)

lemma closings_open:
  "closings ps qs \<Longrightarrow> length (filter (\<lambda>p. rp_wi p = wi \<and> rp_open p) qs) \<le> length (filter (\<lambda>p. rp_wi p = wi \<and> rp_open p) ps)"
  unfolding closings_def by (induction rule: list_all2_induct) auto

section \<open>The parts of the invariant\<close>

definition generations_ok :: "workflow_hub \<Rightarrow> bool" where
  "generations_ok W \<longleftrightarrow>
     (\<forall>wi v. generation_of W wi v \<noteq> None \<longleftrightarrow> 1 \<le> v \<and> v \<le> wp_version (pointer_of W wi)) \<and>
     (\<forall>wi. 0 \<le> wp_version (pointer_of W wi)) \<and>
     (\<forall>wi g. generation_of W wi (wp_version (pointer_of W wi)) = Some g \<longrightarrow> wp_steps (pointer_of W wi) = Some (gn_flow g))"

definition same_slot :: "invocation \<Rightarrow> invocation \<Rightarrow> bool" where
  "same_slot i j \<longleftrightarrow> iv_wi i = iv_wi j \<and> iv_version i = iv_version j \<and> iv_step i = iv_step j"

definition invocations_ok :: "invocation list \<Rightarrow> bool" where
  "invocations_ok invs \<longleftrightarrow>
     distinct (map iv_id invs) \<and> distinct (map iv_attempt invs) \<and>
     (\<forall>i \<in> set invs. \<forall>j \<in> set invs. iv_status i = InvOpen \<and> iv_status j = InvOpen \<and> same_slot i j \<longrightarrow> i = j)"

abbreviation invocation_identity :: "invocation \<Rightarrow> string \<times> string \<times> int \<times> string \<times> string \<times> string \<times> int \<times> string" where
  "invocation_identity i \<equiv>
     (iv_id i, iv_wi i, iv_version i, iv_step i, iv_attempt i, iv_run i, iv_epoch i, iv_producer i)"

abbreviation result_identity :: "workflow_result \<Rightarrow> string \<times> string \<times> int \<times> string \<times> string \<times> string \<times> int \<times> string" where
  "result_identity r \<equiv>
     (wr_invocation r, wr_wi r, wr_version r, wr_step r, wr_attempt r, wr_run r, wr_epoch r, wr_producer r)"

definition results_ok :: "invocation list \<Rightarrow> workflow_result list \<Rightarrow> bool" where
  "results_ok invs rs \<longleftrightarrow>
     distinct (map wr_id rs) \<and> distinct (map wr_invocation rs) \<and>
     (\<forall>r \<in> set rs. \<exists>i \<in> set invs. iv_status i = InvRecorded \<and> invocation_identity i = result_identity r) \<and>
     (\<forall>i \<in> set invs. iv_status i = InvRecorded \<longrightarrow> (\<exists>r \<in> set rs. result_identity r = invocation_identity i))"

abbreviation approval_key :: "approval_row \<Rightarrow> string \<times> int \<times> string \<times> artifact_ref" where
  "approval_key a \<equiv> (ap_wi a, ap_version a, ap_step a, ap_artifact a)"

definition approvals_ok :: "workflow_result list \<Rightarrow> approval_row list \<Rightarrow> bool" where
  "approvals_ok rs as \<longleftrightarrow>
     distinct (map ap_id as) \<and> distinct (map approval_key as) \<and>
     (\<forall>a \<in> set as. \<exists>r \<in> set rs. (wr_wi r, wr_version r, wr_step r, wr_artifact r) = approval_key a)"

definition failure_of :: "workflow_result \<Rightarrow> repair_row \<Rightarrow> bool" where
  "failure_of r p \<longleftrightarrow>
     wr_wi r = rp_wi p \<and> wr_version r = rp_version p \<and> wr_step r = rp_step p \<and> wr_attempt r = rp_attempt p \<and>
     (rp_kind p = KindEpisode \<and> wr_verdict r = ReviewFail \<and> rp_parent p = None \<or>
      rp_kind p = KindRetry \<and> wr_status r = StatusProviderError \<and> wr_verdict r \<noteq> ReviewFail)"

definition repairs_ok :: "workflow_result list \<Rightarrow> repair_row list \<Rightarrow> bool" where
  "repairs_ok rs ps \<longleftrightarrow>
     distinct (map rp_id ps) \<and> distinct (map (\<lambda>p. (rp_kind p, rp_attempt p)) ps) \<and>
     (\<forall>p \<in> set ps. \<exists>r \<in> set rs. failure_of r p) \<and>
     (\<forall>wi. length (filter (\<lambda>p. rp_wi p = wi \<and> rp_open p) ps) \<le> maxOpenRepairAuthorizations)"

definition bindings_ok :: "invocation list \<Rightarrow> repair_row list \<Rightarrow> bool" where
  "bindings_ok invs ps \<longleftrightarrow>
     (\<forall>i \<in> set invs. iv_repair i \<noteq> Some []) \<and>
     (\<forall>i \<in> set invs. \<forall>q. iv_repair i = Some q \<longrightarrow>
        (\<exists>p \<in> set ps. rp_id p = q \<and> rp_wi p = iv_wi i \<and> rp_version p = iv_version i)) \<and>
     (\<forall>i \<in> set invs. \<forall>j \<in> set invs. \<forall>p \<in> set ps.
        iv_repair i = Some (rp_id p) \<and> iv_repair j = Some (rp_id p) \<and> iv_status i \<noteq> InvSuperseded \<and> iv_status j \<noteq> InvSuperseded \<and>
        (rp_kind p = KindRetry \<or> iv_step i = iv_step j) \<longrightarrow> i = j)"

definition lineages_ok :: "workflow_hub \<Rightarrow> bool" where
  "lineages_ok W \<longleftrightarrow>
     (\<forall>p \<in> set (wh_repairs W). rp_kind p = KindRetry \<longrightarrow>
        (\<exists>parent depth. resolveRetryLineage W (rp_wi p) (rp_attempt p) = Inr (parent, depth) \<and> depth < maxRetryChainDepth))"

definition invocations_rooted :: "workflow_hub \<Rightarrow> bool" where
  "invocations_rooted W \<longleftrightarrow>
     (\<forall>i \<in> set (wh_invocations W). generation_of W (iv_wi i) (iv_version i) \<noteq> None \<and>
        attempt_by_id (wh_hub W) (iv_run i) \<noteq> None)"

definition workflow_ok :: "workflow_hub \<Rightarrow> bool" where
  "workflow_ok W \<longleftrightarrow>
     generations_ok W \<and> invocations_rooted W \<and> invocations_ok (wh_invocations W) \<and>
     results_ok (wh_invocations W) (wh_results W) \<and> approvals_ok (wh_results W) (wh_approvals W) \<and>
     repairs_ok (wh_results W) (wh_repairs W) \<and> bindings_ok (wh_invocations W) (wh_repairs W) \<and> lineages_ok W"

section \<open>Invocations and results\<close>

lemma invocations_ok_append:
  assumes "invocations_ok invs" "\<not> row_exists (\<lambda>x. iv_id x = iv_id i \<or> iv_attempt x = iv_attempt i) invs"
    "\<And>j. j \<in> set invs \<Longrightarrow> iv_status j = InvOpen \<Longrightarrow> \<not> same_slot j i"
  shows "invocations_ok (invs @ [i])"
proof -
  have "x = y" if "x \<in> set (invs @ [i])" "y \<in> set (invs @ [i])" "iv_status x = InvOpen" "iv_status y = InvOpen" "same_slot x y" for x y
  proof (cases "x = i \<or> y = i")
    case True
    have "same_slot y x" using that(5) by (simp add: same_slot_def)
    with True assms(3) that show ?thesis by auto
  next
    case False
    with that assms(1) show ?thesis by (simp add: invocations_ok_def)
  qed
  moreover have "distinct (map iv_id (invs @ [i]))" "distinct (map iv_attempt (invs @ [i]))"
    using assms(1,2) by (auto simp: invocations_ok_def row_exists_iff)
  ultimately show ?thesis unfolding invocations_ok_def by blast
qed

lemma invocations_ok_closed:
  assumes "invocations_ok invs" "st \<noteq> InvOpen"
  shows "invocations_ok (update_where P (\<lambda>i. i\<lparr>iv_status := st\<rparr>) invs)"
proof -
  let ?invs = "update_where P (\<lambda>i. i\<lparr>iv_status := st\<rparr>) invs"
  have "map iv_id ?invs = map iv_id invs" "map iv_attempt ?invs = map iv_attempt invs"
    by (rule map_update_same; simp)+
  moreover have "x \<in> set invs" if "x \<in> set ?invs" "iv_status x = InvOpen" for x
    using that assms(2) by (auto simp: set_update_where split: if_splits)
  ultimately show ?thesis using assms(1) unfolding invocations_ok_def by metis
qed

lemma results_ok_start: "results_ok invs rs \<Longrightarrow> iv_status i = InvOpen \<Longrightarrow> results_ok (invs @ [i]) rs"
  unfolding results_ok_def by auto

lemma results_ok_abandon:
  assumes "results_ok invs rs"
  shows "results_ok (update_where (left_open wi named) (\<lambda>i. i\<lparr>iv_status := InvSuperseded\<rparr>) invs) rs"
  using assms unfolding results_ok_def set_update_where left_open_def by (fastforce split: if_splits)

lemma results_ok_record:
  assumes ok: "results_ok invs rs" "invocations_ok invs"
    and i: "i \<in> set invs" "result_identity r = invocation_identity i"
    and fresh: "\<not> row_exists (\<lambda>x. wr_id x = wr_id r \<or> wr_invocation x = wr_invocation r \<or> wr_attempt x = wr_attempt r) rs"
  shows "results_ok (update_where (\<lambda>x. iv_id x = iv_id i) (\<lambda>x. x\<lparr>iv_status := InvRecorded\<rparr>) invs) (rs @ [r])"
proof -
  let ?invs = "update_where (\<lambda>x. iv_id x = iv_id i) (\<lambda>x. x\<lparr>iv_status := InvRecorded\<rparr>) invs"
  have same: "x = i" if "x \<in> set invs" "iv_id x = iv_id i" for x
    using ok(2) key_eqD [OF _ that(1) i(1) that(2)] by (simp add: invocations_ok_def)
  have new: "i\<lparr>iv_status := InvRecorded\<rparr> \<in> set ?invs" using i(1) by (force simp: set_update_where)
  have "\<exists>j \<in> set ?invs. iv_status j = InvRecorded \<and> invocation_identity j = result_identity x" if x: "x \<in> set rs" for x
  proof -
    from ok(1) x obtain j where j: "j \<in> set invs" "iv_status j = InvRecorded" "invocation_identity j = result_identity x"
      unfolding results_ok_def by blast
    have "iv_id j \<noteq> iv_id i" using fresh x j(3) i(2) by (auto simp: row_exists_iff)
    with j have "j \<in> set ?invs" by (force simp: set_update_where)
    with j show ?thesis by blast
  qed
  moreover have "\<exists>x \<in> set (rs @ [r]). result_identity x = invocation_identity j"
    if j: "j \<in> set ?invs" "iv_status j = InvRecorded" for j
  proof (cases "iv_id j = iv_id i")
    case True
    with j(1) same have "j = i\<lparr>iv_status := InvRecorded\<rparr>" by (auto simp: set_update_where)
    with i(2) show ?thesis by (intro bexI [of _ r]) auto
  next
    case False
    with j(1) have "j \<in> set invs" by (auto simp: set_update_where)
    with ok(1) j(2) show ?thesis unfolding results_ok_def by (metis Un_iff set_append)
  qed
  moreover have "\<exists>j \<in> set ?invs. iv_status j = InvRecorded \<and> invocation_identity j = result_identity r"
    using new i(2) by (intro bexI [of _ "i\<lparr>iv_status := InvRecorded\<rparr>"]) auto
  moreover have "distinct (map wr_id (rs @ [r]))" "distinct (map wr_invocation (rs @ [r]))"
    using ok(1) fresh by (auto simp: results_ok_def row_exists_iff)
  ultimately show ?thesis unfolding results_ok_def by (auto simp del: map_append)
qed

section \<open>Generations\<close>

lemma generation_of_append:
  "generation_of (W\<lparr>wh_generations := wh_generations W @ [g], wh_pointers := P, wh_hub := H\<rparr>) wi v =
   (case generation_of W wi v of None \<Rightarrow> if gn_wi g = wi \<and> gn_version g = v then Some g else None | Some x \<Rightarrow> Some x)"
  unfolding generation_of_def by (simp add: select_one_snoc select_one_single split: option.split)

lemma first_generation_number:
  assumes "generations_ok W" "\<not> row_exists (\<lambda>x. gn_wi x = wi \<and> gn_version x = 1) (wh_generations W)"
  shows "wp_version (pointer_of W wi) = 0"
proof -
  have "generation_of W wi 1 = None" using assms(2) by (auto simp: generation_of_def select_one_None row_exists_iff)
  moreover have "generation_of W wi 1 \<noteq> None \<longleftrightarrow> 1 \<le> (1::int) \<and> 1 \<le> wp_version (pointer_of W wi)"
    using assms(1) unfolding generations_ok_def by blast
  ultimately have "\<not> 1 \<le> wp_version (pointer_of W wi)" by simp
  moreover have "0 \<le> wp_version (pointer_of W wi)" using assms(1) unfolding generations_ok_def by blast
  ultimately show ?thesis by linarith
qed

lemma adds_generation_number:
  assumes "generations_ok W" "\<not> row_exists (\<lambda>x. gn_wi x = gn_wi g \<and> gn_version x = gn_version g) (wh_generations W)"
    "gn_version g = wp_version (pointer_of W (gn_wi g)) + 1 \<or> gn_version g = 1"
  shows "gn_version g = wp_version (pointer_of W (gn_wi g)) + 1"
  using assms first_generation_number by fastforce

lemma adds_generation_ok:
  assumes "adds_generation W W'" "workflow_ok W"
  shows "workflow_ok W'"
proof -
  have ok: "generations_ok W" using assms(2) by (simp add: workflow_ok_def)
  from assms(1) obtain g H where W': "W' = W\<lparr>wh_generations := wh_generations W @ [g],
      wh_pointers := (gn_wi g, \<lparr> wp_steps = Some (gn_flow g), wp_version = gn_version g \<rparr>) # wh_pointers W, wh_hub := H\<rparr>"
    and g: "\<not> row_exists (\<lambda>x. gn_wi x = gn_wi g \<and> gn_version x = gn_version g) (wh_generations W)"
      "gn_version g = wp_version (pointer_of W (gn_wi g)) + 1 \<or> gn_version g = 1"
    and k: "keeps_cores (wh_hub W) H"
    unfolding adds_generation_def by blast
  have v: "gn_version g = wp_version (pointer_of W (gn_wi g)) + 1" by (rule adds_generation_number [OF ok g])
  have p: "pointer_of W' wi = (if wi = gn_wi g then \<lparr> wp_steps = Some (gn_flow g), wp_version = gn_version g \<rparr> else pointer_of W wi)" for wi
    by (simp add: W' pointer_of_def)
  have gen: "generation_of W' wi n =
      (case generation_of W wi n of None \<Rightarrow> if gn_wi g = wi \<and> gn_version g = n then Some g else None | Some x \<Rightarrow> Some x)" for wi n
    unfolding W' by (rule generation_of_append)
  have old: "generation_of W wi n \<noteq> None \<longleftrightarrow> 1 \<le> n \<and> n \<le> wp_version (pointer_of W wi)" "0 \<le> wp_version (pointer_of W wi)" for wi n
    using ok unfolding generations_ok_def by blast+
  have none: "generation_of W (gn_wi g) (gn_version g) = None" using old(1) [of "gn_wi g" "gn_version g"] v by fastforce
  have "generations_ok W'"
    unfolding generations_ok_def
  proof (intro conjI allI impI)
    fix wi n
    show "generation_of W' wi n \<noteq> None \<longleftrightarrow> 1 \<le> n \<and> n \<le> wp_version (pointer_of W' wi)"
    proof (cases "wi = gn_wi g")
      case True
      have "generation_of W' wi n \<noteq> None \<longleftrightarrow> generation_of W wi n \<noteq> None \<or> gn_version g = n"
        using True by (auto simp: gen split: option.splits)
      with True old(1) [of wi n] old(2) [of "gn_wi g"] v show ?thesis by (auto simp: p)
    next
      case False
      then show ?thesis using old(1) [of wi n] by (auto simp: gen p split: option.splits)
    qed
    show "0 \<le> wp_version (pointer_of W' wi)" using old(2) [of wi] old(2) [of "gn_wi g"] v by (simp add: p)
  next
    fix wi x
    assume x: "generation_of W' wi (wp_version (pointer_of W' wi)) = Some x"
    show "wp_steps (pointer_of W' wi) = Some (gn_flow x)"
    proof (cases "wi = gn_wi g")
      case True
      with x none show ?thesis by (simp add: p gen)
    next
      case False
      with x have "generation_of W wi (wp_version (pointer_of W wi)) = Some x" by (simp add: p gen split: option.splits)
      with ok False show ?thesis unfolding generations_ok_def by (simp add: p)
    qed
  qed
  moreover have "invocations_rooted W'"
    unfolding invocations_rooted_def
  proof (intro ballI conjI)
    fix i
    assume "i \<in> set (wh_invocations W')"
    then have "generation_of W (iv_wi i) (iv_version i) \<noteq> None \<and> attempt_by_id (wh_hub W) (iv_run i) \<noteq> None"
      using assms(2) unfolding workflow_ok_def invocations_rooted_def W' by simp
    then show "generation_of W' (iv_wi i) (iv_version i) \<noteq> None" "attempt_by_id (wh_hub W') (iv_run i) \<noteq> None"
      using keeps_cores_attempt_known [OF k] unfolding gen by (auto simp: W' split: option.split)
  qed
  moreover have "lineages_ok W'"
  proof -
    have "resolveRetryLineage W' wi att = resolveRetryLineage W wi att" for wi att
      unfolding resolveRetryLineage_def by (rule lineage_walk_invocations) (simp_all add: W')
    then show ?thesis using assms(2) by (simp add: workflow_ok_def lineages_ok_def W')
  qed
  ultimately show ?thesis using assms(2) by (simp add: workflow_ok_def W')
qed

section \<open>Lineages\<close>

text \<open>The walk reads columns that never change, so a walk that ended ends the same later on.\<close>

definition extends :: "workflow_hub \<Rightarrow> workflow_hub \<Rightarrow> bool" where
  "extends W W' \<longleftrightarrow>
     (\<forall>wi att i. invocation_of_attempt W wi att = Some i \<longrightarrow>
        (\<exists>j. invocation_of_attempt W' wi att = Some j \<and> iv_repair j = iv_repair i)) \<and>
     (\<forall>wi q p. repair_of W wi q = Some p \<longrightarrow>
        (\<exists>p'. repair_of W' wi q = Some p' \<and> rp_kind p' = rp_kind p \<and> rp_attempt p' = rp_attempt p \<and> rp_parent p' = rp_parent p))"

lemma lineage_walk_extends:
  assumes "extends W W'"
  shows "lineage_walk W wi n cur parent depth = Inr x \<Longrightarrow> lineage_walk W' wi n cur parent depth = Inr x"
proof (induction n arbitrary: cur parent depth)
  case (Suc n)
  from Suc.prems obtain i where i: "invocation_of_attempt W wi cur = Some i" by (auto split: option.splits)
  with assms obtain j where j: "invocation_of_attempt W' wi cur = Some j" "iv_repair j = iv_repair i"
    unfolding extends_def by blast
  show ?case
  proof (cases "iv_repair i = None \<or> iv_repair i = Some []")
    case True
    with Suc.prems i j show ?thesis by simp
  next
    case False
    then obtain q where q: "iv_repair i = Some q" "q \<noteq> []" by auto
    with Suc.prems i obtain p where p: "repair_of W wi q = Some p" by (auto split: option.splits)
    with assms obtain p' where p': "repair_of W' wi q = Some p'" "rp_kind p' = rp_kind p" "rp_attempt p' = rp_attempt p"
      "rp_parent p' = rp_parent p" unfolding extends_def by blast
    have "nearest_parent p' x = nearest_parent p x" for x by (simp add: nearest_parent_def p')
    with Suc.prems i j q p p' Suc.IH show ?thesis by (simp split: repair_kind.splits)
  qed
qed simp

lemma extends_lineages:
  assumes "extends W W'" "resolveRetryLineage W wi att = Inr x"
  shows "resolveRetryLineage W' wi att = Inr x"
  using assms lineage_walk_extends unfolding resolveRetryLineage_def by blast

text \<open>How many hops a walk took, and that a walk of enough fuel takes them.\<close>

lemma lineage_walk_bound: "lineage_walk W wi n cur parent depth = Inr (q, d) \<Longrightarrow> depth \<le> d \<and> d < depth + n"
proof (induction n arbitrary: cur parent depth)
  case (Suc n)
  then show ?case by (fastforce simp: Let_def split: option.splits if_splits repair_kind.splits)
qed simp

lemma lineage_walk_fuel:
  "lineage_walk W wi n cur parent depth = Inr (r, d) \<Longrightarrow> d < depth + m \<Longrightarrow>
   \<exists>r'. lineage_walk W wi m cur parent' depth' = Inr (r', d - depth + depth')"
proof (induction n arbitrary: cur parent depth m parent' depth')
  case (Suc n)
  from lineage_walk_bound [OF Suc.prems(1)] Suc.prems(2) obtain m' where m: "m = Suc m'" by (cases m) auto
  from Suc.prems(1) obtain i where i: "invocation_of_attempt W wi cur = Some i" by (auto split: option.splits)
  show ?case
  proof (cases "iv_repair i = None \<or> iv_repair i = Some []")
    case True
    with Suc.prems i show ?thesis by (simp add: m)
  next
    case False
    then obtain q where q: "iv_repair i = Some q" "q \<noteq> []" by auto
    with Suc.prems i obtain p where p: "repair_of W wi q = Some p" by (auto split: option.splits)
    show ?thesis
    proof (cases "rp_kind p")
      case KindRetry
      with Suc.prems(1) i q p have x: "lineage_walk W wi n (rp_attempt p) (nearest_parent p parent) (Suc depth) = Inr (r, d)"
        by simp
      have "d < Suc depth + m'" using Suc.prems(2) by (simp add: m)
      from Suc.IH [OF x this] obtain y where
        "lineage_walk W wi m' (rp_attempt p) (nearest_parent p parent') (Suc depth') = Inr (y, d - Suc depth + Suc depth')" by blast
      moreover have "d - Suc depth + Suc depth' = d - depth + depth'" using lineage_walk_bound [OF x] by linarith
      ultimately show ?thesis using i q p KindRetry by (simp add: m)
    next
      case KindEpisode
      with Suc.prems(1) i q(1) p have "d = depth" using q(2) by simp
      with i q p KindEpisode show ?thesis by (simp add: m)
    next
      case OtherKind
      with Suc.prems i q p show ?thesis by simp
    qed
  qed
qed simp

section \<open>The other forms\<close>

lemma workflow_okI:
  assumes "workflow_ok W" "wh_generations W' = wh_generations W" "wh_pointers W' = wh_pointers W"
    and known: "\<And>x. attempt_by_id (wh_hub W) x \<noteq> None \<Longrightarrow> attempt_by_id (wh_hub W') x \<noteq> None"
    and inv: "\<And>i. i \<in> set (wh_invocations W') \<Longrightarrow>
      (\<exists>j \<in> set (wh_invocations W). (iv_wi j, iv_version j, iv_run j) = (iv_wi i, iv_version i, iv_run i)) \<or>
      generation_of W (iv_wi i) (iv_version i) \<noteq> None \<and> attempt_by_id (wh_hub W') (iv_run i) \<noteq> None"
    and parts: "invocations_ok (wh_invocations W')" "results_ok (wh_invocations W') (wh_results W')"
      "approvals_ok (wh_results W') (wh_approvals W')" "repairs_ok (wh_results W') (wh_repairs W')"
      "bindings_ok (wh_invocations W') (wh_repairs W')" "lineages_ok W'"
  shows "workflow_ok W'"
proof -
  have same: "generation_of W' = generation_of W" "pointer_of W' = pointer_of W"
    by (intro ext, simp add: generation_of_def pointer_of_def assms(2,3))+
  have "generations_ok W'" using assms(1) by (simp add: workflow_ok_def generations_ok_def same)
  moreover have "invocations_rooted W'"
    unfolding invocations_rooted_def same
  proof
    fix i
    assume "i \<in> set (wh_invocations W')"
    from inv [OF this] show "generation_of W (iv_wi i) (iv_version i) \<noteq> None \<and> attempt_by_id (wh_hub W') (iv_run i) \<noteq> None"
    proof
      assume "\<exists>j \<in> set (wh_invocations W). (iv_wi j, iv_version j, iv_run j) = (iv_wi i, iv_version i, iv_run i)"
      then obtain j where "j \<in> set (wh_invocations W)" "iv_wi j = iv_wi i" "iv_version j = iv_version i" "iv_run j = iv_run i" by auto
      moreover from this(1) assms(1) have "generation_of W (iv_wi j) (iv_version j) \<noteq> None \<and> attempt_by_id (wh_hub W) (iv_run j) \<noteq> None"
        unfolding workflow_ok_def invocations_rooted_def by blast
      ultimately show ?thesis using known by metis
    qed
  qed
  ultimately show ?thesis unfolding workflow_ok_def using parts by blast
qed

lemma workflow_okD:
  assumes "workflow_ok W"
  shows "generations_ok W" "invocations_rooted W" "invocations_ok (wh_invocations W)" "results_ok (wh_invocations W) (wh_results W)"
    "approvals_ok (wh_results W) (wh_approvals W)" "repairs_ok (wh_results W) (wh_repairs W)"
    "bindings_ok (wh_invocations W) (wh_repairs W)" "lineages_ok W"
  using assms by (simp_all add: workflow_ok_def)

lemma lineages_ok_extends:
  assumes "lineages_ok W" "extends W W'"
    "\<And>p'. p' \<in> set (wh_repairs W') \<Longrightarrow> rp_kind p' = KindRetry \<Longrightarrow>
       (\<exists>p \<in> set (wh_repairs W). rp_kind p = KindRetry \<and> rp_wi p = rp_wi p' \<and> rp_attempt p = rp_attempt p') \<or>
       (\<exists>parent depth. resolveRetryLineage W (rp_wi p') (rp_attempt p') = Inr (parent, depth) \<and> depth < maxRetryChainDepth)"
  shows "lineages_ok W'"
  unfolding lineages_ok_def
proof (intro ballI impI)
  fix p'
  assume "p' \<in> set (wh_repairs W')" "rp_kind p' = KindRetry"
  from assms(3) [OF this] assms(1) obtain parent depth where
    "resolveRetryLineage W (rp_wi p') (rp_attempt p') = Inr (parent, depth)" "depth < maxRetryChainDepth"
    unfolding lineages_ok_def by metis
  with extends_lineages [OF assms(2)]
  show "\<exists>parent depth. resolveRetryLineage W' (rp_wi p') (rp_attempt p') = Inr (parent, depth) \<and> depth < maxRetryChainDepth"
    by blast
qed

lemma extends_refl: "wh_invocations W' = wh_invocations W \<Longrightarrow> wh_repairs W' = wh_repairs W \<Longrightarrow> extends W W'"
  unfolding extends_def invocation_of_attempt_def repair_of_def by auto

lemma edits_hub_ok:
  assumes "edits_hub W W'" "workflow_ok W"
  shows "workflow_ok W'"
proof -
  from assms(1) obtain H where W': "W' = W\<lparr>wh_hub := H\<rparr>" and k: "keeps_cores (wh_hub W) H"
    unfolding edits_hub_def by blast
  have "lineages_ok W'"
    by (rule lineages_ok_extends [OF workflow_okD(8) [OF assms(2)] extends_refl]) (auto simp: W')
  with workflow_okD [OF assms(2)] keeps_cores_attempt_known [OF k] show ?thesis
    by (intro workflow_okI [OF assms(2)]) (auto simp: W')
qed

lemma adds_approval_ok:
  assumes "adds_approval W W'" "workflow_ok W"
  shows "workflow_ok W'"
proof -
  from assms(1) obtain a H r where W': "W' = W\<lparr>wh_approvals := wh_approvals W @ [a], wh_hub := H\<rparr>"
    and k: "keeps_cores (wh_hub W) H"
    and a: "\<not> row_exists (\<lambda>x. ap_id x = ap_id a) (wh_approvals W)"
      "decision_on W (ap_wi a) (ap_version a) (ap_step a) (ap_artifact a) = None"
      "r \<in> set (wh_results W)" "(wr_wi r, wr_version r, wr_step r, wr_artifact r) = approval_key a"
    unfolding adds_approval_def by blast
  have "approvals_ok (wh_results W) (wh_approvals W @ [a])"
    using workflow_okD(5) [OF assms(2)] a
    by (auto simp: approvals_ok_def row_exists_iff decision_on_def select_one_None)
  moreover have "lineages_ok W'"
    by (rule lineages_ok_extends [OF workflow_okD(8) [OF assms(2)] extends_refl]) (auto simp: W')
  ultimately show ?thesis
    using workflow_okD [OF assms(2)] keeps_cores_attempt_known [OF k]
    by (intro workflow_okI [OF assms(2)]) (auto simp: W')
qed

lemma select_one_append_Some: "select_one P xs = Some x \<Longrightarrow> select_one P (xs @ ys) = Some x"
  by (simp add: select_one_snoc)

lemma bindings_ok_start:
  assumes "bindings_ok invs ps" "distinct (map rp_id ps)" "iv_repair i \<noteq> Some []"
    and "\<And>q. iv_repair i = Some q \<Longrightarrow>
      \<exists>p \<in> set ps. rp_id p = q \<and> rp_wi p = iv_wi i \<and> rp_version p = iv_version i \<and>
        (\<forall>j \<in> set invs. iv_repair j = Some q \<and> iv_status j \<noteq> InvSuperseded \<longrightarrow> rp_kind p \<noteq> KindRetry \<and> iv_step j \<noteq> iv_step i)"
  shows "bindings_ok (invs @ [i]) ps"
proof -
  have new: False
    if "j \<in> set invs" "p \<in> set ps" "iv_repair i = Some (rp_id p)" "iv_repair j = Some (rp_id p)" "iv_status j \<noteq> InvSuperseded"
      "rp_kind p = KindRetry \<or> iv_step j = iv_step i" for j p
  proof -
    from assms(4) [OF that(3)] obtain p' where p': "p' \<in> set ps" "rp_id p' = rp_id p"
      "\<forall>j \<in> set invs. iv_repair j = Some (rp_id p) \<and> iv_status j \<noteq> InvSuperseded \<longrightarrow> rp_kind p' \<noteq> KindRetry \<and> iv_step j \<noteq> iv_step i"
      by blast
    have "p' = p" by (rule key_eqD [OF assms(2) p'(1) that(2) p'(2)])
    with p'(3) that show False by blast
  qed
  show ?thesis
    unfolding bindings_ok_def
  proof (intro conjI ballI allI impI)
    fix x
    assume "x \<in> set (invs @ [i])"
    with assms(1,3) show "iv_repair x \<noteq> Some []" unfolding bindings_ok_def by auto
  next
    fix x q
    assume "x \<in> set (invs @ [i])" "iv_repair x = Some q"
    with assms(1,4) show "\<exists>p \<in> set ps. rp_id p = q \<and> rp_wi p = iv_wi x \<and> rp_version p = iv_version x"
      unfolding bindings_ok_def by (cases "x = i") fastforce+
  next
    fix x y p
    assume *: "x \<in> set (invs @ [i])" "y \<in> set (invs @ [i])" "p \<in> set ps"
      "iv_repair x = Some (rp_id p) \<and> iv_repair y = Some (rp_id p) \<and> iv_status x \<noteq> InvSuperseded \<and> iv_status y \<noteq> InvSuperseded \<and>
       (rp_kind p = KindRetry \<or> iv_step x = iv_step y)"
    show "x = y"
    proof (cases "x \<in> set invs \<and> y \<in> set invs")
      case True
      with * assms(1) show ?thesis unfolding bindings_ok_def by blast
    next
      case False
      with * new [of x p] new [of y p] show ?thesis by auto
    qed
  qed
qed

lemma adds_invocation_ok:
  assumes "adds_invocation W W'" "workflow_ok W"
  shows "workflow_ok W'"
proof -
  note ok = workflow_okD [OF assms(2)]
  from assms(1) obtain i H where W': "W' = W\<lparr>wh_invocations := wh_invocations W @ [i], wh_hub := H\<rparr>"
    and fresh: "\<not> row_exists (\<lambda>x. iv_id x = iv_id i \<or> iv_attempt x = iv_attempt i) (wh_invocations W)"
    and i: "iv_status i = InvOpen" "generation_of W (iv_wi i) (iv_version i) \<noteq> None" "attempt_by_id H (iv_run i) \<noteq> None"
      "open_invocation_gap (W\<lparr>wh_hub := H\<rparr>) (iv_wi i) (iv_version i) (iv_step i) = None"
      "iv_repair i \<noteq> Some []"
    and bound: "\<And>q. iv_repair i = Some q \<Longrightarrow>
           \<exists>p \<in> set (wh_repairs W). rp_id p = q \<and> rp_wi p = iv_wi i \<and> rp_open p \<and> rp_version p = iv_version i \<and>
              list_all (\<lambda>j. rp_kind p \<noteq> KindRetry \<and> iv_step j \<noteq> iv_step i) (bound_invocations W q)"
    and k: "keeps_cores (wh_hub W) H"
    unfolding adds_invocation_def by (elim exE conjE) blast
  have "invocations_ok (wh_invocations W @ [i])"
  proof (rule invocations_ok_append [OF ok(3) fresh])
    fix j
    assume j: "j \<in> set (wh_invocations W)" "iv_status j = InvOpen"
    with ok(2) keeps_cores_attempt_known [OF k] have "attempt_by_id H (iv_run j) \<noteq> None"
      unfolding invocations_rooted_def by blast
    with j i(4) show "\<not> same_slot j i"
      by (auto simp: open_invocation_gap_def row_exists_iff is_open_invocation_def same_slot_def split: if_splits)
  qed
  moreover have "results_ok (wh_invocations W @ [i]) (wh_results W)" by (rule results_ok_start [OF ok(4) i(1)])
  moreover have "bindings_ok (wh_invocations W @ [i]) (wh_repairs W)"
  proof (rule bindings_ok_start [OF ok(7)])
    show "distinct (map rp_id (wh_repairs W))" using ok(6) by (simp add: repairs_ok_def)
    show "iv_repair i \<noteq> Some []" by (rule i(5))
    fix q
    assume "iv_repair i = Some q"
    from bound [OF this] show "\<exists>p \<in> set (wh_repairs W). rp_id p = q \<and> rp_wi p = iv_wi i \<and> rp_version p = iv_version i \<and>
        (\<forall>j \<in> set (wh_invocations W). iv_repair j = Some q \<and> iv_status j \<noteq> InvSuperseded \<longrightarrow> rp_kind p \<noteq> KindRetry \<and> iv_step j \<noteq> iv_step i)"
      by (auto simp: bound_invocations_def list_all_iff)
  qed
  moreover have "lineages_ok W'"
  proof (rule lineages_ok_extends [OF ok(8)])
    show "extends W W'"
      unfolding extends_def invocation_of_attempt_def repair_of_def W' by (simp add: select_one_append_Some)
  qed (auto simp: W')
  ultimately show ?thesis
    using ok i keeps_cores_attempt_known [OF k] by (intro workflow_okI [OF assms(2)]) (auto simp: W')
qed

lemma bindings_ok_update:
  assumes "bindings_ok invs ps"
    and invs: "\<And>x. x \<in> set invs' \<Longrightarrow> \<exists>y \<in> set invs. x = y \<or> iv_status y = InvOpen \<and> x = y\<lparr>iv_status := st\<rparr>"
    and ps: "closings ps ps'" and st: "st \<noteq> InvOpen"
    and key: "distinct (map iv_id invs)" "distinct (map iv_id invs')"
  shows "bindings_ok invs' ps'"
  unfolding bindings_ok_def
proof (intro conjI ballI allI impI)
  fix x
  assume "x \<in> set invs'"
  from invs [OF this] obtain y where "y \<in> set invs" "iv_repair x = iv_repair y" by auto
  with assms(1) show "iv_repair x \<noteq> Some []" unfolding bindings_ok_def by metis
next
  fix x q
  assume x: "x \<in> set invs'" "iv_repair x = Some q"
  from invs [OF x(1)] x(2) obtain y where y: "y \<in> set invs" "iv_repair y = Some q" "iv_wi y = iv_wi x" "iv_version y = iv_version x" by auto
  with assms(1) obtain p where p: "p \<in> set ps" "rp_id p = q" "rp_wi p = iv_wi x" "rp_version p = iv_version x"
    unfolding bindings_ok_def by metis
  from closings_set' [OF ps p(1)] obtain p' where "p' \<in> set ps'" "p' = p \<or> p' = p\<lparr>rp_open := False\<rparr>" by blast
  with p(2-4) show "\<exists>p \<in> set ps'. rp_id p = q \<and> rp_wi p = iv_wi x \<and> rp_version p = iv_version x"
    by (intro bexI [of _ p']) auto
next
  fix x y p
  assume *: "x \<in> set invs'" "y \<in> set invs'" "p \<in> set ps'"
    "iv_repair x = Some (rp_id p) \<and> iv_repair y = Some (rp_id p) \<and> iv_status x \<noteq> InvSuperseded \<and> iv_status y \<noteq> InvSuperseded \<and>
     (rp_kind p = KindRetry \<or> iv_step x = iv_step y)"
  from invs [OF *(1)] * obtain x0 where x0: "x0 \<in> set invs" "iv_repair x0 = iv_repair x" "iv_step x0 = iv_step x" "iv_id x0 = iv_id x"
    "iv_status x0 \<noteq> InvSuperseded" by auto
  from invs [OF *(2)] * obtain y0 where y0: "y0 \<in> set invs" "iv_repair y0 = iv_repair y" "iv_step y0 = iv_step y" "iv_id y0 = iv_id y"
    "iv_status y0 \<noteq> InvSuperseded" by auto
  from closings_set [OF ps *(3)] obtain p0 where p0: "p0 \<in> set ps" "rp_id p0 = rp_id p" "rp_kind p0 = rp_kind p" by auto
  from assms(1) x0(1) y0(1) p0(1) have "iv_repair x0 = Some (rp_id p0) \<and> iv_repair y0 = Some (rp_id p0) \<and>
     iv_status x0 \<noteq> InvSuperseded \<and> iv_status y0 \<noteq> InvSuperseded \<and> (rp_kind p0 = KindRetry \<or> iv_step x0 = iv_step y0) \<longrightarrow> x0 = y0"
    unfolding bindings_ok_def by blast
  with *(4) x0 y0 p0 have "x0 = y0" by simp
  with x0(4) y0(4) have "iv_id x = iv_id y" by simp
  with key_eqD [OF key(2) *(1,2)] show "x = y" by blast
qed

lemma update_invocations:
  assumes "invs' = update_where P (\<lambda>i. i\<lparr>iv_status := st\<rparr>) invs"
  shows "map iv_id invs' = map iv_id invs"
    "select_one (\<lambda>i. iv_wi i = wi \<and> iv_attempt i = att) invs' =
     map_option (\<lambda>i. if P i then i\<lparr>iv_status := st\<rparr> else i) (select_one (\<lambda>i. iv_wi i = wi \<and> iv_attempt i = att) invs)"
  unfolding assms by (rule map_update_same, simp) (rule select_one_update_where, simp)

lemma extends_update:
  assumes "wh_invocations W' = update_where P (\<lambda>i. i\<lparr>iv_status := st\<rparr>) (wh_invocations W)" "closings (wh_repairs W) (wh_repairs W')"
  shows "extends W W'"
  unfolding extends_def
proof (intro conjI allI impI)
  fix wi att i
  assume "invocation_of_attempt W wi att = Some i"
  then show "\<exists>j. invocation_of_attempt W' wi att = Some j \<and> iv_repair j = iv_repair i"
    unfolding invocation_of_attempt_def update_invocations(2) [OF assms(1)] by auto
next
  fix wi q p
  assume "repair_of W wi q = Some p"
  then have "select_one (\<lambda>p. rp_id p = q \<and> rp_wi p = wi) (wh_repairs W) = Some p" by (simp add: repair_of_def)
  from closings_select [OF assms(2) _ this]
  show "\<exists>p'. repair_of W' wi q = Some p' \<and> rp_kind p' = rp_kind p \<and> rp_attempt p' = rp_attempt p \<and> rp_parent p' = rp_parent p"
    unfolding repair_of_def by fastforce
qed

lemma repairs_ok_record:
  assumes "repairs_ok rs ps" "closings ps ps'"
  shows "repairs_ok (rs @ [r]) ps'"
proof -
  have "map rp_id ps' = map rp_id ps" "map (\<lambda>p. (rp_kind p, rp_attempt p)) ps' = map (\<lambda>p. (rp_kind p, rp_attempt p)) ps"
    by (rule closings_map [OF assms(2)]; simp)+
  then have "distinct (map rp_id ps')" "distinct (map (\<lambda>p. (rp_kind p, rp_attempt p)) ps')"
    using assms(1) by (simp_all only: repairs_ok_def)
  moreover have "\<exists>r' \<in> set (rs @ [r]). failure_of r' p'" if p': "p' \<in> set ps'" for p'
  proof -
    from closings_set [OF assms(2) p'] obtain p where p: "p \<in> set ps" "p' = p \<or> p' = p\<lparr>rp_open := False\<rparr>" by blast
    with assms(1) obtain r' where "r' \<in> set rs" "failure_of r' p" unfolding repairs_ok_def by blast
    with p(2) have "failure_of r' p'" by (auto simp: failure_of_def)
    with \<open>r' \<in> set rs\<close> show ?thesis by auto
  qed
  moreover have "length (filter (\<lambda>p. rp_wi p = wi \<and> rp_open p) ps') \<le> maxOpenRepairAuthorizations" for wi
    using assms(1) closings_open [OF assms(2), of wi] le_trans unfolding repairs_ok_def by blast
  ultimately show ?thesis unfolding repairs_ok_def by blast
qed

lemma adds_result_ok:
  assumes "adds_result W W'" "workflow_ok W"
  shows "workflow_ok W'"
proof -
  note ok = workflow_okD [OF assms(2)]
  from assms(1) obtain i r ps H where W': "W' = W\<lparr>wh_invocations := update_where (\<lambda>x. iv_id x = iv_id i)
      (\<lambda>x. x\<lparr>iv_status := InvRecorded\<rparr>) (wh_invocations W), wh_results := wh_results W @ [r], wh_repairs := ps, wh_hub := H\<rparr>"
    and fresh: "\<not> row_exists (\<lambda>x. wr_id x = wr_id r \<or> wr_invocation x = wr_invocation r \<or> wr_attempt x = wr_attempt r) (wh_results W)"
    and i: "i \<in> set (wh_invocations W)" "iv_status i = InvOpen" "result_identity r = invocation_identity i"
    and ps: "closings (wh_repairs W) ps" and k: "keeps_cores (wh_hub W) H"
    unfolding adds_result_def by (elim exE conjE) blast
  let ?invs = "update_where (\<lambda>x. iv_id x = iv_id i) (\<lambda>x. x\<lparr>iv_status := InvRecorded\<rparr>) (wh_invocations W)"
  have dist: "distinct (map iv_id (wh_invocations W))" using ok(3) by (simp add: invocations_ok_def)
  have "invocations_ok ?invs" by (rule invocations_ok_closed [OF ok(3)]) simp
  moreover have "results_ok ?invs (wh_results W @ [r])" by (rule results_ok_record [OF ok(4,3) i(1,3) fresh])
  moreover have "approvals_ok (wh_results W @ [r]) (wh_approvals W)" using ok(5) by (auto simp: approvals_ok_def)
  moreover have "repairs_ok (wh_results W @ [r]) ps" by (rule repairs_ok_record [OF ok(6) ps])
  moreover have "bindings_ok ?invs ps"
  proof (rule bindings_ok_update [OF ok(7) _ ps])
    fix x
    assume "x \<in> set ?invs"
    then obtain y where y: "y \<in> set (wh_invocations W)" "x = (if iv_id y = iv_id i then y\<lparr>iv_status := InvRecorded\<rparr> else y)"
      by (auto simp: set_update_where)
    have "y = i" if "iv_id y = iv_id i" by (rule key_eqD [OF dist y(1) i(1) that])
    with y i(2) show "\<exists>y \<in> set (wh_invocations W). x = y \<or> iv_status y = InvOpen \<and> x = y\<lparr>iv_status := InvRecorded\<rparr>"
      by (intro bexI [of _ y]) auto
  qed (use dist in \<open>simp_all add: map_update_same\<close>)
  moreover have "lineages_ok W'"
  proof (rule lineages_ok_extends [OF ok(8) extends_update])
    fix p'
    assume "p' \<in> set (wh_repairs W')" "rp_kind p' = KindRetry"
    with closings_set [OF ps, of p'] have "\<exists>p \<in> set (wh_repairs W). rp_kind p = KindRetry \<and> rp_wi p = rp_wi p' \<and> rp_attempt p = rp_attempt p'"
      by (auto simp: W')
    then show "(\<exists>p \<in> set (wh_repairs W). rp_kind p = KindRetry \<and> rp_wi p = rp_wi p' \<and> rp_attempt p = rp_attempt p') \<or>
       (\<exists>parent depth. resolveRetryLineage W (rp_wi p') (rp_attempt p') = Inr (parent, depth) \<and> depth < maxRetryChainDepth)" ..
  qed (use ps in \<open>simp_all add: W'\<close>)
  ultimately show ?thesis
    using keeps_cores_attempt_known [OF k] by (intro workflow_okI [OF assms(2)]) (auto simp: W' set_update_where)
qed

lemma adds_repair_ok:
  assumes "adds_repair W W'" "workflow_ok W"
  shows "workflow_ok W'"
proof -
  note ok = workflow_okD [OF assms(2)]
  from assms(1) obtain p H r where W': "W' = W\<lparr>wh_repairs := wh_repairs W @ [p], wh_hub := H\<rparr>"
    and fresh: "\<not> row_exists (\<lambda>x. rp_id x = rp_id p \<or> rp_kind x = rp_kind p \<and> rp_attempt x = rp_attempt p) (wh_repairs W)"
    and cap: "open_repairs W (rp_wi p) < maxOpenRepairAuthorizations"
    and r: "r \<in> set (wh_results W)" "(wr_wi r, wr_version r, wr_step r, wr_attempt r) = (rp_wi p, rp_version p, rp_step p, rp_attempt p)"
    and kind: "rp_kind p = KindEpisode \<and> wr_verdict r = ReviewFail \<and> rp_parent p = None \<or>
         rp_kind p = KindRetry \<and> wr_status r = StatusProviderError \<and> wr_verdict r \<noteq> ReviewFail \<and>
         (\<exists>parent depth. resolveRetryLineage W (rp_wi p) (rp_attempt p) = Inr (parent, depth) \<and> depth < maxRetryChainDepth)"
    and k: "keeps_cores (wh_hub W) H"
    unfolding adds_repair_def by (elim exE conjE) blast
  have "failure_of r p" using r(2) kind by (auto simp: failure_of_def)
  with ok(6) fresh cap r(1) have "repairs_ok (wh_results W) (wh_repairs W @ [p])"
    unfolding repairs_ok_def by (auto simp: row_exists_iff open_repairs_def)
  moreover have "bindings_ok (wh_invocations W) (wh_repairs W @ [p])"
  proof -
    have "iv_repair i \<noteq> Some (rp_id p)" if "i \<in> set (wh_invocations W)" for i
      using ok(7) fresh that unfolding bindings_ok_def row_exists_iff by blast
    with ok(7) show ?thesis unfolding bindings_ok_def by auto
  qed
  moreover have "lineages_ok W'"
  proof (rule lineages_ok_extends [OF ok(8)])
    show "extends W W'"
      unfolding extends_def invocation_of_attempt_def repair_of_def W' by (simp add: select_one_append_Some)
  qed (use kind in \<open>auto simp: W'\<close>)
  ultimately show ?thesis
    using ok keeps_cores_attempt_known [OF k] by (intro workflow_okI [OF assms(2)]) (auto simp: W')
qed

lemma abandons_ok:
  assumes "abandons W W'" "workflow_ok W"
  shows "workflow_ok W'"
proof -
  note ok = workflow_okD [OF assms(2)]
  from assms(1) obtain wi named H where W': "W' = W\<lparr>wh_invocations := update_where (left_open wi named)
      (\<lambda>i. i\<lparr>iv_status := InvSuperseded\<rparr>) (wh_invocations W), wh_hub := H\<rparr>" and k: "keeps_cores (wh_hub W) H"
    unfolding abandons_def by blast
  let ?invs = "update_where (left_open wi named) (\<lambda>i. i\<lparr>iv_status := InvSuperseded\<rparr>) (wh_invocations W)"
  have dist: "distinct (map iv_id (wh_invocations W))" using ok(3) by (simp add: invocations_ok_def)
  have "invocations_ok ?invs" by (rule invocations_ok_closed [OF ok(3)]) simp
  moreover have "results_ok ?invs (wh_results W)" by (rule results_ok_abandon [OF ok(4)])
  moreover have "bindings_ok ?invs (wh_repairs W)"
    by (rule bindings_ok_update [OF ok(7) _ closings_refl, of _ InvSuperseded])
       (use dist in \<open>auto simp: map_update_same set_update_where left_open_def\<close>)
  moreover have "lineages_ok W'"
    by (rule lineages_ok_extends [OF ok(8) extends_update]) (auto simp: W' closings_refl)
  ultimately show ?thesis
    using ok keeps_cores_attempt_known [OF k] by (intro workflow_okI [OF assms(2)]) (auto simp: W' set_update_where)
qed

lemma workflow_form_ok: "workflow_form W W' \<Longrightarrow> workflow_ok W \<Longrightarrow> workflow_ok W'"
  unfolding workflow_form_def
  by (elim disjE)
     (rule adds_generation_ok adds_invocation_ok adds_result_ok adds_approval_ok adds_repair_ok abandons_ok edits_hub_ok; assumption)+

lemma workflow_form_hub: "workflow_form W W' \<Longrightarrow> keeps_cores (wh_hub W) (wh_hub W')"
  unfolding workflow_form_def adds_generation_def adds_invocation_def adds_result_def adds_approval_def adds_repair_def
    abandons_def edits_hub_def
  by (elim disjE exE conjE) simp_all

section \<open>The invariant of the system\<close>

lemma grows_attempt_known:
  assumes "grows H H'" "attempt_by_id H x \<noteq> None"
  shows "attempt_by_id H' x \<noteq> None"
proof -
  from assms(2) have "x \<in> fst ` attempt_core ` set (h_attempts H)" unfolding attempt_known_iff by simp
  with assms(1) have "x \<in> fst ` attempt_core ` set (h_attempts H')" unfolding grows_def by blast
  then show ?thesis unfolding attempt_known_iff by simp
qed

lemma hub_step_ok:
  assumes "workflow_ok W" "grows (wh_hub W) H"
  shows "workflow_ok (W\<lparr>wh_hub := H\<rparr>)"
proof -
  have "lineages_ok (W\<lparr>wh_hub := H\<rparr>)"
    by (rule lineages_ok_extends [OF workflow_okD(8) [OF assms(1)] extends_refl]) auto
  with workflow_okD [OF assms(1)] grows_attempt_known [OF assms(2)] show ?thesis
    by (intro workflow_okI [OF assms(1)]) auto
qed

definition wf_inv :: "workflow_sys \<Rightarrow> bool" where
  "wf_inv s \<longleftrightarrow> sys_inv (hub_side s) \<and> workflow_ok (ws_state s)"

lemma wf_step_inv:
  assumes "wf_step L ok s t" "wf_inv s"
  shows "wf_inv t"
  using assms(1)
proof (cases rule: wf_step.cases)
  case (wf_hub_step u)
  have inv: "sys_inv (hub_side s)" "workflow_ok (ws_state s)" using assms(2) by (simp_all add: wf_inv_def)
  have "sys_inv u" by (rule sys_step_inv [OF wf_hub_step(2) inv(1)])
  moreover have "hub_side t = u" unfolding wf_hub_step(1) by (simp add: hub_side_def)
  moreover have "grows (wh_hub (ws_state s)) (hs_hub u)"
    using sys_step_hub [OF wf_hub_step(2) inv(1)] by (simp add: hub_side_def)
  then have "workflow_ok (ws_state t)" unfolding wf_hub_step(1) using hub_step_ok [OF inv(2)] by simp
  ultimately show ?thesis by (simp add: wf_inv_def)
next
  case (wf_workflow_step W)
  have inv: "sys_inv (hub_side s)" "workflow_ok (ws_state s)" using assms(2) by (simp_all add: wf_inv_def)
  note form = workflow_tx_form [OF wf_workflow_step(2)]
  have k: "keeps_cores (wh_hub (ws_state s)) (wh_hub W)" by (rule workflow_form_hub [OF form])
  have "sys_inv ((hub_side s)\<lparr>hs_hub := wh_hub W\<rparr>)"
  proof (rule sys_inv_hub [OF inv(1)])
    show "hub_inv (wh_hub W)" using inv(1) keeps_cores_inv [OF k] by (simp add: sys_inv_def hub_side_def)
    show "grows (hs_hub (hub_side s)) (wh_hub W)" using keeps_cores_grows [OF k] by (simp add: hub_side_def)
  qed
  moreover have "hub_side t = (hub_side s)\<lparr>hs_hub := wh_hub W\<rparr>" unfolding wf_workflow_step(1) by (simp add: hub_side_def)
  moreover have "workflow_ok (ws_state t)" unfolding wf_workflow_step(1) using workflow_form_ok [OF form inv(2)] by simp
  ultimately show ?thesis by (simp add: wf_inv_def)
qed

lemma wf_init_inv:
  assumes "wf_init s"
  shows "wf_inv s"
proof -
  have "workflow_ok (ws_state s)"
    using assms
    by (auto simp: wf_init_def workflow_ok_def generations_ok_def invocations_rooted_def invocations_ok_def results_ok_def
        approvals_ok_def repairs_ok_def bindings_ok_def lineages_ok_def generation_of_def pointer_of_def select_one_def)
  with assms sys_init_inv show ?thesis by (simp add: wf_inv_def wf_init_def)
qed

interpretation workflow_run: step_system wf_init "wf_step L ok" wf_inv for L ok
  by unfold_locales (fact wf_init_inv, fact wf_step_inv)

text \<open>The walk up from any recorded invocation.\<close>

lemma lineage_of_invocation:
  assumes "workflow_ok W" "i \<in> set (wh_invocations W)"
  shows "\<exists>parent depth. resolveRetryLineage W (iv_wi i) (iv_attempt i) = Inr (parent, depth) \<and> depth \<le> maxRetryChainDepth"
proof -
  note ok = workflow_okD [OF assms(1)]
  have i: "invocation_of_attempt W (iv_wi i) (iv_attempt i) = Some i"
    unfolding invocation_of_attempt_def
    by (rule select_one_unique) (use assms(2) ok(3) key_eqD in \<open>auto simp: invocations_ok_def\<close>)
  show ?thesis
  proof (cases "iv_repair i = None \<or> iv_repair i = Some []")
    case True
    with i show ?thesis by (simp add: resolveRetryLineage_def)
  next
    case False
    then obtain q where q: "iv_repair i = Some q" "q \<noteq> []" by auto
    with ok(7) assms(2) obtain p where p: "p \<in> set (wh_repairs W)" "rp_id p = q" "rp_wi p = iv_wi i"
      unfolding bindings_ok_def by metis
    have "repair_of W (iv_wi i) q = Some p"
      unfolding repair_of_def by (rule select_one_unique) (use p ok(6) key_eqD in \<open>auto simp: repairs_ok_def\<close>)
    note walk = i q this
    from ok(6) p(1) have "rp_kind p = KindEpisode \<or> rp_kind p = KindRetry" unfolding repairs_ok_def failure_of_def by blast
    then show ?thesis
    proof
      assume "rp_kind p = KindEpisode"
      with walk show ?thesis by (simp add: resolveRetryLineage_def)
    next
      assume kind: "rp_kind p = KindRetry"
      with ok(8) p(1) obtain x d where d: "lineage_walk W (rp_wi p) (maxRetryChainDepth + 2) (rp_attempt p) None 0 = Inr (x, d)"
        "d < maxRetryChainDepth" unfolding lineages_ok_def resolveRetryLineage_def by blast
      from d(2) have "d < 0 + Suc maxRetryChainDepth" by simp
      from lineage_walk_fuel [OF d(1) this, of "nearest_parent p None" "Suc 0"] obtain y where
        "lineage_walk W (iv_wi i) (Suc maxRetryChainDepth) (rp_attempt p) (nearest_parent p None) (Suc 0) = Inr (y, d + 1)"
        by (auto simp: p(3))
      with walk kind d(2) show ?thesis by (simp add: resolveRetryLineage_def)
    qed
  qed
qed

end
