(* ===== verification/Workflow_Example.thy ===== *)
theory Workflow_Example
  imports Workflow_Invariant Hub_Example "HOL-Library.Code_Target_Nat"
begin

text \<open>
  A small run of the workflow service, on which its properties are applied: a work item gets a
  workflow of two independent gates, the first of which waits for a human; Ann claims it and
  starts the first step. The digest of the examples is constant.
\<close>

definition ex_libs :: libs where
  "ex_libs = \<lparr> lib_valid_re = no_patterns, lib_match = never_matches, lib_sha = (\<lambda>s. replicate 32 (CHR ''a'')) \<rparr>"

definition ex_artifact :: artifact_row where
  "ex_artifact = \<lparr> am_id = ''m1'', am_wi = Some ''w1'', am_type = ''methodology.review'', am_status = ''active'',
     am_attrs = Some (JObj [(''structured_payload'', JObj [])]), am_visibility = ''public'', am_author = ''ann'' \<rparr>"

definition ex_data :: reference_data where
  "ex_data = \<lparr> rd_versions =
     [public_version ''review'' (contract_json ''review'' []), public_version ''verify'' (contract_json ''verification'' [])],
     rd_skills = [], rd_grants = [], rd_projects = [],
     rd_users = [\<lparr> u_id = ''ann'', u_role = ''writer'', u_keys = [(''k1'', None)] \<rparr>], rd_artifacts = [ex_artifact] \<rparr>"

definition ex_spec :: "string \<Rightarrow> string \<Rightarrow> bool option \<Rightarrow> step_spec" where
  "ex_spec sid skill rhs = spec_of sid ((a_step skill rhs [])\<lparr> fs_skill := skill \<rparr>)"

definition ex_revision :: revision_request where
  "ex_revision = \<lparr> rv_expected = 0, rv_rhs = Some True,
     rv_steps = [ex_spec ''look'' ''review'' (Some True), ex_spec ''test'' ''verify'' None] \<rparr>"

definition ex_wf0 :: workflow_hub where
  "ex_wf0 = \<lparr> wh_hub = hub_of_items [filed_item ''w1'' ''p-1'' ''p''], wh_pointers = [], wh_generations = [],
     wh_invocations = [], wh_results = [], wh_approvals = [], wh_repairs = [] \<rparr>"

definition revised :: "int \<Rightarrow> revision_request \<Rightarrow> workflow_hub \<Rightarrow> workflow_hub outcome" where
  "revised now req W = UpdateWorkItemWorkflow ex_libs ex_data now ''w1'' \<lparr> ur_id = ''u_rep'', ur_role = ''writer'', ur_scope = None \<rparr>
     ''u_rep'' ''writer'' (\<lambda>p. ''writer'') req W"

definition claimed_by_ann :: "workflow_hub \<Rightarrow> workflow_hub outcome" where
  "claimed_by_ann W = map_sum id (\<lambda>(H, r). W\<lparr>wh_hub := H\<rparr>)
     (FnClaimWorkItem (lib_sha ex_libs) 2 ''r1'' ''w1'' (a_claim ''c1'') ann (wh_hub W))"

definition ex_start :: "string \<Rightarrow> start_request" where
  "ex_start step = \<lparr> st_attempt = ''r1'', st_epoch = 1, st_secret = ''pw'', st_step = step, st_repair = [] \<rparr>"

definition ex_ids :: "string \<Rightarrow> start_ids" where
  "ex_ids n = \<lparr> si_attempt = ''wsa_'' @ n, si_producer = ''wprod_'' @ n, si_invocation = ''winv_'' @ n \<rparr>"

definition started :: "int \<Rightarrow> string \<Rightarrow> string \<Rightarrow> workflow_hub \<Rightarrow> workflow_hub outcome" where
  "started now n step W = map_sum id fst (StartWorkflowStep ex_libs ex_data now (ex_ids n) ''w1'' (ex_start step) W)"

definition ex_ref :: artifact_ref where
  "ex_ref = \<lparr> ar_id = ''m1'', ar_version = 1, ar_hash = ''sha256:'' @ hex_encode (replicate 32 (CHR ''a'')) \<rparr>"

definition ex_result :: "string \<Rightarrow> string \<Rightarrow> result_status \<Rightarrow> review_verdict \<Rightarrow> step_result" where
  "ex_result n step st verdict = zero_result\<lparr> sr_status := st, sr_verdict := verdict, sr_wi := ''w1'', sr_flow_version := 1,
     sr_step := step, sr_attempt := ''wsa_'' @ n, sr_epoch := 1, sr_producer := ''wprod_'' @ n, sr_artifact := ex_ref,
     sr_evidence := [\<lparr> ev_kind = ''log'', ev_ref = ''ci'', ev_hash = ar_hash ex_ref \<rparr>] \<rparr>"

definition ex_record :: "step_result \<Rightarrow> result_request" where
  "ex_record r = \<lparr> rs_attempt = ''r1'', rs_epoch = 1, rs_secret = ''pw'', rs_result = Some (MarshalStepResult r) \<rparr>"

definition recorded :: "int \<Rightarrow> string \<Rightarrow> step_result \<Rightarrow> workflow_hub \<Rightarrow> workflow_hub outcome" where
  "recorded now n r W = map_sum id fst (RecordWorkflowResult ex_libs ex_data now (''wres_'' @ n) ''w1'' (ex_record r) W)"

definition ex_approval :: "string \<Rightarrow> approve_request" where
  "ex_approval d = \<lparr> aq_version = 1, aq_step = ''look'', aq_artifact = ex_ref, aq_decision = d \<rparr>"

definition ex_human :: user_record where
  "ex_human = \<lparr> ur_id = ''hal'', ur_role = ''writer'', ur_scope = None \<rparr>"

definition decided :: "int \<Rightarrow> string \<Rightarrow> workflow_hub \<Rightarrow> workflow_hub outcome" where
  "decided now d W = map_sum id fst (ApproveWorkflowStep now ''wapp_1'' ''w1'' (Some ex_human) ''Hal'' ''human'' (ex_approval d) W)"

definition ex_repair :: "string \<Rightarrow> string \<Rightarrow> repair_request" where
  "ex_repair kind attempt = \<lparr> pq_attempt = ''r1'', pq_epoch = 1, pq_secret = ''pw'', pq_failed = attempt, pq_kind = kind,
     pq_reason = ''the provider was down'' \<rparr>"

definition authorized :: "int \<Rightarrow> string \<Rightarrow> string \<Rightarrow> string \<Rightarrow> workflow_hub \<Rightarrow> workflow_hub outcome" where
  "authorized now n kind attempt W =
     map_sum id fst (AuthorizeWorkflowRepair ex_libs now (''wrep_'' @ n) ''w1'' (ex_repair kind attempt) W)"

section \<open>The states of the run\<close>

definition ex_flow :: flow where
  "ex_flow = \<lparr> fl_version = 1, fl_steps =
     [(a_step ''look'' (Some True) [])\<lparr> fs_skill := ''review'' \<rparr>, (a_step ''test'' None [])\<lparr> fs_skill := ''verify'' \<rparr>] \<rparr>"

definition ex_generation :: generation where
  "ex_generation = \<lparr> gn_wi = ''w1'', gn_version = 1, gn_flow = ex_flow,
     gn_grants = [(''test'', gate_grant), (''look'', gate_grant)],
     gn_meta = [(''test'', \<lparr> sm_capabilities = [CapVerification], sm_interactive = False \<rparr>),
                (''look'', \<lparr> sm_capabilities = [CapReview], sm_interactive = False \<rparr>)],
     gn_rhs = True, gn_created_by = ''u_rep'', gn_created = 1 \<rparr>"

definition ex_event :: "string \<Rightarrow> string \<Rightarrow> string option \<Rightarrow> (string \<times> json) list \<Rightarrow> agent_event" where
  "ex_event t actor display payload = \<lparr> ev_type = t, ev_wi = ''w1'', ev_attempt = None, ev_actor = Some actor, ev_display = display,
     ev_payload = Fields payload, ev_project = Some ''p'' \<rparr>"

definition ex_hub_at :: "int \<Rightarrow> agent_event list \<Rightarrow> hub" where
  "ex_hub_at t events = (hub_of_items [(filed_item ''w1'' ''p-1'' ''p'')\<lparr> wi_rhs := Some True, wi_status := Running,
       wi_current := Some ''r1'', wi_epoch := 1, wi_workflow_mode := ''db'' \<rparr>])
     \<lparr> h_attempts := [(anns_attempt ''r1'' 1 ''c1'' None t)\<lparr> ra_secret_hash := hex_encode (replicate 32 (CHR ''a'')) \<rparr>],
       h_steps := [\<lparr> ss_wi = ''w1'', ss_wi_type = Some ''feature'', ss_step = None, ss_status = SIdle, ss_attempt = None,
                    ss_started = None, ss_version = 0, ss_scenario_ref = None \<rparr>],
       h_events := [ex_event ''workflow_revision'' ''u_rep'' None (revisionEventPayload 1 (Some 0) True 2),
         anns_start ''r1'' False ''1''] @ events \<rparr>"

definition ex_state ::
  "int \<Rightarrow> agent_event list \<Rightarrow> invocation list \<Rightarrow> workflow_result list \<Rightarrow> approval_row list \<Rightarrow> repair_row list \<Rightarrow> workflow_hub" where
  "ex_state t events invs rs aps reps =
     \<lparr> wh_hub = ex_hub_at t events, wh_pointers = [(''w1'', \<lparr> wp_steps = Some ex_flow, wp_version = 1 \<rparr>)],
       wh_generations = [ex_generation], wh_invocations = invs, wh_results = rs, wh_approvals = aps, wh_repairs = reps \<rparr>"

definition ex_invocation :: "string \<Rightarrow> string \<Rightarrow> int \<Rightarrow> invocation" where
  "ex_invocation n step t = \<lparr> iv_id = ''winv_'' @ n, iv_wi = ''w1'', iv_version = 1, iv_step = step, iv_attempt = ''wsa_'' @ n,
     iv_run = ''r1'', iv_epoch = 1, iv_producer = ''wprod_'' @ n, iv_grant = gate_grant, iv_status = InvOpen, iv_repair = None,
     iv_created = t \<rparr>"

definition ex_row :: "string \<Rightarrow> int \<Rightarrow> step_result \<Rightarrow> workflow_result" where
  "ex_row n t r = result_row t (''wres_'' @ n) ''w1'' (''winv_'' @ n) 1 ''r1'' 1 r"

definition ev_started :: "string \<Rightarrow> string \<Rightarrow> agent_event" where
  "ev_started n step = ex_event ''workflow_invocation_started'' ''ann'' (Some ''Ann'') (startedEventPayload (ex_invocation n step 0) [])"

definition ev_recorded :: "string \<Rightarrow> step_result \<Rightarrow> agent_event" where
  "ev_recorded t r = ex_event t ''ann'' (Some ''Ann'') (resultEventPayload 1 r)"

definition look_passed :: step_result where "look_passed = ex_result ''1'' ''look'' StatusCompleted ReviewPass"
definition test_lost :: step_result where "test_lost = ex_result ''2'' ''test'' StatusProviderError NoVerdict"

definition look_approved :: approval_row where
  "look_approved = \<lparr> ap_id = ''wapp_1'', ap_wi = ''w1'', ap_version = 1, ap_step = ''look'', ap_artifact = ex_ref,
     ap_decision = ApprovalGranted, ap_actor = ''hal'', ap_display = ''Hal'', ap_created = 5 \<rparr>"

text \<open>The first step passes and is approved; the second loses its provider and may be retried.\<close>

definition ex_wf2 :: workflow_hub where "ex_wf2 = ex_state 2 [] [] [] [] []"

definition ex_wf3 :: workflow_hub where
  "ex_wf3 = ex_state 3 [ev_started ''1'' ''look''] [ex_invocation ''1'' ''look'' 3] [] [] []"

definition ex_wf4 :: workflow_hub where
  "ex_wf4 = ex_state 4 [ev_started ''1'' ''look'', ev_recorded ''step_completed'' look_passed]
     [(ex_invocation ''1'' ''look'' 3)\<lparr> iv_status := InvRecorded \<rparr>] [ex_row ''1'' 4 look_passed] [] []"

definition test_retry :: repair_row where
  "test_retry = \<lparr> rp_id = ''wrep_1'', rp_wi = ''w1'', rp_kind = KindRetry, rp_version = 1, rp_step = ''test'', rp_attempt = ''wsa_2'',
     rp_reason = ''the provider was down'', rp_run = ''r1'', rp_epoch = 1, rp_by = ''ann'', rp_open = True, rp_parent = None,
     rp_created = 8 \<rparr>"

definition evs5 :: "agent_event list" where
  "evs5 = [ev_started ''1'' ''look'', ev_recorded ''step_completed'' look_passed,
     ex_event ''workflow_approval'' ''hal'' (Some ''Hal'') (approvalEventPayload (ex_approval ''approved''))]"

definition ex_wf5 :: workflow_hub where
  "ex_wf5 = ex_state 4 evs5
     [(ex_invocation ''1'' ''look'' 3)\<lparr> iv_status := InvRecorded \<rparr>] [ex_row ''1'' 4 look_passed] [look_approved] []"

definition ex_wf6 :: workflow_hub where
  "ex_wf6 = ex_state 6 (evs5 @ [ev_started ''2'' ''test''])
     [(ex_invocation ''1'' ''look'' 3)\<lparr> iv_status := InvRecorded \<rparr>, ex_invocation ''2'' ''test'' 6]
     [ex_row ''1'' 4 look_passed] [look_approved] []"

definition ex_wf7 :: workflow_hub where
  "ex_wf7 = ex_state 7 (evs5 @ [ev_started ''2'' ''test'', ev_recorded ''step_failed'' test_lost])
     [(ex_invocation ''1'' ''look'' 3)\<lparr> iv_status := InvRecorded \<rparr>, (ex_invocation ''2'' ''test'' 6)\<lparr> iv_status := InvRecorded \<rparr>]
     [ex_row ''1'' 4 look_passed, ex_row ''2'' 7 test_lost] [look_approved] []"

definition ex_wf8 :: workflow_hub where
  "ex_wf8 = ex_state 8 (evs5 @ [ev_started ''2'' ''test'', ev_recorded ''step_failed'' test_lost,
       ex_event ''workflow_repair_authorized'' ''ann'' None (repairEventPayload test_retry ''retry'')])
     [(ex_invocation ''1'' ''look'' 3)\<lparr> iv_status := InvRecorded \<rparr>, (ex_invocation ''2'' ''test'' 6)\<lparr> iv_status := InvRecorded \<rparr>]
     [ex_row ''1'' 4 look_passed, ex_row ''2'' 7 test_lost] [look_approved] [test_retry]"

lemma ex_claim_value: "(case revised 1 ex_revision ex_wf0 of Inl e \<Rightarrow> Inl e | Inr W \<Rightarrow> claimed_by_ann W) = Inr ex_wf2"
  by code_simp

lemma ex_look_started: "started 3 ''1'' ''look'' ex_wf2 = Inr ex_wf3"
  by code_simp

lemma ex_look_recorded: "recorded 4 ''1'' look_passed ex_wf3 = Inr ex_wf4"
  by code_simp

lemma ex_look_decided: "decided 5 ''approved'' ex_wf4 = Inr ex_wf5"
  by code_simp

lemma ex_test_started: "started 6 ''2'' ''test'' ex_wf5 = Inr ex_wf6"
  by code_simp

lemma ex_test_recorded: "recorded 7 ''2'' test_lost ex_wf6 = Inr ex_wf7"
  by code_simp

lemma ex_retry_authorized: "authorized 8 ''1'' ''retry'' ''wsa_2'' ex_wf7 = Inr ex_wf8"
  by code_simp

section \<open>The run\<close>

definition ex_wsys :: "workflow_hub \<Rightarrow> workflow_sys" where
  "ex_wsys W = \<lparr> ws_state = W, ws_takeovers = [], ws_edges = [] \<rparr>"

abbreviation any_claim :: "claim_request \<Rightarrow> bool" where
  "any_claim \<equiv> \<lambda>r. True"

abbreviation ex_reaches :: "workflow_hub \<Rightarrow> workflow_hub \<Rightarrow> bool" where
  "ex_reaches W W' \<equiv> (wf_step ex_libs any_claim)\<^sup>*\<^sup>* (ex_wsys W) (ex_wsys W')"

lemma map_sum_Inr: "map_sum id f x = Inr y \<Longrightarrow> \<exists>z. x = Inr z \<and> f z = y"
  by (cases x) auto

lemma ex_tx_step: "workflow_tx ex_libs W W' \<Longrightarrow> ex_reaches W W'"
  using wf_workflow_step [of ex_libs "ex_wsys W" W' any_claim] by (simp add: ex_wsys_def r_into_rtranclp)

lemma started_step: "started now n step W = Inr W' \<Longrightarrow> ex_reaches W W'"
  unfolding started_def by (drule map_sum_Inr) (elim exE, clarsimp, rule ex_tx_step, erule wtx_start)

lemma recorded_step: "recorded now n r W = Inr W' \<Longrightarrow> ex_reaches W W'"
  unfolding recorded_def by (drule map_sum_Inr) (elim exE, clarsimp, rule ex_tx_step, erule wtx_result)

lemma decided_step: "decided now d W = Inr W' \<Longrightarrow> ex_reaches W W'"
  unfolding decided_def by (drule map_sum_Inr) (elim exE, clarsimp, rule ex_tx_step, erule wtx_approve)

lemma authorized_step: "authorized now n kind att W = Inr W' \<Longrightarrow> ex_reaches W W'"
  unfolding authorized_def by (drule map_sum_Inr) (elim exE, clarsimp, rule ex_tx_step, erule wtx_repair)

lemma ann_claimed_step: "claimed_by_ann W = Inr W' \<Longrightarrow> ex_reaches W W'"
proof -
  assume "claimed_by_ann W = Inr W'"
  then obtain H r where H: "FnClaimWorkItem (lib_sha ex_libs) 2 ''r1'' ''w1'' (a_claim ''c1'') ann (wh_hub W) = Inr (H, r)"
    "W' = W\<lparr>wh_hub := H\<rparr>"
    unfolding claimed_by_ann_def by (auto dest: map_sum_Inr)
  from H(1) have "hub_tx (lib_sha ex_libs) any_claim (hs_hub (hub_side (ex_wsys W))) H"
    by (auto intro: tx_claim simp: hub_side_def ex_wsys_def)
  from wf_hub_step [OF sys_tx [OF this]] have "wf_step ex_libs any_claim (ex_wsys W) (ex_wsys W')"
    by (simp add: H(2) hub_side_def ex_wsys_def)
  then show ?thesis by (rule r_into_rtranclp)
qed

lemma ex_wf_init: "wf_init (ex_wsys ex_wf0)"
  by (simp add: wf_init_def sys_init_def initial_hub_def hub_side_def ex_wsys_def ex_wf0_def hub_of_items_def filed_item_def)

lemma wf_run2: "ex_reaches ex_wf0 ex_wf2"
proof -
  from ex_claim_value obtain W where W: "revised 1 ex_revision ex_wf0 = Inr W" "claimed_by_ann W = Inr ex_wf2"
    by (auto split: sum.splits)
  from W(1) have "ex_reaches ex_wf0 W" unfolding revised_def by (rule ex_tx_step [OF wtx_revise])
  also from W(2) have "ex_reaches W ex_wf2" by (rule ann_claimed_step)
  finally show ?thesis .
qed

lemma wf_run5: "ex_reaches ex_wf0 ex_wf5"
proof -
  note wf_run2
  also have "ex_reaches ex_wf2 ex_wf3" by (rule started_step [OF ex_look_started])
  also have "ex_reaches ex_wf3 ex_wf4" by (rule recorded_step [OF ex_look_recorded])
  also have "ex_reaches ex_wf4 ex_wf5" by (rule decided_step [OF ex_look_decided])
  finally show ?thesis .
qed

lemma wf_run5_8: "ex_reaches ex_wf5 ex_wf8"
proof -
  have "ex_reaches ex_wf5 ex_wf6" by (rule started_step [OF ex_test_started])
  also have "ex_reaches ex_wf6 ex_wf7" by (rule recorded_step [OF ex_test_recorded])
  also have "ex_reaches ex_wf7 ex_wf8" by (rule authorized_step [OF ex_retry_authorized])
  finally show ?thesis .
qed

lemma wf_run8: "ex_reaches ex_wf0 ex_wf8"
  by (rule rtranclp_trans [OF wf_run5 wf_run5_8])

end
