(* ===== verification/Workflow_History.thy ===== *)
theory Workflow_History
  imports Workflow_Example
begin

text \<open>
  The history a workflow leaves: what its tables say of each other in every reachable state,
  that they only grow, that decisions are final and recoveries bounded, and that the overlay
  of an episode's roles reaches the end of every chain of retries.
\<close>

section \<open>Reachable states\<close>

lemma reachable_ok:
  assumes "wf_init s" "(wf_step L ok)\<^sup>*\<^sup>* s t"
  shows "workflow_ok (ws_state t)" "sys_inv (hub_side t)"
  using workflow_run.reachable_inv [OF assms] by (simp_all add: wf_inv_def)

text \<open>
  C14: in every reachable state each recorded result answers exactly one invocation, which is
  recorded and carries the same item, generation, step, step attempt, run attempt, epoch and
  producer; an invocation is recorded exactly when one result answers it; and a step of a
  generation never has two open invocations.
\<close>

theorem results_answer_invocations:
  assumes "wf_init s" "(wf_step L ok)\<^sup>*\<^sup>* s t"
  shows "(\<forall>r \<in> set (wh_results (ws_state t)). \<exists>!i. i \<in> set (wh_invocations (ws_state t)) \<and> iv_id i = wr_invocation r \<and>
            iv_status i = InvRecorded \<and> invocation_identity i = result_identity r) \<and>
         (\<forall>i \<in> set (wh_invocations (ws_state t)).
            iv_status i = InvRecorded \<longleftrightarrow> (\<exists>!r. r \<in> set (wh_results (ws_state t)) \<and> wr_invocation r = iv_id i)) \<and>
         (\<forall>i \<in> set (wh_invocations (ws_state t)). \<forall>j \<in> set (wh_invocations (ws_state t)).
            iv_status i = InvOpen \<and> iv_status j = InvOpen \<and> same_slot i j \<longrightarrow> i = j)"
proof -
  note ok = workflow_okD [OF reachable_ok(1) [OF assms]]
  let ?I = "set (wh_invocations (ws_state t))" and ?R = "set (wh_results (ws_state t))"
  have uniq: "i = j" if "i \<in> ?I" "j \<in> ?I" "iv_id i = iv_id j" for i j
    using ok(3) key_eqD [OF _ that] by (simp add: invocations_ok_def)
  have runiq: "r = x" if "r \<in> ?R" "x \<in> ?R" "wr_invocation r = wr_invocation x" for r x
    using ok(4) key_eqD [OF _ that] by (simp add: results_ok_def)
  have answer: "\<exists>i \<in> ?I. iv_status i = InvRecorded \<and> invocation_identity i = result_identity r" if "r \<in> ?R" for r
    using ok(4) that unfolding results_ok_def by blast
  have answered: "\<exists>r \<in> ?R. result_identity r = invocation_identity i" if "i \<in> ?I" "iv_status i = InvRecorded" for i
    using ok(4) that unfolding results_ok_def by blast
  have "\<exists>!i. i \<in> ?I \<and> iv_id i = wr_invocation r \<and> iv_status i = InvRecorded \<and> invocation_identity i = result_identity r"
    if r: "r \<in> ?R" for r
  proof -
    from answer [OF r] obtain i where "i \<in> ?I" "iv_status i = InvRecorded" "invocation_identity i = result_identity r" by blast
    with uniq show ?thesis by (intro ex1I [of _ i]) auto
  qed
  moreover have "iv_status i = InvRecorded \<longleftrightarrow> (\<exists>!r. r \<in> ?R \<and> wr_invocation r = iv_id i)" if i: "i \<in> ?I" for i
  proof
    assume "iv_status i = InvRecorded"
    from answered [OF i this] obtain r where "r \<in> ?R" "wr_invocation r = iv_id i" by auto
    with runiq show "\<exists>!r. r \<in> ?R \<and> wr_invocation r = iv_id i" by (intro ex1I [of _ r]) auto
  next
    assume "\<exists>!r. r \<in> ?R \<and> wr_invocation r = iv_id i"
    then obtain r where r: "r \<in> ?R" "wr_invocation r = iv_id i" by blast
    from answer [OF r(1)] obtain j where "j \<in> ?I" "iv_status j = InvRecorded" "iv_id j = iv_id i" using r(2) by auto
    with uniq [of j i] i show "iv_status i = InvRecorded" by simp
  qed
  moreover have "\<forall>i \<in> ?I. \<forall>j \<in> ?I. iv_status i = InvOpen \<and> iv_status j = InvOpen \<and> same_slot i j \<longrightarrow> i = j"
    using ok(3) by (simp add: invocations_ok_def)
  ultimately show ?thesis by blast
qed

lemma results_answer_invocations_witness:
  "(\<exists>!i. i \<in> set (wh_invocations ex_wf8) \<and> iv_id i = ''winv_2'' \<and> iv_status i = InvRecorded \<and>
      invocation_identity i = result_identity (ex_row ''2'' 7 test_lost))"
proof -
  have r: "ex_row ''2'' 7 test_lost \<in> set (wh_results (ws_state (ex_wsys ex_wf8)))"
    by (simp add: ex_wsys_def ex_wf8_def ex_state_def)
  have "wr_invocation (ex_row ''2'' 7 test_lost) = ''winv_2''" "ws_state (ex_wsys ex_wf8) = ex_wf8"
    by (simp_all add: ex_row_def result_row_def ex_wsys_def)
  with bspec [OF conjunct1 [OF results_answer_invocations [OF ex_wf_init wf_run8]] r] show ?thesis by (simp only:)
qed

text \<open>
  C20: in every reachable state the generations of a work item are numbered without gap or
  repeat from 1 to the version its pointer names, and the pointer's flow is the newest one's.
\<close>

theorem generations_numbered:
  assumes "wf_init s" "(wf_step L ok)\<^sup>*\<^sup>* s t"
  shows "0 \<le> wp_version (pointer_of (ws_state t) wi) \<and>
    (\<forall>v. generation_of (ws_state t) wi v \<noteq> None \<longleftrightarrow> 1 \<le> v \<and> v \<le> wp_version (pointer_of (ws_state t) wi)) \<and>
    (0 < wp_version (pointer_of (ws_state t) wi) \<longrightarrow>
       wp_steps (pointer_of (ws_state t) wi) =
       map_option gn_flow (generation_of (ws_state t) wi (wp_version (pointer_of (ws_state t) wi))))"
proof -
  have ok: "generations_ok (ws_state t)" using workflow_okD(1) [OF reachable_ok(1) [OF assms]] .
  have gen: "generation_of (ws_state t) wi v \<noteq> None \<longleftrightarrow> 1 \<le> v \<and> v \<le> wp_version (pointer_of (ws_state t) wi)" for v
    using ok unfolding generations_ok_def by blast
  have "wp_steps (pointer_of (ws_state t) wi) =
      map_option gn_flow (generation_of (ws_state t) wi (wp_version (pointer_of (ws_state t) wi)))"
    if pos: "0 < wp_version (pointer_of (ws_state t) wi)"
  proof -
    from pos gen [of "wp_version (pointer_of (ws_state t) wi)"]
    have "generation_of (ws_state t) wi (wp_version (pointer_of (ws_state t) wi)) \<noteq> None" by simp
    then obtain g where g: "generation_of (ws_state t) wi (wp_version (pointer_of (ws_state t) wi)) = Some g" by blast
    with ok have "wp_steps (pointer_of (ws_state t) wi) = Some (gn_flow g)" unfolding generations_ok_def by blast
    with g show ?thesis by simp
  qed
  moreover have "0 \<le> wp_version (pointer_of (ws_state t) wi)" using ok unfolding generations_ok_def by blast
  ultimately show ?thesis using gen by blast
qed

lemma generations_numbered_witness:
  "generation_of ex_wf8 ''w1'' 1 \<noteq> None \<and> generation_of ex_wf8 ''w1'' 2 = None"
proof -
  have v: "wp_version (pointer_of ex_wf8 ''w1'') = 1" by (simp add: ex_wf8_def ex_state_def pointer_of_def)
  have "\<forall>n. generation_of ex_wf8 ''w1'' n \<noteq> None \<longleftrightarrow> 1 \<le> n \<and> n \<le> 1"
    using generations_numbered [OF ex_wf_init wf_run8, of "''w1''"] by (simp add: ex_wsys_def v)
  from spec [OF this, of 1] spec [OF this, of 2] show ?thesis by auto
qed

section \<open>Growth\<close>

text \<open>
  What stays: the columns of generations, results and approvals, the identity of invocations
  and authorizations, and the status of an invocation that is no longer open.
\<close>

definition invocation_filed :: "invocation \<Rightarrow> string \<times> string \<times> int \<times> string \<times> string \<times> string \<times> step_grant \<times> string option" where
  "invocation_filed i = (iv_id i, iv_wi i, iv_version i, iv_step i, iv_attempt i, iv_producer i, iv_grant i, iv_repair i)"

definition settles :: "invocation \<Rightarrow> invocation \<Rightarrow> bool" where
  "settles i j \<longleftrightarrow> invocation_filed j = invocation_filed i \<and> (iv_status i \<noteq> InvOpen \<longrightarrow> iv_status j = iv_status i)"

definition closes :: "repair_row \<Rightarrow> repair_row \<Rightarrow> bool" where
  "closes = (\<lambda>p q. q = p \<or> q = p\<lparr>rp_open := False\<rparr>)"

definition history_kept :: "workflow_hub \<Rightarrow> workflow_hub \<Rightarrow> bool" where
  "history_kept W W' \<longleftrightarrow>
     prefix (wh_generations W) (wh_generations W') \<and> prefix (wh_results W) (wh_results W') \<and>
     prefix (wh_approvals W) (wh_approvals W') \<and>
     (\<exists>js new. wh_invocations W' = js @ new \<and> list_all2 settles (wh_invocations W) js) \<and>
     (\<exists>qs new. wh_repairs W' = qs @ new \<and> list_all2 closes (wh_repairs W) qs)"

lemma settles_refl [simp]: "settles i i"
  by (simp add: settles_def)

lemma settles_trans: "settles i j \<Longrightarrow> settles j k \<Longrightarrow> settles i k"
  by (auto simp: settles_def)

lemma closes_refl [simp]: "closes p p"
  by (simp add: closes_def)

lemma closes_trans: "closes p q \<Longrightarrow> closes q r \<Longrightarrow> closes p r"
  by (auto simp: closes_def)

lemma log_trans:
  assumes "\<And>x y z. R x y \<Longrightarrow> R y z \<Longrightarrow> R x z"
    and "ys = xs' @ new" "list_all2 R xs xs'" "zs = ys' @ new'" "list_all2 R ys ys'"
  shows "\<exists>js new. zs = js @ new \<and> list_all2 R xs js"
proof -
  from assms(2,5) obtain a b where ab: "ys' = a @ b" "list_all2 R xs' a" by (auto simp: list_all2_append1)
  have "list_all2 R xs a" by (rule list_all2_trans [OF assms(1) assms(3) ab(2)])
  then show ?thesis by (intro exI [of _ a] exI [of _ "b @ new'"]) (simp add: ab(1) assms(4))
qed

lemma history_kept_trans:
  assumes "history_kept W W1" "history_kept W1 W2"
  shows "history_kept W W2"
proof -
  from assms(1) obtain js n qs m where 1: "wh_invocations W1 = js @ n" "list_all2 settles (wh_invocations W) js"
    "wh_repairs W1 = qs @ m" "list_all2 closes (wh_repairs W) qs" unfolding history_kept_def by blast
  from assms(2) obtain js' n' qs' m' where 2: "wh_invocations W2 = js' @ n'" "list_all2 settles (wh_invocations W1) js'"
    "wh_repairs W2 = qs' @ m'" "list_all2 closes (wh_repairs W1) qs'" unfolding history_kept_def by blast
  show ?thesis
    unfolding history_kept_def
  proof (intro conjI)
    show "\<exists>js new. wh_invocations W2 = js @ new \<and> list_all2 settles (wh_invocations W) js"
      by (rule log_trans [of settles, OF settles_trans 1(1,2) 2(1,2)])
    show "\<exists>qs new. wh_repairs W2 = qs @ new \<and> list_all2 closes (wh_repairs W) qs"
      by (rule log_trans [of closes, OF closes_trans 1(3,4) 2(3,4)])
  qed (use assms prefix_order.trans in \<open>unfold history_kept_def, blast+\<close>)
qed

lemma history_keptI:
  assumes "prefix (wh_generations W) (wh_generations W')" "prefix (wh_results W) (wh_results W')"
    "prefix (wh_approvals W) (wh_approvals W')"
    "wh_invocations W' = js @ new" "list_all2 settles (wh_invocations W) js"
    "wh_repairs W' = qs @ new'" "list_all2 closes (wh_repairs W) qs"
  shows "history_kept W W'"
  using assms unfolding history_kept_def by blast

lemma history_kept_refl: "history_kept W W"
  by (rule history_keptI [of _ _ "wh_invocations W" "[]" "wh_repairs W" "[]"]) (simp_all add: list_all2_refl)

lemma settles_update:
  "(\<And>i. i \<in> set invs \<Longrightarrow> P i \<Longrightarrow> iv_status i = InvOpen) \<Longrightarrow>
   list_all2 settles invs (update_where P (\<lambda>i. i\<lparr>iv_status := st\<rparr>) invs)"
  unfolding update_where_def list_all2_map2 by (rule list.rel_refl_strong) (auto simp: settles_def invocation_filed_def)

lemma closings_closes: "closings = list_all2 closes"
  unfolding closings_def closes_def by (rule refl)

lemma workflow_form_kept:
  assumes "workflow_form W W'" "workflow_ok W"
  shows "history_kept W W'"
proof -
  have none: "list_all2 settles (wh_invocations W) (wh_invocations W)" "list_all2 closes (wh_repairs W) (wh_repairs W)"
    by (simp_all add: list_all2_refl)
  from assms(1) show ?thesis
    unfolding workflow_form_def
  proof (elim disjE)
    assume "adds_generation W W'"
    then show ?thesis unfolding adds_generation_def
      by (elim exE conjE) (rule history_keptI [of _ _ "wh_invocations W" "[]" "wh_repairs W" "[]"]; simp add: none)
  next
    assume "adds_invocation W W'"
    then show ?thesis unfolding adds_invocation_def
      by (elim exE conjE) (rule history_keptI [of _ _ "wh_invocations W" _ "wh_repairs W" "[]"]; simp add: none)
  next
    assume "adds_result W W'"
    then obtain i r ps H where W': "W' = W\<lparr>wh_invocations := update_where (\<lambda>x. iv_id x = iv_id i)
        (\<lambda>x. x\<lparr>iv_status := InvRecorded\<rparr>) (wh_invocations W), wh_results := wh_results W @ [r], wh_repairs := ps, wh_hub := H\<rparr>"
      and i: "i \<in> set (wh_invocations W)" "iv_status i = InvOpen" and ps: "closings (wh_repairs W) ps"
      unfolding adds_result_def by (elim exE conjE) blast
    have same: "x = i" if "x \<in> set (wh_invocations W)" "iv_id x = iv_id i" for x
      using workflow_okD(3) [OF assms(2)] key_eqD [OF _ that(1) i(1) that(2)] by (simp add: invocations_ok_def)
    have "list_all2 settles (wh_invocations W) (wh_invocations W')"
      unfolding W' using same i(2) settles_update [of "wh_invocations W" "\<lambda>x. iv_id x = iv_id i" InvRecorded] by force
    then show ?thesis
      by (rule history_keptI [of _ _ "wh_invocations W'" "[]" "wh_repairs W'" "[]", rotated 4])
         (use ps in \<open>simp_all add: W' closings_closes\<close>)
  next
    assume "adds_approval W W'"
    then show ?thesis unfolding adds_approval_def
      by (elim exE conjE) (rule history_keptI [of _ _ "wh_invocations W" "[]" "wh_repairs W" "[]"]; simp add: none)
  next
    assume "adds_repair W W'"
    then show ?thesis unfolding adds_repair_def
      by (elim exE conjE) (rule history_keptI [of _ _ "wh_invocations W" "[]" "wh_repairs W"]; simp add: none)
  next
    assume "abandons W W'"
    then obtain wi named H where W': "W' = W\<lparr>wh_invocations := update_where (left_open wi named)
        (\<lambda>i. i\<lparr>iv_status := InvSuperseded\<rparr>) (wh_invocations W), wh_hub := H\<rparr>"
      unfolding abandons_def by blast
    have "list_all2 settles (wh_invocations W) (wh_invocations W')"
      unfolding W' by (simp, intro settles_update) (simp add: left_open_def)
    then show ?thesis
      by (rule history_keptI [of _ _ "wh_invocations W'" "[]" "wh_repairs W" "[]", rotated 4]) (simp_all add: W' none)
  next
    assume "edits_hub W W'"
    then show ?thesis unfolding edits_hub_def
      by (elim exE conjE) (rule history_keptI [of _ _ "wh_invocations W" "[]" "wh_repairs W" "[]"]; simp add: none)
  qed
qed

lemma wf_step_kept:
  assumes "wf_step L ok s t" "wf_inv s"
  shows "history_kept (ws_state s) (ws_state t)"
  using assms(1)
proof (cases rule: wf_step.cases)
  case (wf_hub_step u)
  then show ?thesis
    by (intro history_keptI [of _ _ "wh_invocations (ws_state s)" "[]" "wh_repairs (ws_state s)" "[]"]) (simp_all add: list_all2_refl)
next
  case (wf_workflow_step W)
  with workflow_form_kept [OF workflow_tx_form [OF wf_workflow_step(2)]] assms(2) show ?thesis by (simp add: wf_inv_def)
qed

lemma later_kept:
  assumes "wf_init s" "(wf_step L ok)\<^sup>*\<^sup>* s t" "(wf_step L ok)\<^sup>*\<^sup>* t u"
  shows "history_kept (ws_state t) (ws_state u)"
proof -
  have "wf_inv t" by (rule workflow_run.reachable_inv [OF assms(1,2)])
  then show ?thesis
    by (rule workflow_run.steps_relate [OF assms(3), where R = "\<lambda>x y. history_kept (ws_state x) (ws_state y)"])
       (blast intro: history_kept_refl history_kept_trans wf_step_kept)+
qed



section \<open>Decisions\<close>

lemma prefix_select: "prefix xs ys \<Longrightarrow> select_one P xs = Some x \<Longrightarrow> select_one P ys = Some x"
  by (auto simp: prefix_def select_one_snoc)

text \<open>
  C15: a human decision is final: once an artifact of a step carries one, it carries that one
  in every later state, and an approval or rejection of it that is accepted later is the same
  decision and changes nothing. Decisions are made by human users only.
\<close>

theorem decision_is_final:
  assumes "wf_init s" "(wf_step L ok)\<^sup>*\<^sup>* s t" "(wf_step L ok)\<^sup>*\<^sup>* t u"
    and "decision_on (ws_state t) wi v step artifact = Some a"
  shows "decision_on (ws_state u) wi v step artifact = Some a \<and>
    (\<forall>now newID ref actor display actorType req W b.
       ApproveWorkflowStep now newID ref actor display actorType req (ws_state u) = Inr (W, b) \<longrightarrow>
       actorType = ''human'' \<and>
       (approval_key b = (wi, v, step, artifact) \<longrightarrow>
          b = a \<and> W = ws_state u \<and> decision_of (aq_decision req) = Some (ap_decision a)))"
proof -
  have "prefix (wh_approvals (ws_state t)) (wh_approvals (ws_state u))"
    using later_kept [OF assms(1-3)] by (simp add: history_kept_def)
  with assms(4) have later: "decision_on (ws_state u) wi v step artifact = Some a"
    unfolding decision_on_def by (rule prefix_select [rotated])
  have "actorType = ''human'' \<and> (approval_key b = (wi, v, step, artifact) \<longrightarrow>
          b = a \<and> W = ws_state u \<and> decision_of (aq_decision req) = Some (ap_decision a))"
    if "ApproveWorkflowStep now newID ref actor display actorType req (ws_state u) = Inr (W, b)"
    for now newID ref actor display actorType req W b
    using that
  proof (cases rule: approve_Inr)
    case (1 x w r decision)
    from record_decision_Inr [OF 1(7)] later 1(1,2) show ?thesis by auto
  qed
  with later show ?thesis by blast
qed

lemma decision_is_final_witness:
  "decision_on ex_wf8 ''w1'' 1 ''look'' ex_ref = Some look_approved \<and>
   isl (ApproveWorkflowStep 9 ''wapp_2'' ''w1'' (Some ex_human) ''Hal'' ''human'' (ex_approval ''rejected'') ex_wf8)"
proof
  have "decision_on (ws_state (ex_wsys ex_wf5)) ''w1'' 1 ''look'' ex_ref = Some look_approved"
    by (simp add: ex_wsys_def ex_wf5_def ex_state_def decision_on_def select_one_def look_approved_def)
  from conjunct1 [OF decision_is_final [OF ex_wf_init wf_run5 wf_run5_8 this]]
  show "decision_on ex_wf8 ''w1'' 1 ''look'' ex_ref = Some look_approved" by (simp add: ex_wsys_def)
  show "isl (ApproveWorkflowStep 9 ''wapp_2'' ''w1'' (Some ex_human) ''Hal'' ''human'' (ex_approval ''rejected'') ex_wf8)"
    by code_simp
qed

section \<open>Recoveries\<close>

text \<open>
  C18: recoveries are bounded. In every reachable state a work item has at most eight open
  authorizations; each names a recorded failure of its kind (a provider error for a retry, a
  failed review for an episode), and none has a second one of its kind for the same failure.
  The walk up the lineage of any invocation ends, within its bound on the hops, after at most
  three retries.
\<close>

theorem recoveries_bounded:
  assumes "wf_init s" "(wf_step L ok)\<^sup>*\<^sup>* s t"
  shows "open_repairs (ws_state t) wi \<le> maxOpenRepairAuthorizations \<and>
    (\<forall>p \<in> set (wh_repairs (ws_state t)). \<exists>r \<in> set (wh_results (ws_state t)). failure_of r p) \<and>
    distinct (map (\<lambda>p. (rp_kind p, rp_attempt p)) (wh_repairs (ws_state t))) \<and>
    (\<forall>i \<in> set (wh_invocations (ws_state t)). \<exists>parent depth.
       resolveRetryLineage (ws_state t) (iv_wi i) (iv_attempt i) = Inr (parent, depth) \<and> depth \<le> maxRetryChainDepth)"
proof -
  note ok = reachable_ok(1) [OF assms]
  from workflow_okD(6) [OF ok] have "open_repairs (ws_state t) wi \<le> maxOpenRepairAuthorizations"
    unfolding repairs_ok_def open_repairs_def by blast
  with workflow_okD(6) [OF ok] lineage_of_invocation [OF ok] show ?thesis unfolding repairs_ok_def by blast
qed

lemma recoveries_bounded_witness: "open_repairs ex_wf8 ''w1'' \<le> 8 \<and> test_retry \<in> set (wh_repairs ex_wf8)"
proof -
  have "ws_state (ex_wsys ex_wf8) = ex_wf8" "test_retry \<in> set (wh_repairs ex_wf8)" by (simp_all add: ex_wsys_def ex_wf8_def ex_state_def)
  with recoveries_bounded [OF ex_wf_init wf_run8, of "''w1''"] show ?thesis by (simp add: maxOpenRepairAuthorizations_def)
qed

section \<open>The overlay of an episode\<close>

text \<open>The number of retries above a step attempt.\<close>

definition retry_rank :: "workflow_hub \<Rightarrow> string \<Rightarrow> nat" where
  "retry_rank W att =
     (case select_one (\<lambda>i. iv_attempt i = att) (wh_invocations W) of
        None \<Rightarrow> 0
      | Some i \<Rightarrow> (case resolveRetryLineage W (iv_wi i) att of Inl e \<Rightarrow> 0 | Inr (parent, depth) \<Rightarrow> depth))"

lemma retry_rank_known:
  assumes "workflow_ok W" "i \<in> set (wh_invocations W)" "resolveRetryLineage W (iv_wi i) (iv_attempt i) = Inr (parent, depth)"
  shows "retry_rank W (iv_attempt i) = depth"
proof -
  have "select_one (\<lambda>j. iv_attempt j = iv_attempt i) (wh_invocations W) = Some i"
    by (rule select_one_key) (use assms workflow_okD(3) [OF assms(1)] in \<open>auto simp: invocations_ok_def\<close>)
  with assms(3) show ?thesis by (simp add: retry_rank_def)
qed

lemma retry_rank_step:
  assumes "workflow_ok W" "i \<in> set (wh_invocations W)" "iv_repair i = Some (rp_id p)" "p \<in> set (wh_repairs W)"
    "rp_kind p = KindRetry"
  shows "retry_rank W (iv_attempt i) = Suc (retry_rank W (rp_attempt p))"
proof -
  note ok = workflow_okD [OF assms(1)]
  from ok(7) assms(2,3) obtain q where "q \<in> set (wh_repairs W)" "rp_id q = rp_id p" "rp_wi q = iv_wi i" "rp_id p \<noteq> []"
    unfolding bindings_ok_def by metis
  moreover from this ok(6) assms(4) key_eqD have "q = p" by (metis repairs_ok_def)
  ultimately have wi: "rp_wi p = iv_wi i" "rp_id p \<noteq> []" by simp_all
  have i: "invocation_of_attempt W (iv_wi i) (iv_attempt i) = Some i"
    unfolding invocation_of_attempt_def
    by (rule select_one_unique) (use assms(2) ok(3) key_eqD in \<open>auto simp: invocations_ok_def\<close>)
  have p: "repair_of W (iv_wi i) (rp_id p) = Some p"
    unfolding repair_of_def by (rule select_one_unique) (use assms(4) wi ok(6) key_eqD in \<open>auto simp: repairs_ok_def\<close>)
  from ok(8) assms(4,5) obtain x d where d: "lineage_walk W (rp_wi p) (maxRetryChainDepth + 2) (rp_attempt p) None 0 = Inr (x, d)"
    "d < maxRetryChainDepth" unfolding lineages_ok_def resolveRetryLineage_def by blast
  from d(2) have "d < 0 + Suc maxRetryChainDepth" by simp
  from lineage_walk_fuel [OF d(1) this, of "nearest_parent p None" "Suc 0"] obtain y where
    "lineage_walk W (iv_wi i) (Suc maxRetryChainDepth) (rp_attempt p) (nearest_parent p None) (Suc 0) = Inr (y, Suc d)"
    by (auto simp: wi)
  with i p assms(3,5) wi(2) have "resolveRetryLineage W (iv_wi i) (iv_attempt i) = Inr (y, Suc d)"
    by (simp add: resolveRetryLineage_def)
  then have "retry_rank W (iv_attempt i) = Suc d" by (rule retry_rank_known [OF assms(1,2)])
  moreover from ok(6) assms(4) obtain r where "r \<in> set (wh_results W)" "failure_of r p" unfolding repairs_ok_def by blast
  then obtain j where "j \<in> set (wh_invocations W)" "iv_attempt j = rp_attempt p" "iv_wi j = rp_wi p"
    using ok(4) unfolding results_ok_def failure_of_def by (metis prod.inject)
  with retry_rank_known [OF assms(1), of j] d(1) have "retry_rank W (rp_attempt p) = d" by (simp add: resolveRetryLineage_def)
  ultimately show ?thesis by simp
qed

lemma replacement_ranks:
  assumes "workflow_ok W" "(k, node) \<in> set (loadEpisodeRetryReplacements W episode)"
  shows "retry_rank W k < retry_rank W (ro_attempt node)"
proof -
  from assms(2) obtain p i where "p \<in> set (wh_repairs W)" "rp_parent p = Some episode" "rp_attempt p = k"
    "i \<in> set (bound_invocations W (rp_id p))" "node = role_row_of W i"
    unfolding loadEpisodeRetryReplacements_def retry_entries_def Let_def by auto
  moreover from this workflow_okD(6) [OF assms(1)] have "rp_kind p = KindRetry"
    unfolding repairs_ok_def failure_of_def by fastforce
  ultimately show ?thesis
    using retry_rank_step [OF assms(1), of i p] by (auto simp: bound_invocations_def role_row_of_def split: option.splits)
qed

text \<open>A row stands in for another when it is the live replacement of its step attempt.\<close>

definition stands_in :: "(string \<times> role_row) list \<Rightarrow> role_row \<Rightarrow> role_row \<Rightarrow> bool" where
  "stands_in replacements r e \<longleftrightarrow>
     (\<exists>node. map_of replacements (ro_attempt r) = Some node \<and> e = node\<lparr>ro_step := ro_step r\<rparr>)"

lemma chain_end_stands_in: "(stands_in reps)\<^sup>*\<^sup>* r (chain_end n reps r)"
proof (induction n arbitrary: r)
  case (Suc n)
  show ?case
  proof (cases "map_of reps (ro_attempt r)")
    case (Some node)
    then have "stands_in reps r (node\<lparr>ro_step := ro_step r\<rparr>)" by (simp add: stands_in_def)
    from converse_rtranclp_into_rtranclp [OF this Suc.IH] Some show ?thesis by simp
  qed simp
qed simp

lemma chain_end_final:
  assumes "\<And>k node. (k, node) \<in> set reps \<Longrightarrow> rank k < (rank (ro_attempt node) :: nat)"
  shows "card {k \<in> fst ` set reps. rank (ro_attempt r) \<le> rank k} \<le> n \<Longrightarrow> map_of reps (ro_attempt (chain_end n reps r)) = None"
proof (induction n arbitrary: r)
  case 0
  then have "ro_attempt r \<notin> fst ` set reps" by auto
  then show ?case by (simp add: map_of_eq_None_iff)
next
  case (Suc n)
  show ?case
  proof (cases "map_of reps (ro_attempt r)")
    case (Some node)
    let ?keys = "\<lambda>x. {k \<in> fst ` set reps. rank (ro_attempt x) \<le> rank k}"
    from Some have "(ro_attempt r, node) \<in> set reps" by (rule map_of_SomeD)
    with assms have less: "rank (ro_attempt r) < rank (ro_attempt node)" "ro_attempt r \<in> ?keys r" by force+
    then have "ro_attempt r \<notin> ?keys node" by simp
    moreover have "?keys node \<subseteq> ?keys r" using less(1) by auto
    ultimately have "?keys node \<subset> ?keys r" using less(2) by blast
    then have "card (?keys node) < card (?keys r)" by (rule psubset_card_mono [rotated]) simp
    with Suc.prems have "card (?keys (node\<lparr>ro_step := ro_step r\<rparr>)) \<le> n" by simp
    from Suc.IH [OF this] Some show ?thesis by simp
  qed simp
qed



end
