(* ===== verification/Spec2Isabelle.thy ===== *)
theory Spec2Isabelle
  imports Lock_Exclusion Lock_Key_Properties Lifecycle_Findings Authorization Json_Values Workflow_Progress
    Drain_Convergence Bracket_Refinement Workflow_History
begin

text \<open>
  A verification library for aihub, the hub at which agents claim work items, hold locks on
  files while they work, step through a workflow and hand over; for the contracts and the
  policy of its workflows; and for the scheduler that drains a queue of work items unattended.

  \<^bold>\<open>Parts and theories.\<close>
  \<^item> \<^verbatim>\<open>Prelude\<close>: tables as lists of rows (\<open>select_one\<close> is \<^verbatim>\<open>QueryRow\<close>,
    \<open>update_where\<close> an UPDATE), Go's string functions, step relations with an invariant
    (\<open>step_system\<close>, interpreted on the hub and on the passes of the scheduler).
  \<^item> \<^verbatim>\<open>Lock_Keys\<close>, \<^verbatim>\<open>Lock_Key_Properties\<close>: \<^verbatim>\<open>internal/domain/conflicts.go\<close> and
    \<^verbatim>\<open>declared_resources.go\<close>, how a declaration becomes a lock key and a conflict probe;
    the SQL probe, its Go mirror and the naming of the same file agree.
  \<^item> \<^verbatim>\<open>Hub_Tables\<close>: the rows of the database and the errors (\<^verbatim>\<open>errors.go\<close>).
  \<^item> \<^verbatim>\<open>Lock_Table\<close>: \<^verbatim>\<open>resource_events.go\<close>, the statements that change
    \<^verbatim>\<open>resource_locks\<close> and the events they leave; the interface \<open>lock_store\<close>, an
    exclusive map from keys to holders, interpreted on them.
  \<^item> \<^verbatim>\<open>Dependencies\<close>: \<^verbatim>\<open>dependencies.go\<close> and the unblocking of
    \<^verbatim>\<open>run_attempts.go\<close> and \<^verbatim>\<open>gc.go\<close>.
  \<^item> \<^verbatim>\<open>Attempts\<close>: claim, completion, forced takeover, mid-attempt locks, cancellation
    (\<^verbatim>\<open>run_attempts.go\<close>, \<^verbatim>\<open>work_items.go\<close>).
  \<^item> \<^verbatim>\<open>Hub_Api\<close>: the handlers of \<^verbatim>\<open>internal/server\<close> in front of them, and the step
    machine of \<^verbatim>\<open>routes_step.go\<close>.
  \<^item> \<^verbatim>\<open>Hub_Invariant\<close>, \<^verbatim>\<open>Hub_System\<close>: the structural invariant, each operation's
    preservation of it, and the hub as a transition system whose reachable states satisfy it.
  \<^item> \<^verbatim>\<open>Hub_Example\<close>: a small run, on which the properties are applied.
  \<^item> \<^verbatim>\<open>Fencing\<close>, \<^verbatim>\<open>Lock_Journal\<close>, \<^verbatim>\<open>Lock_Exclusion\<close>, \<^verbatim>\<open>Claim_Retry\<close>,
    \<^verbatim>\<open>Attempt_Status\<close>: what holds in every reachable state, about credentials, the event
    stream, files, repeated claims, and the statuses of items and attempts.
  \<^item> \<^verbatim>\<open>Attempt_Effects\<close>, \<^verbatim>\<open>Claim_Grant\<close>, \<^verbatim>\<open>Lifecycle\<close>,
    \<^verbatim>\<open>Step_History\<close>, \<^verbatim>\<open>Authorization\<close>: the exact effect of each operation, when a claim
    is granted, the step history as an append-only log, and who may do what.
  \<^item> \<^verbatim>\<open>Lifecycle_Findings\<close>: runs the code does not mean to allow.
  \<^item> \<^verbatim>\<open>Json_Canonical\<close>, \<^verbatim>\<open>Json_Values\<close>: \<^verbatim>\<open>internal/skillregistry/canonical.go\<close>, the
    canonical form of a document and the value it stands for (numbers as rationals).
  \<^item> \<^verbatim>\<open>Skill_Schema\<close>: \<^verbatim>\<open>schema.go\<close>, \<^verbatim>\<open>strict.go\<close> and
    \<^verbatim>\<open>contract.go\<close> of \<^verbatim>\<open>internal/skillregistry\<close>, compiling and checking schemas.
  \<^item> \<^verbatim>\<open>Workflow\<close>, \<^verbatim>\<open>Workflow_Policy\<close>: \<^verbatim>\<open>internal/workflow\<close>, the validation of a flow
    (\<^verbatim>\<open>contract.go\<close>, \<^verbatim>\<open>validate.go\<close>) and the decision on its results
    (\<^verbatim>\<open>policy.go\<close>); \<^verbatim>\<open>Workflow_Properties\<close>, \<^verbatim>\<open>Workflow_Decisions\<close>,
    \<^verbatim>\<open>Workflow_Progress\<close> hold what they guarantee.
  \<^item> \<^verbatim>\<open>Drain_Policy\<close>, \<^verbatim>\<open>Drain_Item\<close>, \<^verbatim>\<open>Drain_Run\<close>, \<^verbatim>\<open>Drain_Queue\<close>:
    \<^verbatim>\<open>internal/drain\<close> and the queries of \<^verbatim>\<open>internal/cli/drain.go\<close>: selection and
    convergence, one work item, rounds and the loop, the observation of the queue;
    \<^verbatim>\<open>Drain_Rounds\<close>, \<^verbatim>\<open>Drain_Properties\<close>, \<^verbatim>\<open>Drain_Convergence\<close> hold what a
    run guarantees.
  \<^item> \<^verbatim>\<open>Step_Bracket\<close>: \<^verbatim>\<open>internal/engine\<close> and \<^verbatim>\<open>internal/roles\<close>, the calls around a
    step, review markers and roles; \<^verbatim>\<open>Step_Calls\<close>: the tool \<^verbatim>\<open>pf_update_step\<close>, the local
    state files and the scheduler's own step call, down to the members of the request body;
    \<^verbatim>\<open>Bracket_Refinement\<close> connects both with the handler of \<^verbatim>\<open>Hub_Api\<close>.

  \<^bold>\<open>State and operations.\<close> A \<open>hub\<close> is the database: one list of rows per table. An operation is
  a function from a \<open>hub\<close> to an error or the new \<open>hub\<close>; an error is a rollback. SHA-256, the clock
  and freshly drawn ids are arguments. A transaction runs to its commit against one state. The
  claim, the completion, the acquisition of locks and the recording of pins are SERIALIZABLE in
  the code. Where the code decides on reads made before the writing transaction begins (forced
  takeover, creation of a dependency), reading and writing are separate transitions, and other
  transactions come in between. A drain run is a function of what the outside answers in each pass
  of its loop (\<open>round_env\<close>) and during each work item (\<open>item_env\<close>); the concurrent workers of a round
  are a sequence of events, each possible where it stands.

  \<^bold>\<open>What the lemmas show.\<close> Preservation lemmas per operation; the exact effect of each operation
  on the lock table; safety of the reachable states; exactness of checks against declarative
  readings of them; the canonical form as a decision of equality of JSON values; that a validated
  flow gates what it ships and that a decision to advance is earned; budgets, outcome and
  termination of a drain run; that both forms of a step bracket implement one abstract step
  machine; and theorems that exhibit a run the code does not mean to allow.

  \<^bold>\<open>Bounds.\<close> No fuel is used: recursive queries, batch loops and the fallback over channels have
  termination proofs, and the drain loop is a partial function whose value \<open>None\<close> is a run that
  does not return, with a theorem that says when it returns. The canonical form is proved for
  number literals of at most 999000 characters (\<open>short_literal\<close>), which keeps the exponent
  arithmetic of the code away from the ends of int64.

  \<^bold>\<open>Not modelled.\<close> Failures of the database and of the transport, which roll back; retries of
  serialization failures; event, completion and operation ids, and timestamps that no
  operation reads; the interleaving of statements inside one READ COMMITTED transaction; the
  order of rows where the database sorts by its own collation; error texts; the tokenising of
  JSON bytes and the float64 branches of the schema check; the regular expression engine, which
  is an argument; log lines, notifications, prompts, the snapshot file and the harness command
  lines of the scheduler; the persisted workflow run (\<^verbatim>\<open>workflow_run.go\<close>), memories and
  artifacts, listings and the ready queue, which are wide SQL statements over columns outside
  this core; the rest of the command line.
\<close>

end
